(* ===== verification/Nest_Prelude.thy ===== *)
theory Nest_Prelude
  imports Main "HOL-Library.Word"
begin

text \<open>
  Shared vocabulary of the development: the C integer types, the faults a C program can run
  into, the result type that carries them, a few stores, and the list facts about windows of a
  ring buffer that the pools, the descriptor rings and the command queues all use.

  A model function returns \<open>fault + 'a\<close>.  \<open>Inl\<close> stands for an execution that leaves the defined
  behaviour of the C source (a null dereference, an access outside an array, a division by zero,
  a failed \<^verbatim>\<open>assert\<close>, a wait loop the
  environment never ends, an object used at another type, the removal of an element from a queue
  it is not in, or the use of an object after its last reference was dropped); error codes the source returns
  are ordinary values inside \<open>Inr\<close>.
\<close>

section \<open>Machine integers\<close>

type_synonym u8 = "8 word"
type_synonym u16 = "16 word"
type_synonym u32 = "32 word"
type_synonym u64 = "64 word"

text \<open>Error numbers of the C library that the sources return negated.\<close>

definition ENOMEM :: int where
  "ENOMEM = 12"

definition EFAULT :: int where
  "EFAULT = 14"

definition PAGE_SIZE :: nat where
  "PAGE_SIZE = 4096"

section \<open>Faults and results\<close>

datatype fault = NullDeref | OutOfBounds | DivByZero | AssertFail | Hang | BadCast | BadList | UseAfterFree

type_synonym 'a res = "fault + 'a"

named_theorems res_simps \<open>unfolding of sequenced results\<close>
named_theorems ring_simps \<open>index arithmetic of ring buffers\<close>

definition rbind :: "'a res \<Rightarrow> ('a \<Rightarrow> 'b res) \<Rightarrow> 'b res" where
  "rbind m f = (case m of Inl e \<Rightarrow> Inl e | Inr x \<Rightarrow> f x)"

lemma rbind_simps [simp, res_simps]:
  "rbind (Inl e) f = Inl e"
  "rbind (Inr x) f = f x"
  by (simp_all add: rbind_def)

lemma rbind_Inr_iff [res_simps]:
  "rbind m f = Inr y \<longleftrightarrow> (\<exists>x. m = Inr x \<and> f x = Inr y)"
  by (cases m) auto

lemma rbind_InrE:
  assumes "rbind m f = Inr y"
  obtains x where "m = Inr x" and "f x = Inr y"
  using assms by (auto simp: rbind_Inr_iff)

lemma rbind_assoc: "rbind (rbind m f) g = rbind m (\<lambda>x. rbind (f x) g)"
  by (cases m) auto

lemma rbind_cong [fundef_cong]:
  assumes "m = m'" and "\<And>x. m' = Inr x \<Longrightarrow> f x = f' x"
  shows "rbind m f = rbind m' f'"
  using assms by (cases m') auto

text \<open>An \<^verbatim>\<open>assert\<close> of the source.\<close>

definition assert_c :: "bool \<Rightarrow> unit res" where
  "assert_c b = (if b then Inr () else Inl AssertFail)"

lemma assert_c_simps [simp]:
  "assert_c True = Inr ()"
  "assert_c False = Inl AssertFail"
  "assert_c b = Inr u \<longleftrightarrow> b"
  by (simp_all add: assert_c_def)

text \<open>Reading and writing an array element; the source does not check its indices.\<close>

definition arr_get :: "'a list \<Rightarrow> nat \<Rightarrow> 'a res" where
  "arr_get xs i = (if i < length xs then Inr (xs ! i) else Inl OutOfBounds)"

definition arr_set :: "'a list \<Rightarrow> nat \<Rightarrow> 'a \<Rightarrow> 'a list res" where
  "arr_set xs i v = (if i < length xs then Inr (xs[i := v]) else Inl OutOfBounds)"

lemma arr_get_in [simp]: "i < length xs \<Longrightarrow> arr_get xs i = Inr (xs ! i)"
  by (simp add: arr_get_def)

lemma arr_set_in [simp]: "i < length xs \<Longrightarrow> arr_set xs i v = Inr (xs[i := v])"
  by (simp add: arr_set_def)

lemma arr_get_InrD: "arr_get xs i = Inr x \<Longrightarrow> i < length xs \<and> x = xs ! i"
  by (auto simp: arr_get_def split: if_splits)

lemma arr_set_InrD: "arr_set xs i v = Inr ys \<Longrightarrow> i < length xs \<and> ys = xs[i := v]"
  by (auto simp: arr_set_def split: if_splits)

text \<open>Following a pointer into a store.\<close>

definition deref :: "('p \<Rightarrow> 'a option) \<Rightarrow> 'p option \<Rightarrow> 'a res" where
  "deref st p = (case p of None \<Rightarrow> Inl NullDeref
     | Some q \<Rightarrow> (case st q of None \<Rightarrow> Inl NullDeref | Some x \<Rightarrow> Inr x))"

lemma deref_simps [simp]:
  "deref st None = Inl NullDeref"
  "st q = Some x \<Longrightarrow> deref st (Some q) = Inr x"
  by (simp_all add: deref_def)

lemma deref_InrD: "deref st p = Inr x \<Longrightarrow> \<exists>q. p = Some q \<and> st q = Some x"
  by (auto simp: deref_def split: option.splits)

text \<open>The queues of \<^verbatim>\<open>sys/queue.h\<close> as lists: removing an element that is not linked corrupts memory.\<close>

definition tq_remove :: "'a \<Rightarrow> 'a list \<Rightarrow> 'a list res" where
  "tq_remove x xs = (if x \<in> set xs then Inr (remove1 x xs) else Inl BadList)"

lemma tq_remove_in [simp]: "x \<in> set xs \<Longrightarrow> tq_remove x xs = Inr (remove1 x xs)"
  by (simp add: tq_remove_def)

lemma tq_remove_InrD: "tq_remove x xs = Inr ys \<Longrightarrow> x \<in> set xs \<and> ys = remove1 x xs"
  by (auto simp: tq_remove_def split: if_splits)

text \<open>Running a step for each element of a list of indices, threading the state.\<close>

fun for_each :: "('a \<Rightarrow> 's \<Rightarrow> 's res) \<Rightarrow> 'a list \<Rightarrow> 's \<Rightarrow> 's res" where
  "for_each f [] s = Inr s"
| "for_each f (x # xs) s = rbind (f x s) (\<lambda>s'. for_each f xs s')"

lemma for_each_append: "for_each f (xs @ ys) s = rbind (for_each f xs s) (for_each f ys)"
proof (induction xs arbitrary: s)
  case (Cons x xs)
  then show ?case by (cases "f x s") auto
qed simp

lemma for_each_invariant:
  assumes "for_each f xs s = Inr s'" and "P s"
    and "\<And>x s s'. x \<in> set xs \<Longrightarrow> P s \<Longrightarrow> f x s = Inr s' \<Longrightarrow> P s'"
  shows "P s'"
  using assms by (induction xs arbitrary: s) (auto simp: rbind_Inr_iff)

section \<open>Windows of a ring buffer\<close>

text \<open>
  The \<open>n\<close> consecutive entries of the ring \<open>xs\<close> that start at index \<open>h\<close>, wrapping at the end.
\<close>

definition ring_window :: "'a list \<Rightarrow> nat \<Rightarrow> nat \<Rightarrow> 'a list" where
  "ring_window xs h n = map (\<lambda>k. xs ! ((h + k) mod length xs)) [0..<n]"

lemma length_ring_window [simp]: "length (ring_window xs h n) = n"
  by (simp add: ring_window_def)

lemma ring_window_0 [simp]: "ring_window xs h 0 = []"
  by (simp add: ring_window_def)

lemma ring_window_nth [simp]:
  "k < n \<Longrightarrow> ring_window xs h n ! k = xs ! ((h + k) mod length xs)"
  by (simp add: ring_window_def)

lemma ring_window_Suc:
  "h < length xs \<Longrightarrow>
   ring_window xs h (Suc n) = xs ! h # ring_window xs (Suc h mod length xs) n"
  by (rule nth_equalityI) (auto simp: nth_Cons mod_simps split: nat.splits)

lemma ring_window_snoc:
  "ring_window xs h (Suc n) = ring_window xs h n @ [xs ! ((h + n) mod length xs)]"
  by (simp add: ring_window_def)

lemma mod_add_neq:
  fixes h j k n :: nat
  assumes "j < n" "k < n" "j \<noteq> k"
  shows "(h + j) mod n \<noteq> (h + k) mod n"
proof -
  have "(h + a) mod n \<noteq> (h + b) mod n" if "a < b" "b < n" for a b
  proof
    assume "(h + a) mod n = (h + b) mod n"
    with that have "n dvd (h + b) - (h + a)"
      by (metis add_le_cancel_left less_imp_le mod_eq_dvd_iff_nat)
    with that show False by (auto dest: dvd_imp_le)
  qed
  with assms show ?thesis by (metis nat_neq_iff)
qed

lemma ring_window_update_outside:
  assumes "n \<le> i" and "i < length xs"
  shows "ring_window (xs[(h + i) mod length xs := v]) h n = ring_window xs h n"
  using assms by (intro nth_equalityI) (auto simp: nth_list_update mod_add_neq)

lemma ring_window_update_end:
  assumes "n < length xs"
  shows "ring_window (xs[(h + n) mod length xs := v]) h (Suc n) = ring_window xs h n @ [v]"
  using assms by (cases "xs = []")
    (auto simp: ring_window_snoc ring_window_update_outside)

lemma set_ring_window:
  "xs \<noteq> [] \<Longrightarrow> set (ring_window xs h n) \<subseteq> set xs"
  by (auto simp: ring_window_def)

lemma distinct_ring_window:
  assumes "distinct xs" and "n \<le> length xs"
  shows "distinct (ring_window xs h n)"
proof (cases "xs = []")
  case False
  then have "\<forall>j < n. \<forall>k < n. j \<noteq> k \<longrightarrow>
      xs ! ((h + j) mod length xs) \<noteq> xs ! ((h + k) mod length xs)"
    using assms mod_add_neq [of _ "length xs" _ h]
    by (simp add: nth_eq_iff_index_eq)
  then show ?thesis by (simp add: distinct_conv_nth)
qed (use assms in simp)

end
