(* ===== verification/Simple_Pool.thy ===== *)
theory Simple_Pool
  imports Nest_Prelude "HOL-Library.Multiset"
begin

text \<open>
  The single-threaded object pool of \<^verbatim>\<open>include/spdk/env.h\<close> (\<^verbatim>\<open>struct spdk_simple_pool\<close> and its four
  inline operations), which every DMA channel uses for its request objects.  The pool is a ring
  of pointers with 16-bit head and tail indices; a pool for \<open>n\<close> objects has a ring of \<open>n + 1\<close>
  entries, one of which stays unused.  The theory shows that the ring refines a FIFO list of free
  objects (locale \<open>fifo_pool\<close> and its interpretation), what a reset restores, and what the missing
  full check and the 16-bit arithmetic do at their limits.

  Pointers are 64-bit words and 0 is \<^verbatim>\<open>NULL\<close>; the results of the allocator calls are arguments of
  the operations that make them.
\<close>

section \<open>State and operations\<close>

record simple_pool =
  io_ring :: "u64 list"
  io_arr :: u64
  io_tail :: u16
  io_head :: u16
  io_ring_size :: u16
  elem_size :: u16
  cur_cap :: u16

definition ring_succ :: "u16 \<Rightarrow> u16 \<Rightarrow> u16 res" where
  "ring_succ i n = (if n = 0 then Inl DivByZero
     else Inr (of_nat ((unat i + 1) mod unat n)))"

definition spdk_simple_pool_get :: "simple_pool \<Rightarrow> (u64 option \<times> simple_pool) res" where
  "spdk_simple_pool_get pool =
     (if io_tail pool = io_head pool then Inr (None, pool)
      else let old_head = io_head pool in
        rbind (ring_succ old_head (io_ring_size pool)) (\<lambda>h.
        rbind (arr_get (io_ring pool) (unat old_head)) (\<lambda>x.
        Inr (Some x, pool\<lparr>io_head := h\<rparr>))))"

definition spdk_simple_pool_put :: "simple_pool \<Rightarrow> u64 \<Rightarrow> simple_pool res" where
  "spdk_simple_pool_put pool io =
     rbind (arr_set (io_ring pool) (unat (io_tail pool)) io) (\<lambda>r.
     rbind (ring_succ (io_tail pool) (io_ring_size pool)) (\<lambda>t.
     Inr (pool\<lparr>io_ring := r, io_tail := t\<rparr>)))"

text \<open>The pointers to the first \<open>n\<close> elements of the backing array.\<close>

definition pool_elems :: "u64 \<Rightarrow> u64 \<Rightarrow> nat \<Rightarrow> u64 list" where
  "pool_elems arr esz n = map (\<lambda>i. arr + esz * of_nat i) [0..<n]"

definition spdk_simple_pool_init ::
    "simple_pool \<Rightarrow> u16 \<Rightarrow> u64 \<Rightarrow> u64 \<Rightarrow> u64 \<Rightarrow> int \<times> simple_pool" where
  "spdk_simple_pool_init pool cnt0 esz arr_ptr ring_ptr =
     (let cnt = cnt0 + 1; pool = pool\<lparr>io_arr := arr_ptr\<rparr> in
      if arr_ptr = 0 then (- ENOMEM, pool)
      else if ring_ptr = 0 then (- ENOMEM, pool\<lparr>io_ring := []\<rparr>)
      else (0, pool\<lparr>io_ring := pool_elems arr_ptr esz (unat cnt),
                    io_head := 0, io_tail := cnt - 1, io_ring_size := cnt,
                    elem_size := ucast esz\<rparr>))"

text \<open>The variant for DMA memory differs only in the allocator of the backing array.\<close>

definition spdk_simple_pool_init_with_dma ::
    "simple_pool \<Rightarrow> u16 \<Rightarrow> u64 \<Rightarrow> (u64 \<Rightarrow> u64 \<Rightarrow> u64) \<Rightarrow> u64 \<Rightarrow> int \<times> simple_pool" where
  "spdk_simple_pool_init_with_dma pool cnt0 esz dma_malloc ring_ptr =
     (let cnt = cnt0 + 1; arr_ptr = dma_malloc (esz * ucast cnt) esz;
          pool = pool\<lparr>io_arr := arr_ptr\<rparr> in
      if arr_ptr = 0 then (- ENOMEM, pool)
      else if ring_ptr = 0 then (- ENOMEM, pool\<lparr>io_ring := []\<rparr>)
      else (0, pool\<lparr>io_ring := pool_elems arr_ptr esz (unat cnt),
                    io_head := 0, io_tail := cnt - 1, io_ring_size := cnt,
                    elem_size := ucast esz\<rparr>))"

definition spdk_simple_pool_reset :: "simple_pool \<Rightarrow> (int \<times> simple_pool) res" where
  "spdk_simple_pool_reset pool =
     (let n = unat (io_ring_size pool) in
      if length (io_ring pool) < n then Inl OutOfBounds
      else Inr (0, pool\<lparr>io_ring := pool_elems (io_arr pool) (ucast (elem_size pool)) n
                            @ drop n (io_ring pool),
                        io_head := 0, io_tail := io_ring_size pool - 1\<rparr>))"

section \<open>Invariant and abstraction\<close>

definition pool_inv :: "simple_pool \<Rightarrow> bool" where
  "pool_inv p \<longleftrightarrow> io_ring_size p \<noteq> 0 \<and> length (io_ring p) = unat (io_ring_size p)
     \<and> unat (io_head p) < unat (io_ring_size p) \<and> unat (io_tail p) < unat (io_ring_size p)"

definition pool_avail :: "simple_pool \<Rightarrow> nat" where
  "pool_avail p = (unat (io_tail p) + unat (io_ring_size p) - unat (io_head p))
     mod unat (io_ring_size p)"

definition pool_free :: "simple_pool \<Rightarrow> u64 list" where
  "pool_free p = ring_window (io_ring p) (unat (io_head p)) (pool_avail p)"

definition pool_cap :: "simple_pool \<Rightarrow> nat" where
  "pool_cap p = unat (io_ring_size p) - 1"

text \<open>A zeroed pool structure and a pool for two 64-byte objects, for concrete runs.\<close>

definition pool_zero :: simple_pool where
  "pool_zero = \<lparr>io_ring = [], io_arr = 0, io_tail = 0, io_head = 0, io_ring_size = 0,
     elem_size = 0, cur_cap = 0\<rparr>"

definition pool_two :: simple_pool where
  "pool_two = snd (spdk_simple_pool_init pool_zero 2 64 4096 8192)"

text \<open>
  A client of the pool: it takes objects and gives back objects it holds, and nothing else.  The
  second component is the bag of objects it holds.
\<close>

inductive pool_use :: "simple_pool \<Rightarrow> simple_pool \<times> u64 multiset \<Rightarrow> bool" for p0 where
  start: "pool_use p0 (p0, {#})"
| take: "pool_use p0 (p, held) \<Longrightarrow> spdk_simple_pool_get p = Inr (Some x, p') \<Longrightarrow>
         pool_use p0 (p', add_mset x held)"
| give: "pool_use p0 (p, held) \<Longrightarrow> x \<in># held \<Longrightarrow> spdk_simple_pool_put p x = Inr p' \<Longrightarrow>
         pool_use p0 (p', held - {#x#})"

section \<open>The contract of a bounded FIFO pool\<close>

locale fifo_pool =
  fixes get :: "'p \<Rightarrow> ('a option \<times> 'p) res"
    and put :: "'p \<Rightarrow> 'a \<Rightarrow> 'p res"
    and free :: "'p \<Rightarrow> 'a list"
    and cap :: "'p \<Rightarrow> nat"
    and invar :: "'p \<Rightarrow> bool"
  assumes get_nil: "invar p \<Longrightarrow> free p = [] \<Longrightarrow> get p = Inr (None, p)"
    and get_cons: "invar p \<Longrightarrow> free p = x # xs \<Longrightarrow>
        \<exists>p'. get p = Inr (Some x, p') \<and> invar p' \<and> free p' = xs \<and> cap p' = cap p"
    and put_room: "invar p \<Longrightarrow> length (free p) < cap p \<Longrightarrow>
        \<exists>p'. put p x = Inr p' \<and> invar p' \<and> free p' = free p @ [x] \<and> cap p' = cap p"
    and free_le_cap: "invar p \<Longrightarrow> length (free p) \<le> cap p"
begin

lemma get_total: "invar p \<Longrightarrow> \<exists>r p'. get p = Inr (r, p') \<and> invar p' \<and> cap p' = cap p"
  using get_nil get_cons by (cases "free p") fastforce+

lemma get_Some_iff:
  assumes "invar p" and "get p = Inr (Some x, p')"
  shows "free p = x # free p' \<and> invar p' \<and> cap p' = cap p"
proof (cases "free p")
  case Nil
  with assms get_nil show ?thesis by fastforce
next
  case (Cons y ys)
  with assms get_cons [OF assms(1) Cons] show ?thesis by auto
qed

lemma get_then_put:
  assumes "invar p" and "get p = Inr (Some x, p')"
  shows "\<exists>p''. put p' y = Inr p'' \<and> invar p'' \<and> free p'' = tl (free p) @ [y] \<and> cap p'' = cap p"
proof -
  from get_Some_iff [OF assms] have f: "free p = x # free p'" "invar p'" "cap p' = cap p"
    by auto
  with free_le_cap [OF assms(1)] have "length (free p') < cap p'" by simp
  from put_room [OF f(2) this, of y] f show ?thesis by auto
qed

lemma put_conserves:
  assumes "invar p" and "length (free p) < cap p" and "put p x = Inr p'"
  shows "invar p' \<and> cap p' = cap p \<and> mset (free p') = add_mset x (mset (free p))"
  using put_room [OF assms(1,2), of x] assms(3) by auto

end

section \<open>The ring refines the contract\<close>

lemma unat_of_nat_mod_ring:
  assumes "n \<noteq> (0 :: u16)"
  shows "unat (of_nat (k mod unat n) :: u16) = k mod unat n"
proof -
  have "k mod unat n < unat n"
    using assms by (simp add: unat_gt_0)
  moreover have "unat n < 2 ^ LENGTH(16)" by (rule unsigned_less)
  ultimately show ?thesis
    by (simp add: unsigned_of_nat take_bit_nat_eq_self)
qed

lemma ring_succ_ok:
  "n \<noteq> 0 \<Longrightarrow> \<exists>j. ring_succ i n = Inr j \<and> unat j = Suc (unat i) mod unat n"
  by (simp add: ring_succ_def unat_of_nat_mod_ring)

lemma mod_dist_cases:
  fixes h t n :: nat
  assumes "h < n" "t < n"
  shows "(t + n - h) mod n = (if h \<le> t then t - h else t + n - h)"
  using assms by (auto simp: mod_if)

lemma dist_tail_succ:
  fixes h t n :: nat
  assumes "h < n" "t < n" "Suc ((t + n - h) mod n) < n"
  shows "(Suc t mod n + n - h) mod n = Suc ((t + n - h) mod n)"
proof (cases "Suc t < n")
  case True
  have d: "(t + n - h) mod n = (if h \<le> t then t - h else t + n - h)"
    using assms(1,2) by (rule mod_dist_cases)
  have "(Suc t mod n + n - h) mod n = (if h \<le> Suc t then Suc t - h else Suc t + n - h)"
    unfolding mod_less [OF True] by (rule mod_dist_cases [OF assms(1) True])
  also have "\<dots> = Suc ((t + n - h) mod n)"
    using assms unfolding d by (cases "h \<le> t") auto
  finally show ?thesis .
next
  case False
  with assms have "Suc t = n" by simp
  with assms show ?thesis by (auto simp: mod_dist_cases)
qed

lemma dist_head_succ:
  fixes h t n :: nat
  assumes "h < n" "t < n" "t \<noteq> h"
  shows "Suc ((t + n - Suc h mod n) mod n) = (t + n - h) mod n"
proof (cases "Suc h < n")
  case True
  with assms show ?thesis by (auto simp: mod_dist_cases)
next
  case False
  with assms have "Suc h = n" by simp
  with assms show ?thesis by (auto simp: mod_dist_cases)
qed

lemma pool_avail_0: "pool_inv p \<Longrightarrow> pool_avail p = 0 \<longleftrightarrow> io_tail p = io_head p"
  by (auto simp: pool_avail_def pool_inv_def mod_dist_cases unsigned_word_eqI)

lemma pool_tail_window:
  assumes "pool_inv p"
  shows "unat (io_tail p) = (unat (io_head p) + pool_avail p) mod length (io_ring p)"
  using assms by (auto simp: pool_avail_def pool_inv_def mod_dist_cases)

lemma pool_avail_le: "pool_inv p \<Longrightarrow> pool_avail p \<le> pool_cap p"
proof -
  assume "pool_inv p"
  then have "pool_avail p < unat (io_ring_size p)"
    by (simp add: pool_avail_def pool_inv_def unat_gt_0)
  then show ?thesis by (simp add: pool_cap_def)
qed

lemma pool_get_cons:
  assumes inv: "pool_inv p" and free: "pool_free p = x # xs"
  shows "\<exists>p'. spdk_simple_pool_get p = Inr (Some x, p') \<and> pool_inv p' \<and> pool_free p' = xs
      \<and> pool_cap p' = pool_cap p"
proof -
  let ?h = "unat (io_head p)" and ?n = "unat (io_ring_size p)"
  from inv have n0: "io_ring_size p \<noteq> 0" and len: "length (io_ring p) = ?n" and hn: "?h < ?n"
    and tn: "unat (io_tail p) < ?n" by (auto simp: pool_inv_def)
  obtain j where j: "ring_succ (io_head p) (io_ring_size p) = Inr j" "unat j = Suc ?h mod ?n"
    using ring_succ_ok [OF n0] by blast
  have "pool_avail p \<noteq> 0"
  proof
    assume "pool_avail p = 0"
    with free show False by (simp add: pool_free_def)
  qed
  then obtain m where m: "pool_avail p = Suc m" by (cases "pool_avail p") auto
  then have ne: "io_tail p \<noteq> io_head p" using pool_avail_0 [OF inv] by simp
  have m': "pool_avail (p\<lparr>io_head := j\<rparr>) = m"
    using m dist_head_succ [OF hn tn] ne j(2)
    by (auto simp: pool_avail_def dest: unsigned_word_eqI)
  have "x # xs = io_ring p ! ?h # ring_window (io_ring p) (Suc ?h mod ?n) m"
    using free hn len m by (simp add: pool_free_def ring_window_Suc)
  moreover have "pool_inv (p\<lparr>io_head := j\<rparr>)"
    using inv j hn by (simp add: pool_inv_def)
  ultimately show ?thesis
    using ne j hn len m'
    by (simp add: spdk_simple_pool_get_def Let_def pool_free_def pool_cap_def)
qed

lemma pool_put_room:
  assumes inv: "pool_inv p" and room: "length (pool_free p) < pool_cap p"
  shows "\<exists>p'. spdk_simple_pool_put p x = Inr p' \<and> pool_inv p' \<and> pool_free p' = pool_free p @ [x]
      \<and> pool_cap p' = pool_cap p"
proof -
  let ?h = "unat (io_head p)" and ?n = "unat (io_ring_size p)" and ?t = "unat (io_tail p)"
  from inv have n0: "io_ring_size p \<noteq> 0" and len: "length (io_ring p) = ?n" and hn: "?h < ?n"
    and tn: "?t < ?n" by (auto simp: pool_inv_def)
  obtain j where j: "ring_succ (io_tail p) (io_ring_size p) = Inr j" "unat j = Suc ?t mod ?n"
    using ring_succ_ok [OF n0] by blast
  let ?p' = "p\<lparr>io_ring := (io_ring p)[?t := x], io_tail := j\<rparr>"
  from room have k: "Suc (pool_avail p) < ?n" by (simp add: pool_free_def pool_cap_def)
  have av: "pool_avail ?p' = Suc (pool_avail p)"
    using k dist_tail_succ [OF hn tn] j(2) by (simp add: pool_avail_def)
  have tw: "?t = (?h + pool_avail p) mod length (io_ring p)" by (rule pool_tail_window [OF inv])
  from k len have "pool_avail p < length (io_ring p)" by simp
  from ring_window_update_end [OF this, of ?h x]
  have "pool_free ?p' = pool_free p @ [x]"
    unfolding pool_free_def av by (simp add: tw [symmetric])
  moreover have "pool_inv ?p'" using inv j tn by (simp add: pool_inv_def)
  ultimately show ?thesis
    using j tn len by (simp add: spdk_simple_pool_put_def pool_cap_def)
qed

interpretation spool: fifo_pool spdk_simple_pool_get spdk_simple_pool_put pool_free pool_cap pool_inv
proof unfold_locales
  fix p assume "pool_inv p" "pool_free p = []"
  then have "io_tail p = io_head p"
    by (simp add: pool_free_def ring_window_def pool_avail_0)
  then show "spdk_simple_pool_get p = Inr (None, p)"
    by (simp add: spdk_simple_pool_get_def)
next
  fix p x xs assume "pool_inv p" "pool_free p = x # xs"
  then show "\<exists>p'. spdk_simple_pool_get p = Inr (Some x, p') \<and> pool_inv p' \<and> pool_free p' = xs
      \<and> pool_cap p' = pool_cap p" by (rule pool_get_cons)
next
  fix p x assume "pool_inv p" "length (pool_free p) < pool_cap p"
  then show "\<exists>p'. spdk_simple_pool_put p x = Inr p' \<and> pool_inv p' \<and> pool_free p' = pool_free p @ [x]
      \<and> pool_cap p' = pool_cap p" by (rule pool_put_room)
next
  fix p assume "pool_inv p"
  then show "length (pool_free p) \<le> pool_cap p"
    by (simp add: pool_free_def pool_avail_le)
qed

section \<open>Initialisation, reset and use\<close>

lemma length_pool_elems [simp]: "length (pool_elems arr esz n) = n"
  by (simp add: pool_elems_def)

lemma ring_window_from_0: "n \<le> length xs \<Longrightarrow> ring_window xs 0 n = take n xs"
  by (rule nth_equalityI) auto

lemma take_pool_elems [simp]: "k \<le> n \<Longrightarrow> take k (pool_elems arr esz n) = pool_elems arr esz k"
  by (simp add: pool_elems_def take_map)

lemma unat_cnt_plus_1: "unat (cnt :: u16) < 65535 \<Longrightarrow> unat (cnt + 1) = Suc (unat cnt)"
  by (simp add: unat_word_ariths)

lemma pool_full_ring:
  assumes "io_ring p = pool_elems arr esz (Suc n)" and "io_head p = 0"
    and "unat (io_tail p) = n" and "unat (io_ring_size p) = Suc n"
  shows "pool_inv p \<and> pool_free p = pool_elems arr esz n \<and> pool_cap p = n"
proof -
  from assms(4) have "io_ring_size p \<noteq> 0" by (metis nat.simps(3) unsigned_0)
  moreover have "pool_avail p = n"
    using assms mod_dist_cases [of 0 "Suc n" n] by (simp add: pool_avail_def)
  ultimately show ?thesis
    using assms by (simp add: pool_inv_def pool_free_def pool_cap_def ring_window_from_0)
qed

lemma spdk_simple_pool_init_full:
  assumes "unat cnt < 65535" and "arr \<noteq> 0" and "ring \<noteq> 0"
    and "spdk_simple_pool_init p0 cnt esz arr ring = (rc, p)"
  shows "rc = 0 \<and> pool_inv p \<and> pool_free p = pool_elems arr esz (unat cnt)
      \<and> pool_cap p = unat cnt"
proof -
  from assms(4,2,3) have "rc = 0"
    and "io_ring p = pool_elems arr esz (Suc (unat cnt))" and "io_head p = 0"
    and "unat (io_tail p) = unat cnt" and "unat (io_ring_size p) = Suc (unat cnt)"
    using unat_cnt_plus_1 [OF assms(1)]
    by (auto simp: spdk_simple_pool_init_def Let_def)
  then show ?thesis using pool_full_ring by blast
qed

lemma distinct_pool_elems:
  assumes "esz \<noteq> 0" and "unat esz * n \<le> 2 ^ 64"
  shows "distinct (pool_elems arr esz n)"
proof -
  have inj: "i = j" if "arr + esz * of_nat i = arr + esz * of_nat j" "i < n" "j < n" for i j
  proof -
    have bound: "unat esz * k < 2 ^ 64" if "k < n" for k
      using assms that by (metis less_le_trans mult_less_mono2 unat_gt_0)
    have val: "unat (esz * of_nat k :: u64) = unat esz * k" if "k < n" for k
    proof -
      have "esz * of_nat k = (of_nat (unat esz * k) :: u64)" by simp
      with bound [OF that] show ?thesis
        by (simp add: unsigned_of_nat take_bit_nat_eq_self del: of_nat_mult)
    qed
    from that(1) have "esz * of_nat i = esz * (of_nat j :: u64)" by simp
    with val that(2,3) have "unat esz * i = unat esz * j" by metis
    with assms(1) show ?thesis by (simp add: unat_eq_0)
  qed
  show ?thesis
    unfolding pool_elems_def distinct_map using inj by (auto intro: inj_onI)
qed

text \<open>Frame facts: no operation moves the backing array or changes the geometry.\<close>

lemma pool_get_frame:
  "spdk_simple_pool_get p = Inr (r, p') \<Longrightarrow> \<exists>h. p' = p\<lparr>io_head := h\<rparr>"
  by (auto simp: spdk_simple_pool_get_def Let_def rbind_Inr_iff split: if_splits
      intro: exI [of _ "io_head p"])

lemma pool_put_frame:
  "spdk_simple_pool_put p x = Inr p' \<Longrightarrow> \<exists>r t. p' = p\<lparr>io_ring := r, io_tail := t\<rparr>"
  by (auto simp: spdk_simple_pool_put_def rbind_Inr_iff)

lemma pool_use_frame:
  assumes "pool_use p0 (p, held)"
  shows "\<exists>r h t. p = p0\<lparr>io_ring := r, io_head := h, io_tail := t\<rparr>"
  using assms
proof (induction "(p, held)" arbitrary: p held rule: pool_use.induct)
  case start
  have "p0 = p0\<lparr>io_ring := io_ring p0, io_head := io_head p0, io_tail := io_tail p0\<rparr>" by simp
  then show ?case by blast
next
  case (take p held x p')
  from take.hyps(2) obtain r h t where p: "p = p0\<lparr>io_ring := r, io_head := h, io_tail := t\<rparr>"
    by blast
  from pool_get_frame [OF take.hyps(3)] obtain h' where "p' = p\<lparr>io_head := h'\<rparr>" by blast
  then have "p' = p0\<lparr>io_ring := r, io_head := h', io_tail := t\<rparr>" by (simp add: p)
  then show ?case by blast
next
  case (give p held x p')
  from give.hyps(2) obtain r h t where p: "p = p0\<lparr>io_ring := r, io_head := h, io_tail := t\<rparr>"
    by blast
  from pool_put_frame [OF give.hyps(4)] obtain r' t'
    where "p' = p\<lparr>io_ring := r', io_tail := t'\<rparr>" by blast
  then have "p' = p0\<lparr>io_ring := r', io_head := h, io_tail := t'\<rparr>" by (simp add: p)
  then show ?case by blast
qed

lemma pool_use_inv:
  assumes "pool_use p0 (p, held)" and "pool_inv p0"
  shows "pool_inv p \<and> pool_cap p = pool_cap p0
      \<and> mset (pool_free p) + held = mset (pool_free p0)"
  using assms(1)
proof (induction "(p, held)" arbitrary: p held rule: pool_use.induct)
  case start
  then show ?case using assms(2) by simp
next
  case (take p held x p')
  then show ?case using spool.get_Some_iff [OF _ take.hyps(3)] by auto
next
  case (give p held x p')
  then have p: "pool_inv p" "pool_cap p = pool_cap p0"
    "mset (pool_free p) + held = mset (pool_free p0)" by auto
  from give.hyps(3) obtain rest where rest: "held = add_mset x rest" by (metis insert_DiffM)
  have "length (pool_free p) + size held = length (pool_free p0)"
    using arg_cong [OF p(3), of size] by simp
  moreover have "length (pool_free p0) \<le> pool_cap p0"
    using assms(2) by (rule spool.free_le_cap)
  ultimately have "length (pool_free p) < pool_cap p" using rest p(2) by simp
  from spool.put_conserves [OF p(1) this give.hyps(4)] p rest show ?case by simp
qed

section \<open>Properties\<close>

text \<open>C17. A client that only returns objects it took never loses or duplicates one: whatever
  sequence of takes and returns has run, the free list and the held objects together are exactly
  the objects the pool started with, the ring invariant holds, and a return never faults.\<close>

theorem pool_use_conserves:
  assumes "pool_inv p0" and "pool_use p0 (p, held)"
  shows "pool_inv p \<and> mset (pool_free p) + held = mset (pool_free p0)
      \<and> (\<forall>x. x \<in># held \<longrightarrow> (\<exists>p'. spdk_simple_pool_put p x = Inr p' \<and> pool_free p' = pool_free p @ [x]))"
proof -
  from pool_use_inv [OF assms(2,1)] have p: "pool_inv p" "pool_cap p = pool_cap p0"
    "mset (pool_free p) + held = mset (pool_free p0)" by auto
  have "length (pool_free p) < pool_cap p" if "x \<in># held" for x
  proof -
    from that have "size held > 0" by (metis empty_iff nonempty_has_size set_mset_empty)
    moreover have "length (pool_free p) + size held = length (pool_free p0)"
      using arg_cong [OF p(3), of size] by simp
    ultimately show ?thesis using spool.free_le_cap [OF assms(1)] p(2) by linarith
  qed
  then show ?thesis using p spool.put_room [OF p(1)] by blast
qed

lemma pool_two_inv: "pool_inv pool_two"
  by (simp add: pool_two_def pool_zero_def spdk_simple_pool_init_def pool_inv_def)

lemma pool_two_take:
  "spdk_simple_pool_get pool_two = Inr (Some 4096, pool_two\<lparr>io_head := 1\<rparr>)"
  by (simp add: spdk_simple_pool_get_def pool_two_def pool_zero_def spdk_simple_pool_init_def
      ring_succ_def arr_get_def pool_elems_def)

lemma pool_two_use: "pool_use pool_two (pool_two\<lparr>io_head := 1\<rparr>, {#4096#})"
  using pool_use.take [OF pool_use.start pool_two_take] by simp

theorem pool_use_conserves_witness:
  "\<exists>p'. spdk_simple_pool_put (pool_two\<lparr>io_head := 1\<rparr>) 4096 = Inr p'
      \<and> pool_free p' = pool_free (pool_two\<lparr>io_head := 1\<rparr>) @ [4096]"
  using pool_use_conserves [OF pool_two_inv pool_two_use] by simp

text \<open>Resetting a pool that was initialised for fewer than 65535 objects of less than 64 KiB
  each gives back exactly the freshly initialised pool, whatever was taken and returned in between:
  the ring is rebuilt from the backing array, so no pointer is duplicated and none is hidden.\<close>

theorem spdk_simple_pool_reset_restores:
  assumes "unat cnt < 65535" and "arr \<noteq> 0" and "ring \<noteq> 0" and "unat esz < 65536"
    and "spdk_simple_pool_init p00 cnt esz arr ring = (rc, p0)"
    and "pool_use p0 (p, held)"
  shows "spdk_simple_pool_reset p = Inr (0, p0)"
proof -
  from pool_use_frame [OF assms(6)] obtain r h t
    where p: "p = p0\<lparr>io_ring := r, io_head := h, io_tail := t\<rparr>" by blast
  from spdk_simple_pool_init_full [OF assms(1,2,3,5)] have inv0: "pool_inv p0" by simp
  from pool_use_inv [OF assms(6) inv0] have inv: "pool_inv p" by simp
  have esz: "ucast (ucast esz :: u16) = esz"
    using assms(4) by (intro unsigned_word_eqI [where ?'a = nat])
      (simp add: unsigned_ucast_eq unsigned_take_bit_eq take_bit_nat_eq_self)
  have p0: "p0 = p00\<lparr>io_arr := arr, io_ring := pool_elems arr esz (Suc (unat cnt)), io_head := 0,
      io_tail := cnt, io_ring_size := cnt + 1, elem_size := ucast esz\<rparr>"
    using assms(5,2,3) unat_cnt_plus_1 [OF assms(1)]
    by (simp add: spdk_simple_pool_init_def Let_def)
  from inv have "length r = Suc (unat cnt)"
    using unat_cnt_plus_1 [OF assms(1)] by (simp add: p p0 pool_inv_def)
  then show ?thesis
    using unat_cnt_plus_1 [OF assms(1)] esz
    by (simp add: spdk_simple_pool_reset_def p p0 Let_def)
qed

theorem spdk_simple_pool_reset_restores_witness:
  "spdk_simple_pool_reset (pool_two\<lparr>io_head := 1\<rparr>) = Inr (0, pool_two)"
  using spdk_simple_pool_reset_restores [of 2 4096 8192 64 pool_zero 0 pool_two
      "pool_two\<lparr>io_head := 1\<rparr>" "{#4096#}"] pool_two_use
  by (simp add: pool_two_def spdk_simple_pool_init_def)

text \<open>Initialisation for fewer than 65535 objects makes a well-formed pool whose free list is
  the first \<open>cnt\<close> elements of the backing array, in order; they are pairwise different when the
  array does not wrap around the address space.  Either failed allocation is reported as
  \<^verbatim>\<open>-ENOMEM\<close>.\<close>

theorem spdk_simple_pool_init_correct:
  assumes "unat cnt < 65535" and "esz \<noteq> 0" and "unat esz * unat cnt \<le> 2 ^ 64"
    and "spdk_simple_pool_init p0 cnt esz arr ring = (rc, p)"
  shows "if arr = 0 \<or> ring = 0 then rc = - ENOMEM
     else rc = 0 \<and> pool_inv p \<and> pool_free p = pool_elems arr esz (unat cnt)
        \<and> pool_cap p = unat cnt \<and> distinct (pool_free p)"
proof (cases "arr = 0 \<or> ring = 0")
  case True
  with assms(4) show ?thesis
    by (auto simp: spdk_simple_pool_init_def Let_def split: if_splits)
next
  case False
  with spdk_simple_pool_init_full [OF assms(1) _ _ assms(4)] distinct_pool_elems [OF assms(2,3)]
  show ?thesis by simp
qed

theorem spdk_simple_pool_init_correct_witness:
  "distinct (pool_free pool_two) \<and> pool_free pool_two = pool_elems 4096 64 2"
proof -
  have "spdk_simple_pool_init pool_zero 2 64 4096 8192 = (0, pool_two)"
    by (simp add: pool_two_def spdk_simple_pool_init_def Let_def)
  from spdk_simple_pool_init_correct [OF _ _ _ this] show ?thesis by auto
qed

text \<open>\<^verbatim>\<open>spdk_simple_pool_put\<close> does not check for a full ring: returning one object too many to a
  pool whose objects are all free moves the tail onto the head, and the pool then looks empty, so
  every object is lost to later takes.\<close>

theorem spdk_simple_pool_put_full_empties:
  assumes "pool_inv p" and "length (pool_free p) = pool_cap p"
  shows "\<exists>p'. spdk_simple_pool_put p x = Inr p' \<and> pool_free p' = []
      \<and> spdk_simple_pool_get p' = Inr (None, p')"
proof -
  let ?h = "unat (io_head p)" and ?n = "unat (io_ring_size p)" and ?t = "unat (io_tail p)"
  from assms(1) have n0: "io_ring_size p \<noteq> 0" and len: "length (io_ring p) = ?n"
    and hn: "?h < ?n" and tn: "?t < ?n" by (auto simp: pool_inv_def)
  obtain j where j: "ring_succ (io_tail p) (io_ring_size p) = Inr j" "unat j = Suc ?t mod ?n"
    using ring_succ_ok [OF n0] by blast
  let ?p' = "p\<lparr>io_ring := (io_ring p)[?t := x], io_tail := j\<rparr>"
  from assms(2) hn have "Suc (pool_avail p) = ?n" by (simp add: pool_free_def pool_cap_def)
  then have "Suc ?t mod ?n = ?h mod ?n"
    using pool_tail_window [OF assms(1)] len
    by (metis add_Suc_right mod_Suc_eq mod_add_self2)
  with j(2) hn have "io_tail ?p' = io_head ?p'"
    by (simp add: unsigned_word_eqI [where ?'a = nat])
  moreover have "pool_inv ?p'" using assms(1) j tn by (simp add: pool_inv_def)
  ultimately have "pool_free ?p' = []" "spdk_simple_pool_get ?p' = Inr (None, ?p')"
    using pool_avail_0 [of ?p'] by (simp_all add: pool_free_def spdk_simple_pool_get_def)
  moreover have "spdk_simple_pool_put p x = Inr ?p'"
    using j tn len by (simp add: spdk_simple_pool_put_def)
  ultimately show ?thesis by blast
qed

theorem spdk_simple_pool_put_full_empties_witness:
  "\<exists>p'. spdk_simple_pool_put pool_two 4096 = Inr p' \<and> pool_free p' = []
      \<and> spdk_simple_pool_get p' = Inr (None, p')"
  by (rule spdk_simple_pool_put_full_empties [OF pool_two_inv])
    (simp add: pool_two_def pool_zero_def spdk_simple_pool_init_def pool_free_def pool_cap_def
      pool_avail_def)

end
