(* ===== verification/Axi_Ring.thy ===== *)
theory Axi_Ring
  imports Nest_Prelude
begin

unbundle bit_operations_syntax

text \<open>
  The poll-mode driver of the AXI multi-channel DMA engine, \<^verbatim>\<open>dpdk/drivers/bus/axi_dma/rte_axi_dma.c\<close>:
  buffer descriptors, the descriptor ring of a channel, submission (\<^verbatim>\<open>rte_axi_dma_add_buffer\<close>,
  \<^verbatim>\<open>rte_axi_dma_send_seg\<close>), completion (\<^verbatim>\<open>rte_axi_dma_poll_complete\<close>), and the creation, stopping and
  re-enabling of a channel.

  Modelling decisions.  A descriptor pointer is an index into the descriptor array, and the
  field \<open>next_ix\<close> is the index its \<^verbatim>\<open>next\<close> pointer leads to.  A channel is either a transmit (MM2S) or a
  receive (S2MM) channel for its whole life, so the two members of \<^verbatim>\<open>union bd\<close> and of
  \<^verbatim>\<open>union channel_reg\<close> are one record here; where the source writes \<^verbatim>\<open>tx.cr\<close> on a receive channel it
  hits the same word, because the control register is the first word of both layouts.  Software
  IO objects (\<^verbatim>\<open>struct dummy_dma_io\<close>) live in a store indexed by pointer.  The virtual-to-IO address
  translation of DPDK, the cycle counter and the status words a busy-wait reads are arguments.
  Memory barriers and log output have no effect on the model's state.
\<close>

section \<open>Registers, descriptors, channels\<close>

record bd_status =
  transfered_bytes :: "26 word"
  rxeof :: bool
  rxsof :: bool
  int_err :: bool
  slv_err :: bool
  dec_err :: bool
  completed :: bool

text \<open>The side-band word: on receive the middle byte is \<^verbatim>\<open>tdest\<close> (low nibble) and a reserved nibble,
  on transmit it is reserved.\<close>

record sideband =
  tuser :: u16
  mid :: u8
  tid :: u8

record bd =
  next_desc :: u32
  next_desc_msb :: u32
  buf_addr :: u32
  buf_addr_msb :: u32
  bd_ctrl :: u32
  bd_side :: sideband
  bd_stat :: bd_status

record dma_desc =
  desc_bd :: bd
  next_ix :: nat
  opaque :: "nat option"
  desc_id :: u32
  bd_phys_lsb :: u32
  bd_phys_msb :: u32
  desc_tx :: bool
  request_end :: bool

record chan_regs =
  reg_cr :: u32
  reg_sr :: u32
  curdesc_lsb :: u32
  curdesc_msb :: u32
  taildesc_lsb :: u32
  taildesc_msb :: u32
  pktdrop_stat :: u32
  pktcount_stat :: u32

record dma_channel =
  desc_arr :: "dma_desc list"
  bd_ring :: u64
  ch_head :: nat
  ch_tail :: nat
  ch_count :: u32
  ch_tx :: bool
  ch_id :: u8
  ch_regs :: chan_regs

text \<open>The common registers of the two directions that the driver touches.\<close>

record common_regs =
  reg_ccr :: u32
  reg_chen :: u32
  reg_err :: u32

text \<open>\<open>lock_held\<close> is the state of the driver's one static mutex.\<close>

record dma_device =
  mm2s :: common_regs
  s2mm :: common_regs
  tx_chs :: "dma_channel list"
  rx_chs :: "dma_channel list"
  lock_held :: bool

record dma_iovec =
  iov_base :: u64
  iov_len :: u64
  paddr :: u64

record dma_io =
  io_start :: u64
  io_end :: u64
  io_sideband :: sideband
  io_status :: bd_status
  transfered_length :: u32

type_synonym io_store = "nat \<Rightarrow> dma_io option"

definition BIT :: "nat \<Rightarrow> u32" where
  "BIT k = push_bit k 1"

definition STS_LEN :: u32 where
  "STS_LEN = BIT 26 - 1"

definition lo32 :: "u64 \<Rightarrow> u32" where
  "lo32 x = ucast x"

definition hi32 :: "u64 \<Rightarrow> u32" where
  "hi32 x = ucast (drop_bit 32 x)"

section \<open>Submission\<close>

definition channel_empty :: "dma_channel \<Rightarrow> bool" where
  "channel_empty ch = (if ch_count ch \<noteq> 0 then False else ch_head ch = ch_tail ch)"

definition channel_full :: "dma_channel \<Rightarrow> bool" where
  "channel_full ch = (if ch_count ch \<noteq> 0 then ch_head ch = ch_tail ch else False)"

text \<open>Storing a descriptor at the tail and moving the tail to its successor.\<close>

definition ring_push :: "dma_desc \<Rightarrow> dma_channel \<Rightarrow> dma_channel" where
  "ring_push d ch = ch\<lparr>desc_arr := (desc_arr ch)[ch_tail ch := d], ch_tail := next_ix d,
     ch_count := ch_count ch + 1\<rparr>"

definition set_taildesc :: "u32 \<Rightarrow> u32 \<Rightarrow> dma_channel \<Rightarrow> dma_channel" where
  "set_taildesc lsb msb ch =
     ch\<lparr>ch_regs := (ch_regs ch)\<lparr>taildesc_lsb := lsb, taildesc_msb := msb\<rparr>\<rparr>"

text \<open>The descriptor that one iteration of \<^verbatim>\<open>rte_axi_dma_add_buffer\<close> leaves at the tail.\<close>

definition add_buffer_bd ::
    "bool \<Rightarrow> bool \<Rightarrow> bool \<Rightarrow> dma_iovec \<Rightarrow> sideband \<Rightarrow> bd \<Rightarrow> bd" where
  "add_buffer_bd is_tx is_first is_last iov sb b =
     (let buf = paddr iov; len = iov_len iov;
          b = b\<lparr>buf_addr := lo32 buf, buf_addr_msb := hi32 buf\<rparr>
      in if is_tx then
           b\<lparr>bd_side := \<lparr>tuser = tuser sb, mid = 0, tid = tid sb\<rparr>,
             bd_ctrl := (ucast len AND STS_LEN) OR (if is_first then BIT 31 else 0)
                       OR (if is_last then BIT 30 else 0),
             bd_stat := (bd_stat b)\<lparr>completed := False\<rparr>\<rparr>
         else
           b\<lparr>bd_ctrl := ucast len AND STS_LEN, bd_stat := (bd_stat b)\<lparr>completed := False\<rparr>\<rparr>)"

definition add_buffer_one ::
    "bool \<Rightarrow> bool \<Rightarrow> dma_iovec \<Rightarrow> nat \<Rightarrow> sideband \<Rightarrow> dma_channel \<Rightarrow> dma_channel res" where
  "add_buffer_one is_first is_last iov ctx sb ch =
     rbind (arr_get (desc_arr ch) (ch_tail ch)) (\<lambda>d.
     let d' = d\<lparr>desc_bd := add_buffer_bd (ch_tx ch) is_first is_last iov sb (desc_bd d), opaque := Some ctx,
                request_end := is_last\<rparr>;
         ch' = (if is_last then set_taildesc (bd_phys_lsb d) (bd_phys_msb d) ch else ch)
     in Inr (ring_push d' ch'))"

definition too_large :: "dma_iovec \<Rightarrow> bool" where
  "too_large iov \<longleftrightarrow> unat (iov_len iov) \<ge> 2 ^ 26"

fun add_buffer_loop ::
    "bool \<Rightarrow> dma_iovec list \<Rightarrow> nat \<Rightarrow> sideband \<Rightarrow> dma_channel \<Rightarrow> (int \<times> dma_channel) res" where
  "add_buffer_loop is_first [] ctx sb ch = Inr (0, ch)"
| "add_buffer_loop is_first (iov # iovs) ctx sb ch =
     (if too_large iov then Inr (- 1, ch)
      else rbind (add_buffer_one is_first (iovs = []) iov ctx sb ch) (\<lambda>ch'.
           add_buffer_loop False iovs ctx sb ch'))"

definition rte_axi_dma_add_buffer ::
    "u64 \<Rightarrow> dma_channel \<Rightarrow> io_store \<Rightarrow> dma_iovec list \<Rightarrow> nat \<Rightarrow> (int \<times> dma_channel \<times> io_store) res" where
  "rte_axi_dma_add_buffer now ch ios iovs ctx =
     (if channel_full ch then Inr (- 1, ch, ios)
      else rbind (deref ios (Some ctx)) (\<lambda>io.
           rbind (add_buffer_loop True iovs ctx (io_sideband io) ch) (\<lambda>(rc, ch').
           if rc \<noteq> 0 then Inr (rc, ch', ios)
           else Inr (0, ch', ios(ctx \<mapsto> io\<lparr>io_start := now\<rparr>)))))"

definition rte_axi_dma_send ::
    "u64 \<Rightarrow> dma_channel \<Rightarrow> io_store \<Rightarrow> dma_iovec list \<Rightarrow> nat \<Rightarrow> (int \<times> dma_channel \<times> io_store) res" where
  "rte_axi_dma_send now ch ios iovs ctx = rte_axi_dma_add_buffer now ch ios iovs ctx"

definition rte_axi_dma_recv ::
    "u64 \<Rightarrow> dma_channel \<Rightarrow> io_store \<Rightarrow> dma_iovec list \<Rightarrow> nat \<Rightarrow> (int \<times> dma_channel \<times> io_store) res" where
  "rte_axi_dma_recv now ch ios iovs ctx = rte_axi_dma_add_buffer now ch ios iovs ctx"

text \<open>The descriptor that one data iteration of \<^verbatim>\<open>rte_axi_dma_send_seg\<close> leaves at the tail: every
  descriptor is a frame of its own.\<close>

definition send_seg_bd :: "bool \<Rightarrow> dma_iovec \<Rightarrow> sideband \<Rightarrow> bd \<Rightarrow> bd" where
  "send_seg_bd is_tx iov sb b =
     (if is_tx then
        b\<lparr>buf_addr := lo32 (paddr iov), buf_addr_msb := hi32 (paddr iov),
          bd_ctrl := (ucast (iov_len iov) AND STS_LEN) OR BIT 31 OR BIT 30,
          bd_side := (bd_side b)\<lparr>tid := tid sb, tuser := tuser sb\<rparr>,
          bd_stat := (bd_stat b)\<lparr>completed := False\<rparr>\<rparr>
      else b)"

definition bd_iova :: "(u64 \<Rightarrow> u64) \<Rightarrow> dma_channel \<Rightarrow> nat \<Rightarrow> u64" where
  "bd_iova iova ch i = iova (bd_ring ch + 64 * of_nat i)"

definition send_seg_one ::
    "(u64 \<Rightarrow> u64) \<Rightarrow> bool \<Rightarrow> dma_iovec \<Rightarrow> nat \<Rightarrow> sideband \<Rightarrow> dma_channel \<Rightarrow> dma_channel res" where
  "send_seg_one iova is_end iov ctx sb ch =
     rbind (arr_get (desc_arr ch) (ch_tail ch)) (\<lambda>d.
     let d' = d\<lparr>desc_bd := send_seg_bd (ch_tx ch) iov sb (desc_bd d), opaque := Some ctx, request_end := is_end\<rparr>;
         a = bd_iova iova ch (ch_tail ch);
         ch' = (if is_end then set_taildesc (lo32 a) (hi32 a) ch else ch)
     in Inr (ring_push d' ch'))"

fun send_seg_loop ::
    "(u64 \<Rightarrow> u64) \<Rightarrow> bool \<Rightarrow> dma_iovec list \<Rightarrow> nat \<Rightarrow> sideband \<Rightarrow> dma_channel \<Rightarrow> (int \<times> dma_channel) res"
where
  "send_seg_loop iova last_data [] ctx sb ch = Inr (0, ch)"
| "send_seg_loop iova last_data (iov # iovs) ctx sb ch =
     (if too_large iov then Inr (- 1, ch)
      else rbind (send_seg_one iova (iovs = [] \<and> \<not> last_data) iov ctx sb ch) (\<lambda>ch'.
           send_seg_loop iova last_data iovs ctx sb ch'))"

text \<open>The 16-byte end-of-task frame that follows the data when \<^verbatim>\<open>last_data\<close> is set; it carries
  \<^verbatim>\<open>tuser = 0xff\<close>.\<close>

definition last_frame_bd :: "dma_iovec \<Rightarrow> sideband \<Rightarrow> bd \<Rightarrow> bd" where
  "last_frame_bd iov0 sb b =
     b\<lparr>buf_addr := lo32 (paddr iov0), buf_addr_msb := hi32 (paddr iov0),
       bd_ctrl := (16 AND STS_LEN) OR BIT 31 OR BIT 30,
       bd_side := (bd_side b)\<lparr>tid := tid sb, tuser := 0xff\<rparr>,
       bd_stat := (bd_stat b)\<lparr>completed := False\<rparr>\<rparr>"

definition send_last_frame ::
    "(u64 \<Rightarrow> u64) \<Rightarrow> dma_iovec list \<Rightarrow> nat \<Rightarrow> sideband \<Rightarrow> dma_channel \<Rightarrow> dma_channel res" where
  "send_last_frame iova iovs ctx sb ch =
     rbind (arr_get iovs 0) (\<lambda>iov0.
     rbind (arr_get (desc_arr ch) (ch_tail ch)) (\<lambda>d.
     let d' = d\<lparr>desc_bd := last_frame_bd iov0 sb (desc_bd d), opaque := Some ctx, request_end := True\<rparr>;
         a = bd_iova iova ch (ch_tail ch)
     in Inr (ring_push d' (set_taildesc (lo32 a) (hi32 a) ch))))"

definition rte_axi_dma_send_seg ::
    "(u64 \<Rightarrow> u64) \<Rightarrow> u64 \<Rightarrow> dma_channel \<Rightarrow> io_store \<Rightarrow> dma_iovec list \<Rightarrow> nat \<Rightarrow> bool \<Rightarrow>
     (int \<times> dma_channel \<times> io_store) res" where
  "rte_axi_dma_send_seg iova now ch ios iovs ctx last_data =
     rbind (deref ios (Some ctx)) (\<lambda>io.
     rbind (send_seg_loop iova last_data iovs ctx (io_sideband io) ch) (\<lambda>(rc, ch').
     if rc \<noteq> 0 then Inr (rc, ch', ios)
     else if \<not> last_data then Inr (0, ch', ios(ctx \<mapsto> io\<lparr>io_start := now\<rparr>))
     else rbind (send_last_frame iova iovs ctx (io_sideband io) ch') (\<lambda>ch''.
          Inr (0, ch'', ios(ctx \<mapsto> io\<lparr>io_start := now,
            transfered_length := transfered_length io + 16\<rparr>)))))"

section \<open>Completion\<close>

text \<open>What the poll loop writes into the IO object for one completed descriptor.\<close>

definition complete_io :: "u64 \<Rightarrow> bd \<Rightarrow> dma_io \<Rightarrow> dma_io" where
  "complete_io now b io =
     io\<lparr>io_end := now, io_status := bd_stat b, io_sideband := bd_side b,
        transfered_length := transfered_length io
          - ((bd_ctrl b AND STS_LEN) - ucast (transfered_bytes (bd_stat b)))\<rparr>"

definition finish_io :: "dma_io \<Rightarrow> dma_io" where
  "finish_io io =
     io\<lparr>io_status := (io_status io)\<lparr>transfered_bytes := ucast (transfered_length io)\<rparr>\<rparr>"

fun poll_loop ::
    "nat \<Rightarrow> u64 \<Rightarrow> dma_channel \<Rightarrow> io_store \<Rightarrow> (nat option \<times> dma_channel \<times> io_store) res" where
  "poll_loop 0 now ch ios = Inl Hang"
| "poll_loop (Suc fuel) now ch ios =
     rbind (arr_get (desc_arr ch) (ch_head ch)) (\<lambda>d.
     if \<not> completed (bd_stat (desc_bd d)) then Inr (None, ch, ios)
     else
       let ch1 = ch\<lparr>ch_head := next_ix d, ch_count := ch_count ch - 1\<rparr> in
       (case opaque d of
          None \<Rightarrow> if channel_empty ch1 then Inr (None, ch1, ios) else poll_loop fuel now ch1 ios
        | Some p \<Rightarrow> rbind (deref ios (Some p)) (\<lambda>io.
            let io' = complete_io now (desc_bd d) io;
                ch2 = ch1\<lparr>desc_arr := (desc_arr ch)[ch_head ch := d\<lparr>opaque := None,
                            request_end := False\<rparr>]\<rparr>
            in if request_end d then Inr (Some p, ch2, ios(p \<mapsto> finish_io io'))
               else if channel_empty ch2 then Inr (None, ch2, ios(p \<mapsto> io'))
               else poll_loop fuel now ch2 (ios(p \<mapsto> io')))))"

text \<open>The loop runs at most once per descriptor of a well-formed ring, so one unit of fuel per
  descriptor is enough; \<open>poll_complete_total\<close> below proves it.\<close>

definition rte_axi_dma_poll_complete ::
    "u64 \<Rightarrow> dma_channel \<Rightarrow> io_store \<Rightarrow> (nat option \<times> dma_channel \<times> io_store) res" where
  "rte_axi_dma_poll_complete now ch ios =
     (if channel_empty ch then Inr (None, ch, ios)
      else poll_loop (Suc (length (desc_arr ch))) now ch ios)"

record channel_stat =
  pkt_dropped :: u32
  pkt_processed :: u32

definition rte_axi_dma_channel_get_stat :: "dma_channel \<Rightarrow> channel_stat" where
  "rte_axi_dma_channel_get_stat ch =
     (if ch_tx ch then \<lparr>pkt_dropped = 0, pkt_processed = pktcount_stat (ch_regs ch)\<rparr>
      else \<lparr>pkt_dropped = pktdrop_stat (ch_regs ch), pkt_processed = pktcount_stat (ch_regs ch)\<rparr>)"

section \<open>Channel creation, stopping and enabling\<close>

definition AXI_MCDMA_MAX_CH :: nat where
  "AXI_MCDMA_MAX_CH = 16"

definition zero_bd :: bd where
  "zero_bd = \<lparr>next_desc = 0, next_desc_msb = 0, buf_addr = 0, buf_addr_msb = 0, bd_ctrl = 0,
     bd_side = \<lparr>tuser = 0, mid = 0, tid = 0\<rparr>,
     bd_stat = \<lparr>transfered_bytes = 0, rxeof = False, rxsof = False, int_err = False,
       slv_err = False, dec_err = False, completed = False\<rparr>\<rparr>"

text \<open>Waiting for the reset bit to clear; the list holds the successive reads of the control register.\<close>

fun wait_reset :: "u32 list \<Rightarrow> unit res" where
  "wait_reset [] = Inl Hang"
| "wait_reset (v # vs) = (if v AND BIT 2 \<noteq> 0 then wait_reset vs else Inr ())"

text \<open>Opening the device.  \<open>alloc\<close>, \<open>vfio\<close>, \<open>region\<close> and \<open>mapped\<close> are the outcomes of the allocation, of
  the VFIO setup, of the region query and of the mapping; \<open>ccr_tx\<close> and \<open>ccr_rx\<close> are the control
  registers found there.  Neither a failed allocation nor a failed mapping is tested before the
  memory is used.\<close>

definition rte_axi_dma_get_device ::
    "bool \<Rightarrow> int \<Rightarrow> int \<Rightarrow> bool \<Rightarrow> u32 list \<Rightarrow> u32 list \<Rightarrow> dma_device \<Rightarrow> dma_device option res" where
  "rte_axi_dma_get_device alloc vfio region mapped tx_reads rx_reads found =
     (if \<not> alloc then Inl NullDeref
      else if vfio \<noteq> 0 then Inr None
      else if region \<noteq> 0 then Inr None
      else if \<not> mapped then Inl OutOfBounds
      else rbind (wait_reset tx_reads) (\<lambda>_. rbind (wait_reset rx_reads) (\<lambda>_.
           Inr (Some (found\<lparr>lock_held := False\<rparr>)))))"

text \<open>The two loops that build the descriptor array and link it into a ring.\<close>

definition init_desc :: "(u64 \<Rightarrow> u64) \<Rightarrow> u64 \<Rightarrow> bool \<Rightarrow> nat \<Rightarrow> nat \<Rightarrow> dma_desc" where
  "init_desc iova ring is_tx n i =
     (let phys = iova (ring + 64 * of_nat i); nx = (i + 1) mod n;
          nphys = iova (ring + 64 * of_nat nx)
      in \<lparr>desc_bd = zero_bd\<lparr>next_desc := lo32 nphys, next_desc_msb := hi32 nphys\<rparr>,
          next_ix = nx, opaque = None, desc_id = of_nat i, bd_phys_lsb = lo32 phys,
          bd_phys_msb = hi32 phys, desc_tx = is_tx, request_end = False\<rparr>)"

definition init_descs :: "(u64 \<Rightarrow> u64) \<Rightarrow> u64 \<Rightarrow> bool \<Rightarrow> nat \<Rightarrow> dma_desc list" where
  "init_descs iova ring is_tx n = map (init_desc iova ring is_tx n) [0..<n]"

definition upd_common :: "bool \<Rightarrow> (common_regs \<Rightarrow> common_regs) \<Rightarrow> dma_device \<Rightarrow> dma_device" where
  "upd_common is_tx f dev =
     (if is_tx then dev\<lparr>mm2s := f (mm2s dev)\<rparr> else dev\<lparr>s2mm := f (s2mm dev)\<rparr>)"

definition common_of :: "bool \<Rightarrow> dma_device \<Rightarrow> common_regs" where
  "common_of is_tx dev = (if is_tx then mm2s dev else s2mm dev)"

definition chs_of :: "bool \<Rightarrow> dma_device \<Rightarrow> dma_channel list" where
  "chs_of is_tx dev = (if is_tx then tx_chs dev else rx_chs dev)"

definition set_ch :: "bool \<Rightarrow> nat \<Rightarrow> dma_channel \<Rightarrow> dma_device \<Rightarrow> dma_device" where
  "set_ch is_tx i ch dev =
     (if is_tx then dev\<lparr>tx_chs := (tx_chs dev)[i := ch]\<rparr> else dev\<lparr>rx_chs := (rx_chs dev)[i := ch]\<rparr>)"

text \<open>The channel structure as \<^verbatim>\<open>rte_axi_dma_create_channel\<close> leaves it when both allocations succeed; the
  counter \<^verbatim>\<open>count\<close> is the one field it does not write.\<close>

definition created_channel ::
    "(u64 \<Rightarrow> u64) \<Rightarrow> u64 \<Rightarrow> bool \<Rightarrow> nat \<Rightarrow> nat \<Rightarrow> dma_channel \<Rightarrow> dma_channel" where
  "created_channel iova ring is_tx i n ch =
     (let a = iova ring in
      ch\<lparr>desc_arr := init_descs iova ring is_tx n, bd_ring := ring, ch_head := 0, ch_tail := 0,
         ch_tx := is_tx, ch_id := of_nat i,
         ch_regs := (ch_regs ch)\<lparr>curdesc_lsb := lo32 a, curdesc_msb := hi32 a,
           taildesc_lsb := lo32 a, taildesc_msb := hi32 a,
           reg_cr := reg_cr (ch_regs ch) OR BIT 0\<rparr>\<rparr>)"

text \<open>\<open>arr_ptr\<close> and \<open>ring_ptr\<close> are what the two allocations return (0 for failure).  Both failure
  paths return while the mutex is still held.  The first leaves \<^verbatim>\<open>desc_arr\<close> null; the second leaves it an array of
  zeroed descriptors whose \<^verbatim>\<open>bd\<close> pointers are null and \<^verbatim>\<open>bd_ring\<close> null.  A descriptor without a buffer descriptor has no
  counterpart here: in both cases the array is empty, so that every use of a descriptor is a fault.\<close>

definition rte_axi_dma_create_channel ::
    "(u64 \<Rightarrow> u64) \<Rightarrow> u64 \<Rightarrow> u64 \<Rightarrow> dma_device \<Rightarrow> nat \<Rightarrow> u32 \<Rightarrow> bool \<Rightarrow> (nat option \<times> dma_device) res" where
  "rte_axi_dma_create_channel iova arr_ptr ring_ptr dev i num_bds is_tx =
     rbind (arr_get (chs_of is_tx dev) i) (\<lambda>ch.
     if lock_held dev then Inl Hang
     else
       let dev1 = upd_common is_tx (\<lambda>r. r\<lparr>reg_chen := reg_chen r OR BIT i\<rparr>) (dev\<lparr>lock_held := True\<rparr>)
       in if arr_ptr = 0 then Inr (None, set_ch is_tx i (ch\<lparr>ch_tx := is_tx, desc_arr := []\<rparr>) dev1)
          else if ring_ptr = 0 then Inr (None, set_ch is_tx i (ch\<lparr>ch_tx := is_tx, desc_arr := [], bd_ring := 0\<rparr>) dev1)
          else
            let ch' = created_channel iova ring_ptr is_tx i (unat num_bds) ch;
                dev2 = upd_common is_tx (\<lambda>r. r\<lparr>reg_ccr := reg_ccr r OR BIT 0\<rparr>) dev1
            in Inr (Some i, (set_ch is_tx i ch' dev2)\<lparr>lock_held := False\<rparr>))"

definition rte_axi_dma_create_tx_channel ::
    "(u64 \<Rightarrow> u64) \<Rightarrow> u64 \<Rightarrow> u64 \<Rightarrow> dma_device \<Rightarrow> nat \<Rightarrow> u32 \<Rightarrow> (nat option \<times> dma_device) res" where
  "rte_axi_dma_create_tx_channel iova arr_ptr ring_ptr dev i num_bds =
     rbind (assert_c (i < AXI_MCDMA_MAX_CH)) (\<lambda>_.
     rte_axi_dma_create_channel iova arr_ptr ring_ptr dev i num_bds True)"

definition rte_axi_dma_create_rx_channel ::
    "(u64 \<Rightarrow> u64) \<Rightarrow> u64 \<Rightarrow> u64 \<Rightarrow> dma_device \<Rightarrow> nat \<Rightarrow> u32 \<Rightarrow> (nat option \<times> dma_device) res" where
  "rte_axi_dma_create_rx_channel iova arr_ptr ring_ptr dev i num_bds =
     rbind (assert_c (i < AXI_MCDMA_MAX_CH)) (\<lambda>_.
     rte_axi_dma_create_channel iova arr_ptr ring_ptr dev i num_bds False)"

text \<open>Both directions return right after clearing the enable bit; the rest of the C function is
  unreachable.\<close>

definition rte_axi_dma_stop_channel :: "dma_device \<Rightarrow> dma_channel \<Rightarrow> dma_device" where
  "rte_axi_dma_stop_channel dev ch =
     upd_common (ch_tx ch) (\<lambda>r. r\<lparr>reg_chen := reg_chen r AND NOT (BIT (unat (ch_id ch)))\<rparr>) dev"

text \<open>Busy-waiting for the idle bit: the list holds the values that successive reads of the status
  register return.\<close>

fun wait_idle :: "u32 list \<Rightarrow> u32 list res" where
  "wait_idle [] = Inl Hang"
| "wait_idle (v # vs) = (if v AND BIT 2 \<noteq> 0 then Inr vs else wait_idle vs)"

definition enable_bit :: "dma_channel \<Rightarrow> dma_device \<Rightarrow> dma_device" where
  "enable_bit ch dev =
     upd_common (ch_tx ch) (\<lambda>r. r\<lparr>reg_chen := reg_chen r OR BIT (unat (ch_id ch))\<rparr>) dev"

definition set_cr :: "u32 \<Rightarrow> dma_channel \<Rightarrow> dma_channel" where
  "set_cr v ch = ch\<lparr>ch_regs := (ch_regs ch)\<lparr>reg_cr := v\<rparr>\<rparr>"

definition set_curdesc :: "u32 \<Rightarrow> u32 \<Rightarrow> dma_channel \<Rightarrow> dma_channel" where
  "set_curdesc lsb msb ch =
     ch\<lparr>ch_regs := (ch_regs ch)\<lparr>curdesc_lsb := lsb, curdesc_msb := msb\<rparr>\<rparr>"

definition rewind_ring :: "dma_channel \<Rightarrow> dma_channel" where
  "rewind_ring ch = ch\<lparr>ch_head := 0, ch_tail := 0, ch_count := 0\<rparr>"

text \<open>The second half of the transmit path: it queues descriptor 0 as an empty frame, resets the
  channel again and points it back at descriptor 0.\<close>

definition enable_tx_restart ::
    "u32 list \<Rightarrow> dma_device \<Rightarrow> dma_channel \<Rightarrow> (dma_device \<times> dma_channel) res" where
  "enable_tx_restart reads dev ch =
     rbind (arr_get (desc_arr ch) 0) (\<lambda>d0.
     let d0' = d0\<lparr>desc_bd := (desc_bd d0)\<lparr>bd_ctrl := BIT 31 OR BIT 30,
                  bd_stat := (bd_stat (desc_bd d0))\<lparr>completed := False\<rparr>\<rparr>\<rparr>;
         lsb = bd_phys_lsb d0; msb = bd_phys_msb d0;
         ch1 = set_cr 0x10004 (set_taildesc lsb msb
                 ((set_cr 0x10001 (set_curdesc lsb msb ch))\<lparr>desc_arr := (desc_arr ch)[0 := d0']\<rparr>))
     in rbind (wait_idle reads) (\<lambda>_.
        Inr (upd_common (ch_tx ch) (\<lambda>r. r\<lparr>reg_ccr := reg_ccr r OR BIT 0\<rparr>) (enable_bit ch dev),
             set_cr 0x10001 (set_curdesc lsb msb (set_cr 0x10000 ch1)))))"

definition enable_rx_restart ::
    "(u64 \<Rightarrow> u64) \<Rightarrow> dma_device \<Rightarrow> dma_channel \<Rightarrow> (dma_device \<times> dma_channel) res" where
  "enable_rx_restart iova dev ch =
     (let a = bd_iova iova ch 0; ch1 = set_cr 0x10101 (set_curdesc (lo32 a) (hi32 a) ch)
      in Inr (upd_common (ch_tx ch) (\<lambda>r. r\<lparr>reg_ccr := reg_ccr r OR BIT 0\<rparr>) dev,
              set_cr (reg_cr (ch_regs ch1) OR BIT 0) ch1))"

definition rte_axi_dma_enable_channel ::
    "(u64 \<Rightarrow> u64) \<Rightarrow> u32 list \<Rightarrow> dma_device \<Rightarrow> dma_channel \<Rightarrow> (dma_device \<times> dma_channel) res" where
  "rte_axi_dma_enable_channel iova reads dev ch =
     (if ch_head ch = ch_tail ch \<and> ch_count ch = 0
         \<and> curdesc_lsb (ch_regs ch) = taildesc_lsb (ch_regs ch)
      then Inr (enable_bit ch dev, ch)
      else if ch_tx ch then
        rbind (wait_idle reads) (\<lambda>reads'.
        enable_tx_restart reads' (enable_bit ch dev)
          (rewind_ring (set_cr 0x10000 (set_cr 0x10004 ch))))
      else
        rbind (wait_idle reads) (\<lambda>reads'.
        enable_rx_restart iova (enable_bit ch dev)
          (rewind_ring (set_cr 0x10100 (set_cr 0x10104 ch)))))"

end
