(* ===== verification/Axi_Ring_Laws.thy ===== *)
theory Axi_Ring_Laws
  imports Axi_Ring
begin

unbundle bit_operations_syntax

text \<open>
  Correctness of the descriptor ring of \<open>Axi_Ring\<close>.  The ring is read as the list of its in-flight
  descriptors (\<open>inflight\<close>); submission appends to that list, polling removes completed descriptors
  from its front, and one software IO object is returned exactly when its last descriptor has
  completed.  Everything rests on two facts about moving the tail and the head
  (\<open>ring_push_inflight\<close>, \<open>ring_pop_inflight\<close>).
\<close>

section \<open>The ring invariant and its list of in-flight descriptors\<close>

definition ring_inv :: "dma_channel \<Rightarrow> bool" where
  "ring_inv ch \<longleftrightarrow>
     (let n = length (desc_arr ch) in
      0 < n \<and> n < 2 ^ 32 \<and> ch_head ch < n \<and> unat (ch_count ch) \<le> n
      \<and> ch_tail ch = (ch_head ch + unat (ch_count ch)) mod n
      \<and> (\<forall>i < n. next_ix (desc_arr ch ! i) = Suc i mod n))"

definition inflight :: "dma_channel \<Rightarrow> dma_desc list" where
  "inflight ch = ring_window (desc_arr ch) (ch_head ch) (unat (ch_count ch))"

definition room :: "dma_channel \<Rightarrow> nat" where
  "room ch = length (desc_arr ch) - unat (ch_count ch)"

text \<open>All IO objects that in-flight descriptors point to exist.\<close>

definition ios_live :: "dma_channel \<Rightarrow> io_store \<Rightarrow> bool" where
  "ios_live ch ios \<longleftrightarrow> (\<forall>d \<in> set (inflight ch). \<forall>p. opaque d = Some p \<longrightarrow> ios p \<noteq> None)"

lemma length_inflight [simp]: "length (inflight ch) = unat (ch_count ch)"
  by (simp add: inflight_def)

lemma ring_invD:
  assumes "ring_inv ch"
  shows "0 < length (desc_arr ch)" "length (desc_arr ch) < 2 ^ 32"
    "ch_head ch < length (desc_arr ch)" "unat (ch_count ch) \<le> length (desc_arr ch)"
    "ch_tail ch = (ch_head ch + unat (ch_count ch)) mod length (desc_arr ch)"
    "ch_tail ch < length (desc_arr ch)"
    "i < length (desc_arr ch) \<Longrightarrow> next_ix (desc_arr ch ! i) = Suc i mod length (desc_arr ch)"
  using assms by (auto simp: ring_inv_def Let_def)

lemma unat_count_succ:
  assumes "ring_inv ch" and "0 < room ch"
  shows "unat (ch_count ch + 1) = Suc (unat (ch_count ch))"
proof -
  from ring_invD(2) [OF assms(1)] assms(2) have "Suc (unat (ch_count ch)) < 2 ^ 32"
    by (simp add: room_def)
  then show ?thesis by (simp add: unat_word_ariths)
qed

lemma unat_count_pred: "ch_count ch \<noteq> 0 \<Longrightarrow> unat (ch_count ch - 1) = unat (ch_count ch) - 1"
  by (simp add: unat_minus_one)

lemma inflight_Nil_iff: "inflight ch = [] \<longleftrightarrow> ch_count ch = 0"
  using length_inflight [of ch] by (metis length_0_conv unat_eq_0)

lemma channel_empty_iff: "ring_inv ch \<Longrightarrow> channel_empty ch \<longleftrightarrow> inflight ch = []"
  using ring_invD(3) [of ch] ring_invD(5) [of ch]
  by (auto simp: channel_empty_def inflight_Nil_iff)

lemma channel_full_iff: "ring_inv ch \<Longrightarrow> channel_full ch \<longleftrightarrow> room ch = 0"
proof -
  assume inv: "ring_inv ch"
  note r = ring_invD [OF inv]
  show ?thesis
  proof (cases "unat (ch_count ch) = length (desc_arr ch)")
    case True
    with r show ?thesis by (auto simp: channel_full_def room_def)
  next
    case False
    with r(4) have lt: "unat (ch_count ch) < length (desc_arr ch)" by simp
    have "ch_head ch \<noteq> ch_tail ch" if "ch_count ch \<noteq> 0"
      using mod_add_neq [of "unat (ch_count ch)" "length (desc_arr ch)" 0 "ch_head ch"] lt r that
      by (simp add: unat_gt_0)
    with lt show ?thesis by (auto simp: channel_full_def room_def)
  qed
qed

subsection \<open>Moving the tail and the head\<close>

lemma ring_push_inflight:
  assumes "ring_inv ch" and "0 < room ch" and "next_ix d = next_ix (desc_arr ch ! ch_tail ch)"
  shows "ring_inv (ring_push d ch)" "inflight (ring_push d ch) = inflight ch @ [d]"
    "room (ring_push d ch) = room ch - 1"
proof -
  let ?n = "length (desc_arr ch)" and ?c = "unat (ch_count ch)"
  note r = ring_invD [OF assms(1)]
  note c = unat_count_succ [OF assms(1,2)]
  from assms(2) have lt: "?c < ?n" by (simp add: room_def)
  have "next_ix d = (ch_head ch + Suc ?c) mod ?n"
    using assms(3) r(5,6) by (simp add: r(7) mod_Suc_eq)
  then show "ring_inv (ring_push d ch)"
    using r lt c assms(3)
    by (auto simp: ring_inv_def ring_push_def Let_def nth_list_update)
  show "inflight (ring_push d ch) = inflight ch @ [d]"
    using ring_window_update_end [OF lt, of "ch_head ch" d] c r(5)
    by (simp add: inflight_def ring_push_def)
  show "room (ring_push d ch) = room ch - 1"
    using c by (simp add: room_def ring_push_def)
qed

lemma set_taildesc_ring [simp]:
  "ring_inv (set_taildesc l m ch) = ring_inv ch"
  "inflight (set_taildesc l m ch) = inflight ch"
  "room (set_taildesc l m ch) = room ch"
  "desc_arr (set_taildesc l m ch) = desc_arr ch"
  "ch_tail (set_taildesc l m ch) = ch_tail ch"
  "ch_tx (set_taildesc l m ch) = ch_tx ch"
  "ch_count (set_taildesc l m ch) = ch_count ch"
  "ch_head (set_taildesc l m ch) = ch_head ch"
  "bd_ring (set_taildesc l m ch) = bd_ring ch"
  by (simp_all add: set_taildesc_def ring_inv_def inflight_def room_def)

lemma ring_push_fields [simp]:
  "ch_tx (ring_push d ch) = ch_tx ch"
  "length (desc_arr (ring_push d ch)) = length (desc_arr ch)"
  "bd_ring (ring_push d ch) = bd_ring ch"
  by (simp_all add: ring_push_def)

text \<open>Taking the descriptor at the head out of the ring, possibly rewriting its slot.\<close>

definition ring_pop :: "dma_desc \<Rightarrow> dma_channel \<Rightarrow> dma_channel" where
  "ring_pop d ch = ch\<lparr>desc_arr := (desc_arr ch)[ch_head ch := d],
     ch_head := next_ix d, ch_count := ch_count ch - 1\<rparr>"

lemma ring_pop_tx [simp]: "ch_tx (ring_pop d ch) = ch_tx ch"
  by (simp add: ring_pop_def)

lemma ring_pop_inflight:
  assumes "ring_inv ch" and "inflight ch = e # es" and "next_ix d = next_ix e"
  shows "ring_inv (ring_pop d ch)" "inflight (ring_pop d ch) = es" "e = desc_arr ch ! ch_head ch"
proof -
  let ?n = "length (desc_arr ch)" and ?c = "unat (ch_count ch)" and ?h = "ch_head ch"
  note r = ring_invD [OF assms(1)]
  from assms(2) have c: "?c = Suc (length es)" using length_inflight [of ch] by simp
  then have c0: "ch_count ch \<noteq> 0" by auto
  from assms(2) c r(3) have e: "e = desc_arr ch ! ?h"
    and es: "es = ring_window (desc_arr ch) (Suc ?h mod ?n) (length es)"
    by (simp_all add: inflight_def ring_window_Suc)
  then show "e = desc_arr ch ! ?h" by simp
  have nx: "next_ix d = Suc ?h mod ?n" using assms(3) e r(3,7) by simp
  have "(Suc ?h mod ?n + (?n - 1)) mod ?n = (Suc ?h + (?n - 1)) mod ?n"
    by (rule mod_add_left_eq)
  also have "Suc ?h + (?n - 1) = ?h + ?n" using r(1) by simp
  finally have wrap: "(Suc ?h mod ?n + (?n - 1)) mod ?n = ?h" using r(3) by simp
  have tl: "(Suc ?h mod ?n + length es) mod ?n = ch_tail ch"
    unfolding mod_add_left_eq using r(5) c by simp
  have "ring_window ((desc_arr ch)[?h := d]) (Suc ?h mod ?n) (length es)
      = ring_window (desc_arr ch) (Suc ?h mod ?n) (length es)"
    using ring_window_update_outside [of "length es" "?n - 1" "desc_arr ch" "Suc ?h mod ?n" d]
      wrap c r(1,4) by simp
  then show "inflight (ring_pop d ch) = es"
    using es c nx unat_count_pred [OF c0] by (simp add: inflight_def ring_pop_def)
  show "ring_inv (ring_pop d ch)"
    using r c nx tl unat_count_pred [OF c0]
    by (simp add: ring_inv_def ring_pop_def Let_def nth_list_update)
qed

section \<open>Submission appends descriptors\<close>

lemma STS_LEN_mask: "STS_LEN = mask 26"
  by (simp add: STS_LEN_def BIT_def mask_eq_exp_minus_1 push_bit_eq_mult)

lemma ctrl_len_flags:
  assumes "\<not> too_large iov" and "flags AND STS_LEN = 0"
  shows "((ucast (iov_len iov) AND STS_LEN) OR flags) AND STS_LEN = ucast (iov_len iov)"
proof -
  have "ucast (iov_len iov) AND STS_LEN = (ucast (iov_len iov) :: u32)"
  proof (rule unsigned_word_eqI [where ?'a = nat])
    have "unat (iov_len iov) < 2 ^ 26" using assms(1) by (simp add: too_large_def)
    then show "unat (ucast (iov_len iov) AND STS_LEN) = unat (ucast (iov_len iov) :: u32)"
      by (simp add: STS_LEN_mask take_bit_eq_mask [symmetric]
          unsigned_take_bit_eq unsigned_ucast_eq take_bit_nat_eq_self)
  qed
  then show ?thesis using assms(2)
    by (simp add: bit.conj_disj_distrib2)
qed

lemma flag_bits_STS_LEN:
  "BIT 31 AND STS_LEN = 0" "BIT 30 AND STS_LEN = 0" "(BIT 31 OR BIT 30) AND STS_LEN = 0"
  by (simp_all add: BIT_def STS_LEN_def)

text \<open>A descriptor as \<^verbatim>\<open>rte_axi_dma_add_buffer\<close> posts it for one buffer: it points at the buffer, owns
  its length, is not completed, belongs to the given IO object, and marks the end of the request
  exactly on the last buffer; on transmit the first and last descriptors carry the frame flags.\<close>

definition posted_desc ::
    "bool \<Rightarrow> sideband \<Rightarrow> nat \<Rightarrow> bool \<Rightarrow> bool \<Rightarrow> dma_iovec \<Rightarrow> dma_desc \<Rightarrow> bool" where
  "posted_desc is_tx sb ctx is_first is_last iov d \<longleftrightarrow>
     buf_addr (desc_bd d) = lo32 (paddr iov) \<and> buf_addr_msb (desc_bd d) = hi32 (paddr iov)
     \<and> bd_ctrl (desc_bd d) AND STS_LEN = ucast (iov_len iov)
     \<and> \<not> completed (bd_stat (desc_bd d)) \<and> opaque d = Some ctx \<and> request_end d = is_last
     \<and> (is_tx \<longrightarrow> tid (bd_side (desc_bd d)) = tid sb \<and> tuser (bd_side (desc_bd d)) = tuser sb
          \<and> (bd_ctrl (desc_bd d) AND BIT 31 \<noteq> 0) = is_first
          \<and> (bd_ctrl (desc_bd d) AND BIT 30 \<noteq> 0) = is_last)"

fun posted :: "bool \<Rightarrow> sideband \<Rightarrow> nat \<Rightarrow> bool \<Rightarrow> dma_iovec list \<Rightarrow> dma_desc list \<Rightarrow> bool" where
  "posted is_tx sb ctx is_first [] ds = (ds = [])"
| "posted is_tx sb ctx is_first (v # vs) ds =
     (case ds of [] \<Rightarrow> False
      | d # ds' \<Rightarrow> posted_desc is_tx sb ctx is_first (vs = []) v d \<and> posted is_tx sb ctx False vs ds')"

lemma and_STS_LEN_BIT: "(x AND STS_LEN) AND BIT 31 = 0" "(x AND STS_LEN) AND BIT 30 = 0"
  by (metis and.assoc and.commute and_zero_eq flag_bits_STS_LEN(1,2))+

lemma add_buffer_bd_posted:
  assumes "\<not> too_large iov"
  shows "posted_desc is_tx sb ctx is_first is_last iov
     (d\<lparr>desc_bd := add_buffer_bd is_tx is_first is_last iov sb (desc_bd d), opaque := Some ctx,
        request_end := is_last\<rparr>)"
  using ctrl_len_flags [OF assms, of 0] ctrl_len_flags [OF assms, of "BIT 31"]
    ctrl_len_flags [OF assms, of "BIT 30"] ctrl_len_flags [OF assms, of "BIT 31 OR BIT 30"]
    flag_bits_STS_LEN and_STS_LEN_BIT [of "ucast (iov_len iov)"]
  by (auto simp: posted_desc_def add_buffer_bd_def Let_def bit.conj_disj_distrib2
      or.assoc BIT_def)

lemma add_buffer_one_ok:
  assumes "ring_inv ch" and "0 < room ch" and "\<not> too_large iov"
  shows "\<exists>ch' d. add_buffer_one is_first is_last iov ctx sb ch = Inr ch' \<and> ring_inv ch'
     \<and> inflight ch' = inflight ch @ [d] \<and> posted_desc (ch_tx ch) sb ctx is_first is_last iov d
     \<and> room ch' = room ch - 1 \<and> ch_tx ch' = ch_tx ch
     \<and> (is_last \<longrightarrow> taildesc_lsb (ch_regs ch') = bd_phys_lsb d \<and> taildesc_msb (ch_regs ch') = bd_phys_msb d)"
proof -
  let ?d0 = "desc_arr ch ! ch_tail ch"
  let ?d = "?d0\<lparr>desc_bd := add_buffer_bd (ch_tx ch) is_first is_last iov sb (desc_bd ?d0),
              opaque := Some ctx, request_end := is_last\<rparr>"
  let ?c = "if is_last then set_taildesc (bd_phys_lsb ?d0) (bd_phys_msb ?d0) ch else ch"
  have c: "ring_inv ?c" "room ?c = room ch" "inflight ?c = inflight ch" "ch_tx ?c = ch_tx ch"
    "desc_arr ?c = desc_arr ch" "ch_tail ?c = ch_tail ch"
    using assms(1) by auto
  have "add_buffer_one is_first is_last iov ctx sb ch = Inr (ring_push ?d ?c)"
    using ring_invD(6) [OF assms(1)] by (simp add: add_buffer_one_def Let_def)
  moreover have "posted_desc (ch_tx ch) sb ctx is_first is_last iov ?d"
    by (rule add_buffer_bd_posted [OF assms(3)])
  moreover have "is_last \<longrightarrow> taildesc_lsb (ch_regs (ring_push ?d ?c)) = bd_phys_lsb ?d
      \<and> taildesc_msb (ch_regs (ring_push ?d ?c)) = bd_phys_msb ?d"
    by (simp add: ring_push_def set_taildesc_def)
  ultimately show ?thesis
    using ring_push_inflight [of ?c ?d] assms(2) c
    by (intro exI [of _ "ring_push ?d ?c"] exI [of _ ?d]) simp
qed

lemma add_buffer_loop_ok:
  assumes "ring_inv ch" and "length iovs \<le> room ch" and "\<forall>v \<in> set iovs. \<not> too_large v"
  shows "\<exists>ch' ds. add_buffer_loop is_first iovs ctx sb ch = Inr (0, ch') \<and> ring_inv ch'
     \<and> inflight ch' = inflight ch @ ds \<and> posted (ch_tx ch) sb ctx is_first iovs ds
     \<and> room ch' = room ch - length iovs \<and> ch_tx ch' = ch_tx ch
     \<and> (iovs \<noteq> [] \<longrightarrow> taildesc_lsb (ch_regs ch') = bd_phys_lsb (last ds) \<and> taildesc_msb (ch_regs ch') = bd_phys_msb (last ds))"
  using assms
proof (induction iovs arbitrary: ch is_first)
  case Nil
  then show ?case by simp
next
  case (Cons v vs)
  from Cons.prems add_buffer_one_ok [of ch v is_first "vs = []" ctx sb]
  obtain ch1 d where 1: "add_buffer_one is_first (vs = []) v ctx sb ch = Inr ch1" "ring_inv ch1"
    "inflight ch1 = inflight ch @ [d]" "posted_desc (ch_tx ch) sb ctx is_first (vs = []) v d"
    "room ch1 = room ch - 1" "ch_tx ch1 = ch_tx ch"
    "vs = [] \<longrightarrow> taildesc_lsb (ch_regs ch1) = bd_phys_lsb d \<and> taildesc_msb (ch_regs ch1) = bd_phys_msb d"
    by auto
  from Cons.prems(2) 1(5) have rm: "length vs \<le> room ch1" by simp
  from Cons.IH [OF 1(2) rm, of False] Cons.prems(3) 1(6)
  obtain ch' ds where 2: "add_buffer_loop False vs ctx sb ch1 = Inr (0, ch')" "ring_inv ch'"
    "inflight ch' = inflight ch1 @ ds" "posted (ch_tx ch) sb ctx False vs ds"
    "room ch' = room ch1 - length vs" "ch_tx ch' = ch_tx ch"
    "vs \<noteq> [] \<longrightarrow> taildesc_lsb (ch_regs ch') = bd_phys_lsb (last ds) \<and> taildesc_msb (ch_regs ch') = bd_phys_msb (last ds)" by auto
  have td: "taildesc_lsb (ch_regs ch') = bd_phys_lsb (last (d # ds))
      \<and> taildesc_msb (ch_regs ch') = bd_phys_msb (last (d # ds))"
  proof (cases "vs = []")
    case True
    with 2(1,4) 1(7) show ?thesis by simp
  next
    case False
    with 2(4) have "ds \<noteq> []" by (cases vs) auto
    with 2(7) False show ?thesis by simp
  qed
  from 1 2 Cons.prems(3) td have "add_buffer_loop is_first (v # vs) ctx sb ch = Inr (0, ch')
     \<and> ring_inv ch' \<and> inflight ch' = inflight ch @ (d # ds)
     \<and> posted (ch_tx ch) sb ctx is_first (v # vs) (d # ds)
     \<and> room ch' = room ch - length (v # vs) \<and> ch_tx ch' = ch_tx ch
     \<and> (v # vs \<noteq> [] \<longrightarrow> taildesc_lsb (ch_regs ch') = bd_phys_lsb (last (d # ds)) \<and> taildesc_msb (ch_regs ch') = bd_phys_msb (last (d # ds)))" by simp
  then show ?case by blast
qed

section \<open>Segmented submission\<close>

text \<open>One frame of a segmented submission: address, length and user tag of the descriptor that
  carries it.  Every frame starts and ends a packet of its own.\<close>

definition seg_frame :: "nat \<Rightarrow> u8 \<Rightarrow> u64 \<times> u64 \<times> u16 \<Rightarrow> dma_desc \<Rightarrow> bool" where
  "seg_frame ctx t f d \<longleftrightarrow> (case f of (a, len, tu) \<Rightarrow>
     buf_addr (desc_bd d) = lo32 a \<and> buf_addr_msb (desc_bd d) = hi32 a
     \<and> bd_ctrl (desc_bd d) AND STS_LEN = ucast len
     \<and> bd_ctrl (desc_bd d) AND BIT 31 \<noteq> 0 \<and> bd_ctrl (desc_bd d) AND BIT 30 \<noteq> 0
     \<and> tid (bd_side (desc_bd d)) = t \<and> tuser (bd_side (desc_bd d)) = tu
     \<and> \<not> completed (bd_stat (desc_bd d)) \<and> opaque d = Some ctx)"

definition seg_frames :: "dma_iovec list \<Rightarrow> u16 \<Rightarrow> bool \<Rightarrow> (u64 \<times> u64 \<times> u16) list" where
  "seg_frames iovs tu last_data =
     map (\<lambda>v. (paddr v, iov_len v, tu)) iovs
     @ (if last_data then [(paddr (hd iovs), 16, 0xff)] else [])"

lemma frame_flags:
  "(x OR (BIT 31 OR BIT 30)) AND BIT 31 \<noteq> 0" "(x OR (BIT 31 OR BIT 30)) AND BIT 30 \<noteq> 0"
proof -
  have "bit ((x OR (BIT 31 OR BIT 30)) AND BIT 31) 31" "bit ((x OR (BIT 31 OR BIT 30)) AND BIT 30) 30"
    by (simp_all add: BIT_def bit_simps)
  then show "(x OR (BIT 31 OR BIT 30)) AND BIT 31 \<noteq> 0" "(x OR (BIT 31 OR BIT 30)) AND BIT 30 \<noteq> 0"
    by (metis bit_0_eq bot_apply bot_bool_def)+
qed

lemma send_seg_one_ok:
  assumes "ring_inv ch" and "0 < room ch" and "\<not> too_large iov" and "ch_tx ch"
  shows "\<exists>ch' d. send_seg_one iova is_end iov ctx sb ch = Inr ch' \<and> ring_inv ch'
     \<and> inflight ch' = inflight ch @ [d]
     \<and> seg_frame ctx (tid sb) (paddr iov, iov_len iov, tuser sb) d \<and> request_end d = is_end
     \<and> room ch' = room ch - 1 \<and> ch_tx ch'"
proof -
  let ?d0 = "desc_arr ch ! ch_tail ch" and ?a = "bd_iova iova ch (ch_tail ch)"
  let ?d = "?d0\<lparr>desc_bd := send_seg_bd (ch_tx ch) iov sb (desc_bd ?d0),
              opaque := Some ctx, request_end := is_end\<rparr>"
  let ?c = "if is_end then set_taildesc (lo32 ?a) (hi32 ?a) ch else ch"
  have c: "ring_inv ?c" "room ?c = room ch" "inflight ?c = inflight ch" "ch_tx ?c = ch_tx ch"
    "desc_arr ?c = desc_arr ch" "ch_tail ?c = ch_tail ch"
    using assms(1) by auto
  have "send_seg_one iova is_end iov ctx sb ch = Inr (ring_push ?d ?c)"
    using ring_invD(6) [OF assms(1)] by (simp add: send_seg_one_def Let_def)
  moreover have "seg_frame ctx (tid sb) (paddr iov, iov_len iov, tuser sb) ?d"
    using assms(4) ctrl_len_flags [OF assms(3), of "BIT 31 OR BIT 30"] flag_bits_STS_LEN(3)
      frame_flags [of "ucast (iov_len iov) AND STS_LEN"]
    by (simp add: seg_frame_def send_seg_bd_def or.assoc)
  ultimately show ?thesis
    using ring_push_inflight [of ?c ?d] assms(2,4) c by auto
qed

lemma send_last_frame_ok:
  assumes "ring_inv ch" and "0 < room ch" and "ch_tx ch" and "iovs \<noteq> []"
  shows "\<exists>ch' d. send_last_frame iova iovs ctx sb ch = Inr ch' \<and> ring_inv ch'
     \<and> inflight ch' = inflight ch @ [d]
     \<and> seg_frame ctx (tid sb) (paddr (hd iovs), 16, 0xff) d \<and> request_end d
     \<and> room ch' = room ch - 1 \<and> ch_tx ch'"
proof -
  let ?d0 = "desc_arr ch ! ch_tail ch" and ?a = "bd_iova iova ch (ch_tail ch)"
  let ?d = "?d0\<lparr>desc_bd := last_frame_bd (hd iovs) sb (desc_bd ?d0),
              opaque := Some ctx, request_end := True\<rparr>"
  let ?c = "set_taildesc (lo32 ?a) (hi32 ?a) ch"
  have "send_last_frame iova iovs ctx sb ch = Inr (ring_push ?d ?c)"
    using ring_invD(6) [OF assms(1)] assms(4)
    by (simp add: send_last_frame_def Let_def hd_conv_nth)
  moreover have "seg_frame ctx (tid sb) (paddr (hd iovs), 16, 0xff) ?d"
    by (simp add: seg_frame_def last_frame_bd_def STS_LEN_def BIT_def)
  ultimately show ?thesis
    using ring_push_inflight [of ?c ?d] assms by auto
qed

lemma send_seg_loop_ok:
  assumes "ring_inv ch" and "length iovs \<le> room ch" and "\<forall>v \<in> set iovs. \<not> too_large v"
    and "ch_tx ch"
  shows "\<exists>ch' ds. send_seg_loop iova last_data iovs ctx sb ch = Inr (0, ch') \<and> ring_inv ch'
     \<and> inflight ch' = inflight ch @ ds
     \<and> list_all2 (seg_frame ctx (tid sb)) (seg_frames iovs (tuser sb) False) ds
     \<and> map request_end ds
         = replicate (length iovs - 1) False @ (if iovs = [] then [] else [\<not> last_data])
     \<and> room ch' = room ch - length iovs \<and> ch_tx ch'"
  using assms
proof (induction iovs arbitrary: ch)
  case Nil
  then show ?case by (simp add: seg_frames_def)
next
  case (Cons v vs)
  let ?e = "vs = [] \<and> \<not> last_data"
  from Cons.prems send_seg_one_ok [of ch v iova ?e ctx sb]
  obtain ch1 d where 1: "send_seg_one iova ?e v ctx sb ch = Inr ch1" "ring_inv ch1"
    "inflight ch1 = inflight ch @ [d]" "seg_frame ctx (tid sb) (paddr v, iov_len v, tuser sb) d"
    "request_end d = ?e" "room ch1 = room ch - 1" "ch_tx ch1" by auto
  from Cons.prems(2) 1(6) have rm: "length vs \<le> room ch1" by simp
  from Cons.IH [OF 1(2) rm _ 1(7)] Cons.prems(3)
  obtain ch' ds where 2: "send_seg_loop iova last_data vs ctx sb ch1 = Inr (0, ch')" "ring_inv ch'"
    "inflight ch' = inflight ch1 @ ds"
    "list_all2 (seg_frame ctx (tid sb)) (seg_frames vs (tuser sb) False) ds"
    "map request_end ds
       = replicate (length vs - 1) False @ (if vs = [] then [] else [\<not> last_data])"
    "room ch' = room ch1 - length vs" "ch_tx ch'" by auto
  have "map request_end (d # ds) = replicate (length (v # vs) - 1) False @ [\<not> last_data]"
    using 1(5) 2(5) by (cases vs) auto
  moreover have "list_all2 (seg_frame ctx (tid sb)) (seg_frames (v # vs) (tuser sb) False) (d # ds)"
    using 1(4) 2(4) by (simp add: seg_frames_def)
  moreover have "send_seg_loop iova last_data (v # vs) ctx sb ch = Inr (0, ch')"
    using 1(1) 2(1) Cons.prems(3) by simp
  ultimately show ?case using 1 2 by (intro exI [of _ ch'] exI [of _ "d # ds"]) simp
qed

lemma send_seg_ok:
  assumes "ring_inv ch" and "ch_tx ch" and "iovs \<noteq> []" and "\<forall>v \<in> set iovs. \<not> too_large v"
    and "length (seg_frames iovs (tuser (io_sideband io)) last_data) \<le> room ch"
    and "ios ctx = Some io"
  shows "\<exists>ch' ds io'. rte_axi_dma_send_seg iova now ch ios iovs ctx last_data
       = Inr (0, ch', ios(ctx \<mapsto> io'))
     \<and> io' = io\<lparr>io_start := now,
         transfered_length := transfered_length io + (if last_data then 16 else 0)\<rparr>
     \<and> ring_inv ch' \<and> inflight ch' = inflight ch @ ds
     \<and> list_all2 (seg_frame ctx (tid (io_sideband io)))
         (seg_frames iovs (tuser (io_sideband io)) last_data) ds
     \<and> map request_end ds = replicate (length ds - 1) False @ [True]"
proof -
  let ?sb = "io_sideband io"
  have rm: "length iovs \<le> room ch" using assms(5) by (auto simp: seg_frames_def)
  from send_seg_loop_ok [OF assms(1) rm assms(4,2), of iova last_data ctx ?sb]
  obtain ch1 ds where 1: "send_seg_loop iova last_data iovs ctx ?sb ch = Inr (0, ch1)" "ring_inv ch1"
    "inflight ch1 = inflight ch @ ds"
    "list_all2 (seg_frame ctx (tid ?sb)) (seg_frames iovs (tuser ?sb) False) ds"
    "map request_end ds = replicate (length iovs - 1) False @ [\<not> last_data]"
    "room ch1 = room ch - length iovs" "ch_tx ch1" using assms(3) by auto
  have len: "length ds = length iovs"
    using list_all2_lengthD [OF 1(4)] by (simp add: seg_frames_def)
  show ?thesis
  proof (cases last_data)
    case False
    have "rte_axi_dma_send_seg iova now ch ios iovs ctx last_data
        = Inr (0, ch1, ios(ctx \<mapsto> io\<lparr>io_start := now\<rparr>))"
      using assms(6) 1(1) False by (simp add: rte_axi_dma_send_seg_def)
    with 1 len False show ?thesis by (intro exI [of _ ch1] exI [of _ ds]) simp
  next
    case True
    have "0 < room ch1" using assms(5) True 1(6) by (simp add: seg_frames_def)
    from send_last_frame_ok [OF 1(2) this 1(7) assms(3), of iova ctx ?sb]
    obtain ch' d where 2: "send_last_frame iova iovs ctx ?sb ch1 = Inr ch'" "ring_inv ch'"
      "inflight ch' = inflight ch1 @ [d]" "seg_frame ctx (tid ?sb) (paddr (hd iovs), 16, 0xff) d"
      "request_end d" by auto
    have run: "rte_axi_dma_send_seg iova now ch ios iovs ctx last_data = Inr (0, ch',
        ios(ctx \<mapsto> io\<lparr>io_start := now, transfered_length := transfered_length io + 16\<rparr>))"
      using assms(6) 1(1) 2(1) True by (simp add: rte_axi_dma_send_seg_def)
    have fr: "list_all2 (seg_frame ctx (tid ?sb)) (seg_frames iovs (tuser ?sb) last_data) (ds @ [d])"
      using 1(4) 2(4) True by (simp add: seg_frames_def list_all2_appendI)
    obtain m where m: "length iovs = Suc m" using assms(3) by (cases iovs) auto
    have re: "map request_end (ds @ [d]) = replicate (length (ds @ [d]) - 1) False @ [True]"
      using 1(5) 2(5) True len m by (simp add: replicate_append_same)
    show ?thesis using run fr re 1(3) 2(2,3) True
      by (intro exI [of _ ch'] exI [of _ "ds @ [d]"]) simp
  qed
qed

section \<open>Polling removes completed descriptors\<close>

definition desc_done :: "dma_desc \<Rightarrow> bool" where
  "desc_done d \<longleftrightarrow> completed (bd_stat (desc_bd d))"

definition cleared :: "dma_desc \<Rightarrow> dma_desc" where
  "cleared d = d\<lparr>opaque := None, request_end := False\<rparr>"

lemma cleared_next [simp]: "next_ix (cleared d) = next_ix d"
  by (simp add: cleared_def)

text \<open>One unfolding of the poll loop on a ring whose first in-flight descriptor is \<open>d\<close>.\<close>

lemma poll_loop_step:
  assumes "ring_inv ch" and "inflight ch = d # ds"
  shows "poll_loop (Suc fuel) now ch ios =
    (if \<not> desc_done d then Inr (None, ch, ios)
     else case opaque d of
         None \<Rightarrow> if ds = [] then Inr (None, ring_pop d ch, ios)
                 else poll_loop fuel now (ring_pop d ch) ios
       | Some p \<Rightarrow> rbind (deref ios (Some p)) (\<lambda>io.
           let io' = complete_io now (desc_bd d) io; ch2 = ring_pop (cleared d) ch
           in if request_end d then Inr (Some p, ch2, ios(p \<mapsto> finish_io io'))
              else if ds = [] then Inr (None, ch2, ios(p \<mapsto> io'))
              else poll_loop fuel now ch2 (ios(p \<mapsto> io'))))"
proof -
  note r = ring_invD [OF assms(1)]
  note p1 = ring_pop_inflight [OF assms, of d, simplified]
  note p2 = ring_pop_inflight [OF assms, of "cleared d", simplified]
  have d: "arr_get (desc_arr ch) (ch_head ch) = Inr d"
    using r(3) p1(3) by simp
  have keep: "ch\<lparr>ch_head := next_ix d, ch_count := ch_count ch - 1\<rparr> = ring_pop d ch"
    by (simp add: ring_pop_def p1(3) list_update_id)
  have pop: "(ring_pop d ch)\<lparr>desc_arr := (desc_arr ch)[ch_head ch := d\<lparr>opaque := None, request_end := False\<rparr>]\<rparr>
     = ring_pop (cleared d) ch"
    by (simp add: ring_pop_def cleared_def)
  have e: "channel_empty (ring_pop d ch) = (ds = [])"
    "channel_empty (ring_pop (cleared d) ch) = (ds = [])"
    using channel_empty_iff [OF p1(1)] channel_empty_iff [OF p2(1)] p1(2) p2(2) by simp_all
  show ?thesis
    by (simp add: d keep pop e desc_done_def split: option.splits)
      (simp add: Let_def e cong: if_cong)
qed

declare poll_loop.simps(2) [simp del]

lemma poll_loop_total:
  assumes "ring_inv ch" and "ios_live ch ios" and "length (inflight ch) < fuel"
    and "inflight ch \<noteq> []"
  shows "\<exists>r ch' ios' k. poll_loop fuel now ch ios = Inr (r, ch', ios') \<and> ring_inv ch'
     \<and> inflight ch' = drop k (inflight ch) \<and> (\<forall>d \<in> set (take k (inflight ch)). desc_done d)
     \<and> (r = None \<longrightarrow> (\<forall>d \<in> set (take k (inflight ch)). opaque d = None \<or> \<not> request_end d)
          \<and> (k < length (inflight ch) \<longrightarrow> \<not> desc_done (inflight ch ! k)))"
  using assms
proof (induction fuel arbitrary: ch ios)
  case 0
  then show ?case by simp
next
  case (Suc fuel)
  then obtain d ds where i: "inflight ch = d # ds" by (cases "inflight ch") auto
  note step = poll_loop_step [OF Suc.prems(1) i, of fuel now]
  have ind: "\<exists>r ch' ios'' k. poll_loop fuel now ch2 ios' = Inr (r, ch', ios'') \<and> ring_inv ch'
      \<and> inflight ch' = drop k ds \<and> (\<forall>d \<in> set (take k ds). desc_done d)
      \<and> (r = None \<longrightarrow> (\<forall>d \<in> set (take k ds). opaque d = None \<or> \<not> request_end d)
           \<and> (k < length ds \<longrightarrow> \<not> desc_done (ds ! k)))"
    if c: "ch2 = ring_pop e ch" "next_ix e = next_ix d" and ne: "ds \<noteq> []"
      and live: "\<forall>x \<in> set ds. \<forall>p. opaque x = Some p \<longrightarrow> ios' p \<noteq> None" for ch2 e ios'
  proof -
    note pop = ring_pop_inflight [OF Suc.prems(1) i c(2)]
    have "ios_live ch2 ios'" using live pop(2) c(1) by (simp add: ios_live_def)
    moreover have "length (inflight ch2) < fuel" using Suc.prems(3) i pop(2) c(1) by simp
    ultimately show ?thesis using Suc.IH [of ch2 ios'] pop c(1) ne by simp
  qed
  show ?case
  proof (cases "desc_done d")
    case False
    then have "poll_loop (Suc fuel) now ch ios = Inr (None, ch, ios)" using step by simp
    with Suc.prems(1) i False show ?thesis by (auto intro!: exI [of _ 0])
  next
    case True
    note dn = True
    have lv: "\<forall>x \<in> set ds. \<forall>p. opaque x = Some p \<longrightarrow> ios p \<noteq> None"
      using Suc.prems(2) i by (simp add: ios_live_def)
    show ?thesis
    proof (cases "opaque d")
      case None
      show ?thesis
      proof (cases "ds = []")
        case True
        with step dn None ring_pop_inflight [OF Suc.prems(1) i, of d] i show ?thesis
          by (auto intro!: exI [of _ "Suc 0"])
      next
        case False
        from ind [OF refl refl False lv] obtain r ch' ios' k where
          *: "poll_loop fuel now (ring_pop d ch) ios = Inr (r, ch', ios')" "ring_inv ch'"
          "inflight ch' = drop k ds" "\<forall>d \<in> set (take k ds). desc_done d"
          "r = None \<longrightarrow> (\<forall>d \<in> set (take k ds). opaque d = None \<or> \<not> request_end d)
             \<and> (k < length ds \<longrightarrow> \<not> desc_done (ds ! k))" by blast
        with step dn None i False show ?thesis
          by (intro exI [of _ r] exI [of _ ch'] exI [of _ ios'] exI [of _ "Suc k"]) simp
      qed
    next
      case (Some p)
      from Suc.prems(2) i Some obtain io where io: "ios p = Some io"
        by (auto simp: ios_live_def)
      let ?io = "complete_io now (desc_bd d) io"
      note pop = ring_pop_inflight [OF Suc.prems(1) i, of "cleared d", simplified]
      show ?thesis
      proof (cases "request_end d \<or> ds = []")
        case True
        with step dn Some io pop i show ?thesis
          by (cases "request_end d") (auto simp: Let_def intro!: exI [of _ "Suc 0"])
      next
        case False
        have "\<forall>x \<in> set ds. \<forall>q. opaque x = Some q \<longrightarrow> (ios(p \<mapsto> ?io)) q \<noteq> None"
          using lv by auto
        from ind [OF refl cleared_next _ this] False obtain r ch' ios' k where
          *: "poll_loop fuel now (ring_pop (cleared d) ch) (ios(p \<mapsto> ?io)) = Inr (r, ch', ios')"
          "ring_inv ch'" "inflight ch' = drop k ds" "\<forall>d \<in> set (take k ds). desc_done d"
          "r = None \<longrightarrow> (\<forall>d \<in> set (take k ds). opaque d = None \<or> \<not> request_end d)
             \<and> (k < length ds \<longrightarrow> \<not> desc_done (ds ! k))" by blast
        with step dn Some io i False show ?thesis
          by (intro exI [of _ r] exI [of _ ch'] exI [of _ ios'] exI [of _ "Suc k"])
            (simp add: Let_def)
      qed
    qed
  qed
qed

text \<open>A whole request at the front of the ring: the loop folds every descriptor into the IO object
  and returns it at the last one.\<close>

definition complete_all :: "u64 \<Rightarrow> dma_desc list \<Rightarrow> dma_io \<Rightarrow> dma_io" where
  "complete_all now ds io = fold (\<lambda>d. complete_io now (desc_bd d)) ds io"

lemma poll_loop_last:
  assumes "ring_inv ch" and "inflight ch = d # rest"
    and "opaque d = Some p" "desc_done d" "request_end d" and "ios p = Some io"
  shows "poll_loop (Suc f) now ch ios
     = Inr (Some p, ring_pop (cleared d) ch, ios(p \<mapsto> finish_io (complete_io now (desc_bd d) io)))"
  using poll_loop_step [OF assms(1,2), of f now ios] assms(3-6) by (simp add: Let_def)

lemma poll_loop_middle:
  assumes "ring_inv ch" and "inflight ch = e # rest" and "rest \<noteq> []"
    and "opaque e = Some p" "desc_done e" "\<not> request_end e" and "ios p = Some io"
  shows "poll_loop (Suc f) now ch ios
     = poll_loop f now (ring_pop (cleared e) ch) (ios(p \<mapsto> complete_io now (desc_bd e) io))"
  using poll_loop_step [OF assms(1,2), of f now ios] assms(3-7) by (simp add: Let_def)

definition request_returned ::
    "nat \<Rightarrow> dma_io \<Rightarrow> dma_desc list \<Rightarrow> dma_channel \<Rightarrow> io_store \<Rightarrow>
     (nat option \<times> dma_channel \<times> io_store) res \<Rightarrow> bool" where
  "request_returned p io rest ch ios r \<longleftrightarrow>
     (\<exists>ch' ios'. r = Inr (Some p, ch', ios') \<and> ios' = ios(p \<mapsto> io)
        \<and> ring_inv ch' \<and> inflight ch' = rest \<and> ch_tx ch' = ch_tx ch)"

lemma request_returned_pop:
  "request_returned p io rest (ring_pop d ch) (ios(p \<mapsto> x)) r = request_returned p io rest ch ios r"
  by (simp add: request_returned_def)

lemma complete_all_simps:
  "complete_all now [] io = io"
  "complete_all now (d # ds) io = complete_all now ds (complete_io now (desc_bd d) io)"
  by (simp_all add: complete_all_def)

lemma poll_loop_request_aux:
  assumes "opaque d = Some p" "desc_done d" "request_end d"
    and "\<forall>x \<in> set ds. opaque x = Some p \<and> desc_done x \<and> \<not> request_end x"
    and "ring_inv ch" and "inflight ch = ds @ d # rest"
    and "ios p = Some io" and "length ds < fuel"
  shows "request_returned p (finish_io (complete_all now (ds @ [d]) io)) rest ch ios
     (poll_loop fuel now ch ios)"
  using assms(4-8)
proof (induction ds arbitrary: ch ios io fuel)
  case Nil
  then obtain f where f: "fuel = Suc f" by (cases fuel) auto
  have i: "inflight ch = d # rest" using Nil.prems(3) by simp
  have run: "poll_loop fuel now ch ios = Inr (Some p, ring_pop (cleared d) ch,
      ios(p \<mapsto> finish_io (complete_io now (desc_bd d) io)))"
    unfolding f by (rule poll_loop_last [OF Nil.prems(2) i assms(1-3), where ios = ios and io = io])
      (rule Nil.prems(4))
  show ?case
    unfolding run request_returned_def
    using ring_pop_inflight(1,2) [OF Nil.prems(2) i cleared_next]
    by (simp add: complete_all_simps)
next
  case (Cons e ds)
  from Cons.prems(5) obtain f where f: "fuel = Suc f" by (cases fuel) auto
  have i: "inflight ch = e # (ds @ d # rest)" using Cons.prems(3) by simp
  have e: "opaque e = Some p" "desc_done e" "\<not> request_end e"
    and ds: "\<forall>x \<in> set ds. opaque x = Some p \<and> desc_done x \<and> \<not> request_end x"
    using Cons.prems(1) by auto
  have ne: "ds @ d # rest \<noteq> []" by simp
  let ?io = "complete_io now (desc_bd e) io"
  have run: "poll_loop fuel now ch ios
      = poll_loop f now (ring_pop (cleared e) ch) (ios(p \<mapsto> ?io))"
    unfolding f
    by (rule poll_loop_middle [OF Cons.prems(2) i ne e, where ios = ios and io = io])
      (rule Cons.prems(4))
  have lt: "length ds < f" using Cons.prems(5) f by simp
  have "request_returned p (finish_io (complete_all now (ds @ [d]) ?io)) rest
     (ring_pop (cleared e) ch) (ios(p \<mapsto> ?io))
     (poll_loop f now (ring_pop (cleared e) ch) (ios(p \<mapsto> ?io)))"
    by (rule Cons.IH [OF ds ring_pop_inflight(1,2) [OF Cons.prems(2) i cleared_next]])
      (simp, rule lt)
  then show ?case unfolding run request_returned_pop by (simp add: complete_all_simps)
qed

text \<open>The length account: 32-bit subtraction of what each descriptor did not transfer.\<close>

lemma complete_all_length:
  "transfered_length (complete_all now ds io) = transfered_length io
     - (\<Sum>d \<leftarrow> ds. (bd_ctrl (desc_bd d) AND STS_LEN) - ucast (transfered_bytes (bd_stat (desc_bd d))))"
proof (induction ds arbitrary: io)
  case Nil
  then show ?case by (simp add: complete_all_def)
next
  case (Cons d ds)
  have "transfered_length (complete_all now (d # ds) io)
      = transfered_length (complete_all now ds (complete_io now (desc_bd d) io))"
    by (simp add: complete_all_def)
  also have "\<dots> = transfered_length (complete_io now (desc_bd d) io)
     - (\<Sum>d \<leftarrow> ds. (bd_ctrl (desc_bd d) AND STS_LEN) - ucast (transfered_bytes (bd_stat (desc_bd d))))"
    by (rule Cons.IH)
  finally show ?case by (simp add: complete_io_def diff_diff_eq)
qed

end
