(* ===== verification/Axi_Ring_Runs.thy ===== *)
theory Axi_Ring_Runs
  imports Axi_Ring_Laws
begin

unbundle bit_operations_syntax

text \<open>
  Whole runs of one DMA channel: submissions, completions reported by the engine and polls in any
  order.  The engine's part is \<open>hw_complete\<close>, which sets the status word of one in-flight
  descriptor.  The requests in flight, oldest first, are \<open>reqs\<close>; a run returns the submitted IO
  objects in the order of their submission and each exactly once.  The theory also holds the
  byte account of one request and the error paths of submission, creation and restart.
\<close>

section \<open>The engine and the list of outstanding requests\<close>

definition hw_done :: "26 word \<Rightarrow> sideband \<Rightarrow> dma_desc \<Rightarrow> dma_desc" where
  "hw_done n sb d = d\<lparr>desc_bd := (desc_bd d)\<lparr>bd_side := sb,
     bd_stat := (bd_stat (desc_bd d))\<lparr>transfered_bytes := n, completed := True\<rparr>\<rparr>\<rparr>"

text \<open>The engine completes the \<open>k\<close>-th in-flight descriptor.\<close>

definition hw_complete :: "nat \<Rightarrow> 26 word \<Rightarrow> sideband \<Rightarrow> dma_channel \<Rightarrow> dma_channel" where
  "hw_complete k n sb ch =
     (let i = (ch_head ch + k) mod length (desc_arr ch)
      in ch\<lparr>desc_arr := (desc_arr ch)[i := hw_done n sb (desc_arr ch ! i)]\<rparr>)"

definition ends_request :: "dma_desc \<Rightarrow> bool" where
  "ends_request d \<longleftrightarrow> opaque d \<noteq> None \<and> request_end d"

definition reqs :: "dma_desc list \<Rightarrow> nat list" where
  "reqs ds = map (\<lambda>d. the (opaque d)) (filter ends_request ds)"

lemma reqs_simps [simp]:
  "reqs [] = []"
  "reqs (d # ds) = (if ends_request d then the (opaque d) # reqs ds else reqs ds)"
  "reqs (ds @ es) = reqs ds @ reqs es"
  by (simp_all add: reqs_def)

lemma hw_done_keeps [simp]:
  "opaque (hw_done n sb d) = opaque d" "request_end (hw_done n sb d) = request_end d"
  "next_ix (hw_done n sb d) = next_ix d" "ends_request (hw_done n sb d) = ends_request d"
  "desc_done (hw_done n sb d)"
  "bd_ctrl (desc_bd (hw_done n sb d)) = bd_ctrl (desc_bd d)"
  "transfered_bytes (bd_stat (desc_bd (hw_done n sb d))) = n"
  by (simp_all add: hw_done_def ends_request_def desc_done_def)

lemma reqs_update:
  "opaque d = opaque (ds ! k) \<Longrightarrow> request_end d = request_end (ds ! k) \<Longrightarrow> reqs (ds[k := d]) = reqs ds"
proof (induction ds arbitrary: k)
  case (Cons x xs)
  then show ?case by (cases k) (auto simp: ends_request_def)
qed simp

lemma hw_complete_inflight:
  assumes "ring_inv ch" and "k < unat (ch_count ch)"
  shows "ring_inv (hw_complete k n sb ch)"
    "inflight (hw_complete k n sb ch) = (inflight ch)[k := hw_done n sb (inflight ch ! k)]"
    "ch_tx (hw_complete k n sb ch) = ch_tx ch"
    "room (hw_complete k n sb ch) = room ch"
proof -
  note r = ring_invD [OF assms(1)]
  let ?n = "length (desc_arr ch)"
  let ?i = "(ch_head ch + k) mod ?n"
  have k: "k < ?n" using assms(2) r(4) by simp
  show "ring_inv (hw_complete k n sb ch)"
    using r by (simp add: ring_inv_def hw_complete_def Let_def nth_list_update)
  have "?i \<noteq> (ch_head ch + j) mod ?n" if "j < unat (ch_count ch)" "j \<noteq> k" for j
    using mod_add_neq [of k ?n j "ch_head ch"] that k r(4) by simp
  then show "inflight (hw_complete k n sb ch) = (inflight ch)[k := hw_done n sb (inflight ch ! k)]"
    using r(1) assms(2)
    by (intro nth_equalityI) (auto simp: inflight_def hw_complete_def Let_def nth_list_update)
  show "ch_tx (hw_complete k n sb ch) = ch_tx ch" "room (hw_complete k n sb ch) = room ch"
    by (simp_all add: hw_complete_def Let_def room_def)
qed

lemma reqs_one_request:
  assumes "\<forall>d \<in> set ds. opaque d = Some ctx"
    and "map request_end ds = replicate n False @ [True]"
  shows "reqs ds = [ctx]"
  using assms
proof (induction ds arbitrary: n)
  case (Cons d ds)
  show ?case
  proof (cases n)
    case 0
    with Cons.prems show ?thesis by (simp add: ends_request_def)
  next
    case (Suc m)
    with Cons.prems Cons.IH [of m] show ?thesis by (simp add: ends_request_def)
  qed
qed simp

lemma posted_request:
  "posted is_tx sb ctx is_first iovs ds \<Longrightarrow> iovs \<noteq> [] \<Longrightarrow>
   (\<forall>d \<in> set ds. opaque d = Some ctx \<and> \<not> desc_done d)
   \<and> map request_end ds = replicate (length iovs - 1) False @ [True]"
proof (induction iovs arbitrary: is_first ds)
  case (Cons v vs)
  then obtain d ds' where ds: "ds = d # ds'" "posted_desc is_tx sb ctx is_first (vs = []) v d"
    "posted is_tx sb ctx False vs ds'" by (cases ds) auto
  show ?case
  proof (cases vs)
    case Nil
    with ds show ?thesis by (simp add: posted_desc_def desc_done_def)
  next
    case (Cons w ws)
    with Cons.IH [OF ds(3)] ds show ?thesis by (simp add: posted_desc_def desc_done_def)
  qed
qed simp

lemma seg_frames_request:
  "list_all2 (seg_frame ctx t) fs ds \<Longrightarrow> \<forall>d \<in> set ds. opaque d = Some ctx"
  by (induction rule: list_all2_induct) (auto simp: seg_frame_def)

section \<open>Polling takes the oldest request\<close>

lemma poll_loop_reqs:
  assumes "poll_loop fuel now ch ios = Inr (r, ch', ios')" and "ring_inv ch" and "inflight ch \<noteq> []"
  shows "reqs (inflight ch) = (case r of None \<Rightarrow> [] | Some p \<Rightarrow> [p]) @ reqs (inflight ch')
     \<and> dom ios' = dom ios"
  using assms
proof (induction fuel arbitrary: ch ios)
  case (Suc fuel)
  then obtain d ds where i: "inflight ch = d # ds" by (cases "inflight ch") auto
  note step = poll_loop_step [OF Suc.prems(2) i, of fuel now ios]
  note p1 = ring_pop_inflight(1,2) [OF Suc.prems(2) i, of d, simplified]
  note p2 = ring_pop_inflight(1,2) [OF Suc.prems(2) i, of "cleared d", simplified]
  show ?case
  proof (cases "desc_done d")
    case False
    with step Suc.prems(1) i show ?thesis by auto
  next
    case True
    show ?thesis
    proof (cases "opaque d")
      case None
      with step True Suc.prems(1) i p1 Suc.IH [of "ring_pop d ch" ios] show ?thesis
        by (auto simp: ends_request_def split: if_splits)
    next
      case (Some p)
      from step True Some Suc.prems(1) obtain io where io: "ios p = Some io"
        by (cases "ios p") (simp_all add: deref_def)
      have dom: "dom (ios(p \<mapsto> x)) = dom ios" for x using io by auto
      show ?thesis
      proof (cases "request_end d \<or> ds = []")
        case True
        with step \<open>desc_done d\<close> Some io Suc.prems(1) i p2 dom show ?thesis
          by (cases "request_end d") (simp_all add: ends_request_def Let_def, auto)
      next
        case False
        with step \<open>desc_done d\<close> Some io Suc.prems(1)
        have run: "poll_loop fuel now (ring_pop (cleared d) ch)
            (ios(p \<mapsto> complete_io now (desc_bd d) io)) = Inr (r, ch', ios')"
          by (simp add: Let_def)
        from Suc.IH [OF run p2(1)] False p2(2) i dom [unfolded fun_upd_def]
        show ?thesis by (simp add: ends_request_def)
      qed
    qed
  qed
qed simp

lemma poll_complete_reqs:
  assumes "rte_axi_dma_poll_complete now ch ios = Inr (r, ch', ios')" and "ring_inv ch"
  shows "reqs (inflight ch) = (case r of None \<Rightarrow> [] | Some p \<Rightarrow> [p]) @ reqs (inflight ch')
     \<and> dom ios' = dom ios"
  using assms poll_loop_reqs [of _ now ch ios r ch' ios'] channel_empty_iff [OF assms(2)]
  by (auto simp: rte_axi_dma_poll_complete_def split: if_splits)

lemma poll_complete_total:
  assumes "ring_inv ch" and "ios_live ch ios"
  shows "\<exists>r ch' ios' k. rte_axi_dma_poll_complete now ch ios = Inr (r, ch', ios') \<and> ring_inv ch'
     \<and> inflight ch' = drop k (inflight ch) \<and> (\<forall>d \<in> set (take k (inflight ch)). desc_done d)
     \<and> (r = None \<longrightarrow> (k < length (inflight ch) \<longrightarrow> \<not> desc_done (inflight ch ! k)))"
proof (cases "inflight ch = []")
  case True
  with assms channel_empty_iff [OF assms(1)] show ?thesis
    by (simp add: rte_axi_dma_poll_complete_def)
next
  case False
  have "length (inflight ch) < Suc (length (desc_arr ch))"
    using ring_invD(4) [OF assms(1)] by simp
  from poll_loop_total [OF assms this False, of now] False channel_empty_iff [OF assms(1)]
  show ?thesis by (auto simp: rte_axi_dma_poll_complete_def)
qed

lemma ios_live_mono:
  "ios_live ch ios \<Longrightarrow> set (inflight ch') \<subseteq> set (inflight ch) \<Longrightarrow> dom ios \<subseteq> dom ios' \<Longrightarrow> ios_live ch' ios'"
  unfolding ios_live_def by (blast intro: domI)

section \<open>Runs of a channel\<close>

text \<open>\<open>ring_run ch ios subs rets\<close>: a channel created with \<open>n\<close> descriptors has reached state \<open>ch\<close>
  after the IO objects \<open>subs\<close> were submitted and \<open>rets\<close> were returned, both in order.  The client
  keeps the room guard the driver does not check, and never submits more than fits.\<close>

inductive ring_run :: "dma_channel \<Rightarrow> io_store \<Rightarrow> nat list \<Rightarrow> nat list \<Rightarrow> bool" where
  run_create: "ch_count ch0 = 0 \<Longrightarrow> 0 < n \<Longrightarrow> n < 2 ^ 32 \<Longrightarrow>
    ring_run (created_channel iova ring is_tx i n ch0) ios [] []"
| run_client: "ring_run ch ios subs rets \<Longrightarrow> ring_run ch (ios(p \<mapsto> io)) subs rets"
| run_submit: "ring_run ch ios subs rets \<Longrightarrow> ctx \<in> dom ios \<Longrightarrow> iovs \<noteq> [] \<Longrightarrow> length iovs \<le> room ch \<Longrightarrow>
    \<forall>v \<in> set iovs. \<not> too_large v \<Longrightarrow>
    rte_axi_dma_add_buffer now ch ios iovs ctx = Inr (rc, ch', ios') \<Longrightarrow>
    ring_run ch' ios' (subs @ [ctx]) rets"
| run_seg: "ring_run ch ios subs rets \<Longrightarrow> ctx \<in> dom ios \<Longrightarrow> ch_tx ch \<Longrightarrow> iovs \<noteq> [] \<Longrightarrow>
    length iovs + (if last_data then 1 else 0) \<le> room ch \<Longrightarrow> \<forall>v \<in> set iovs. \<not> too_large v \<Longrightarrow>
    rte_axi_dma_send_seg iova now ch ios iovs ctx last_data = Inr (rc, ch', ios') \<Longrightarrow>
    ring_run ch' ios' (subs @ [ctx]) rets"
| run_engine: "ring_run ch ios subs rets \<Longrightarrow> k < unat (ch_count ch) \<Longrightarrow>
    ring_run (hw_complete k n sb ch) ios subs rets"
| run_poll: "ring_run ch ios subs rets \<Longrightarrow>
    rte_axi_dma_poll_complete now ch ios = Inr (r, ch', ios') \<Longrightarrow>
    ring_run ch' ios' subs (rets @ (case r of None \<Rightarrow> [] | Some p \<Rightarrow> [p]))"

lemma created_channel_inv:
  assumes "ch_count ch0 = 0" and "0 < n" and "n < 2 ^ 32"
  shows "ring_inv (created_channel iova ring is_tx i n ch0)"
    "inflight (created_channel iova ring is_tx i n ch0) = []"
    "room (created_channel iova ring is_tx i n ch0) = n"
  using assms
  by (simp_all add: ring_inv_def created_channel_def init_descs_def init_desc_def Let_def
      inflight_def room_def)

lemma add_buffer_ok:
  assumes "ring_inv ch" and "iovs \<noteq> []" and "length iovs \<le> room ch"
    and "\<forall>v \<in> set iovs. \<not> too_large v" and "ios ctx = Some io"
  shows "\<exists>ch' ds. rte_axi_dma_add_buffer now ch ios iovs ctx
       = Inr (0, ch', ios(ctx \<mapsto> io\<lparr>io_start := now\<rparr>))
     \<and> ring_inv ch' \<and> inflight ch' = inflight ch @ ds \<and> ch_tx ch' = ch_tx ch
     \<and> posted (ch_tx ch) (io_sideband io) ctx True iovs ds
     \<and> taildesc_lsb (ch_regs ch') = bd_phys_lsb (last ds)
     \<and> taildesc_msb (ch_regs ch') = bd_phys_msb (last ds)"
proof -
  have "0 < room ch" using assms(2,3) by (cases iovs) auto
  then have nf: "\<not> channel_full ch" by (simp add: channel_full_iff [OF assms(1)])
  from add_buffer_loop_ok [OF assms(1,3,4), of True ctx "io_sideband io"]
  obtain ch' ds where 1: "add_buffer_loop True iovs ctx (io_sideband io) ch = Inr (0, ch')"
    "ring_inv ch'" "inflight ch' = inflight ch @ ds" "ch_tx ch' = ch_tx ch"
    "posted (ch_tx ch) (io_sideband io) ctx True iovs ds"
    "taildesc_lsb (ch_regs ch') = bd_phys_lsb (last ds)"
    "taildesc_msb (ch_regs ch') = bd_phys_msb (last ds)" using assms(2) by auto
  have "rte_axi_dma_add_buffer now ch ios iovs ctx = Inr (0, ch', ios(ctx \<mapsto> io\<lparr>io_start := now\<rparr>))"
    using nf assms(5) 1(1) by (simp add: rte_axi_dma_add_buffer_def)
  with 1 show ?thesis by auto
qed

lemma ios_live_append:
  assumes "ios_live ch ios" and "inflight ch' = inflight ch @ ds"
    and "\<forall>d \<in> set ds. opaque d = Some ctx" and "dom ios' = insert ctx (dom ios)"
  shows "ios_live ch' ios'"
proof -
  have "p \<in> dom ios'" if "d \<in> set (inflight ch')" "opaque d = Some p" for d p
    using assms that by (auto simp: ios_live_def)
  then show ?thesis by (auto simp: ios_live_def)
qed

lemma ring_run_inv:
  assumes "ring_run ch ios subs rets"
  shows "ring_inv ch \<and> ios_live ch ios \<and> subs = rets @ reqs (inflight ch)"
  using assms
proof (induction rule: ring_run.induct)
  case (run_create ch0 n iova ring is_tx i ios)
  then show ?case using created_channel_inv [of ch0 n iova ring is_tx i]
    by (simp add: ios_live_def)
next
  case (run_client ch ios subs rets p io)
  then show ?case by (auto simp: ios_live_def)
next
  case (run_submit ch ios subs rets ctx iovs now rc ch' ios')
  then obtain io where io: "ios ctx = Some io" by auto
  from run_submit add_buffer_ok [of ch iovs ios ctx io now, OF _ _ _ _ io] obtain ds where
    1: "ios' = ios(ctx \<mapsto> io\<lparr>io_start := now\<rparr>)" "ring_inv ch'" "inflight ch' = inflight ch @ ds"
      "posted (ch_tx ch) (io_sideband io) ctx True iovs ds" by auto
  note q = posted_request [OF 1(4) run_submit(3)]
  then have "reqs ds = [ctx]" by (blast intro: reqs_one_request)
  moreover have "ios_live ch' ios'"
    using ios_live_append [of ch ios ch' ds ctx ios'] run_submit.IH 1 q by simp
  ultimately show ?case using 1(2,3) run_submit.IH by simp
next
  case (run_seg ch ios subs rets ctx iovs last_data iova now rc ch' ios')
  then obtain io where io: "ios ctx = Some io" by auto
  have len: "length (seg_frames iovs (tuser (io_sideband io)) last_data) \<le> room ch"
    using run_seg.hyps(5) by (simp add: seg_frames_def split: if_splits)
  from run_seg send_seg_ok [of ch iovs io last_data ios ctx iova now, OF _ _ _ _ len io]
  obtain ds io' where
    1: "ios' = ios(ctx \<mapsto> io')" "ring_inv ch'" "inflight ch' = inflight ch @ ds"
      "list_all2 (seg_frame ctx (tid (io_sideband io)))
         (seg_frames iovs (tuser (io_sideband io)) last_data) ds"
      "map request_end ds = replicate (length ds - 1) False @ [True]" by auto
  note q = seg_frames_request [OF 1(4)]
  then have "reqs ds = [ctx]" using 1(5) by (blast intro: reqs_one_request)
  moreover have "ios_live ch' ios'"
    using ios_live_append [of ch ios ch' ds ctx ios'] run_seg.IH 1 q by simp
  ultimately show ?case using 1(2,3) run_seg.IH by simp
next
  case (run_engine ch ios subs rets k n sb)
  then have inv: "ring_inv ch" by simp
  note h = hw_complete_inflight [OF inv run_engine.hyps(2), of n sb]
  have "\<forall>d \<in> set (inflight (hw_complete k n sb ch)). \<exists>e \<in> set (inflight ch). opaque d = opaque e"
    unfolding h(2) using run_engine.hyps(2) by (auto dest!: subsetD [OF set_update_subset_insert])
  then have "ios_live (hw_complete k n sb ch) ios"
    using run_engine.IH unfolding ios_live_def by metis
  then show ?case using h run_engine.IH by (simp add: reqs_update)
next
  case (run_poll ch ios subs rets now r ch' ios')
  then have inv: "ring_inv ch" "ios_live ch ios" by simp_all
  from poll_complete_total [OF inv, of now] run_poll.hyps(2) obtain k where
    1: "ring_inv ch'" "inflight ch' = drop k (inflight ch)" by auto
  from poll_complete_reqs [OF run_poll.hyps(2) inv(1)] have
    2: "reqs (inflight ch) = (case r of None \<Rightarrow> [] | Some p \<Rightarrow> [p]) @ reqs (inflight ch')"
      "dom ios' = dom ios" by simp_all
  have "ios_live ch' ios'"
    using ios_live_mono [OF inv(2)] 1(2) 2(2) set_drop_subset [of k "inflight ch"] by simp
  then show ?case using 1(1) 2(1) run_poll.IH by simp
qed

section \<open>The byte account of one request\<close>

text \<open>The engine completes the descriptors from position \<open>k\<close> on, one per byte count.\<close>

fun hw_complete_from :: "nat \<Rightarrow> 26 word list \<Rightarrow> sideband \<Rightarrow> dma_channel \<Rightarrow> dma_channel" where
  "hw_complete_from k [] sb ch = ch"
| "hw_complete_from k (b # bs) sb ch = hw_complete_from (Suc k) bs sb (hw_complete k b sb ch)"

lemma hw_complete_from_inflight:
  assumes "ring_inv ch" and "inflight ch = done @ ds" and "length bs = length ds"
  shows "ring_inv (hw_complete_from (length done) bs sb ch)
     \<and> inflight (hw_complete_from (length done) bs sb ch) = done @ map2 (\<lambda>b. hw_done b sb) bs ds
     \<and> ch_tx (hw_complete_from (length done) bs sb ch) = ch_tx ch"
  using assms
proof (induction bs arbitrary: ch "done" ds)
  case (Cons b bs)
  then obtain d es where ds: "ds = d # es" by (cases ds) auto
  have k: "length done < unat (ch_count ch)"
    using Cons.prems(2) ds length_inflight [of ch] by simp
  note h = hw_complete_inflight [OF Cons.prems(1) k, of b sb]
  have "inflight (hw_complete (length done) b sb ch) = (done @ [hw_done b sb d]) @ es"
    using h(2) Cons.prems(2) ds by simp
  from Cons.IH [OF h(1) this] Cons.prems(3) ds h(3) show ?case by simp
qed simp

lemma posted_lengths:
  "posted is_tx sb ctx is_first iovs ds \<Longrightarrow>
   length ds = length iovs \<and> map (\<lambda>d. bd_ctrl (desc_bd d) AND STS_LEN) ds = map (\<lambda>v. ucast (iov_len v)) iovs"
proof (induction iovs arbitrary: is_first ds)
  case (Cons v vs)
  then obtain d ds' where ds: "ds = d # ds'" "posted_desc is_tx sb ctx is_first (vs = []) v d"
    "posted is_tx sb ctx False vs ds'" by (cases ds) auto
  with Cons.IH [OF ds(3)] show ?case by (simp add: posted_desc_def)
qed simp

lemma missing_bytes:
  assumes "length bs = length ds"
  shows "(\<Sum>d \<leftarrow> map2 (\<lambda>b. hw_done b sb) bs ds.
        (bd_ctrl (desc_bd d) AND STS_LEN) - ucast (transfered_bytes (bd_stat (desc_bd d))))
     = (\<Sum>d \<leftarrow> ds. bd_ctrl (desc_bd d) AND STS_LEN) - (\<Sum>b \<leftarrow> bs. ucast b)"
  using assms
proof (induction bs arbitrary: ds)
  case (Cons b bs)
  then obtain d es where ds: "ds = d # es" by (cases ds) auto
  with Cons.prems Cons.IH [of es] show ?case by (simp add: algebra_simps)
qed simp

lemma last_split:
  assumes "\<forall>x \<in> set ds. opaque x = Some p" and "map request_end ds = replicate m False @ [True]"
  obtains es d where "ds = es @ [d]" "\<forall>x \<in> set es. opaque x = Some p \<and> \<not> request_end x"
    "opaque d = Some p" "request_end d"
proof -
  from assms(2) have ne: "ds \<noteq> []" by auto
  then have ds: "ds = butlast ds @ [last ds]" by simp
  from assms(2) ds have "map request_end (butlast ds) = replicate m False" "request_end (last ds)"
    by (metis butlast_snoc map_butlast, metis last_map last_snoc ne)
  then have "\<forall>x \<in> set (butlast ds). \<not> request_end x"
    by (metis (no_types, lifting) in_set_replicate list.set_map image_eqI)
  with that [of "butlast ds" "last ds"] assms(1) ds \<open>request_end (last ds)\<close> ne show ?thesis
    by (metis in_set_butlastD last_in_set)
qed

text \<open>What the engine does to a freshly posted request, and what one poll then returns.\<close>

lemma poll_posted_request:
  assumes "ring_inv ch" and "inflight ch = map2 (\<lambda>b. hw_done b sb) bs ds @ rest"
    and "length bs = length ds" and "posted is_tx sb' ctx True iovs ds" and "iovs \<noteq> []"
    and "ios ctx = Some io"
  shows "\<exists>ch' io'. rte_axi_dma_poll_complete now ch ios = Inr (Some ctx, ch', ios(ctx \<mapsto> io'))
     \<and> transfered_length io'
         = transfered_length io - (\<Sum>v \<leftarrow> iovs. ucast (iov_len v)) + (\<Sum>b \<leftarrow> bs. ucast b)
     \<and> transfered_bytes (io_status io') = ucast (transfered_length io')
     \<and> ring_inv ch' \<and> inflight ch' = rest"
proof -
  let ?hw = "map2 (\<lambda>b. hw_done b sb) bs ds"
  have op: "\<forall>x \<in> set ?hw. opaque x = Some ctx \<and> desc_done x"
    using posted_request [OF assms(4,5)] by (auto dest: set_zip_rightD)
  have "map request_end ?hw = map request_end ds"
    using assms(3) by (intro nth_equalityI) auto
  with posted_request [OF assms(4,5)] have re: "map request_end ?hw = replicate (length iovs - 1) False @ [True]"
    by simp
  obtain es d where split: "?hw = es @ [d]" "\<forall>x \<in> set es. opaque x = Some ctx \<and> \<not> request_end x"
    "opaque d = Some ctx" "request_end d"
    using last_split [OF _ re, of ctx] op by blast
  have es: "\<forall>x \<in> set es. opaque x = Some ctx \<and> desc_done x \<and> \<not> request_end x" and dd: "desc_done d"
    using op split(1,2) by simp_all
  have i: "inflight ch = es @ d # rest" using assms(2) split(1) by simp
  then have "length es < unat (ch_count ch)" using length_inflight [of ch] by simp
  then have "length es < Suc (length (desc_arr ch))" using ring_invD(4) [OF assms(1)] by simp
  from poll_loop_request_aux [where ios = ios and p = ctx and now = now,
      OF split(3) dd split(4) es assms(1) i assms(6) this]
  obtain ch' where
    1: "poll_loop (Suc (length (desc_arr ch))) now ch ios = Inr (Some ctx, ch',
        ios(ctx \<mapsto> finish_io (complete_all now ?hw io)))" "ring_inv ch'" "inflight ch' = rest"
    unfolding request_returned_def split(1) by blast
  have "rte_axi_dma_poll_complete now ch ios
      = Inr (Some ctx, ch', ios(ctx \<mapsto> finish_io (complete_all now ?hw io)))"
    using 1(1) channel_empty_iff [OF assms(1)] i by (simp add: rte_axi_dma_poll_complete_def)
  moreover have "transfered_length (finish_io (complete_all now ?hw io))
      = transfered_length io - (\<Sum>v \<leftarrow> iovs. ucast (iov_len v)) + (\<Sum>b \<leftarrow> bs. ucast b)"
    using complete_all_length [of now ?hw io] missing_bytes [OF assms(3), of sb]
      posted_lengths [OF assms(4)] by (simp add: finish_io_def)
  moreover have "transfered_bytes (io_status (finish_io (complete_all now ?hw io)))
      = ucast (transfered_length (finish_io (complete_all now ?hw io)))"
    by (simp add: finish_io_def)
  ultimately show ?thesis using 1(2,3) by blast
qed

lemma request_roundtrip:
  assumes "ring_inv ch" and "inflight ch = []" and "iovs \<noteq> []" and "length iovs \<le> room ch"
    and "\<forall>v \<in> set iovs. \<not> too_large v" and "ios ctx = Some io"
    and "transfered_length io = (\<Sum>v \<leftarrow> iovs. ucast (iov_len v))" and "length bs = length iovs"
  shows "\<exists>ch1 ios1 ch2 io2. rte_axi_dma_recv t0 ch ios iovs ctx = Inr (0, ch1, ios1)
     \<and> rte_axi_dma_poll_complete t1 (hw_complete_from 0 bs sb ch1) ios1
         = Inr (Some ctx, ch2, ios1(ctx \<mapsto> io2))
     \<and> transfered_length io2 = (\<Sum>b \<leftarrow> bs. ucast b)
     \<and> transfered_bytes (io_status io2) = ucast (transfered_length io2)
     \<and> ring_inv ch2 \<and> inflight ch2 = []"
proof -
  from add_buffer_ok [where ios = ios and ctx = ctx and now = t0, OF assms(1,3,4,5,6)] obtain ch1 ds where
    1: "rte_axi_dma_recv t0 ch ios iovs ctx = Inr (0, ch1, ios(ctx \<mapsto> io\<lparr>io_start := t0\<rparr>))"
    "ring_inv ch1" "inflight ch1 = ds" "posted (ch_tx ch) (io_sideband io) ctx True iovs ds"
    unfolding rte_axi_dma_recv_def assms(2) by auto
  have len: "length bs = length ds" using posted_lengths [OF 1(4)] assms(8) by simp
  from hw_complete_from_inflight [OF 1(2), of "[]" ds bs sb] 1(3) len
  have 2: "ring_inv (hw_complete_from 0 bs sb ch1)"
    "inflight (hw_complete_from 0 bs sb ch1) = map2 (\<lambda>b. hw_done b sb) bs ds @ []" by simp_all
  have 3: "(ios(ctx \<mapsto> io\<lparr>io_start := t0\<rparr>)) ctx = Some (io\<lparr>io_start := t0\<rparr>)" by simp
  from poll_posted_request [where ios = "ios(ctx \<mapsto> io\<lparr>io_start := t0\<rparr>)" and ctx = ctx and now = t1,
      OF 2 len 1(4) assms(3) 3] obtain ch2 io2 where
    4: "rte_axi_dma_poll_complete t1 (hw_complete_from 0 bs sb ch1) (ios(ctx \<mapsto> io\<lparr>io_start := t0\<rparr>))
      = Inr (Some ctx, ch2, (ios(ctx \<mapsto> io\<lparr>io_start := t0\<rparr>))(ctx \<mapsto> io2))"
    "transfered_length io2 = transfered_length (io\<lparr>io_start := t0\<rparr>)
       - (\<Sum>v \<leftarrow> iovs. ucast (iov_len v)) + (\<Sum>b \<leftarrow> bs. ucast b)"
    "transfered_bytes (io_status io2) = ucast (transfered_length io2)"
    "ring_inv ch2" "inflight ch2 = []" by blast
  from 4(2) assms(7) have "transfered_length io2 = (\<Sum>b \<leftarrow> bs. ucast b)" by simp
  with 1(1) 4(1,3-5) show ?thesis by blast
qed

section \<open>Error paths of submission\<close>

text \<open>The part of the invariant that survives an overrun: the links and the range of the tail.\<close>

definition ring_links :: "dma_channel \<Rightarrow> bool" where
  "ring_links ch \<longleftrightarrow> ch_tail ch < length (desc_arr ch)
     \<and> (\<forall>i < length (desc_arr ch). next_ix (desc_arr ch ! i) = Suc i mod length (desc_arr ch))"

lemma ring_inv_links: "ring_inv ch \<Longrightarrow> ring_links ch"
  using ring_invD(6,7) [of ch] by (simp add: ring_links_def)

lemma add_buffer_one_links:
  assumes "ring_links ch"
  shows "\<exists>ch'. add_buffer_one is_first is_last iov ctx sb ch = Inr ch' \<and> ring_links ch'
     \<and> ch_count ch' = ch_count ch + 1 \<and> length (desc_arr ch') = length (desc_arr ch)"
proof -
  have "Suc (ch_tail ch) mod length (desc_arr ch) < length (desc_arr ch)"
    using assms by (intro mod_less_divisor) (auto simp: ring_links_def)
  with assms show ?thesis
    by (auto simp: ring_links_def add_buffer_one_def Let_def ring_push_def nth_list_update
        set_taildesc_def)
qed

lemma add_buffer_loop_links:
  assumes "ring_links ch" and "\<forall>v \<in> set iovs. \<not> too_large v"
  shows "\<exists>ch'. add_buffer_loop is_first iovs ctx sb ch = Inr (0, ch')
     \<and> ch_count ch' = ch_count ch + of_nat (length iovs)
     \<and> length (desc_arr ch') = length (desc_arr ch)"
  using assms
proof (induction iovs arbitrary: ch is_first)
  case (Cons v vs)
  from add_buffer_one_links [OF Cons.prems(1), of is_first "vs = []" v ctx sb]
  obtain ch1 where 1: "add_buffer_one is_first (vs = []) v ctx sb ch = Inr ch1" "ring_links ch1"
    "ch_count ch1 = ch_count ch + 1" "length (desc_arr ch1) = length (desc_arr ch)" by blast
  from Cons.IH [OF 1(2), of False] Cons.prems(2) obtain ch' where
    2: "add_buffer_loop False vs ctx sb ch1 = Inr (0, ch')"
    "ch_count ch' = ch_count ch1 + of_nat (length vs)" "length (desc_arr ch') = length (desc_arr ch1)"
    by auto
  show ?case using 1 2 Cons.prems(2) by (intro exI [of _ ch']) simp
qed simp

text \<open>What a submission writes, whether it fits or not: from the tail on, one descriptor after the other, around the
  ring.  A descriptor that is written belongs to the new request, and holds the buffer that was written last.\<close>

definition holds_buffer :: "nat \<Rightarrow> dma_iovec \<Rightarrow> dma_desc \<Rightarrow> bool" where
  "holds_buffer ctx v d \<longleftrightarrow> opaque d = Some ctx \<and> buf_addr (desc_bd d) = lo32 (paddr v) \<and> buf_addr_msb (desc_bd d) = hi32 (paddr v)"

lemma add_buffer_one_writes:
  assumes "ring_links ch" and "add_buffer_one is_first is_last v ctx sb ch = Inr ch'"
  shows "holds_buffer ctx v (desc_arr ch' ! ch_tail ch)" "\<forall>s. s \<noteq> ch_tail ch \<longrightarrow> desc_arr ch' ! s = desc_arr ch ! s"
    "ch_tail ch' = Suc (ch_tail ch) mod length (desc_arr ch)" "ch_head ch' = ch_head ch" "length (desc_arr ch') = length (desc_arr ch)"
  using assms by (auto simp: ring_links_def add_buffer_one_def Let_def ring_push_def holds_buffer_def add_buffer_bd_def set_taildesc_def)

lemma suc_mod_add: "(Suc a mod n + k) mod n = (a + Suc k) mod (n :: nat)"
  by (simp add: mod_add_left_eq)

lemma add_buffer_loop_writes:
  assumes "ring_links ch" and "\<forall>v \<in> set iovs. \<not> too_large v" and "add_buffer_loop is_first iovs ctx sb ch = Inr (0, ch')"
    and "n = length (desc_arr ch)"
  shows "ch_head ch' = ch_head ch \<and> (\<forall>s. (\<forall>k < length iovs. (ch_tail ch + k) mod n \<noteq> s) \<longrightarrow> desc_arr ch' ! s = desc_arr ch ! s)
     \<and> (\<forall>k < length iovs. opaque (desc_arr ch' ! ((ch_tail ch + k) mod n)) = Some ctx
       \<and> (length iovs \<le> n + k \<longrightarrow> holds_buffer ctx (iovs ! k) (desc_arr ch' ! ((ch_tail ch + k) mod n))))"
  using assms
proof (induction iovs arbitrary: ch is_first)
  case (Cons v vs)
  note links = Cons.prems(1) and small = Cons.prems(2) and run = Cons.prems(3) and n = Cons.prems(4)
  from add_buffer_one_links [OF links, of is_first "vs = []" v ctx sb] obtain ch1 where
      1: "add_buffer_one is_first (vs = []) v ctx sb ch = Inr ch1" "ring_links ch1" by blast
    note w = add_buffer_one_writes [OF links 1(1)]
    have r: "add_buffer_loop False vs ctx sb ch1 = Inr (0, ch')" using run 1(1) small by simp
    have s: "\<forall>w \<in> set vs. \<not> too_large w" and n1: "n = length (desc_arr ch1)" using small n w(5) by simp_all
    note ih = Cons.IH [OF 1(2) s r n1, THEN conjunct1] Cons.IH [OF 1(2) s r n1, THEN conjunct2, THEN conjunct1]
      Cons.IH [OF 1(2) s r n1, THEN conjunct2, THEN conjunct2]
    have tail: "ch_tail ch < n" "(ch_tail ch1 + k) mod n = (ch_tail ch + Suc k) mod n" for k
      using links w(3) n by (simp_all add: ring_links_def suc_mod_add)
  show ?case
    proof (intro conjI allI impI)
      show "ch_head ch' = ch_head ch" using ih(1) w(4) by simp
    next
      fix s
      assume out: "\<forall>k < length (v # vs). (ch_tail ch + k) mod n \<noteq> s"
      then have "s \<noteq> ch_tail ch" using tail(1) by (auto dest: spec [of _ 0])
      moreover have "\<forall>k < length vs. (ch_tail ch1 + k) mod n \<noteq> s" using out unfolding tail(2) by auto
      ultimately show "desc_arr ch' ! s = desc_arr ch ! s" using ih(2) w(2) by simp
    next
      fix k
      assume k: "k < length (v # vs)"
      have head: "opaque (desc_arr ch' ! ch_tail ch) = Some ctx
          \<and> (length (v # vs) \<le> n \<longrightarrow> holds_buffer ctx v (desc_arr ch' ! ch_tail ch))"
      proof (cases "\<exists>j < length vs. (ch_tail ch1 + j) mod n = ch_tail ch")
        case True
        then obtain j where j: "j < length vs" "(ch_tail ch + Suc j) mod n = ch_tail ch" unfolding tail(2) by blast
        have "n \<le> Suc j"
        proof (rule ccontr)
          assume "\<not> n \<le> Suc j"
          moreover from this have "(ch_tail ch + Suc j) mod n = ch_tail ch + Suc j - n" if "\<not> ch_tail ch + Suc j < n"
            using that tail(1) by (simp add: le_mod_geq)
          ultimately show False using j(2) tail(1) by (cases "ch_tail ch + Suc j < n") auto
        qed
        then show ?thesis using ih(3) j unfolding tail(2) by fastforce
      next
        case False
        then have "desc_arr ch' ! ch_tail ch = desc_arr ch1 ! ch_tail ch" using ih(2) by blast
        then show ?thesis using w(1) by (simp add: holds_buffer_def)
      qed
      show "opaque (desc_arr ch' ! ((ch_tail ch + k) mod n)) = Some ctx"
        using head ih(3) k tail by (cases k) auto
      assume "length (v # vs) \<le> n + k"
      then show "holds_buffer ctx ((v # vs) ! k) (desc_arr ch' ! ((ch_tail ch + k) mod n))"
        using head ih(3) k tail by (cases k) auto
    qed
qed simp

text \<open>One submission that stops at an oversize buffer: everything before it stays queued.\<close>

lemma add_buffer_loop_oversize:
  assumes "ring_inv ch" and "length pre \<le> room ch" and "\<forall>v \<in> set pre. \<not> too_large v"
    and "too_large v"
  shows "\<exists>ch' ds. add_buffer_loop is_first (pre @ v # post) ctx sb ch = Inr (- 1, ch')
     \<and> ring_inv ch' \<and> inflight ch' = inflight ch @ ds \<and> length ds = length pre
     \<and> (\<forall>d \<in> set ds. opaque d = Some ctx \<and> \<not> request_end d) \<and> ch_regs ch' = ch_regs ch"
  using assms
proof (induction pre arbitrary: ch is_first)
  case Nil
  then show ?case by simp
next
  case (Cons w ws)
  from Cons.prems add_buffer_one_ok [of ch w is_first False ctx sb]
  obtain ch1 d where 1: "add_buffer_one is_first False w ctx sb ch = Inr ch1" "ring_inv ch1"
    "inflight ch1 = inflight ch @ [d]" "posted_desc (ch_tx ch) sb ctx is_first False w d"
    "room ch1 = room ch - 1" by auto
  have regs: "ch_regs ch1 = ch_regs ch"
    using 1(1) ring_invD(6) [OF Cons.prems(1)] by (auto simp: add_buffer_one_def Let_def ring_push_def)
  from Cons.prems(2) 1(5) have rm: "length ws \<le> room ch1" by simp
  from Cons.IH [OF 1(2) rm _ Cons.prems(4), of False] Cons.prems(3) obtain ch' ds where
    2: "add_buffer_loop False (ws @ v # post) ctx sb ch1 = Inr (- 1, ch')" "ring_inv ch'"
    "inflight ch' = inflight ch1 @ ds" "length ds = length ws"
    "\<forall>d \<in> set ds. opaque d = Some ctx \<and> \<not> request_end d" "ch_regs ch' = ch_regs ch1" by auto
  show ?case using 1 2 Cons.prems(3) regs
    by (intro exI [of _ ch'] exI [of _ "d # ds"]) (simp add: posted_desc_def)
qed

section \<open>Channel control\<close>

lemma BIT_bit: "k < 32 \<Longrightarrow> bit (BIT k) j = (j = k)"
  by (auto simp: BIT_def bit_simps)

lemma upd_common_other [simp]:
  "common_of t (upd_common t f dev) = f (common_of t dev)"
  "common_of (\<not> t) (upd_common t f dev) = common_of (\<not> t) dev"
  "common_of False (upd_common True f dev) = common_of False dev"
  "common_of True (upd_common False f dev) = common_of True dev"
  "chs_of s (upd_common t f dev) = chs_of s dev"
  "lock_held (upd_common t f dev) = lock_held dev"
  by (simp_all add: upd_common_def common_of_def chs_of_def)

lemma set_ch_simps [simp]:
  "chs_of t (set_ch t i ch dev) = (chs_of t dev)[i := ch]"
  "length (chs_of s (set_ch t i ch dev)) = length (chs_of s dev)"
  "lock_held (set_ch t i ch dev) = lock_held dev"
  "common_of s (set_ch t i ch dev) = common_of s dev"
  by (simp_all add: set_ch_def chs_of_def common_of_def)

definition idle_reads :: "u32 list \<Rightarrow> nat" where
  "idle_reads vs = length (filter (\<lambda>v. v AND BIT 2 \<noteq> 0) vs)"

lemma wait_idle_ok: "0 < idle_reads vs \<Longrightarrow> \<exists>vs'. wait_idle vs = Inr vs' \<and> idle_reads vs' = idle_reads vs - 1"
  by (induction vs) (auto simp: idle_reads_def)

lemma rewound_ring:
  assumes "ring_links ch" and "length (desc_arr ch) < 2 ^ 32"
  shows "ring_inv (rewind_ring ch)" "inflight (rewind_ring ch) = []"
  using assms by (auto simp: ring_inv_def rewind_ring_def ring_links_def Let_def inflight_def)

lemma ring_control_simps [simp]:
  "ring_inv (set_cr v ch) = ring_inv ch" "inflight (set_cr v ch) = inflight ch"
  "ring_inv (set_curdesc l m ch) = ring_inv ch" "inflight (set_curdesc l m ch) = inflight ch"
  "ring_links (set_cr v ch) = ring_links ch" "desc_arr (set_cr v ch) = desc_arr ch"
  "ch_tx (set_cr v ch) = ch_tx ch" "ch_id (set_cr v ch) = ch_id ch"
  "ch_tx (set_curdesc l m ch) = ch_tx ch" "ch_id (set_curdesc l m ch) = ch_id ch"
  "ch_tx (rewind_ring ch) = ch_tx ch" "ch_id (rewind_ring ch) = ch_id ch"
  "desc_arr (rewind_ring ch) = desc_arr ch" "desc_arr (set_curdesc l m ch) = desc_arr ch"
  by (simp_all add: set_cr_def set_curdesc_def rewind_ring_def ring_inv_def inflight_def ring_links_def)

lemma enable_channel_ok:
  assumes "ring_links ch" and "length (desc_arr ch) < 2 ^ 32" and "2 \<le> idle_reads reads"
  shows "\<exists>dev' ch'. rte_axi_dma_enable_channel iova reads dev ch = Inr (dev', ch')
     \<and> ring_inv ch' \<and> inflight ch' = [] \<and> length (desc_arr ch') = length (desc_arr ch)
     \<and> reg_chen (common_of (ch_tx ch) dev')
         = reg_chen (common_of (ch_tx ch) dev) OR BIT (unat (ch_id ch))
     \<and> common_of (\<not> ch_tx ch) dev' = common_of (\<not> ch_tx ch) dev"
proof -
  obtain r1 where r1: "wait_idle reads = Inr r1" "1 \<le> idle_reads r1"
    using wait_idle_ok [of reads] assms(3) by auto
  then obtain r2 where r2: "wait_idle r1 = Inr r2" using wait_idle_ok [of r1] by auto
  have n0: "0 < length (desc_arr ch)" using assms(1) by (auto simp: ring_links_def)
  consider (idle) "ch_head ch = ch_tail ch \<and> ch_count ch = 0
      \<and> curdesc_lsb (ch_regs ch) = taildesc_lsb (ch_regs ch)"
    | (tx) "\<not> (ch_head ch = ch_tail ch \<and> ch_count ch = 0
      \<and> curdesc_lsb (ch_regs ch) = taildesc_lsb (ch_regs ch))" "ch_tx ch"
    | (rx) "\<not> (ch_head ch = ch_tail ch \<and> ch_count ch = 0
      \<and> curdesc_lsb (ch_regs ch) = taildesc_lsb (ch_regs ch))" "\<not> ch_tx ch" by blast
  then show ?thesis
  proof cases
    case idle
    then have "ring_inv ch" "inflight ch = []" using assms(1,2) n0
      by (simp_all add: ring_inv_def ring_links_def Let_def inflight_def)
    with idle show ?thesis by (simp add: rte_axi_dma_enable_channel_def enable_bit_def)
  next
    case tx
    let ?c = "rewind_ring (set_cr 0x10000 (set_cr 0x10004 ch))"
    have c: "ring_inv ?c" "inflight ?c = []" using assms(1,2) rewound_ring by simp_all
    have upd: "ring_inv (?c\<lparr>desc_arr := (desc_arr ?c)[0 := d]\<rparr>)"
      "inflight (?c\<lparr>desc_arr := (desc_arr ?c)[0 := d]\<rparr>) = []"
      if "next_ix d = next_ix (desc_arr ch ! 0)" for d
      using c that n0 by (simp_all add: ring_inv_def Let_def nth_list_update inflight_def rewind_ring_def)
    show ?thesis
      using tx r1(1) r2 n0 upd assms(1,2)
      by (simp add: rte_axi_dma_enable_channel_def enable_tx_restart_def Let_def enable_bit_def
          set_cr_def set_curdesc_def rewind_ring_def set_taildesc_def
          ring_inv_def inflight_def nth_list_update ring_links_def)
  next
    case rx
    let ?c = "rewind_ring (set_cr 0x10100 (set_cr 0x10104 ch))"
    have c: "ring_inv ?c" "inflight ?c = []" using assms(1,2) rewound_ring by simp_all
    with rx r1(1) show ?thesis
      by (auto simp: rte_axi_dma_enable_channel_def enable_rx_restart_def Let_def enable_bit_def)
  qed
qed

section \<open>An example channel\<close>

definition blank_channel :: dma_channel where
  "blank_channel = \<lparr>desc_arr = [], bd_ring = 0, ch_head = 0, ch_tail = 0, ch_count = 0,
     ch_tx = False, ch_id = 0, ch_regs = \<lparr>reg_cr = 0, reg_sr = 0, curdesc_lsb = 0, curdesc_msb = 0,
       taildesc_lsb = 0, taildesc_msb = 0, pktdrop_stat = 0, pktcount_stat = 0\<rparr>\<rparr>"

definition ring4 :: "bool \<Rightarrow> dma_channel" where
  "ring4 is_tx = created_channel (\<lambda>v. v) 0x1000 is_tx 2 4 blank_channel"

definition io_of_length :: "u32 \<Rightarrow> dma_io" where
  "io_of_length len = \<lparr>io_start = 0, io_end = 0, io_sideband = \<lparr>tuser = 5, mid = 0, tid = 9\<rparr>,
     io_status = bd_stat zero_bd, transfered_length = len\<rparr>"

definition two_buffers :: "dma_iovec list" where
  "two_buffers = [\<lparr>iov_base = 0, iov_len = 4096, paddr = 0x100002000\<rparr>,
                  \<lparr>iov_base = 0, iov_len = 512, paddr = 0x4000\<rparr>]"

definition huge_buffer :: dma_iovec where
  "huge_buffer = \<lparr>iov_base = 0, iov_len = 0x4000000, paddr = 0x8000\<rparr>"

lemma ring4_facts:
  "ring_inv (ring4 t)" "inflight (ring4 t) = []" "room (ring4 t) = 4" "ch_tx (ring4 t) = t"
  "ring_links (ring4 t)" "length (desc_arr (ring4 t)) = 4" "ch_count (ring4 t) = 0"
proof -
  have c: "ch_count blank_channel = 0" by (simp add: blank_channel_def)
  show inv: "ring_inv (ring4 t)" and "inflight (ring4 t) = []" "room (ring4 t) = 4"
    unfolding ring4_def by (rule created_channel_inv [OF c]; simp)+
  show "ring_links (ring4 t)" by (rule ring_inv_links [OF inv])
  show "ch_tx (ring4 t) = t" "length (desc_arr (ring4 t)) = 4" "ch_count (ring4 t) = 0"
    using c by (simp_all add: ring4_def created_channel_def Let_def init_descs_def)
qed

lemma two_buffers_facts:
  "two_buffers \<noteq> []" "length two_buffers = 2" "\<forall>v \<in> set two_buffers. \<not> too_large v"
  "(\<Sum>v \<leftarrow> two_buffers. ucast (iov_len v)) = (4608 :: u32)" "too_large huge_buffer"
  by (simp_all add: two_buffers_def too_large_def huge_buffer_def)

section \<open>Properties of a channel\<close>

text \<open>C6. In every run of a channel that keeps to the room of its ring, whatever the order in which
  the engine completes descriptors, the IO objects come back from \<^verbatim>\<open>rte_axi_dma_poll_complete\<close> in the
  order of submission, none is lost and none is returned twice: the submitted sequence is the
  returned sequence followed by the requests still in flight.  The ring stays well-formed and a
  further poll always returns, without a fault and within the loop bound.\<close>

theorem ring_run_fifo:
  assumes "ring_run ch ios subs rets"
  shows "subs = rets @ reqs (inflight ch) \<and> ring_inv ch
     \<and> (\<exists>r ch' ios'. rte_axi_dma_poll_complete now ch ios = Inr (r, ch', ios'))"
  using ring_run_inv [OF assms] poll_complete_total [of ch ios now] by blast

lemma ring4_run:
  "\<exists>ch ios. ring_run ch ios [7] [7]"
proof -
  let ?ios = "[7 \<mapsto> io_of_length 4608] :: io_store" and ?sb = "\<lparr>tuser = 5, mid = 0, tid = 9\<rparr>"
  have 0: "ring_run (ring4 False) ?ios [] []"
    unfolding ring4_def by (rule run_create) (simp_all add: blank_channel_def)
  from request_roundtrip [OF ring4_facts(1,2) two_buffers_facts(1) _ two_buffers_facts(3),
      of False ?ios 7 "io_of_length 4608" "[4096, 100]" 3 9 ?sb]
  obtain ch1 ios1 ch2 io2 where
    1: "rte_axi_dma_recv 3 (ring4 False) ?ios two_buffers 7 = Inr (0, ch1, ios1)"
    and 2: "rte_axi_dma_poll_complete 9 (hw_complete_from 0 [4096, 100] ?sb ch1) ios1
       = Inr (Some 7, ch2, ios1(7 \<mapsto> io2))"
    by (auto simp: ring4_facts two_buffers_facts io_of_length_def)
  have 3: "ring_run ch1 ios1 ([] @ [7]) []"
    using 1 by (intro run_submit [OF 0 _ two_buffers_facts(1) _ two_buffers_facts(3)])
      (auto simp: rte_axi_dma_recv_def ring4_facts two_buffers_facts)
  have c: "2 \<le> unat (ch_count ch1)"
    using add_buffer_loop_links [OF ring4_facts(5) two_buffers_facts(3), of True 7 ?sb False]
      1 channel_full_iff [OF ring4_facts(1), of False]
    by (auto simp: rte_axi_dma_recv_def rte_axi_dma_add_buffer_def io_of_length_def ring4_facts
        two_buffers_facts)
  have "ring_run (hw_complete 1 100 ?sb (hw_complete 0 4096 ?sb ch1)) ios1 ([] @ [7]) []"
    using c by (intro run_engine 3) (auto simp: hw_complete_def Let_def)
  from run_poll [OF this, of 9 "Some 7" ch2 "ios1(7 \<mapsto> io2)"] 2
  have "ring_run ch2 (ios1(7 \<mapsto> io2)) [7] [7]" by simp
  then show ?thesis by blast
qed

theorem ring_run_fifo_witness:
  "\<exists>ch ios. ring_run ch ios [7] [7] \<and> reqs (inflight ch) = [] \<and> ring_inv ch"
proof -
  obtain ch ios where r: "ring_run ch ios [7] [7]" using ring4_run by blast
  from ring_run_fifo [OF r, of 0] r show ?thesis by (intro exI [of _ ch] exI [of _ ios]) simp
qed

text \<open>C26. A submission that fits the ring queues exactly one descriptor per buffer behind those in
  flight.  Each points at its buffer, carries the buffer's length, is open, and belongs to the
  given IO object; only the last one ends the request, the transmit flags mark the first and the
  last, and the tail register of the engine is moved to the last one.\<close>

theorem rte_axi_dma_add_buffer_posts:
  assumes "ring_inv ch" and "iovs \<noteq> []" and "length iovs \<le> room ch"
    and "\<forall>v \<in> set iovs. \<not> too_large v" and "ios ctx = Some io"
  shows "\<exists>ch' ds. rte_axi_dma_add_buffer now ch ios iovs ctx
       = Inr (0, ch', ios(ctx \<mapsto> io\<lparr>io_start := now\<rparr>))
     \<and> ring_inv ch' \<and> inflight ch' = inflight ch @ ds
     \<and> posted (ch_tx ch) (io_sideband io) ctx True iovs ds
     \<and> taildesc_lsb (ch_regs ch') = bd_phys_lsb (last ds)
     \<and> taildesc_msb (ch_regs ch') = bd_phys_msb (last ds)"
  using add_buffer_ok [where ios = ios and ctx = ctx and now = now, OF assms] by blast

theorem rte_axi_dma_add_buffer_posts_witness:
  "\<exists>ch' ds. rte_axi_dma_add_buffer 3 (ring4 True) [7 \<mapsto> io_of_length 4608] two_buffers 7
       = Inr (0, ch', [7 \<mapsto> (io_of_length 4608)\<lparr>io_start := 3\<rparr>])
     \<and> inflight ch' = ds \<and> posted True (io_sideband (io_of_length 4608)) 7 True two_buffers ds"
  using rte_axi_dma_add_buffer_posts [OF ring4_facts(1) two_buffers_facts(1) _ two_buffers_facts(3),
      of True "[7 \<mapsto> io_of_length 4608]" 7 "io_of_length 4608" 3]
  by (auto simp: ring4_facts two_buffers_facts)

text \<open>C27. A segmented transmission queues every buffer as a frame of its own and, when it is the last
  data of a task, one further 16-byte frame with user tag \<open>0xff\<close>; the request ends at the last
  frame only, and the expected length grows by those 16 bytes.\<close>

theorem rte_axi_dma_send_seg_frames:
  assumes "ring_inv ch" and "ch_tx ch" and "iovs \<noteq> []" and "\<forall>v \<in> set iovs. \<not> too_large v"
    and "length (seg_frames iovs (tuser (io_sideband io)) last_data) \<le> room ch"
    and "ios ctx = Some io"
  shows "\<exists>ch' ds io'. rte_axi_dma_send_seg iova now ch ios iovs ctx last_data
       = Inr (0, ch', ios(ctx \<mapsto> io'))
     \<and> io' = io\<lparr>io_start := now,
         transfered_length := transfered_length io + (if last_data then 16 else 0)\<rparr>
     \<and> ring_inv ch' \<and> inflight ch' = inflight ch @ ds
     \<and> list_all2 (seg_frame ctx (tid (io_sideband io)))
         (seg_frames iovs (tuser (io_sideband io)) last_data) ds
     \<and> map request_end ds = replicate (length ds - 1) False @ [True]"
  using send_seg_ok [where ios = ios and ctx = ctx and now = now, OF assms] by blast

theorem rte_axi_dma_send_seg_frames_witness:
  "\<exists>ch' ds io'. rte_axi_dma_send_seg (\<lambda>v. v) 3 (ring4 True) [7 \<mapsto> io_of_length 4608] two_buffers 7 True
       = Inr (0, ch', [7 \<mapsto> io']) \<and> transfered_length io' = 4624
     \<and> inflight ch' = ds \<and> map request_end ds = [False, False, True]"
proof -
  let ?ios = "[7 \<mapsto> io_of_length 4608] :: io_store" and ?io = "io_of_length 4608"
  have pre: "ch_tx (ring4 True)"
    "length (seg_frames two_buffers (tuser (io_sideband ?io)) True) \<le> room (ring4 True)" "?ios 7 = Some ?io"
    by (simp_all add: ring4_facts seg_frames_def two_buffers_facts)
  obtain ch' ds io' where
    1: "rte_axi_dma_send_seg (\<lambda>v. v) 3 (ring4 True) ?ios two_buffers 7 True = Inr (0, ch', ?ios(7 \<mapsto> io'))"
    and 2: "io' = ?io\<lparr>io_start := 3, transfered_length := transfered_length ?io + (if True then 16 else 0)\<rparr>"
      "inflight ch' = inflight (ring4 True) @ ds"
    and 3: "list_all2 (seg_frame 7 (tid (io_sideband ?io))) (seg_frames two_buffers (tuser (io_sideband ?io)) True) ds"
      "map request_end ds = replicate (length ds - 1) False @ [True]"
    using rte_axi_dma_send_seg_frames [where ios = ?ios and ctx = 7 and iova = "\<lambda>v. v" and now = 3,
        OF ring4_facts(1) pre(1) two_buffers_facts(1,3) pre(2,3)] by blast
  from list_all2_lengthD [OF 3(1)] have "length ds = 3"
    by (simp add: seg_frames_def two_buffers_facts)
  with 3(2) have "map request_end ds = [False, False, True]" by (simp add: numeral_2_eq_2)
  with 1 2 show ?thesis
    by (intro exI [of _ ch'] exI [of _ ds] exI [of _ io']) (simp add: ring4_facts io_of_length_def)
qed

text \<open>C11. A receive request that the engine completes is returned by the next poll, and its IO object
  then reports exactly the bytes the engine wrote: the sum over the buffers, in the 32-bit length
  and, truncated to the width of the status word, in \<^verbatim>\<open>transfered_bytes\<close>.  The ring is empty again.\<close>

theorem rte_axi_dma_recv_roundtrip:
  assumes "ring_inv ch" and "inflight ch = []" and "iovs \<noteq> []" and "length iovs \<le> room ch"
    and "\<forall>v \<in> set iovs. \<not> too_large v" and "ios ctx = Some io"
    and "transfered_length io = (\<Sum>v \<leftarrow> iovs. ucast (iov_len v))" and "length bs = length iovs"
  shows "\<exists>ch1 ios1 ch2 io2. rte_axi_dma_recv t0 ch ios iovs ctx = Inr (0, ch1, ios1)
     \<and> rte_axi_dma_poll_complete t1 (hw_complete_from 0 bs sb ch1) ios1
         = Inr (Some ctx, ch2, ios1(ctx \<mapsto> io2))
     \<and> transfered_length io2 = (\<Sum>b \<leftarrow> bs. ucast b)
     \<and> transfered_bytes (io_status io2) = ucast (transfered_length io2)
     \<and> ring_inv ch2 \<and> inflight ch2 = []"
  by (rule request_roundtrip [where ios = ios and ctx = ctx, OF assms])

theorem rte_axi_dma_recv_roundtrip_witness:
  "\<exists>ch1 ios1 ch2 io2. rte_axi_dma_recv 3 (ring4 False) [7 \<mapsto> io_of_length 4608] two_buffers 7
       = Inr (0, ch1, ios1)
     \<and> rte_axi_dma_poll_complete 9 (hw_complete_from 0 [4096, 100] \<lparr>tuser = 5, mid = 0, tid = 9\<rparr> ch1) ios1
         = Inr (Some 7, ch2, ios1(7 \<mapsto> io2))
     \<and> transfered_length io2 = 4196"
  using rte_axi_dma_recv_roundtrip [OF ring4_facts(1,2) two_buffers_facts(1) _ two_buffers_facts(3),
      of False "[7 \<mapsto> io_of_length 4608]" 7 "io_of_length 4608" "[4096, 100]" 3 9
        "\<lparr>tuser = 5, mid = 0, tid = 9\<rparr>"]
  by (auto simp: ring4_facts two_buffers_facts io_of_length_def)

text \<open>C30. A submission larger than the room left is not refused, and overwrites descriptors in flight: the full test runs
  only once, before the loop.  It returns success, the counter exceeds the number of descriptors of the ring, and the
  ring invariant is lost.  The \<open>j\<close>th oldest descriptor in flight, for each \<open>j\<close> by which the submission exceeds the room,
  now belongs to the new request, and (unless the submission goes around the ring once more) points to
  buffer \<open>room + j\<close> of it, while the head of the ring still is where it was.\<close>

theorem rte_axi_dma_add_buffer_overrun:
  assumes "ring_inv ch" and "0 < room ch" and "room ch < length iovs" and "\<forall>v \<in> set iovs. \<not> too_large v"
    and "ios ctx = Some io" and "unat (ch_count ch) + length iovs < 2 ^ 32" and "n = length (desc_arr ch)"
  shows "\<exists>ch' ios'. rte_axi_dma_add_buffer now ch ios iovs ctx = Inr (0, ch', ios')
     \<and> length (desc_arr ch') < unat (ch_count ch') \<and> \<not> ring_inv ch' \<and> ch_head ch' = ch_head ch
     \<and> (\<forall>j. j < length (inflight ch) \<and> room ch + j < length iovs \<longrightarrow>
          inflight ch ! j = desc_arr ch ! ((ch_head ch + j) mod n)
          \<and> opaque (desc_arr ch' ! ((ch_head ch + j) mod n)) = Some ctx
          \<and> (length iovs \<le> n + (room ch + j) \<longrightarrow>
               holds_buffer ctx (iovs ! (room ch + j)) (desc_arr ch' ! ((ch_head ch + j) mod n))))"
proof -
  have nf: "\<not> channel_full ch" using assms(2) by (simp add: channel_full_iff [OF assms(1)])
  note links = ring_inv_links [OF assms(1)]
  from add_buffer_loop_links [OF links assms(4), of True ctx "io_sideband io"]
  obtain ch' where 1: "add_buffer_loop True iovs ctx (io_sideband io) ch = Inr (0, ch')"
    "ch_count ch' = ch_count ch + of_nat (length iovs)" "length (desc_arr ch') = length (desc_arr ch)"
    by blast
  have "unat (ch_count ch') = unat (ch_count ch) + length iovs"
    using assms(6) unfolding 1(2) by (simp add: unat_word_ariths unsigned_of_nat take_bit_nat_eq_self)
  then have gt: "length (desc_arr ch') < unat (ch_count ch')"
    using assms(3) 1(3) by (simp add: room_def)
  then have "\<not> ring_inv ch'" using ring_invD(4) [of ch'] by auto
  moreover note w = add_buffer_loop_writes [OF links assms(4) 1(1) assms(7), THEN conjunct1]
    add_buffer_loop_writes [OF links assms(4) 1(1) assms(7), THEN conjunct2, THEN conjunct2]
  have slot: "(ch_tail ch + (room ch + j)) mod n = (ch_head ch + j) mod n" for j
  proof -
    have "unat (ch_count ch) + room ch = n" using ring_invD(4) [OF assms(1)] assms(7) by (simp add: room_def)
    moreover have "(ch_tail ch + (room ch + j)) mod n = (ch_head ch + unat (ch_count ch) + (room ch + j)) mod n"
      using assms(1,7) by (simp add: ring_inv_def Let_def mod_add_left_eq)
    ultimately have "(ch_tail ch + (room ch + j)) mod n = (ch_head ch + j + n) mod n" by (metis add.assoc add.commute)
    then show ?thesis by simp
  qed
  have "inflight ch ! j = desc_arr ch ! ((ch_head ch + j) mod n)" if "j < length (inflight ch)" for j
    using that assms(7) by (simp add: inflight_def ring_window_def)
  ultimately show ?thesis using gt nf 1(1) assms(5) w unfolding slot [symmetric]
    by (auto simp: rte_axi_dma_add_buffer_def)
qed

text \<open>A ring of four with the two buffers of object 7 in flight, and three more of object 8.\<close>

theorem rte_axi_dma_add_buffer_overrun_witness:
  "\<exists>ch ch' ios'. reqs (inflight ch) = [7] \<and> rte_axi_dma_add_buffer 3 ch [7 \<mapsto> io_of_length 0, 8 \<mapsto> io_of_length 0]
         (hd two_buffers # two_buffers) 8 = Inr (0, ch', ios')
     \<and> length (desc_arr ch') < unat (ch_count ch') \<and> opaque (inflight ch ! 0) = Some 7
     \<and> opaque (desc_arr ch' ! ch_head ch) = Some 8"
proof -
  let ?ios = "[7 \<mapsto> io_of_length 0, 8 \<mapsto> io_of_length 0] :: io_store" and ?b = "hd two_buffers # two_buffers"
  obtain ch ds where 1: "rte_axi_dma_add_buffer 3 (ring4 False) ?ios two_buffers 7 = Inr (0, ch, ?ios(7 \<mapsto> (io_of_length 0)\<lparr>io_start := 3\<rparr>))"
      "ring_inv ch" "inflight ch = ds" "posted False (io_sideband (io_of_length 0)) 7 True two_buffers ds"
    using add_buffer_ok [OF ring4_facts(1) two_buffers_facts(1) _ two_buffers_facts(3), of False ?ios 7 "io_of_length 0" 3]
    by (auto simp: ring4_facts two_buffers_facts)
  have ds: "\<forall>d \<in> set ds. opaque d = Some 7" "map request_end ds = [False, True]"
    using posted_request [OF 1(4) two_buffers_facts(1)] by (auto simp: two_buffers_facts)
  then have "length ds = 2" by (metis length_map length_Cons list.size(3) numeral_2_eq_2)
  then have count: "unat (ch_count ch) = 2" "length (inflight ch) = 2" using 1(3) by (auto simp: inflight_def)
  have len: "length (desc_arr ch) = 4"
    using add_buffer_loop_links [OF ring4_facts(5) two_buffers_facts(3), of True 7 "io_sideband (io_of_length 0)" False]
      1(1) channel_full_iff [OF ring4_facts(1), of False] by (auto simp: rte_axi_dma_add_buffer_def ring4_facts)
  have pre: "0 < room ch" "room ch < length ?b" "\<forall>v \<in> set ?b. \<not> too_large v" "?ios 8 = Some (io_of_length 0)"
      "unat (ch_count ch) + length ?b < 2 ^ 32"
    using two_buffers_facts(1-3) hd_in_set [of two_buffers] by (auto simp: room_def count len)
  from rte_axi_dma_add_buffer_overrun [where ios = ?ios and ctx = 8 and now = 3, OF 1(2) pre refl] obtain ch' ios' where
    2: "rte_axi_dma_add_buffer 3 ch ?ios ?b 8 = Inr (0, ch', ios')" "length (desc_arr ch') < unat (ch_count ch')"
      "\<forall>j. j < length (inflight ch) \<and> room ch + j < length ?b \<longrightarrow>
          opaque (desc_arr ch' ! ((ch_head ch + j) mod length (desc_arr ch))) = Some 8" by blast
  have "ch_head ch mod length (desc_arr ch) = ch_head ch" using 1(2) by (simp add: ring_inv_def Let_def)
  then have "opaque (desc_arr ch' ! ch_head ch) = Some 8" using 2(3) [rule_format, of 0] count pre(2) by simp
  moreover have "reqs (inflight ch) = [7]" unfolding 1(3) using ds by (intro reqs_one_request [of _ _ 1]) auto
  moreover have "opaque (inflight ch ! 0) = Some 7" using ds(1) \<open>length ds = 2\<close> 1(3) by simp
  ultimately show ?thesis using 2(1,2) by blast
qed

text \<open>A submission that meets an oversize buffer returns \<open>- 1\<close> without undoing its work: the
  descriptors of the buffers before it stay in the ring and point to the caller's IO object, but
  none ends a request and the tail register does not move, so the list of outstanding requests is
  unchanged and no poll will ever return that IO object on their behalf.\<close>

theorem rte_axi_dma_add_buffer_partial:
  assumes "ring_inv ch" and "0 < room ch" and "length pre \<le> room ch"
    and "\<forall>v \<in> set pre. \<not> too_large v" and "too_large v" and "ios ctx = Some io"
  shows "\<exists>ch' ds. rte_axi_dma_add_buffer now ch ios (pre @ v # post) ctx = Inr (- 1, ch', ios)
     \<and> inflight ch' = inflight ch @ ds \<and> length ds = length pre
     \<and> (\<forall>d \<in> set ds. opaque d = Some ctx) \<and> reqs (inflight ch') = reqs (inflight ch)
     \<and> ch_regs ch' = ch_regs ch"
proof -
  have nf: "\<not> channel_full ch" using assms(2) by (simp add: channel_full_iff [OF assms(1)])
  from add_buffer_loop_oversize [OF assms(1,3-5), of True post ctx "io_sideband io"]
  obtain ch' ds where 1: "add_buffer_loop True (pre @ v # post) ctx (io_sideband io) ch = Inr (- 1, ch')"
    "inflight ch' = inflight ch @ ds" "length ds = length pre"
    "\<forall>d \<in> set ds. opaque d = Some ctx \<and> \<not> request_end d" "ch_regs ch' = ch_regs ch" by blast
  have "reqs ds = []" using 1(4) by (simp add: reqs_def ends_request_def)
  with 1 nf assms(6) show ?thesis by (auto simp: rte_axi_dma_add_buffer_def)
qed

theorem rte_axi_dma_add_buffer_partial_witness:
  "\<exists>ch' ds. rte_axi_dma_add_buffer 3 (ring4 True) [7 \<mapsto> io_of_length 0] (two_buffers @ [huge_buffer]) 7
       = Inr (- 1, ch', [7 \<mapsto> io_of_length 0]) \<and> inflight ch' = ds \<and> length ds = 2"
  using rte_axi_dma_add_buffer_partial [OF ring4_facts(1) _ _ two_buffers_facts(3,5),
      of True "[7 \<mapsto> io_of_length 0]" 7 "io_of_length 0" 3 "[]"]
  by (auto simp: ring4_facts two_buffers_facts)

text \<open>When an allocation of \<^verbatim>\<open>rte_axi_dma_create_channel\<close> fails, the function returns no channel but
  keeps the driver's mutex: every later creation, in either direction and with any arguments,
  blocks forever.\<close>

theorem rte_axi_dma_create_channel_deadlock:
  assumes "i < length (chs_of is_tx dev)" and "\<not> lock_held dev" and "arr_ptr = 0 \<or> ring_ptr = 0"
    and "j < length (chs_of is_tx' dev)"
  shows "\<exists>dev'. rte_axi_dma_create_channel iova arr_ptr ring_ptr dev i n is_tx = Inr (None, dev')
     \<and> rte_axi_dma_create_channel iova' arr_ptr' ring_ptr' dev' j n' is_tx' = Inl Hang"
  using assms
  by (auto simp: rte_axi_dma_create_channel_def Let_def chs_of_def upd_common_def set_ch_def)

theorem rte_axi_dma_create_channel_deadlock_witness:
  "\<exists>dev'. rte_axi_dma_create_channel (\<lambda>v. v) 0x1000 0 \<lparr>mm2s = \<lparr>reg_ccr = 0, reg_chen = 0, reg_err = 0\<rparr>,
       s2mm = \<lparr>reg_ccr = 0, reg_chen = 0, reg_err = 0\<rparr>, tx_chs = replicate 16 blank_channel,
       rx_chs = replicate 16 blank_channel, lock_held = False\<rparr> 0 64 True = Inr (None, dev')
     \<and> rte_axi_dma_create_channel (\<lambda>v. v) 0x1000 0x2000 dev' 1 64 False = Inl Hang"
  using rte_axi_dma_create_channel_deadlock [of 0 True "\<lparr>mm2s = \<lparr>reg_ccr = 0, reg_chen = 0, reg_err = 0\<rparr>,
       s2mm = \<lparr>reg_ccr = 0, reg_chen = 0, reg_err = 0\<rparr>, tx_chs = replicate 16 blank_channel,
       rx_chs = replicate 16 blank_channel, lock_held = False\<rparr>" "0x1000" 0 1 False "\<lambda>v. v" 64
       "\<lambda>v. v" "0x1000" "0x2000" 64]
  by (simp add: chs_of_def)

text \<open>Re-enabling a channel whose ring is in any linked state (overrun included) ends, provided the
  status register reports idle at both waits; it leaves an empty, well-formed ring of the same
  size, sets exactly the channel's enable bit and leaves the other direction's registers alone.
  Stopping clears exactly that bit, so stop and enable together leave the enable word as enable
  alone does.\<close>

theorem rte_axi_dma_enable_channel_recovers:
  assumes "ring_links ch" and "length (desc_arr ch) < 2 ^ 32" and "2 \<le> idle_reads reads"
    and "unat (ch_id ch) < 32"
  shows "\<exists>dev' ch'. rte_axi_dma_enable_channel iova reads (rte_axi_dma_stop_channel dev ch) ch
        = Inr (dev', ch')
     \<and> ring_inv ch' \<and> inflight ch' = [] \<and> length (desc_arr ch') = length (desc_arr ch)
     \<and> (\<forall>k. bit (reg_chen (common_of (ch_tx ch) dev')) k
          = (k = unat (ch_id ch) \<or> bit (reg_chen (common_of (ch_tx ch) dev)) k))
     \<and> common_of (\<not> ch_tx ch) dev' = common_of (\<not> ch_tx ch) dev"
proof -
  have chen: "reg_chen (common_of (ch_tx ch) (rte_axi_dma_stop_channel dev ch))
      = reg_chen (common_of (ch_tx ch) dev) AND NOT (BIT (unat (ch_id ch)))"
    "common_of (\<not> ch_tx ch) (rte_axi_dma_stop_channel dev ch) = common_of (\<not> ch_tx ch) dev"
    by (simp_all add: rte_axi_dma_stop_channel_def)
  have bits: "bit ((w AND NOT (BIT (unat (ch_id ch)))) OR BIT (unat (ch_id ch))) k
      = (k = unat (ch_id ch) \<or> bit w k)" for w k
    using assms(4) by (auto simp: bit_simps BIT_bit bit_imp_le_length dest: bit_imp_le_length)
  from enable_channel_ok [OF assms(1-3), of iova "rte_axi_dma_stop_channel dev ch"] chen bits
  show ?thesis by auto
qed

theorem rte_axi_dma_enable_channel_recovers_witness:
  "\<exists>dev' ch'. rte_axi_dma_enable_channel (\<lambda>v. v) [0, 4, 0, 4]
       (rte_axi_dma_stop_channel \<lparr>mm2s = \<lparr>reg_ccr = 0, reg_chen = 7, reg_err = 0\<rparr>,
         s2mm = \<lparr>reg_ccr = 0, reg_chen = 0, reg_err = 0\<rparr>, tx_chs = [], rx_chs = [], lock_held = False\<rparr>
         ((ring4 True)\<lparr>ch_count := 3\<rparr>)) ((ring4 True)\<lparr>ch_count := 3\<rparr>) = Inr (dev', ch')
     \<and> ring_inv ch' \<and> inflight ch' = []"
proof -
  have 1: "ring_links ((ring4 True)\<lparr>ch_count := 3\<rparr>)" "ch_id ((ring4 True)\<lparr>ch_count := 3\<rparr>) = 2"
    "length (desc_arr ((ring4 True)\<lparr>ch_count := 3\<rparr>)) = 4"
    using ring4_facts(5,6) [of True]
    by (simp_all add: ring_links_def ring4_def created_channel_def Let_def)
  have 2: "2 \<le> idle_reads [0, 4, 0, 4]" by (simp add: idle_reads_def BIT_def)
  show ?thesis
    using rte_axi_dma_enable_channel_recovers [OF 1(1) _ 2, of "\<lambda>v. v"
        "\<lparr>mm2s = \<lparr>reg_ccr = 0, reg_chen = 7, reg_err = 0\<rparr>,
         s2mm = \<lparr>reg_ccr = 0, reg_chen = 0, reg_err = 0\<rparr>, tx_chs = [], rx_chs = [], lock_held = False\<rparr>"]
      1 by auto
qed

end
