(* ===== verification/Axi_Dma.thy ===== *)
theory Axi_Dma
  imports Simple_Pool Axi_Ring_Runs
begin

text \<open>
  The SPDK layer over the DMA channels, \<^verbatim>\<open>lib/axi_dma/axi_dma.c\<close>: channels with their pool of IO
  objects, transmission, segmented transmission, reception, the two pollers and the release of an
  IO object.  The environment layer below it (\<^verbatim>\<open>spdk_env_axi_dma_*\<close>) is not part of the repository,
  so its operations are arguments here; the locale \<open>dma_env\<close> states what the layer relies on, and
  its interpretation shows that the driver of \<open>Axi_Ring\<close> provides it.

  An IO object is one piece of memory with two readers.  The part the driver knows
  (\<^verbatim>\<open>struct dummy_dma_io\<close>) is in the store \<open>aios\<close>, the part only this layer knows in \<open>ameta\<close>; both are
  indexed by the object's address.  Address translation (\<^verbatim>\<open>spdk_vtophys\<close>) is an argument that returns
  the physical address and the length of the contiguous range.
\<close>

section \<open>State\<close>

record axi_meta =
  aio_ch :: nat
  aio_iovs :: "dma_iovec list"
  aio_cb :: nat
  aio_ctx :: u64
  aio_used :: nat

record 'e axi_ch =
  env_ch :: 'e
  io_pool :: simple_pool
  ax_id :: int

record 'e axi_sys =
  axi_chs :: "'e axi_ch list"
  aios :: io_store
  ameta :: "nat \<Rightarrow> axi_meta option"

definition VTOPHYS_ERROR :: u64 where
  "VTOPHYS_ERROR = - 1"

definition set_pool :: "nat \<Rightarrow> simple_pool \<Rightarrow> 'e axi_sys \<Rightarrow> 'e axi_sys" where
  "set_pool c p s = s\<lparr>axi_chs := (axi_chs s)[c := (axi_chs s ! c)\<lparr>io_pool := p\<rparr>]\<rparr>"

definition set_env :: "nat \<Rightarrow> 'e \<Rightarrow> 'e axi_sys \<Rightarrow> 'e axi_sys" where
  "set_env c e s = s\<lparr>axi_chs := (axi_chs s)[c := (axi_chs s ! c)\<lparr>env_ch := e\<rparr>]\<rparr>"

definition set_io :: "nat \<Rightarrow> dma_io \<Rightarrow> axi_meta \<Rightarrow> 'e axi_sys \<Rightarrow> 'e axi_sys" where
  "set_io p io m s = s\<lparr>aios := (aios s)(p \<mapsto> io), ameta := (ameta s)(p \<mapsto> m)\<rparr>"

section \<open>Channel creation\<close>

text \<open>\<open>ch_ptr\<close>, \<open>arr_ptr\<close> and \<open>ring_ptr\<close> are results of the allocator; \<open>pool0\<close> is the uninitialised pool in the
  fresh channel object.  A failing pool initialisation is logged and ignored.\<close>

definition axi_create_channel ::
    "u64 \<Rightarrow> (u32 \<Rightarrow> int \<Rightarrow> u8 \<Rightarrow> 'e option) \<Rightarrow> simple_pool \<Rightarrow> u64 \<Rightarrow> u64 \<Rightarrow> u64 \<Rightarrow> u32 \<Rightarrow> int \<Rightarrow> u8 \<Rightarrow>
     'e axi_ch option" where
  "axi_create_channel ch_ptr env_create pool0 io_size arr_ptr ring_ptr num_bds i t =
     (if ch_ptr = 0 then None
      else let i' = (if i \<ge> 4 then i mod 4 else i) in
        case env_create num_bds i' t of None \<Rightarrow> None
        | Some e \<Rightarrow> Some \<lparr>env_ch = e,
            io_pool = snd (spdk_simple_pool_init pool0 (ucast num_bds) io_size arr_ptr ring_ptr),
            ax_id = i'\<rparr>)"

definition spdk_axi_dma_create_tx_channel ::
    "u64 \<Rightarrow> (u32 \<Rightarrow> int \<Rightarrow> u8 \<Rightarrow> 'e option) \<Rightarrow> simple_pool \<Rightarrow> u64 \<Rightarrow> u64 \<Rightarrow> u64 \<Rightarrow> u32 \<Rightarrow> int \<Rightarrow> u8 \<Rightarrow>
     'e axi_ch option" where
  "spdk_axi_dma_create_tx_channel = axi_create_channel"

definition spdk_axi_dma_create_rx_channel ::
    "u64 \<Rightarrow> (u32 \<Rightarrow> int \<Rightarrow> u8 \<Rightarrow> 'e option) \<Rightarrow> simple_pool \<Rightarrow> u64 \<Rightarrow> u64 \<Rightarrow> u64 \<Rightarrow> u32 \<Rightarrow> int \<Rightarrow> u8 \<Rightarrow>
     'e axi_ch option" where
  "spdk_axi_dma_create_rx_channel = axi_create_channel"

section \<open>Submission\<close>

text \<open>The translation loop: physical addresses, the running 32-bit length, and whether it ran to the
  end.\<close>

fun vtophys_loop ::
    "(u64 \<Rightarrow> u64 \<Rightarrow> u64 \<times> u64) \<Rightarrow> dma_iovec list \<Rightarrow> u32 \<Rightarrow> bool \<times> dma_iovec list \<times> u32" where
  "vtophys_loop vt [] acc = (True, [], acc)"
| "vtophys_loop vt (v # vs) acc =
     (let (pa, len) = vt (iov_base v) (iov_len v); v' = v\<lparr>paddr := pa\<rparr>;
          acc' = acc + ucast (iov_len v)
      in if pa = VTOPHYS_ERROR \<or> len \<noteq> iov_len v then (False, v' # vs, acc')
         else let (ok, vs', acc'') = vtophys_loop vt vs acc' in (ok, v' # vs', acc''))"

definition spdk_axi_dma_tx_channel_send ::
    "('e \<Rightarrow> io_store \<Rightarrow> dma_iovec list \<Rightarrow> nat \<Rightarrow> (int \<times> 'e \<times> io_store) res) \<Rightarrow>
     (u64 \<Rightarrow> u64 \<Rightarrow> u64 \<times> u64) \<Rightarrow> 'e axi_sys \<Rightarrow> nat \<Rightarrow> dma_iovec list \<Rightarrow> nat \<Rightarrow> u64 \<Rightarrow> sideband option \<Rightarrow>
     (int \<times> 'e axi_sys) res" where
  "spdk_axi_dma_tx_channel_send env_send vt s c iovs cb ctx ctrl =
     rbind (arr_get (axi_chs s) c) (\<lambda>ch.
     rbind (spdk_simple_pool_get (io_pool ch)) (\<lambda>(r, pool').
     case r of None \<Rightarrow> Inr (- ENOMEM, s)
     | Some x \<Rightarrow>
         let p = unat x; s1 = set_pool c pool' s; (ok, iovs', len) = vtophys_loop vt iovs 0 in
         rbind (deref (aios s1) (Some p)) (\<lambda>io.
         rbind (deref (ameta s1) (Some p)) (\<lambda>m.
         let s2 = set_io p (io\<lparr>transfered_length := len,
                      io_sideband := (case ctrl of None \<Rightarrow> io_sideband io | Some sb \<Rightarrow> sb)\<rparr>)
                    (m\<lparr>aio_ch := c, aio_iovs := iovs', aio_cb := cb, aio_ctx := ctx\<rparr>) s1
         in if \<not> ok then Inr (- EFAULT, s2)
            else rbind (env_send (env_ch ch) (aios s2) iovs' p) (\<lambda>(rc, e', ios').
                 Inr (rc, (set_env c e' s2)\<lparr>aios := ios'\<rparr>))))))"

definition spdk_axi_dma_rx_channel_recv ::
    "('e \<Rightarrow> io_store \<Rightarrow> dma_iovec list \<Rightarrow> nat \<Rightarrow> (int \<times> 'e \<times> io_store) res) \<Rightarrow>
     (u64 \<Rightarrow> u64 \<Rightarrow> u64 \<times> u64) \<Rightarrow> 'e axi_sys \<Rightarrow> nat \<Rightarrow> dma_iovec list \<Rightarrow> nat \<Rightarrow> u64 \<Rightarrow>
     (int \<times> 'e axi_sys) res" where
  "spdk_axi_dma_rx_channel_recv env_recv vt s c iovs cb ctx =
     rbind (arr_get (axi_chs s) c) (\<lambda>ch.
     rbind (spdk_simple_pool_get (io_pool ch)) (\<lambda>(r, pool').
     case r of None \<Rightarrow> Inr (- ENOMEM, s)
     | Some x \<Rightarrow>
         let p = unat x; s1 = set_pool c pool' s; (ok, iovs', len) = vtophys_loop vt iovs 0 in
         rbind (deref (aios s1) (Some p)) (\<lambda>io.
         rbind (deref (ameta s1) (Some p)) (\<lambda>m.
         let s2 = set_io p (io\<lparr>transfered_length := len\<rparr>)
                    (m\<lparr>aio_ch := c, aio_iovs := iovs', aio_cb := cb, aio_ctx := ctx, aio_used := 0\<rparr>) s1
         in if \<not> ok then rbind (spdk_simple_pool_put pool' x) (\<lambda>pool''.
                 Inr (- EFAULT, set_pool c pool'' s2))
            else rbind (env_recv (env_ch ch) (aios s2) iovs' p) (\<lambda>(rc, e', ios').
                 let s3 = (set_env c e' s2)\<lparr>aios := ios'\<rparr> in
                 if rc = 0 then Inr (0, s3)
                 else rbind (spdk_simple_pool_put pool' x) (\<lambda>pool''.
                      Inr (rc, set_pool c pool'' s3)))))))"

text \<open>The segmented variant asserts that the pool is not empty and, like the plain transmission,
  does not give the object back on failure.\<close>

definition spdk_axi_dma_tx_channel_send_seg ::
    "('e \<Rightarrow> io_store \<Rightarrow> dma_iovec list \<Rightarrow> nat \<Rightarrow> bool \<Rightarrow> (int \<times> 'e \<times> io_store) res) \<Rightarrow>
     (u64 \<Rightarrow> u64 \<Rightarrow> u64 \<times> u64) \<Rightarrow> 'e axi_sys \<Rightarrow> nat \<Rightarrow> dma_iovec list \<Rightarrow> nat \<Rightarrow> u64 \<Rightarrow> sideband option \<Rightarrow>
     bool \<Rightarrow> (int \<times> 'e axi_sys) res" where
  "spdk_axi_dma_tx_channel_send_seg env_send_seg vt s c iovs cb ctx ctrl last_data =
     rbind (arr_get (axi_chs s) c) (\<lambda>ch.
     rbind (spdk_simple_pool_get (io_pool ch)) (\<lambda>(r, pool').
     case r of None \<Rightarrow> Inl AssertFail
     | Some x \<Rightarrow>
         let p = unat x; s1 = set_pool c pool' s; (ok, iovs', len) = vtophys_loop vt iovs 0 in
         rbind (deref (aios s1) (Some p)) (\<lambda>io.
         rbind (deref (ameta s1) (Some p)) (\<lambda>m.
         let s2 = set_io p (io\<lparr>transfered_length := len,
                      io_sideband := (case ctrl of None \<Rightarrow> io_sideband io | Some sb \<Rightarrow> sb)\<rparr>)
                    (m\<lparr>aio_ch := c, aio_iovs := iovs', aio_cb := cb, aio_ctx := ctx, aio_used := 0\<rparr>) s1
         in if \<not> ok then Inr (- EFAULT, s2)
            else rbind (env_send_seg (env_ch ch) (aios s2) iovs' p last_data) (\<lambda>(rc, e', ios').
                 Inr (rc, (set_env c e' s2)\<lparr>aios := ios'\<rparr>))))))"

section \<open>Completion\<close>

definition axi_env_poll ::
    "('e \<Rightarrow> io_store \<Rightarrow> (nat option \<times> 'e \<times> io_store) res) \<Rightarrow> nat \<Rightarrow> 'e axi_sys \<Rightarrow>
     (nat option \<times> 'e axi_sys) res" where
  "axi_env_poll env_poll c s =
     rbind (arr_get (axi_chs s) c) (\<lambda>ch.
     rbind (env_poll (env_ch ch) (aios s)) (\<lambda>(r, e', ios').
     Inr (r, (set_env c e' s)\<lparr>aios := ios'\<rparr>)))"

definition spdk_axi_dma_poller_for_compute ::
    "('e \<Rightarrow> io_store \<Rightarrow> (nat option \<times> 'e \<times> io_store) res) \<Rightarrow> nat \<Rightarrow> 'e axi_sys \<Rightarrow>
     (nat option \<times> 'e axi_sys) res" where
  "spdk_axi_dma_poller_for_compute env_poll c s = axi_env_poll env_poll c s"

text \<open>The polling loop: the callback of a completed object runs first, then the number of its
  buffers is added to the count.\<close>

fun axi_poll_loop ::
    "nat \<Rightarrow> ('e \<Rightarrow> io_store \<Rightarrow> (nat option \<times> 'e \<times> io_store) res) \<Rightarrow>
     (nat \<Rightarrow> nat \<Rightarrow> 'e axi_sys \<Rightarrow> 'e axi_sys res) \<Rightarrow> nat \<Rightarrow> nat option \<Rightarrow> nat \<Rightarrow> 'e axi_sys \<Rightarrow>
     (nat \<times> 'e axi_sys) res" where
  "axi_poll_loop 0 env_poll run_cb c io cnt s = Inl Hang"
| "axi_poll_loop (Suc fuel) env_poll run_cb c io cnt s =
     (case io of None \<Rightarrow> Inr (cnt, s)
      | Some p \<Rightarrow> if cnt < 1024 then
            rbind (deref (ameta s) (Some p)) (\<lambda>m.
            rbind (run_cb (aio_cb m) p s) (\<lambda>s1.
            rbind (deref (ameta s1) (Some p)) (\<lambda>m1.
            rbind (axi_env_poll env_poll c s1) (\<lambda>(io', s2).
            axi_poll_loop fuel env_poll run_cb c io' (cnt + length (aio_iovs m1)) s2))))
          else Inr (cnt, s))"

definition spdk_axi_dma_poller ::
    "nat \<Rightarrow> ('e \<Rightarrow> io_store \<Rightarrow> (nat option \<times> 'e \<times> io_store) res) \<Rightarrow>
     (nat \<Rightarrow> nat \<Rightarrow> 'e axi_sys \<Rightarrow> 'e axi_sys res) \<Rightarrow> nat \<Rightarrow> 'e axi_sys \<Rightarrow> (nat \<times> 'e axi_sys) res" where
  "spdk_axi_dma_poller fuel env_poll run_cb c s =
     rbind (axi_env_poll env_poll c s) (\<lambda>(io, s1). axi_poll_loop fuel env_poll run_cb c io 0 s1)"

definition spdk_axi_dma_io_free :: "nat \<Rightarrow> 'e axi_sys \<Rightarrow> 'e axi_sys res" where
  "spdk_axi_dma_io_free p s =
     rbind (deref (ameta s) (Some p)) (\<lambda>m.
     rbind (arr_get (axi_chs s) (aio_ch m)) (\<lambda>ch.
     rbind (spdk_simple_pool_put (io_pool ch) (of_nat p)) (\<lambda>pool'.
     Inr (set_pool (aio_ch m) pool' s))))"

section \<open>Pass-through operations\<close>

definition spdk_axi_dma_get_device :: "u64 \<Rightarrow> (string \<Rightarrow> 'd option) \<Rightarrow> string \<Rightarrow> 'd option" where
  "spdk_axi_dma_get_device dev_ptr env_get name =
     (if dev_ptr = 0 then None else env_get name)"

definition spdk_axi_dma_stop_channel ::
    "('e \<Rightarrow> 'e) \<Rightarrow> nat \<Rightarrow> 'e axi_sys \<Rightarrow> 'e axi_sys res" where
  "spdk_axi_dma_stop_channel env_stop c s =
     rbind (arr_get (axi_chs s) c) (\<lambda>ch. Inr (set_env c (env_stop (env_ch ch)) s))"

definition spdk_axi_dma_enable_channel ::
    "('e \<Rightarrow> 'e res) \<Rightarrow> nat \<Rightarrow> 'e axi_sys \<Rightarrow> 'e axi_sys res" where
  "spdk_axi_dma_enable_channel env_enable c s =
     rbind (arr_get (axi_chs s) c) (\<lambda>ch.
     rbind (env_enable (env_ch ch)) (\<lambda>e'. Inr (set_env c e' s)))"

definition spdk_axi_dma_ch_get_stat :: "('e \<Rightarrow> channel_stat) \<Rightarrow> nat \<Rightarrow> 'e axi_sys \<Rightarrow> channel_stat res" where
  "spdk_axi_dma_ch_get_stat env_stat c s =
     rbind (arr_get (axi_chs s) c) (\<lambda>ch. Inr (env_stat (env_ch ch)))"

end
