(* ===== verification/Axi_Dma_Laws.thy ===== *)
theory Axi_Dma_Laws
  imports Axi_Dma
begin

text \<open>
  Ownership of IO objects in the SPDK layer.  An object of a channel is either free in the
  channel's pool or pending in the environment channel; \<open>objs\<close> is the bag of both.  Reception keeps
  that bag on every path; transmission loses the object on its failure paths; the poller hands
  completions to their callbacks in submission order but drops one when it stops at its budget.
\<close>

section \<open>Free and pending objects\<close>

definition axi_inv :: "('e \<Rightarrow> io_store \<Rightarrow> bool) \<Rightarrow> nat \<Rightarrow> 'e axi_sys \<Rightarrow> bool" where
  "axi_inv einv c s \<longleftrightarrow> c < length (axi_chs s) \<and> pool_inv (io_pool (axi_chs s ! c))
     \<and> einv (env_ch (axi_chs s ! c)) (aios s)
     \<and> unat ` set (pool_free (io_pool (axi_chs s ! c))) \<subseteq> dom (aios s) \<and> dom (aios s) \<subseteq> dom (ameta s)"

definition free_objs :: "nat \<Rightarrow> 'e axi_sys \<Rightarrow> nat list" where
  "free_objs c s = map unat (pool_free (io_pool (axi_chs s ! c)))"

definition objs :: "('e \<Rightarrow> nat list) \<Rightarrow> nat \<Rightarrow> 'e axi_sys \<Rightarrow> nat multiset" where
  "objs pending c s = mset (free_objs c s) + mset (pending (env_ch (axi_chs s ! c)))"

lemma sys_simps [simp]:
  "c < length (axi_chs s) \<Longrightarrow> axi_chs (set_pool c p s) ! c = (axi_chs s ! c)\<lparr>io_pool := p\<rparr>"
  "c < length (axi_chs s) \<Longrightarrow> axi_chs (set_env c e s) ! c = (axi_chs s ! c)\<lparr>env_ch := e\<rparr>"
  "length (axi_chs (set_pool c p s)) = length (axi_chs s)"
  "length (axi_chs (set_env c e s)) = length (axi_chs s)"
  "axi_chs (set_io q io m s) = axi_chs s"
  "aios (set_pool c p s) = aios s" "aios (set_env c e s) = aios s"
  "ameta (set_pool c p s) = ameta s" "ameta (set_env c e s) = ameta s"
  "aios (set_io q io m s) = (aios s)(q \<mapsto> io)" "ameta (set_io q io m s) = (ameta s)(q \<mapsto> m)"
  by (simp_all add: set_pool_def set_env_def set_io_def)

lemma vtophys_loop_shape:
  "vtophys_loop vt iovs acc = (ok, iovs', len) \<Longrightarrow>
   length iovs' = length iovs \<and> map iov_len iovs' = map iov_len iovs
   \<and> (ok \<longrightarrow> len = acc + (\<Sum>v \<leftarrow> iovs. ucast (iov_len v)))"
proof (induction iovs arbitrary: acc ok iovs' len)
  case (Cons v vs)
  obtain pa l where vt: "vt (iov_base v) (iov_len v) = (pa, l)" by fastforce
  obtain ok' vs' len' where rec: "vtophys_loop vt vs (acc + ucast (iov_len v)) = (ok', vs', len')"
    by (metis prod_cases3)
  from Cons.IH [OF rec] Cons.prems vt rec show ?case by (auto simp: Let_def split: if_splits)
qed simp

text \<open>Repeated transmissions of the same buffers, whatever they return.\<close>

fun repeat_sends ::
    "nat \<Rightarrow> ('e \<Rightarrow> io_store \<Rightarrow> dma_iovec list \<Rightarrow> nat \<Rightarrow> (int \<times> 'e \<times> io_store) res) \<Rightarrow>
     (u64 \<Rightarrow> u64 \<Rightarrow> u64 \<times> u64) \<Rightarrow> 'e axi_sys \<Rightarrow> nat \<Rightarrow> dma_iovec list \<Rightarrow> nat \<Rightarrow> u64 \<Rightarrow> sideband option \<Rightarrow>
     'e axi_sys res" where
  "repeat_sends 0 env_send vt s c iovs cb ctx ctrl = Inr s"
| "repeat_sends (Suc n) env_send vt s c iovs cb ctx ctrl =
     rbind (spdk_axi_dma_tx_channel_send env_send vt s c iovs cb ctx ctrl) (\<lambda>(rc, s').
     repeat_sends n env_send vt s' c iovs cb ctx ctrl)"

definition the_list :: "'a option \<Rightarrow> 'a list" where
  "the_list r = (case r of None \<Rightarrow> [] | Some p \<Rightarrow> [p])"

text \<open>The number of buffers of a list of IO objects.\<close>

definition buffers :: "'e axi_sys \<Rightarrow> nat list \<Rightarrow> nat" where
  "buffers s ps = (\<Sum>p \<leftarrow> ps. case ameta s p of None \<Rightarrow> 0 | Some m \<Rightarrow> length (aio_iovs m))"

section \<open>The contract of the environment layer\<close>

locale dma_env =
  fixes env_submit :: "'e \<Rightarrow> io_store \<Rightarrow> dma_iovec list \<Rightarrow> nat \<Rightarrow> (int \<times> 'e \<times> io_store) res"
    and env_poll :: "'e \<Rightarrow> io_store \<Rightarrow> (nat option \<times> 'e \<times> io_store) res"
    and pending :: "'e \<Rightarrow> nat list"
    and einv :: "'e \<Rightarrow> io_store \<Rightarrow> bool"
    and space :: "'e \<Rightarrow> nat"
  assumes submit: "einv e ios \<Longrightarrow> ios p \<noteq> None \<Longrightarrow> length iovs \<le> space e \<or> space e = 0 \<Longrightarrow>
        \<exists>rc e' ios'. env_submit e ios iovs p = Inr (rc, e', ios') \<and> einv e' ios' \<and> dom ios' = dom ios
          \<and> pending e' = pending e @ (if rc = 0 \<and> iovs \<noteq> [] then [p] else []) \<and> (space e = 0 \<longrightarrow> rc \<noteq> 0)"
    and poll: "einv e ios \<Longrightarrow>
        \<exists>r e' ios'. env_poll e ios = Inr (r, e', ios') \<and> einv e' ios' \<and> dom ios' = dom ios
          \<and> pending e = (case r of None \<Rightarrow> [] | Some p \<Rightarrow> [p]) @ pending e'"
    and update: "einv e ios \<Longrightarrow> einv e (ios(p \<mapsto> io))"
    and pending_live: "einv e ios \<Longrightarrow> set (pending e) \<subseteq> dom ios"
begin

lemma take_object:
  assumes "axi_inv einv c s" and "free_objs c s \<noteq> []"
  obtains x pool' io m where
    "spdk_simple_pool_get (io_pool (axi_chs s ! c)) = Inr (Some x, pool')"
    "free_objs c s = unat x # map unat (pool_free pool')" "pool_inv pool'"
    "pool_cap pool' = pool_cap (io_pool (axi_chs s ! c))"
    "aios s (unat x) = Some io" "ameta s (unat x) = Some m"
    "\<exists>pool''. spdk_simple_pool_put pool' x = Inr pool'' \<and> pool_inv pool''
       \<and> pool_free pool'' = pool_free pool' @ [x]"
proof -
  let ?p = "io_pool (axi_chs s ! c)"
  from assms have inv: "pool_inv ?p" by (simp add: axi_inv_def)
  from assms(2) obtain x xs where f: "pool_free ?p = x # xs"
    by (cases "pool_free ?p") (auto simp: free_objs_def)
  from spool.get_cons [OF inv f] obtain pool' where
    g: "spdk_simple_pool_get ?p = Inr (Some x, pool')" "pool_inv pool'" "pool_free pool' = xs"
      "pool_cap pool' = pool_cap ?p" by blast
  have "unat x \<in> dom (aios s)" "dom (aios s) \<subseteq> dom (ameta s)"
    using assms(1) f by (auto simp: axi_inv_def)
  then obtain io m where "aios s (unat x) = Some io" "ameta s (unat x) = Some m" by blast
  moreover have "\<exists>pool''. spdk_simple_pool_put pool' x = Inr pool'' \<and> pool_inv pool''
      \<and> pool_free pool'' = pool_free pool' @ [x]"
    using spool.get_then_put [OF inv g(1), of x] f g(3) by auto
  ultimately show ?thesis using that [of x pool'] f g by (simp add: free_objs_def)
qed

text \<open>A submission moves the first free object to the end of the pending ones, or fails; one without buffers succeeds and
  leaves nothing pending.\<close>

lemma submit_state:
  assumes "axi_inv einv c s" and "free_objs c s = unat x # map unat (pool_free pool')" and "pool_inv pool'"
    and "aios s (unat x) = Some io" and "length iovs' \<le> space (env_ch (axi_chs s ! c)) \<or> space (env_ch (axi_chs s ! c)) = 0"
  obtains rc e' ios' where
    "env_submit (env_ch (axi_chs s ! c)) ((aios s)(unat x \<mapsto> io')) iovs' (unat x) = Inr (rc, e', ios')"
    "axi_inv einv c ((set_env c e' (set_io (unat x) io' m' (set_pool c pool' s)))\<lparr>aios := ios'\<rparr>)"
    "pending e' = pending (env_ch (axi_chs s ! c)) @ (if rc = 0 \<and> iovs' \<noteq> [] then [unat x] else [])"
    "dom ios' = dom (aios s)" "space (env_ch (axi_chs s ! c)) = 0 \<longrightarrow> rc \<noteq> 0"
proof -
  let ?ios = "(aios s)(unat x \<mapsto> io')"
  from assms(1) have c: "c < length (axi_chs s)" and e: "einv (env_ch (axi_chs s ! c)) ?ios"
    by (auto simp: axi_inv_def intro: update)
  have "?ios (unat x) \<noteq> None" by simp
  from submit [where ios = ?ios and p = "unat x", OF e this assms(5)] obtain rc e' ios' where
    1: "env_submit (env_ch (axi_chs s ! c)) ?ios iovs' (unat x) = Inr (rc, e', ios')" "einv e' ios'"
      "dom ios' = dom ?ios"
      "pending e' = pending (env_ch (axi_chs s ! c)) @ (if rc = 0 \<and> iovs' \<noteq> [] then [unat x] else [])"
      "space (env_ch (axi_chs s ! c)) = 0 \<longrightarrow> rc \<noteq> 0" by (elim exE conjE)
  have dom: "dom ios' = dom (aios s)" using 1(3) assms(4) by auto
  have sub: "set (free_objs c s) \<subseteq> dom (aios s)" "dom (aios s) \<subseteq> dom (ameta s)"
    using assms(1) by (simp_all add: axi_inv_def free_objs_def)
  have "unat ` set (pool_free pool') \<subseteq> dom (aios s)" using sub(1) unfolding assms(2) by simp
  moreover have "dom (aios s) \<subseteq> insert (unat x) (dom (ameta s))" using sub(2) by blast
  ultimately have "axi_inv einv c ((set_env c e' (set_io (unat x) io' m' (set_pool c pool' s)))\<lparr>aios := ios'\<rparr>)"
    using c assms(3) 1(2) dom by (simp add: axi_inv_def)
  from that [OF 1(1) this 1(4) dom 1(5)] show ?thesis .
qed

subsection \<open>Reception\<close>

lemma recv_empty:
  assumes "axi_inv einv c s" and "free_objs c s = []"
  shows "spdk_axi_dma_rx_channel_recv env_submit vt s c iovs cb ctx = Inr (- ENOMEM, s)"
    "spdk_axi_dma_tx_channel_send env_submit vt s c iovs cb ctx ctrl = Inr (- ENOMEM, s)"
proof -
  from assms(1) have c: "c < length (axi_chs s)" "pool_inv (io_pool (axi_chs s ! c))"
    by (simp_all add: axi_inv_def)
  have "spdk_simple_pool_get (io_pool (axi_chs s ! c)) = Inr (None, io_pool (axi_chs s ! c))"
    using spool.get_nil [OF c(2)] assms(2) by (simp add: free_objs_def)
  then show "spdk_axi_dma_rx_channel_recv env_submit vt s c iovs cb ctx = Inr (- ENOMEM, s)"
    "spdk_axi_dma_tx_channel_send env_submit vt s c iovs cb ctx ctrl = Inr (- ENOMEM, s)"
    using c(1) by (simp_all add: spdk_axi_dma_rx_channel_recv_def spdk_axi_dma_tx_channel_send_def)
qed

text \<open>Giving the taken object back restores the bag, whatever happened to the object's contents.\<close>

lemma give_back:
  assumes "axi_inv einv c t" and "aios t (unat x) \<noteq> None"
    and "spdk_simple_pool_put (io_pool (axi_chs t ! c)) x = Inr pool''" and "pool_inv pool''"
    and "pool_free pool'' = pool_free (io_pool (axi_chs t ! c)) @ [x]"
  shows "axi_inv einv c (set_pool c pool'' t)"
    "objs pending c (set_pool c pool'' t) = add_mset (unat x) (objs pending c t)"
    "env_ch (axi_chs (set_pool c pool'' t) ! c) = env_ch (axi_chs t ! c)"
  using assms by (auto simp: axi_inv_def objs_def free_objs_def)

text \<open>The state after an object was taken and filled in.\<close>

lemma taken_state:
  assumes "axi_inv einv c s" and "free_objs c s = unat x # map unat (pool_free pool')" and "pool_inv pool'"
    and "aios s (unat x) = Some io"
  shows "axi_inv einv c (set_io (unat x) io' m' (set_pool c pool' s))"
    "objs pending c s = add_mset (unat x) (objs pending c (set_io (unat x) io' m' (set_pool c pool' s)))"
proof -
  have c: "c < length (axi_chs s)" using assms(1) by (simp add: axi_inv_def)
  have sub: "set (free_objs c s) \<subseteq> dom (aios s)" "dom (aios s) \<subseteq> dom (ameta s)"
    using assms(1) by (simp_all add: axi_inv_def free_objs_def)
  then have "unat ` set (pool_free pool') \<subseteq> dom (aios s)" unfolding assms(2) by simp
  then show "axi_inv einv c (set_io (unat x) io' m' (set_pool c pool' s))"
    using assms(1,3) c sub(2) update [of _ "aios s"] by (auto simp: axi_inv_def)
  show "objs pending c s = add_mset (unat x) (objs pending c (set_io (unat x) io' m' (set_pool c pool' s)))"
    using c assms(2) by (simp add: objs_def free_objs_def)
qed

definition returned :: "nat \<Rightarrow> dma_iovec list \<Rightarrow> 'e axi_sys \<Rightarrow> int \<times> 'e axi_sys \<Rightarrow> bool" where
  "returned c iovs s r \<longleftrightarrow> (case r of (rc, s') \<Rightarrow>
     axi_inv einv c s' \<and> (free_objs c s = [] \<or> space (env_ch (axi_chs s ! c)) = 0 \<longrightarrow> rc \<noteq> 0)
     \<and> (if rc = 0 then \<exists>p. free_objs c s = p # free_objs c s'
          \<and> pending (env_ch (axi_chs s' ! c)) = pending (env_ch (axi_chs s ! c)) @ (if iovs = [] then [] else [p])
          \<and> objs pending c s = objs pending c s' + (if iovs = [] then {#p#} else {#})
        else pending (env_ch (axi_chs s' ! c)) = pending (env_ch (axi_chs s ! c)) \<and> objs pending c s' = objs pending c s))"

lemma recv_conserves:
  assumes "axi_inv einv c s" and "length iovs \<le> space (env_ch (axi_chs s ! c)) \<or> space (env_ch (axi_chs s ! c)) = 0"
  shows "\<exists>r. spdk_axi_dma_rx_channel_recv env_submit vt s c iovs cb ctx = Inr r \<and> returned c iovs s r"
proof (cases "free_objs c s = []")
  case True
  with recv_empty(1) [OF assms(1)] assms(1) show ?thesis by (simp add: ENOMEM_def returned_def)
next
  case False
  from assms(1) have c: "c < length (axi_chs s)" by (simp add: axi_inv_def)
  obtain x pool' io m pool'' where t: "spdk_simple_pool_get (io_pool (axi_chs s ! c)) = Inr (Some x, pool')"
    "free_objs c s = unat x # map unat (pool_free pool')" "pool_inv pool'"
    "aios s (unat x) = Some io" "ameta s (unat x) = Some m"
    and put: "spdk_simple_pool_put pool' x = Inr pool''" "pool_inv pool''"
      "pool_free pool'' = pool_free pool' @ [x]"
    using take_object [OF assms(1) False] by metis
  obtain ok iovs' len where vt: "vtophys_loop vt iovs 0 = (ok, iovs', len)" by (metis prod_cases3)
  have sh: "length iovs' \<le> space (env_ch (axi_chs s ! c)) \<or> space (env_ch (axi_chs s ! c)) = 0" and nil: "iovs' = [] \<longleftrightarrow> iovs = []"
    using vtophys_loop_shape [OF vt] assms(2) by auto
  let ?io = "io\<lparr>transfered_length := len\<rparr>"
  let ?m = "m\<lparr>aio_ch := c, aio_iovs := iovs', aio_cb := cb, aio_ctx := ctx, aio_used := 0\<rparr>"
  let ?s2 = "set_io (unat x) ?io ?m (set_pool c pool' s)"
  note t2 = taken_state [OF assms(1) t(2-4), where io' = ?io and m' = ?m]
  note run = spdk_axi_dma_rx_channel_recv_def Let_def
  show ?thesis
  proof (cases ok)
    case False
    have "spdk_axi_dma_rx_channel_recv env_submit vt s c iovs cb ctx = Inr (- EFAULT, set_pool c pool'' ?s2)"
      using c t(1,4,5) vt False put(1) by (simp add: run)
    then show ?thesis
      using give_back [OF t2(1), of x pool''] t2(2) c put by (simp add: returned_def EFAULT_def)
  next
    case True
    obtain rc e' ios' where e: "env_submit (env_ch (axi_chs s ! c)) ((aios s)(unat x \<mapsto> ?io)) iovs' (unat x)
        = Inr (rc, e', ios')"
      "axi_inv einv c ((set_env c e' ?s2)\<lparr>aios := ios'\<rparr>)"
      "pending e' = pending (env_ch (axi_chs s ! c)) @ (if rc = 0 \<and> iovs \<noteq> [] then [unat x] else [])"
      "dom ios' = dom (aios s)" "space (env_ch (axi_chs s ! c)) = 0 \<longrightarrow> rc \<noteq> 0"
      unfolding nil [symmetric] using submit_state [OF assms(1) t(2-4) sh] by metis
    let ?s3 = "(set_env c e' ?s2)\<lparr>aios := ios'\<rparr>"
    have o: "objs pending c s = objs pending c ?s3 + (if rc = 0 \<and> iovs \<noteq> [] then {#} else {#unat x#})"
      "pending (env_ch (axi_chs ?s3 ! c)) = pending e'" "free_objs c s = unat x # free_objs c ?s3"
      "io_pool (axi_chs ?s3 ! c) = pool'" "unat x \<in> dom (aios ?s3)"
      using c t(2,4) e(3,4) by (auto simp: objs_def free_objs_def)
    show ?thesis
    proof (cases "rc = 0")
      case True
      then have "spdk_axi_dma_rx_channel_recv env_submit vt s c iovs cb ctx = Inr (0, ?s3)"
        using c t(1,4,5) vt \<open>ok\<close> e(1) by (simp add: run)
      then show ?thesis using e(2,3,5) o(1-3) True t(2) by (simp add: returned_def)
    next
      case False
      then have "spdk_axi_dma_rx_channel_recv env_submit vt s c iovs cb ctx = Inr (rc, set_pool c pool'' ?s3)"
        using c t(1,4,5) vt \<open>ok\<close> e(1) put(1) by (simp add: run)
      then show ?thesis
        using give_back [OF e(2), of x pool''] put o e(3) False by (auto simp: returned_def domIff)
    qed
  qed
qed

subsection \<open>Transmission\<close>

lemma send_fault:
  assumes "axi_inv einv c s" and "free_objs c s = p # ps" and "iovs = v # vs"
    and "fst (vt (iov_base v) (iov_len v)) = VTOPHYS_ERROR"
  shows "\<exists>s'. spdk_axi_dma_tx_channel_send env_submit vt s c iovs cb ctx ctrl = Inr (- EFAULT, s')
     \<and> axi_inv einv c s' \<and> free_objs c s' = ps \<and> env_ch (axi_chs s' ! c) = env_ch (axi_chs s ! c)"
proof -
  from assms(1) have c: "c < length (axi_chs s)" by (simp add: axi_inv_def)
  have ne: "free_objs c s \<noteq> []" using assms(2) by simp
  obtain x pool' io m where t: "spdk_simple_pool_get (io_pool (axi_chs s ! c)) = Inr (Some x, pool')"
    "free_objs c s = unat x # map unat (pool_free pool')" "pool_inv pool'"
    "aios s (unat x) = Some io" "ameta s (unat x) = Some m"
    using take_object [OF assms(1) ne] by metis
  obtain iovs' len where vt: "vtophys_loop vt iovs 0 = (False, iovs', len)"
    using assms(3,4) by (cases "vt (iov_base v) (iov_len v)") (simp add: Let_def)
  let ?io = "io\<lparr>transfered_length := len,
      io_sideband := (case ctrl of None \<Rightarrow> io_sideband io | Some sb \<Rightarrow> sb)\<rparr>"
  let ?m = "m\<lparr>aio_ch := c, aio_iovs := iovs', aio_cb := cb, aio_ctx := ctx\<rparr>"
  let ?s2 = "set_io (unat x) ?io ?m (set_pool c pool' s)"
  have "spdk_axi_dma_tx_channel_send env_submit vt s c iovs cb ctx ctrl = Inr (- EFAULT, ?s2)"
    using c t(1,4,5) vt by (simp add: spdk_axi_dma_tx_channel_send_def Let_def)
  moreover have "free_objs c ?s2 = ps" "env_ch (axi_chs ?s2 ! c) = env_ch (axi_chs s ! c)"
    using c t(2) assms(2) by (simp_all add: free_objs_def)
  ultimately show ?thesis
    using taken_state(1) [OF assms(1) t(2-4), where io' = ?io and m' = ?m] by blast
qed

lemma send_drains:
  assumes "axi_inv einv c s" and "iovs = v # vs"
    and "fst (vt (iov_base v) (iov_len v)) = VTOPHYS_ERROR"
  shows "\<exists>s'. repeat_sends (length (free_objs c s)) env_submit vt s c iovs cb ctx ctrl = Inr s'
     \<and> axi_inv einv c s' \<and> free_objs c s' = [] \<and> env_ch (axi_chs s' ! c) = env_ch (axi_chs s ! c)"
  using assms(1)
proof (induction "length (free_objs c s)" arbitrary: s)
  case 0
  then show ?case by (auto intro!: exI [of _ s])
next
  case (Suc n)
  then obtain p ps where f: "free_objs c s = p # ps" by (cases "free_objs c s") auto
  from send_fault [where vt = vt and cb = cb and ctx = ctx and ctrl = ctrl,
      OF Suc.prems f assms(2,3)] obtain s1 where
    1: "spdk_axi_dma_tx_channel_send env_submit vt s c iovs cb ctx ctrl = Inr (- EFAULT, s1)"
    "axi_inv einv c s1" "free_objs c s1 = ps" "env_ch (axi_chs s1 ! c) = env_ch (axi_chs s ! c)" by blast
  have n: "n = length (free_objs c s1)" using Suc.hyps(2) f 1(3) by simp
  from Suc.hyps(1) [OF n 1(2)] 1 f show ?case by auto
qed

subsection \<open>The poller\<close>

lemma env_poll_state:
  assumes "axi_inv einv c s"
  obtains r s' where "axi_env_poll env_poll c s = Inr (r, s')" "axi_inv einv c s'"
    "pending (env_ch (axi_chs s ! c)) = (case r of None \<Rightarrow> [] | Some p \<Rightarrow> [p]) @ pending (env_ch (axi_chs s' ! c))"
    "free_objs c s' = free_objs c s" "ameta s' = ameta s" "dom (aios s') = dom (aios s)"
    "pool_cap (io_pool (axi_chs s' ! c)) = pool_cap (io_pool (axi_chs s ! c))"
proof -
  from assms have c: "c < length (axi_chs s)" "einv (env_ch (axi_chs s ! c)) (aios s)"
    by (simp_all add: axi_inv_def)
  from poll [OF c(2)] obtain r e' ios' where
    1: "env_poll (env_ch (axi_chs s ! c)) (aios s) = Inr (r, e', ios')" "einv e' ios'"
      "dom ios' = dom (aios s)"
      "pending (env_ch (axi_chs s ! c)) = (case r of None \<Rightarrow> [] | Some p \<Rightarrow> [p]) @ pending e'" by blast
  let ?s = "(set_env c e' s)\<lparr>aios := ios'\<rparr>"
  have "axi_env_poll env_poll c s = Inr (r, ?s)" using c(1) 1(1) by (simp add: axi_env_poll_def)
  moreover have "axi_inv einv c ?s" using assms c 1(2,3) by (simp add: axi_inv_def)
  ultimately show ?thesis using that [of r ?s] c(1) 1(3,4) by (simp add: free_objs_def)
qed

lemma io_free_state:
  assumes "axi_inv einv c s" and "ameta s p = Some m" and "aio_ch m = c" and "p \<in> dom (aios s)"
    and "p < 2 ^ 64" and "length (free_objs c s) < pool_cap (io_pool (axi_chs s ! c))"
  obtains s' where "spdk_axi_dma_io_free p s = Inr s'" "axi_inv einv c s'"
    "free_objs c s' = free_objs c s @ [p]" "env_ch (axi_chs s' ! c) = env_ch (axi_chs s ! c)"
    "ameta s' = ameta s" "aios s' = aios s"
    "pool_cap (io_pool (axi_chs s' ! c)) = pool_cap (io_pool (axi_chs s ! c))"
proof -
  let ?p = "io_pool (axi_chs s ! c)"
  from assms(1) have c: "c < length (axi_chs s)" "pool_inv ?p" by (simp_all add: axi_inv_def)
  have "length (pool_free ?p) < pool_cap ?p" using assms(6) by (simp add: free_objs_def)
  from spool.put_room [OF c(2) this, of "of_nat p"] obtain pool' where
    1: "spdk_simple_pool_put ?p (of_nat p) = Inr pool'" "pool_inv pool'"
      "pool_free pool' = pool_free ?p @ [of_nat p]" "pool_cap pool' = pool_cap ?p" by blast
  have u: "unat (of_nat p :: u64) = p"
    using assms(5) by (simp add: unsigned_of_nat take_bit_nat_eq_self)
  have "spdk_axi_dma_io_free p s = Inr (set_pool c pool' s)"
    using assms(2,3) c(1) 1(1) by (simp add: spdk_axi_dma_io_free_def)
  moreover have "axi_inv einv c (set_pool c pool' s)"
    using assms(1,4) c(1) 1(2,3) u by (auto simp: axi_inv_def)
  ultimately show ?thesis using that [of "set_pool c pool' s"] c(1) 1(3,4) u by (simp add: free_objs_def)
qed

text \<open>The loop with the plain release callback: \<open>ds\<close> are the objects it hands back, in order; at most
  one further object is taken from the ring and handed to nobody, and only at the budget.\<close>

lemma poll_loop_account:
  assumes "axi_inv einv c s" and "length (the_list io @ pending (env_ch (axi_chs s ! c))) < fuel"
    and "\<forall>p \<in> set (the_list io @ pending (env_ch (axi_chs s ! c))).
       p < 2 ^ 64 \<and> p \<in> dom (aios s) \<and> (\<exists>m. ameta s p = Some m \<and> aio_ch m = c)"
    and "length (free_objs c s) + length (the_list io @ pending (env_ch (axi_chs s ! c)))
       \<le> pool_cap (io_pool (axi_chs s ! c))"
  shows "\<exists>cnt' s' ds lost. axi_poll_loop fuel env_poll (\<lambda>_. spdk_axi_dma_io_free) c io cnt s = Inr (cnt', s')
     \<and> axi_inv einv c s' \<and> free_objs c s' = free_objs c s @ ds
     \<and> the_list io @ pending (env_ch (axi_chs s ! c)) = ds @ lost @ pending (env_ch (axi_chs s' ! c))
     \<and> cnt' = cnt + buffers s ds \<and> (lost = [] \<or> length lost = 1 \<and> 1024 \<le> cnt')"
  using assms
proof (induction fuel arbitrary: io cnt s)
  case (Suc fuel)
  show ?case
  proof (cases io)
    case None
    with Suc.prems(1) show ?thesis
      by (intro exI [of _ cnt] exI [of _ s] exI [of _ "[]"]) (simp add: the_list_def buffers_def)
  next
    case (Some p)
    show ?thesis
    proof (cases "cnt < 1024")
      case False
      with Some Suc.prems(1) show ?thesis
        by (intro exI [of _ cnt] exI [of _ s] exI [of _ "[]"] exI [of _ "[p]"])
          (simp add: the_list_def buffers_def)
    next
      case True
      from Suc.prems(3) Some obtain m where m: "ameta s p = Some m" "aio_ch m = c" "p < 2 ^ 64"
        "p \<in> dom (aios s)" by (auto simp: the_list_def)
      have "length (free_objs c s) < pool_cap (io_pool (axi_chs s ! c))"
        using Suc.prems(4) Some by (simp add: the_list_def)
      then obtain s1 where s1: "spdk_axi_dma_io_free p s = Inr s1" "axi_inv einv c s1"
        "free_objs c s1 = free_objs c s @ [p]" "env_ch (axi_chs s1 ! c) = env_ch (axi_chs s ! c)"
        "ameta s1 = ameta s" "aios s1 = aios s"
        "pool_cap (io_pool (axi_chs s1 ! c)) = pool_cap (io_pool (axi_chs s ! c))"
        using io_free_state [OF Suc.prems(1) m(1,2,4,3)] by metis
      obtain r s2 where s2: "axi_env_poll env_poll c s1 = Inr (r, s2)" "axi_inv einv c s2"
        "pending (env_ch (axi_chs s1 ! c)) = the_list r @ pending (env_ch (axi_chs s2 ! c))"
        "free_objs c s2 = free_objs c s1" "ameta s2 = ameta s1" "dom (aios s2) = dom (aios s1)"
        "pool_cap (io_pool (axi_chs s2 ! c)) = pool_cap (io_pool (axi_chs s1 ! c))"
        using env_poll_state [OF s1(2)] unfolding the_list_def by metis
      have all: "the_list io @ pending (env_ch (axi_chs s ! c))
          = p # the_list r @ pending (env_ch (axi_chs s2 ! c))"
        using Some s1(4) s2(3) by (simp add: the_list_def)
      from Suc.IH [OF s2(2), of r "cnt + length (aio_iovs m)"] Suc.prems(2-4) s1 s2(4-7)
      obtain cnt' s' ds lost where
        ih: "axi_poll_loop fuel env_poll (\<lambda>_. spdk_axi_dma_io_free) c r (cnt + length (aio_iovs m)) s2
            = Inr (cnt', s')" "axi_inv einv c s'" "free_objs c s' = free_objs c s2 @ ds"
          "the_list r @ pending (env_ch (axi_chs s2 ! c)) = ds @ lost @ pending (env_ch (axi_chs s' ! c))"
          "cnt' = cnt + length (aio_iovs m) + buffers s2 ds" "lost = [] \<or> length lost = 1 \<and> 1024 \<le> cnt'"
        unfolding all by auto
      have "axi_poll_loop (Suc fuel) env_poll (\<lambda>_. spdk_axi_dma_io_free) c io cnt s = Inr (cnt', s')"
        using Some True m(1) s1(1,5) s2(1) ih(1) by simp
      moreover have "buffers s (p # ds) = length (aio_iovs m) + buffers s2 ds"
        using m(1) s1(5) s2(5) by (simp add: buffers_def)
      ultimately show ?thesis using ih s1(3) s2(4) all
        by (intro exI [of _ cnt'] exI [of _ s'] exI [of _ "p # ds"] exI [of _ lost]) simp
    qed
  qed
qed simp

lemma poller_account:
  assumes "axi_inv einv c s" and "length (pending (env_ch (axi_chs s ! c))) < fuel"
    and "\<forall>p \<in> set (pending (env_ch (axi_chs s ! c))).
       p < 2 ^ 64 \<and> (\<exists>m. ameta s p = Some m \<and> aio_ch m = c)"
    and "length (free_objs c s) + length (pending (env_ch (axi_chs s ! c)))
       \<le> pool_cap (io_pool (axi_chs s ! c))"
  shows "\<exists>cnt s' ds lost. spdk_axi_dma_poller fuel env_poll (\<lambda>_. spdk_axi_dma_io_free) c s = Inr (cnt, s')
     \<and> axi_inv einv c s' \<and> free_objs c s' = free_objs c s @ ds
     \<and> pending (env_ch (axi_chs s ! c)) = ds @ lost @ pending (env_ch (axi_chs s' ! c))
     \<and> cnt = buffers s ds \<and> (lost = [] \<or> length lost = 1 \<and> 1024 \<le> cnt)"
proof -
  have live: "set (pending (env_ch (axi_chs s ! c))) \<subseteq> dom (aios s)"
    using assms(1) pending_live by (auto simp: axi_inv_def)
  obtain r s2 where s2: "axi_env_poll env_poll c s = Inr (r, s2)" "axi_inv einv c s2"
    "pending (env_ch (axi_chs s ! c)) = the_list r @ pending (env_ch (axi_chs s2 ! c))"
    "free_objs c s2 = free_objs c s" "ameta s2 = ameta s" "dom (aios s2) = dom (aios s)"
    "pool_cap (io_pool (axi_chs s2 ! c)) = pool_cap (io_pool (axi_chs s ! c))"
    using env_poll_state [OF assms(1)] unfolding the_list_def by metis
  have b: "buffers s2 ds = buffers s ds" for ds using s2(5) by (simp add: buffers_def)
  have "\<forall>p \<in> set (the_list r @ pending (env_ch (axi_chs s2 ! c))). p \<in> dom (aios s2)"
    using live s2(3,6) by auto
  with poll_loop_account [OF s2(2), of r fuel 0] assms(2-4) s2 b
  show ?thesis by (simp add: spdk_axi_dma_poller_def)
qed

end

section \<open>The driver provides the contract\<close>

lemma add_buffer_any:
  assumes "ring_inv ch" and "ios_live ch ios" and "ios ctx = Some io" and "iovs \<noteq> []"
    and "length iovs \<le> room ch"
  shows "\<exists>rc ch' ios'. rte_axi_dma_add_buffer now ch ios iovs ctx = Inr (rc, ch', ios')
     \<and> ring_inv ch' \<and> ios_live ch' ios' \<and> dom ios' = dom ios
     \<and> reqs (inflight ch') = reqs (inflight ch) @ (if rc = 0 then [ctx] else [])"
proof (cases "\<forall>v \<in> set iovs. \<not> too_large v")
  case True
  from add_buffer_ok [where ios = ios and ctx = ctx and now = now, OF assms(1,4,5) True assms(3)]
  obtain ch' ds where 1: "rte_axi_dma_add_buffer now ch ios iovs ctx
      = Inr (0, ch', ios(ctx \<mapsto> io\<lparr>io_start := now\<rparr>))" "ring_inv ch'" "inflight ch' = inflight ch @ ds"
    "posted (ch_tx ch) (io_sideband io) ctx True iovs ds" by blast
  note q = posted_request [OF 1(4) assms(4)]
  have "reqs ds = [ctx]" using q by (blast intro: reqs_one_request)
  moreover have "ios_live ch' (ios(ctx \<mapsto> io\<lparr>io_start := now\<rparr>))"
    using ios_live_append [OF assms(2) 1(3), of ctx] q by simp
  moreover have "dom (ios(ctx \<mapsto> io\<lparr>io_start := now\<rparr>)) = dom ios" using assms(3) by auto
  ultimately show ?thesis using 1 by auto
next
  case False
  then obtain pre v post where iovs: "iovs = pre @ v # post" "too_large v"
    "\<forall>w \<in> set pre. \<not> too_large w" by (metis split_list_first_propE)
  have rm: "0 < room ch" "length pre \<le> room ch" using assms(5) iovs(1) by simp_all
  then have nf: "\<not> channel_full ch" by (simp add: channel_full_iff [OF assms(1)])
  from add_buffer_loop_oversize [OF assms(1) rm(2) iovs(3,2), of True post ctx "io_sideband io"]
  obtain ch' ds where 1: "add_buffer_loop True iovs ctx (io_sideband io) ch = Inr (- 1, ch')"
    "ring_inv ch'" "inflight ch' = inflight ch @ ds"
    "\<forall>d \<in> set ds. opaque d = Some ctx \<and> \<not> request_end d" unfolding iovs(1) by blast
  have "reqs ds = []" using 1(4) by (simp add: reqs_def ends_request_def)
  moreover have "ios_live ch' ios"
    using ios_live_append [OF assms(2) 1(3), of ctx ios] 1(4) assms(3) by (simp add: insert_absorb domI)
  ultimately show ?thesis using 1 nf assms(3) by (simp add: rte_axi_dma_add_buffer_def)
qed

text \<open>The other paths: a full ring refuses the submission, and a submission without buffers is accepted without a
  descriptor.\<close>

lemma add_buffer_outcomes:
  assumes "ring_inv ch" and "ios_live ch ios" and "ios ctx \<noteq> None" and "length iovs \<le> room ch \<or> room ch = 0"
  shows "\<exists>rc ch' ios'. rte_axi_dma_add_buffer now ch ios iovs ctx = Inr (rc, ch', ios')
     \<and> (ring_inv ch' \<and> ios_live ch' ios') \<and> dom ios' = dom ios
     \<and> reqs (inflight ch') = reqs (inflight ch) @ (if rc = 0 \<and> iovs \<noteq> [] then [ctx] else []) \<and> (room ch = 0 \<longrightarrow> rc \<noteq> 0)"
proof -
  obtain io where io: "ios ctx = Some io" using assms(3) by blast
  have full: "channel_full ch \<longleftrightarrow> room ch = 0" by (simp add: channel_full_iff [OF assms(1)])
  consider "room ch = 0" | "room ch \<noteq> 0" "iovs = []" | "room ch \<noteq> 0" "iovs \<noteq> []" "length iovs \<le> room ch" using assms(4) by force
  then show ?thesis
  proof cases
    case 1
    then show ?thesis using assms(1,2) full by (simp add: rte_axi_dma_add_buffer_def)
  next
    case 2
    have "ios_live ch (ios(ctx \<mapsto> io\<lparr>io_start := now\<rparr>))" using assms(2) by (auto simp: ios_live_def)
    moreover have "dom (ios(ctx \<mapsto> io\<lparr>io_start := now\<rparr>)) = dom ios" using io by auto
    ultimately show ?thesis using 2 io full assms(1) by (simp add: rte_axi_dma_add_buffer_def)
  next
    case 3
    then show ?thesis using add_buffer_any [of ch ios ctx io iovs now] assms(1,2) io by auto
  qed
qed

lemma reqs_live: "ios_live ch ios \<Longrightarrow> set (reqs (inflight ch)) \<subseteq> dom ios"
  by (fastforce simp: ios_live_def reqs_def ends_request_def)

abbreviation drv_pending :: "dma_channel \<Rightarrow> nat list" where
  "drv_pending ch \<equiv> reqs (inflight ch)"

abbreviation drv_inv :: "dma_channel \<Rightarrow> io_store \<Rightarrow> bool" where
  "drv_inv ch ios \<equiv> ring_inv ch \<and> ios_live ch ios"

interpretation rte_env: dma_env "rte_axi_dma_recv now" "rte_axi_dma_poll_complete now"
  drv_pending drv_inv room for now
proof unfold_locales
  fix e :: dma_channel and ios p and iovs :: "dma_iovec list"
  assume inv: "ring_inv e \<and> ios_live e ios" and p: "ios p \<noteq> None" and len: "length iovs \<le> room e \<or> room e = 0"
  show "\<exists>rc e' ios'. rte_axi_dma_recv now e ios iovs p = Inr (rc, e', ios')
      \<and> (ring_inv e' \<and> ios_live e' ios') \<and> dom ios' = dom ios
      \<and> reqs (inflight e') = reqs (inflight e) @ (if rc = 0 \<and> iovs \<noteq> [] then [p] else []) \<and> (room e = 0 \<longrightarrow> rc \<noteq> 0)"
    using add_buffer_outcomes [of e ios p iovs now] inv p len unfolding rte_axi_dma_recv_def by blast
next
  fix e :: dma_channel and ios
  assume inv: "ring_inv e \<and> ios_live e ios"
  then obtain r e' ios' k where 1: "rte_axi_dma_poll_complete now e ios = Inr (r, e', ios')"
    "ring_inv e'" "inflight e' = drop k (inflight e)" using poll_complete_total [of e ios now] by blast
  note q = poll_complete_reqs [OF 1(1)]
  have "ios_live e' ios'"
    using ios_live_mono [of e ios e' ios'] inv q 1(3) set_drop_subset [of k "inflight e"] by simp
  then show "\<exists>r e' ios'. rte_axi_dma_poll_complete now e ios = Inr (r, e', ios')
      \<and> (ring_inv e' \<and> ios_live e' ios') \<and> dom ios' = dom ios
      \<and> reqs (inflight e) = (case r of None \<Rightarrow> [] | Some p \<Rightarrow> [p]) @ reqs (inflight e')"
    using 1 q inv by blast
next
  fix e :: dma_channel and ios p io
  assume "ring_inv e \<and> ios_live e ios"
  then show "ring_inv e \<and> ios_live e (ios(p \<mapsto> io))" by (auto simp: ios_live_def)
next
  fix e :: dma_channel and ios
  assume "ring_inv e \<and> ios_live e ios"
  then show "set (reqs (inflight e)) \<subseteq> dom ios" using reqs_live by blast
qed

text \<open>Transmission and reception enter the driver through the same function.\<close>

interpretation rte_tx: dma_env "rte_axi_dma_send now" "rte_axi_dma_poll_complete now"
  drv_pending drv_inv room for now
proof -
  have "rte_axi_dma_send now = rte_axi_dma_recv now"
    by (intro ext) (simp add: rte_axi_dma_send_def rte_axi_dma_recv_def)
  then show "dma_env (rte_axi_dma_send now) (rte_axi_dma_poll_complete now) drv_pending drv_inv room"
    using rte_env.dma_env_axioms [of now] by simp
qed

section \<open>An example channel\<close>

definition meta0 :: axi_meta where
  "meta0 = \<lparr>aio_ch = 0, aio_iovs = two_buffers, aio_cb = 0, aio_ctx = 0, aio_used = 0\<rparr>"

definition demo_sys :: "dma_channel \<Rightarrow> simple_pool \<Rightarrow> dma_channel axi_sys" where
  "demo_sys ch pool = \<lparr>axi_chs = [\<lparr>env_ch = ch, io_pool = pool, ax_id = 0\<rparr>],
     aios = [4096 \<mapsto> io_of_length 4608, 4160 \<mapsto> io_of_length 4608],
     ameta = [4096 \<mapsto> meta0, 4160 \<mapsto> meta0]\<rparr>"

lemma pool_two_free:
  "map unat (pool_free pool_two) = [4096, 4160]" "pool_cap pool_two = 2"
  "pool_inv (pool_two\<lparr>io_head := 1\<rparr>)" "map unat (pool_free (pool_two\<lparr>io_head := 1\<rparr>)) = [4160]"
proof -
  have "spdk_simple_pool_init pool_zero 2 64 4096 8192 = (0, pool_two)"
    by (simp add: pool_two_def spdk_simple_pool_init_def Let_def)
  from spdk_simple_pool_init_full [OF _ _ _ this] have f: "pool_free pool_two = [4096, 4160]"
    "pool_cap pool_two = 2" by (simp_all add: pool_elems_def upt_rec)
  then show "map unat (pool_free pool_two) = [4096, 4160]" "pool_cap pool_two = 2" by simp_all
  from spool.get_Some_iff [OF pool_two_inv pool_two_take] f(1)
  have g: "pool_inv (pool_two\<lparr>io_head := 1\<rparr>)" "[4160] = pool_free (pool_two\<lparr>io_head := 1\<rparr>)"
    by simp_all
  show "pool_inv (pool_two\<lparr>io_head := 1\<rparr>)" by (rule g(1))
  show "map unat (pool_free (pool_two\<lparr>io_head := 1\<rparr>)) = [4160]" unfolding g(2) [symmetric] by simp
qed

lemma set_pool_free_image: "unat ` set (pool_free p) = set (map unat (pool_free p))"
  by simp

lemma demo_sys_inv: "axi_inv drv_inv 0 (demo_sys (ring4 t) pool_two)"
  unfolding axi_inv_def set_pool_free_image
  by (simp add: demo_sys_def pool_two_free pool_two_inv ring4_facts ios_live_def del: set_map)

lemma demo_sys_facts:
  "free_objs 0 (demo_sys ch pool_two) = [4096, 4160]" "env_ch (axi_chs (demo_sys ch pool) ! 0) = ch"
  by (simp_all add: free_objs_def demo_sys_def pool_two_free)

section \<open>Properties of the SPDK DMA layer\<close>



text \<open>\<^verbatim>\<open>spdk_axi_dma_tx_channel_send\<close> keeps the IO object it took when the address translation
  fails: as many failing transmissions as there are free objects empty the pool although nothing
  is pending, and every later transmission on the channel fails with \<open>- ENOMEM\<close>.\<close>

theorem spdk_axi_dma_tx_channel_send_leaks:
  assumes "axi_inv drv_inv c s" and "iovs = v # vs"
    and "fst (vt (iov_base v) (iov_len v)) = VTOPHYS_ERROR"
  shows "\<exists>s'. repeat_sends (length (free_objs c s)) (rte_axi_dma_send now) vt s c iovs cb ctx ctrl = Inr s'
     \<and> free_objs c s' = [] \<and> env_ch (axi_chs s' ! c) = env_ch (axi_chs s ! c)
     \<and> (\<forall>iovs' vt'. spdk_axi_dma_tx_channel_send (rte_axi_dma_send now) vt' s' c iovs' cb ctx ctrl
          = Inr (- ENOMEM, s'))"
proof -
  from rte_tx.send_drains [where vt = vt and cb = cb and ctx = ctx and ctrl = ctrl and now = now, OF assms]
  obtain s' where s': "repeat_sends (length (free_objs c s)) (rte_axi_dma_send now) vt s c iovs cb ctx ctrl = Inr s'"
    "axi_inv drv_inv c s'" "free_objs c s' = []" "env_ch (axi_chs s' ! c) = env_ch (axi_chs s ! c)"
    by blast
  from rte_tx.recv_empty(2) [OF s'(2,3)] s' show ?thesis by blast
qed

theorem spdk_axi_dma_tx_channel_send_leaks_witness:
  "\<exists>s'. repeat_sends 2 (rte_axi_dma_send 3) (\<lambda>a n. (VTOPHYS_ERROR, n))
       (demo_sys (ring4 True) pool_two) 0 two_buffers 0 0 None = Inr s'
     \<and> free_objs 0 s' = [] \<and> env_ch (axi_chs s' ! 0) = ring4 True"
  using spdk_axi_dma_tx_channel_send_leaks [OF demo_sys_inv two_buffers_def,
      of "\<lambda>a n. (VTOPHYS_ERROR, n)" True 3 0 0 None]
  by (simp add: demo_sys_facts two_buffers_def [symmetric] numeral_2_eq_2) blast

text \<open>C28. One call of \<^verbatim>\<open>spdk_axi_dma_poller\<close> with the releasing callback ends within one iteration per
  pending request, releases a prefix of the pending requests in submission order and returns the
  number of their buffers.  When that number reaches the budget of 1024, a request already taken
  from the ring may be given to no callback: it is in neither the pool nor the ring afterwards.\<close>

theorem spdk_axi_dma_poller_account:
  assumes "axi_inv drv_inv c s" and "length (drv_pending (env_ch (axi_chs s ! c))) < fuel"
    and "\<forall>p \<in> set (drv_pending (env_ch (axi_chs s ! c))).
       p < 2 ^ 64 \<and> (\<exists>m. ameta s p = Some m \<and> aio_ch m = c)"
    and "length (free_objs c s) + length (drv_pending (env_ch (axi_chs s ! c)))
       \<le> pool_cap (io_pool (axi_chs s ! c))"
  shows "\<exists>cnt s' ds lost.
       spdk_axi_dma_poller fuel (rte_axi_dma_poll_complete now) (\<lambda>_. spdk_axi_dma_io_free) c s = Inr (cnt, s')
     \<and> axi_inv drv_inv c s' \<and> free_objs c s' = free_objs c s @ ds
     \<and> drv_pending (env_ch (axi_chs s ! c)) = ds @ lost @ drv_pending (env_ch (axi_chs s' ! c))
     \<and> cnt = buffers s ds \<and> (lost = [] \<or> length lost = 1 \<and> 1024 \<le> cnt)"
  by (rule rte_env.poller_account [OF assms])

theorem spdk_axi_dma_poller_account_witness:
  "\<exists>ch cnt s'. drv_pending ch = [4096]
     \<and> spdk_axi_dma_poller 2 (rte_axi_dma_poll_complete 9) (\<lambda>_. spdk_axi_dma_io_free) 0
         (demo_sys ch (pool_two\<lparr>io_head := 1\<rparr>)) = Inr (cnt, s')"
proof -
  let ?ios = "[4096 \<mapsto> io_of_length 4608, 4160 \<mapsto> io_of_length 4608] :: io_store"
  have "ios_live (ring4 False) ?ios" by (simp add: ios_live_def ring4_facts)
  from add_buffer_any [where ios = ?ios and ctx = 4096 and io = "io_of_length 4608" and now = 3,
      OF ring4_facts(1) this _ two_buffers_facts(1)]
  obtain rc ch ios' where 1: "rte_axi_dma_add_buffer 3 (ring4 False) ?ios two_buffers 4096 = Inr (rc, ch, ios')"
    "ring_inv ch" "ios_live ch ios'" "dom ios' = dom ?ios" "reqs (inflight ch) = (if rc = 0 then [4096] else [])"
    by (auto simp: ring4_facts two_buffers_facts)
  have "rc = 0"
    using add_buffer_ok [where ios = ?ios and ctx = 4096 and io = "io_of_length 4608" and now = 3,
        OF ring4_facts(1) [of False] two_buffers_facts(1) _ two_buffers_facts(3)] 1(1)
    by (auto simp: ring4_facts two_buffers_facts)
  then have pend: "reqs (inflight ch) = [4096]" using 1(5) by simp
  have "ios_live ch ?ios" using ios_live_mono [OF 1(3)] 1(4) by simp
  with 1(2) have inv: "axi_inv drv_inv 0 (demo_sys ch (pool_two\<lparr>io_head := 1\<rparr>))"
    unfolding axi_inv_def set_pool_free_image
    by (simp add: demo_sys_def pool_two_free del: set_map)
  have "length (free_objs 0 (demo_sys ch (pool_two\<lparr>io_head := 1\<rparr>))) = 1"
    by (simp add: free_objs_def demo_sys_def pool_two_free)
  moreover have "pool_cap (pool_two\<lparr>io_head := 1\<rparr>) = 2"
    using pool_two_free(2) by (simp add: pool_cap_def)
  ultimately show ?thesis
    using spdk_axi_dma_poller_account [OF inv, of 2 9] pend
    by (intro exI [of _ ch]) (auto simp: demo_sys_def meta0_def)
qed

text \<open>The identifiers a caller may pass for a channel collapse to the four hardware channels:
  creating a channel for two non-negative identifiers that agree modulo 4 asks the environment for
  the same channel, and the identifier recorded is below 4.\<close>

theorem spdk_axi_dma_create_channel_mod4:
  assumes "0 \<le> i" and "0 \<le> j" and "i mod 4 = j mod 4"
  shows "spdk_axi_dma_create_tx_channel ch_ptr env_create pool0 sz a r n i t
       = spdk_axi_dma_create_tx_channel ch_ptr env_create pool0 sz a r n j t
     \<and> (\<forall>ch. spdk_axi_dma_create_tx_channel ch_ptr env_create pool0 sz a r n i t = Some ch \<longrightarrow>
          0 \<le> ax_id ch \<and> ax_id ch < 4 \<and> env_create n (ax_id ch) t = Some (env_ch ch))"
proof -
  have m: "(if k \<ge> 4 then k mod 4 else k) = k mod 4" if "0 \<le> k" for k :: int using that by auto
  have "spdk_axi_dma_create_tx_channel ch_ptr env_create pool0 sz a r n i t
      = spdk_axi_dma_create_tx_channel ch_ptr env_create pool0 sz a r n j t"
    unfolding spdk_axi_dma_create_tx_channel_def axi_create_channel_def m [OF assms(1)] m [OF assms(2)]
    by (simp only: assms(3))
  moreover have "0 \<le> ax_id ch \<and> ax_id ch < 4 \<and> env_create n (ax_id ch) t = Some (env_ch ch)"
    if "spdk_axi_dma_create_tx_channel ch_ptr env_create pool0 sz a r n i t = Some ch" for ch
    using that unfolding spdk_axi_dma_create_tx_channel_def axi_create_channel_def m [OF assms(1)]
    by (auto simp: Let_def split: option.splits if_splits)
  ultimately show ?thesis by blast
qed

theorem spdk_axi_dma_create_channel_mod4_witness:
  "spdk_axi_dma_create_tx_channel 1 (\<lambda>n i t. Some i) pool_zero 64 4096 8192 2 6 0
     = spdk_axi_dma_create_tx_channel 1 (\<lambda>n i t. Some i) pool_zero 64 4096 8192 2 2 0"
  using spdk_axi_dma_create_channel_mod4 [of 6 2 1 "\<lambda>n i t. Some i"] by simp

end
