(* ===== verification/Acc_Cmd.thy ===== *)
theory Acc_Cmd
  imports Nest_Prelude
begin

unbundle bit_operations_syntax

text \<open>
  The command interface between the accelerator runtime and the operator controller
  (\<^verbatim>\<open>lib/hlsacccompute/hlsacccompute.c\<close> and \<^verbatim>\<open>include/spdk/hlsacccompute.h\<close>): the 8-byte command union
  \<^verbatim>\<open>AssSchedCmd\<close> with its overlapping views, the submission ring written by \<^verbatim>\<open>execute_sqe\<close>, the
  completion ring drained by \<^verbatim>\<open>spdk_hlsacccompute_poll_cq\<close>, and \<^verbatim>\<open>id_remap\<close>, which rewrites the logical
  operator and channel numbers of a program's commands to the physical ones of a request.

  A command is its raw 64-bit word; the views of the union are byte accessors in little-endian
  order.  An index outside a C array, also outside an array inside the union, is a fault.
\<close>

section \<open>The command word\<close>

type_synonym cmd = u64

definition cmd_byte :: "cmd \<Rightarrow> nat \<Rightarrow> u8" where
  "cmd_byte w i = ucast (drop_bit (8 * i) w)"

definition set_cmd_byte :: "cmd \<Rightarrow> nat \<Rightarrow> u8 \<Rightarrow> cmd" where
  "set_cmd_byte w i b = (w AND NOT (push_bit (8 * i) (mask 8))) OR push_bit (8 * i) (ucast b)"

definition cmd_cid :: "cmd \<Rightarrow> u8" where "cmd_cid w = cmd_byte w 0"
definition cmd_opc :: "cmd \<Rightarrow> u8" where "cmd_opc w = cmd_byte w 1"
definition cmd_ops_num :: "cmd \<Rightarrow> u8" where "cmd_ops_num w = cmd_byte w 2"
definition cmd_length :: "cmd \<Rightarrow> u8" where "cmd_length w = cmd_byte w 3"

definition connections_num :: "cmd \<Rightarrow> u16" where "connections_num w = ucast w"

definition set_connections_num :: "cmd \<Rightarrow> u16 \<Rightarrow> cmd" where
  "set_connections_num w n = set_cmd_byte (set_cmd_byte w 0 (ucast n)) 1 (ucast (drop_bit 8 n))"

definition conn_from :: "cmd \<Rightarrow> nat \<Rightarrow> u8" where "conn_from w k = cmd_byte w (2 + 2 * k)"
definition conn_to :: "cmd \<Rightarrow> nat \<Rightarrow> u8" where "conn_to w k = cmd_byte w (3 + 2 * k)"

definition set_conn :: "cmd \<Rightarrow> nat \<Rightarrow> u8 \<Rightarrow> u8 \<Rightarrow> cmd" where
  "set_conn w k f t = set_cmd_byte (set_cmd_byte w (2 + 2 * k) f) (3 + 2 * k) t"

definition FORCE_FREE_OPS :: u8 where "FORCE_FREE_OPS = 0"
definition APPLY_OPS :: u8 where "APPLY_OPS = 1"
definition QUERY_OPS :: u8 where "QUERY_OPS = 2"
definition SUSPEND_OPS :: u8 where "SUSPEND_OPS = 3"
definition RESUME_OPS :: u8 where "RESUME_OPS = 4"

definition SQ_SIZE :: nat where "SQ_SIZE = 32"
definition CQ_SIZE :: nat where "CQ_SIZE = 32"

section \<open>The rings\<close>

text \<open>A completion: the command identifier, the operator count and the state.\<close>

record cqe =
  cqe_cid :: u8
  cqe_ops :: u8
  cqe_state :: u16

text \<open>\<open>sq_tail\<close>, \<open>cq_head\<close> and \<open>cq_tail\<close> are registers of the controller; \<open>inner_tail\<close> is the runtime's
  own copy of the completion tail.  \<open>'f\<close> are callback functions and \<open>'a\<close> their arguments.\<close>

record ('f, 'a) cmd_queue =
  sq :: "cmd list"
  sq_tail :: u32
  cq :: "cqe list"
  cq_head :: u32
  cq_tail :: u32
  inner_tail :: u32
  cmd_cb_fns :: "'f option list"
  cmd_cb_args :: "'a option list"

text \<open>The copy loop of \<^verbatim>\<open>execute_sqe\<close>: \<open>n\<close> command words from the tail on.\<close>

fun sq_copy :: "nat \<Rightarrow> nat \<Rightarrow> cmd list \<Rightarrow> nat \<Rightarrow> cmd list \<Rightarrow> cmd list res" where
  "sq_copy 0 i cmds tail ring = Inr ring"
| "sq_copy (Suc n) i cmds tail ring =
     rbind (arr_get cmds i) (\<lambda>w.
     rbind (arr_set ring (tail mod SQ_SIZE) w) (\<lambda>ring'.
     sq_copy n (Suc i) cmds (Suc tail) ring'))"

text \<open>The common part of the two branches: tag the command with the tail, copy it, register the
  callback under the tag, publish the new tail.  The submission ring's head register is not read.\<close>

definition submit_cmd ::
    "nat \<Rightarrow> cmd list \<Rightarrow> 'a option \<Rightarrow> 'f option \<Rightarrow> ('f, 'a) cmd_queue \<Rightarrow> (cmd list \<times> ('f, 'a) cmd_queue) res" where
  "submit_cmd n cmds arg fn q =
     (let tail = unat (sq_tail q) in
      rbind (arr_get cmds 0) (\<lambda>w0.
      let cmds' = cmds[0 := set_cmd_byte w0 0 (of_nat tail)]; tag = unat (of_nat tail :: u8) in
      rbind (sq_copy n 0 cmds' tail (sq q)) (\<lambda>ring.
      rbind (arr_set (cmd_cb_args q) tag arg) (\<lambda>args.
      rbind (arr_set (cmd_cb_fns q) tag fn) (\<lambda>fns.
      Inr (cmds', q\<lparr>sq := ring, cmd_cb_args := args, cmd_cb_fns := fns,
             sq_tail := of_nat ((tail + n) mod SQ_SIZE)\<rparr>))))))"

definition execute_sqe ::
    "u32 \<Rightarrow> cmd list \<Rightarrow> 'a option \<Rightarrow> 'f option \<Rightarrow> ('f, 'a) cmd_queue \<Rightarrow>
     (u32 \<times> cmd list \<times> ('f, 'a) cmd_queue) res" where
  "execute_sqe apply_ops_size cmds arg fn q =
     rbind (arr_get cmds 0) (\<lambda>w0.
     let ret = sq_tail q in
     if cmd_opc w0 = APPLY_OPS then
       rbind (submit_cmd (unat apply_ops_size) cmds arg fn q) (\<lambda>(cmds', q'). Inr (ret, cmds', q'))
     else if cmd_opc w0 = SUSPEND_OPS \<or> cmd_opc w0 = RESUME_OPS \<or> cmd_opc w0 = FORCE_FREE_OPS then
       rbind (submit_cmd 2 cmds arg fn q) (\<lambda>(cmds', q'). Inr (ret, cmds', q'))
     else Inr (ret, cmds, q))"

text \<open>The completion loop.  \<open>run_cb\<close> runs a callback on the whole state; \<open>incr\<close> counts the entries
  consumed since the head register was last written.\<close>

fun poll_cq_loop ::
    "nat \<Rightarrow> ('f \<Rightarrow> cmd \<Rightarrow> cqe \<Rightarrow> 'a option \<Rightarrow> ('f, 'a) cmd_queue \<times> 'c \<Rightarrow> (('f, 'a) cmd_queue \<times> 'c) res) \<Rightarrow>
     nat \<Rightarrow> bool \<Rightarrow> ('f, 'a) cmd_queue \<times> 'c \<Rightarrow> (bool \<times> ('f, 'a) cmd_queue \<times> 'c) res" where
  "poll_cq_loop 0 run_cb incr has (q, c) = Inl Hang"
| "poll_cq_loop (Suc fuel) run_cb incr has (q, c) =
     (if inner_tail q = cq_tail q then
        Inr (has, (if incr = 0 then q
                   else q\<lparr>cq_head := of_nat ((unat (cq_head q) + incr) mod SQ_SIZE)\<rparr>), c)
      else
        let hd = (unat (cq_head q) + incr) mod CQ_SIZE in
        rbind (arr_get (cq q) hd) (\<lambda>e.
        let cid = unat (cqe_cid e);
            q1 = q\<lparr>inner_tail := of_nat ((unat (inner_tail q) + 1) mod SQ_SIZE)\<rparr> in
        rbind (arr_get (cmd_cb_fns q1) cid) (\<lambda>fn.
        case fn of None \<Rightarrow> poll_cq_loop fuel run_cb (Suc incr) True (q1, c)
        | Some f \<Rightarrow>
            let q2 = q1\<lparr>cq_head := of_nat ((unat (cq_head q1) + Suc incr) mod SQ_SIZE)\<rparr> in
            rbind (arr_get (sq q2) cid) (\<lambda>w.
            rbind (arr_get (cmd_cb_args q2) cid) (\<lambda>a.
            rbind (run_cb f w e a (q2, c)) (\<lambda>s'.
            poll_cq_loop fuel run_cb 0 True s'))))))"

definition spdk_hlsacccompute_poll_cq ::
    "nat \<Rightarrow> ('f \<Rightarrow> cmd \<Rightarrow> cqe \<Rightarrow> 'a option \<Rightarrow> ('f, 'a) cmd_queue \<times> 'c \<Rightarrow> (('f, 'a) cmd_queue \<times> 'c) res) \<Rightarrow>
     ('f, 'a) cmd_queue \<times> 'c \<Rightarrow> (bool \<times> ('f, 'a) cmd_queue \<times> 'c) res" where
  "spdk_hlsacccompute_poll_cq fuel run_cb s = poll_cq_loop fuel run_cb 0 False s"

section \<open>Remapping of identifiers\<close>

text \<open>An endpoint byte holds a logical operator number in its high nibble and a port in its low
  nibble; a high nibble of 15 in a destination marks a receive channel instead.\<close>

definition remap_op :: "u8 list \<Rightarrow> u8 \<Rightarrow> u8 res" where
  "remap_op id_map e =
     rbind (arr_get id_map (unat (drop_bit 4 e))) (\<lambda>m. Inr (push_bit 4 m OR (e AND 0xf)))"

definition remap_to :: "u8 list \<Rightarrow> u8 option list \<Rightarrow> u8 \<Rightarrow> u8 \<Rightarrow> u8 res" where
  "remap_to id_map rx_ch chmask e =
     (if e AND 0xF0 = 0xF0 then
        rbind (arr_get rx_ch (unat (e AND chmask))) (\<lambda>c.
        case c of None \<Rightarrow> Inl NullDeref | Some i \<Rightarrow> Inr i)
      else remap_op id_map e)"

text \<open>One word of connections: entries \<open>k\<close> to \<open>n - 1\<close>.  The union has three entries per word.\<close>

fun remap_conns ::
    "nat \<Rightarrow> nat \<Rightarrow> u8 list \<Rightarrow> u8 option list \<Rightarrow> u8 \<Rightarrow> cmd \<Rightarrow> cmd \<Rightarrow> cmd res" where
  "remap_conns 0 k id_map rx_ch chmask src dst = Inr dst"
| "remap_conns (Suc n) k id_map rx_ch chmask src dst =
     (if k \<ge> 3 then Inl OutOfBounds
      else rbind (remap_op id_map (conn_from src k)) (\<lambda>f.
           rbind (remap_to id_map rx_ch chmask (conn_to src k)) (\<lambda>t.
           remap_conns n (Suc k) id_map rx_ch chmask src (set_conn dst k f t))))"

text \<open>The words of one operator in an apply command: context address, first connections, and a
  further word when there are more than three connections.  The bound of that second loop is read
  from the destination's own second word, and its channel index is masked with \<open>0xFF\<close>.\<close>

definition remap_op_words ::
    "u8 list \<Rightarrow> u64 option list \<Rightarrow> u8 option list \<Rightarrow> cmd list \<Rightarrow> nat \<Rightarrow> nat \<Rightarrow> cmd list \<Rightarrow> (nat \<times> cmd list) res" where
  "remap_op_words id_map ctxs rx_ch src i j dst =
     rbind (arr_get ctxs i) (\<lambda>ctx.
     case ctx of None \<Rightarrow> Inl NullDeref
     | Some phy \<Rightarrow>
       rbind (arr_set dst (j + 1) phy) (\<lambda>dst1.
       rbind (arr_get src (j + 2)) (\<lambda>s2.
       rbind (arr_get dst1 (j + 2)) (\<lambda>d2.
       let n = unat (connections_num s2) in
       rbind (remap_conns (min n 3) 0 id_map rx_ch 0xF s2 (set_connections_num d2 (connections_num s2))) (\<lambda>d2'.
       rbind (arr_set dst1 (j + 2) d2') (\<lambda>dst2.
       if n > 3 then
         rbind (arr_get src (j + 3)) (\<lambda>s3.
         rbind (arr_get dst2 (j + 3)) (\<lambda>d3.
         rbind (remap_conns (unat (connections_num d3) - 3) 0 id_map rx_ch 0xFF s3 d3) (\<lambda>d3'.
         rbind (arr_set dst2 (j + 3) d3') (\<lambda>dst3.
         Inr (j + 3, dst3)))))
       else Inr (j + 2, dst2)))))))"

fun remap_apply ::
    "nat \<Rightarrow> nat \<Rightarrow> nat \<Rightarrow> u8 list \<Rightarrow> u64 option list \<Rightarrow> u8 option list \<Rightarrow> cmd list \<Rightarrow> cmd list \<Rightarrow> cmd list res" where
  "remap_apply 0 i j id_map ctxs rx_ch src dst = Inr dst"
| "remap_apply (Suc n) i j id_map ctxs rx_ch src dst =
     rbind (remap_op_words id_map ctxs rx_ch src i j dst) (\<lambda>(j', dst').
     remap_apply n (Suc i) j' id_map ctxs rx_ch src dst')"

fun remap_ops :: "nat \<Rightarrow> nat \<Rightarrow> u8 list \<Rightarrow> cmd \<Rightarrow> cmd \<Rightarrow> cmd res" where
  "remap_ops 0 i id_map src dst = Inr dst"
| "remap_ops (Suc n) i id_map src dst =
     (if i \<ge> 8 then Inl OutOfBounds
      else rbind (arr_get id_map (unat (cmd_byte src i))) (\<lambda>m.
           remap_ops n (Suc i) id_map src (set_cmd_byte dst i m)))"

text \<open>The header is copied only when the operation codes differ.\<close>

definition id_remap ::
    "u8 list \<Rightarrow> u64 option list \<Rightarrow> u8 option list \<Rightarrow> cmd list \<Rightarrow> cmd list \<Rightarrow> cmd list res" where
  "id_remap id_map ctxs rx_ch src dst0 =
     rbind (arr_get src 0) (\<lambda>s0.
     rbind (arr_get dst0 0) (\<lambda>d0.
     let dst = (if cmd_opc s0 \<noteq> cmd_opc d0 then dst0[0 := s0] else dst0) in
     if cmd_opc s0 = APPLY_OPS then
       remap_apply (unat (cmd_ops_num s0)) 0 0 id_map ctxs rx_ch src dst
     else if cmd_opc s0 = SUSPEND_OPS \<or> cmd_opc s0 = FORCE_FREE_OPS \<or> cmd_opc s0 = RESUME_OPS then
       let dst' = dst[0 := set_cmd_byte (dst ! 0) 2 (cmd_ops_num s0)] in
       rbind (arr_get src 1) (\<lambda>s1.
       rbind (arr_get dst' 1) (\<lambda>d1.
       rbind (remap_ops (unat (cmd_ops_num s0)) 0 id_map s1 d1) (\<lambda>d1'.
       Inr (dst'[1 := d1']))))
     else Inr dst))"

end
