(* ===== verification/Acc_Cmd_Laws.thy ===== *)
theory Acc_Cmd_Laws
  imports Acc_Cmd
begin

unbundle bit_operations_syntax

text \<open>
  Correctness of the command interface: reading back what was written into a command word, what
  one submission leaves in the submission ring, that a poll handles exactly the new completions in
  order, and what remapping produces, with its two defects for commands of more than three
  connections and for the header of a release command.
\<close>

section \<open>Bytes of a command word\<close>

lemma bit_cmd_byte: "bit (cmd_byte w i) n \<longleftrightarrow> n < 8 \<and> bit w (8 * i + n)"
  by (auto simp: cmd_byte_def bit_simps dest: bit_imp_le_length)

lemma cmd_byte_set:
  assumes "i < 8" and "j < 8"
  shows "cmd_byte (set_cmd_byte w i b) j = (if i = j then b else cmd_byte w j)"
proof (rule bit_word_eqI)
  fix n assume n: "n < LENGTH(8)"
  have out: "8 * i \<le> 8 * j + n \<and> 8 * j + n - 8 * i < 8 \<longleftrightarrow> i = j"
    using n by auto
  show "bit (cmd_byte (set_cmd_byte w i b) j) n = bit (if i = j then b else cmd_byte w j) n"
    using assms n out
    by (auto simp: bit_cmd_byte set_cmd_byte_def bit_simps dest: bit_imp_le_length)
qed

lemma bit_connections_num: "bit (connections_num w) n \<longleftrightarrow> n < 16 \<and> bit w n"
  by (auto simp: connections_num_def bit_simps dest: bit_imp_le_length)

lemma connections_num_bytes:
  "connections_num w = connections_num w' \<longleftrightarrow> cmd_byte w 0 = cmd_byte w' 0 \<and> cmd_byte w 1 = cmd_byte w' 1"
proof
  assume l: "connections_num w = connections_num w'"
  have "bit w n = bit w' n" if "n < 16" for n
    using bit_connections_num [of w n] bit_connections_num [of w' n] l that by simp
  then show "cmd_byte w 0 = cmd_byte w' 0 \<and> cmd_byte w 1 = cmd_byte w' 1"
    by (auto intro!: bit_word_eqI simp: bit_cmd_byte)
next
  assume r: "cmd_byte w 0 = cmd_byte w' 0 \<and> cmd_byte w 1 = cmd_byte w' 1"
  show "connections_num w = connections_num w'"
  proof (rule bit_word_eqI)
    fix n assume n: "n < LENGTH(16)"
    show "bit (connections_num w) n = bit (connections_num w') n"
    proof (cases "n < 8")
      case True
      then show ?thesis using r bit_cmd_byte [of w 0 n] bit_cmd_byte [of w' 0 n]
        by (simp add: bit_connections_num)
    next
      case False
      then have "n - 8 < 8" using n by simp
      with False show ?thesis using r n bit_cmd_byte [of w 1 "n - 8"] bit_cmd_byte [of w' 1 "n - 8"]
        by (simp add: bit_connections_num)
    qed
  qed
qed

lemma connections_num_set: "connections_num (set_connections_num w n) = n"
proof -
  have "cmd_byte (set_connections_num w n) 0 = ucast n"
    "cmd_byte (set_connections_num w n) 1 = ucast (drop_bit 8 n)"
    by (simp_all add: set_connections_num_def cmd_byte_set)
  moreover have "cmd_byte (ucast n) 0 = ucast n" "cmd_byte (ucast n) 1 = ucast (drop_bit 8 n)"
    by (auto intro!: bit_word_eqI simp: bit_cmd_byte bit_simps)
  ultimately have "connections_num (set_connections_num w n) = connections_num (ucast n)"
    by (simp add: connections_num_bytes)
  then show ?thesis by (auto simp: connections_num_def intro!: bit_word_eqI simp: bit_simps)
qed

lemma conn_set_connections_num [simp]:
  "k < 3 \<Longrightarrow> conn_from (set_connections_num w n) k = conn_from w k"
  "k < 3 \<Longrightarrow> conn_to (set_connections_num w n) k = conn_to w k"
  by (auto simp: conn_from_def conn_to_def set_connections_num_def cmd_byte_set)

lemma conn_set_conn:
  "j < 3 \<Longrightarrow> k < 3 \<Longrightarrow> conn_from (set_conn w j f t) k = (if j = k then f else conn_from w k)"
  "j < 3 \<Longrightarrow> k < 3 \<Longrightarrow> conn_to (set_conn w j f t) k = (if j = k then t else conn_to w k)"
proof -
  have ne: "2 + 2 * i \<noteq> 3 + 2 * m" for i m :: nat by presburger
  show "j < 3 \<Longrightarrow> k < 3 \<Longrightarrow> conn_from (set_conn w j f t) k = (if j = k then f else conn_from w k)"
    "j < 3 \<Longrightarrow> k < 3 \<Longrightarrow> conn_to (set_conn w j f t) k = (if j = k then t else conn_to w k)"
    using ne [of j k] ne [of k j] by (auto simp: conn_from_def conn_to_def set_conn_def cmd_byte_set)
qed

lemma connections_num_set_conn: "k < 3 \<Longrightarrow> connections_num (set_conn w k f t) = connections_num w"
  by (simp add: connections_num_bytes set_conn_def cmd_byte_set)

section \<open>The submission ring\<close>

lemma sq_copy_ok:
  assumes "i + n \<le> length cmds" and "length ring = SQ_SIZE" and "n \<le> SQ_SIZE"
  shows "\<exists>ring'. sq_copy n i cmds tail ring = Inr ring' \<and> length ring' = SQ_SIZE
     \<and> ring_window ring' tail n = take n (drop i cmds)
     \<and> (\<forall>m < SQ_SIZE. (\<forall>k < n. m \<noteq> (tail + k) mod SQ_SIZE) \<longrightarrow> ring' ! m = ring ! m)"
  using assms
proof (induction n arbitrary: i tail ring)
  case 0
  then show ?case by simp
next
  case (Suc n)
  let ?r = "ring[tail mod SQ_SIZE := cmds ! i]"
  have t: "tail mod SQ_SIZE < SQ_SIZE" by (simp add: SQ_SIZE_def)
  from Suc.IH [of "Suc i" ?r "Suc tail"] Suc.prems obtain ring' where
    1: "sq_copy n (Suc i) cmds (Suc tail) ?r = Inr ring'" "length ring' = SQ_SIZE"
      "ring_window ring' (Suc tail) n = take n (drop (Suc i) cmds)"
      "\<forall>m < SQ_SIZE. (\<forall>k < n. m \<noteq> (Suc tail + k) mod SQ_SIZE) \<longrightarrow> ring' ! m = ?r ! m" by auto
  have keep: "tail mod SQ_SIZE \<noteq> (Suc tail + k) mod SQ_SIZE" if "k < n" for k
    using mod_add_neq [of 0 SQ_SIZE "Suc k" tail] that Suc.prems(3) by simp
  have hd: "ring' ! (tail mod SQ_SIZE) = cmds ! i"
    using 1(4) keep t Suc.prems(2) by simp
  have "ring_window ring' tail (Suc n) = take (Suc n) (drop i cmds)"
  proof (rule nth_equalityI)
    fix k assume "k < length (ring_window ring' tail (Suc n))"
    then have k: "k < Suc n" by simp
    show "ring_window ring' tail (Suc n) ! k = take (Suc n) (drop i cmds) ! k"
    proof (cases k)
      case 0
      then show ?thesis using hd 1(2) Suc.prems(1) by simp
    next
      case (Suc k')
      with k have k': "k' < n" by simp
      have "ring_window ring' (Suc tail) n ! k' = take n (drop (Suc i) cmds) ! k'" using 1(3) by simp
      with k k' Suc Suc.prems(1) show ?thesis by simp
    qed
  qed (use Suc.prems(1) in simp)
  moreover have "ring' ! m = ring ! m" if "m < SQ_SIZE" "\<forall>k < Suc n. m \<noteq> (tail + k) mod SQ_SIZE" for m
  proof -
    have "m \<noteq> tail mod SQ_SIZE" using that(2) by (metis add_0_right zero_less_Suc)
    moreover have "\<forall>k < n. m \<noteq> (Suc tail + k) mod SQ_SIZE"
      using that(2) by (metis Suc_less_eq add_Suc_shift)
    ultimately show ?thesis using 1(4) that(1) by simp
  qed
  moreover have "sq_copy (Suc n) i cmds tail ring = Inr ring'"
    using 1(1) t Suc.prems by simp
  ultimately show ?case using 1(2) by blast
qed

definition queue_wf :: "('f, 'a) cmd_queue \<Rightarrow> bool" where
  "queue_wf q \<longleftrightarrow> length (sq q) = SQ_SIZE \<and> length (cq q) = CQ_SIZE \<and> length (cmd_cb_fns q) = SQ_SIZE
     \<and> length (cmd_cb_args q) = SQ_SIZE \<and> unat (sq_tail q) < SQ_SIZE \<and> unat (cq_head q) < CQ_SIZE
     \<and> unat (inner_tail q) < CQ_SIZE"

lemma unat_of_nat_small: "n < 32 \<Longrightarrow> unat (of_nat n :: u32) = n" "n < 32 \<Longrightarrow> unat (of_nat n :: u8) = n"
  by (simp_all add: unsigned_of_nat take_bit_nat_eq_self)

lemma submit_cmd_ok:
  assumes "queue_wf q" and "0 < n" and "n \<le> length cmds" and "n \<le> SQ_SIZE"
  shows "\<exists>q'. submit_cmd n cmds arg fn q
        = Inr (cmds[0 := set_cmd_byte (cmds ! 0) 0 (ucast (sq_tail q))], q')
     \<and> queue_wf q' \<and> unat (sq_tail q') = (unat (sq_tail q) + n) mod SQ_SIZE
     \<and> ring_window (sq q') (unat (sq_tail q)) n
         = take n (cmds[0 := set_cmd_byte (cmds ! 0) 0 (ucast (sq_tail q))])
     \<and> (\<forall>m < SQ_SIZE. (\<forall>k < n. m \<noteq> (unat (sq_tail q) + k) mod SQ_SIZE) \<longrightarrow> sq q' ! m = sq q ! m)
     \<and> cmd_cb_fns q' = (cmd_cb_fns q)[unat (sq_tail q) := fn]
     \<and> cmd_cb_args q' = (cmd_cb_args q)[unat (sq_tail q) := arg]
     \<and> cq q' = cq q \<and> cq_head q' = cq_head q \<and> cq_tail q' = cq_tail q \<and> inner_tail q' = inner_tail q"
proof -
  let ?t = "unat (sq_tail q)"
  have t: "?t < 32" using assms(1) by (simp add: queue_wf_def SQ_SIZE_def)
  have tag: "(of_nat ?t :: u8) = ucast (sq_tail q)" "unat (of_nat ?t :: u8) = ?t"
    using unat_of_nat_small(2) [OF t] by (simp_all add: unsigned_of_nat)
  let ?c = "cmds[0 := set_cmd_byte (cmds ! 0) 0 (ucast (sq_tail q))]"
  from sq_copy_ok [of 0 n ?c "sq q" ?t] assms obtain ring where
    1: "sq_copy n 0 ?c ?t (sq q) = Inr ring" "length ring = SQ_SIZE" "ring_window ring ?t n = take n ?c"
      "\<forall>m < SQ_SIZE. (\<forall>k < n. m \<noteq> (?t + k) mod SQ_SIZE) \<longrightarrow> ring ! m = sq q ! m"
    by (auto simp: queue_wf_def)
  have c0: "arr_get cmds 0 = Inr (cmds ! 0)" using assms(2,3) by (cases cmds) auto
  have "(?t + n) mod SQ_SIZE < 32" by (simp add: SQ_SIZE_def)
  note u = unat_of_nat_small(1) [OF this]
  show ?thesis
    using 1 c0 tag t u assms(1)
    by (simp add: submit_cmd_def Let_def queue_wf_def SQ_SIZE_def)
qed

section \<open>Remapping\<close>

lemma remap_ops_ok:
  assumes "i + n \<le> 8" and "\<forall>k. i \<le> k \<and> k < i + n \<longrightarrow> unat (cmd_byte src k) < length id_map"
  shows "\<exists>d. remap_ops n i id_map src dst = Inr d
     \<and> (\<forall>k < 8. cmd_byte d k = (if i \<le> k \<and> k < i + n then id_map ! unat (cmd_byte src k) else cmd_byte dst k))"
  using assms
proof (induction n arbitrary: i dst)
  case 0
  then show ?case by auto
next
  case (Suc n)
  let ?d = "set_cmd_byte dst i (id_map ! unat (cmd_byte src i))"
  from Suc.IH [of "Suc i" ?d] Suc.prems obtain d where
    1: "remap_ops n (Suc i) id_map src ?d = Inr d"
      "\<forall>k < 8. cmd_byte d k = (if Suc i \<le> k \<and> k < Suc i + n then id_map ! unat (cmd_byte src k) else cmd_byte ?d k)"
    by auto
  have "cmd_byte d k = (if i \<le> k \<and> k < i + Suc n then id_map ! unat (cmd_byte src k) else cmd_byte dst k)"
    if "k < 8" for k
    using 1(2) that Suc.prems(1) by (cases "k = i") (auto simp: cmd_byte_set)
  moreover have "remap_ops (Suc n) i id_map src dst = Inr d" using 1(1) Suc.prems by simp
  ultimately show ?case by blast
qed

lemma remap_conns_ok:
  assumes "k + n \<le> 3" and "\<forall>m. k \<le> m \<and> m < k + n \<longrightarrow> remap_op id_map (conn_from src m) = Inr (F m)
      \<and> remap_to id_map rx_ch msk (conn_to src m) = Inr (T m)"
  shows "\<exists>d. remap_conns n k id_map rx_ch msk src dst = Inr d \<and> connections_num d = connections_num dst
     \<and> (\<forall>m < 3. conn_from d m = (if k \<le> m \<and> m < k + n then F m else conn_from dst m)
          \<and> conn_to d m = (if k \<le> m \<and> m < k + n then T m else conn_to dst m))"
  using assms
proof (induction n arbitrary: k dst)
  case 0
  then show ?case by auto
next
  case (Suc n)
  let ?d = "set_conn dst k (F k) (T k)"
  from Suc.IH [of "Suc k" ?d] Suc.prems obtain d where
    1: "remap_conns n (Suc k) id_map rx_ch msk src ?d = Inr d" "connections_num d = connections_num ?d"
      "\<forall>m < 3. conn_from d m = (if Suc k \<le> m \<and> m < Suc k + n then F m else conn_from ?d m)
          \<and> conn_to d m = (if Suc k \<le> m \<and> m < Suc k + n then T m else conn_to ?d m)"
    by auto
  have "conn_from d m = (if k \<le> m \<and> m < k + Suc n then F m else conn_from dst m)
      \<and> conn_to d m = (if k \<le> m \<and> m < k + Suc n then T m else conn_to dst m)" if "m < 3" for m
    using 1(3) that Suc.prems(1) by (cases "m = k") (auto simp: conn_set_conn)
  moreover have "remap_conns (Suc n) k id_map rx_ch msk src dst = Inr d" using 1(1) Suc.prems by simp
  moreover have "connections_num d = connections_num dst"
    using 1(2) Suc.prems(1) by (simp add: connections_num_set_conn)
  ultimately show ?case by blast
qed

text \<open>The bit operations on an endpoint byte, as arithmetic on its value.\<close>

lemma low_nibble: "unat (e AND 0xF) = unat e mod 16" for e :: u8
proof -
  have "e AND 0xF = take_bit 4 e" by (simp add: take_bit_eq_mask mask_numeral)
  then show ?thesis by (simp add: take_bit_eq_mod unat_mod)
qed
lemma shift_nibble: "unat (push_bit 4 m) = take_bit 8 (push_bit 4 (unat m))" for m :: u8
  by (simp add: unsigned_push_bit_eq take_bit_push_bit)

lemma high_nibble: "unat (drop_bit 4 e) = unat e div 16" for e :: u8
  by (simp add: drop_bit_eq_div unat_div)

lemma high_nibble_set: "e AND 0xF0 = 0xF0 \<longleftrightarrow> unat e div 16 = 15" for e :: u8
proof -
  have s: "e AND 0xF0 = push_bit 4 (drop_bit 4 e)"
  proof (rule bit_word_eqI)
    fix n assume n: "n < LENGTH(8)"
    have "n \<in> {0,1,2,3,4,5,6,7}" using n by auto
    then show "bit (e AND 0xF0) n = bit (push_bit 4 (drop_bit 4 e)) n"
      by (auto simp: bit_simps)
  qed
  have v: "unat (e AND 0xF0) = (unat e div 16) * 16"
  proof -
    have "unat e div 16 * 16 < 256" using unsigned_less [where ?'a = nat and w = e] by simp
    then show ?thesis unfolding s shift_nibble high_nibble by (simp add: push_bit_eq_mult take_bit_eq_mod)
  qed
  have "e AND 0xF0 = 0xF0 \<longleftrightarrow> (unat e div 16) * 16 = 240" by (simp add: word_unat_eq_iff v)
  then show ?thesis by auto
qed

lemma with_nibble: "unat (push_bit 4 m OR (e AND 0xF)) = unat m * 16 mod 256 + unat e mod 16" for m e :: u8
proof -
  have "unat (push_bit 4 m OR (e AND 0xF)) = unat (push_bit 4 m) OR unat (e AND 0xF)" by (simp only: unsigned_or_eq)
  also have "\<dots> = take_bit 8 (push_bit 4 (unat m)) OR take_bit 4 (unat e)" unfolding shift_nibble low_nibble by (simp add: take_bit_eq_mod)
  also have "\<dots> = take_bit 8 (push_bit 4 (unat m)) + take_bit 4 (unat e)"
    by (rule disjunctive_add_eq_or [symmetric]) (auto simp: bit_eq_iff bit_and_iff bit_push_bit_iff bit_take_bit_iff)
  finally show ?thesis by (simp add: take_bit_eq_mod push_bit_eq_mult)
qed

text \<open>The translation of an endpoint byte, on numbers: the operator number \<open>e div 16\<close> goes through the
  request's map (of whose entry only the low four bits fit), the port \<open>e mod 16\<close> stays; a
  destination of operator number 15 is the \<open>e mod 16\<close>-th receive channel of the request.\<close>

definition phys_op :: "u8 list \<Rightarrow> nat \<Rightarrow> nat" where
  "phys_op id_map e = 16 * (unat (id_map ! (e div 16)) mod 16) + e mod 16"

definition phys_end :: "u8 list \<Rightarrow> u8 option list \<Rightarrow> nat \<Rightarrow> nat" where
  "phys_end id_map rx_ch e = (if e div 16 = 15 then unat (the (rx_ch ! (e mod 16))) else phys_op id_map e)"

definition known_end :: "u8 list \<Rightarrow> u8 option list \<Rightarrow> nat \<Rightarrow> bool" where
  "known_end id_map rx_ch e \<longleftrightarrow>
     (if e div 16 = 15 then e mod 16 < length rx_ch \<and> rx_ch ! (e mod 16) \<noteq> None else e div 16 < length id_map)"

lemma remap_op_phys:
  assumes "unat e div 16 < length id_map"
  shows "\<exists>f. remap_op id_map e = Inr f \<and> unat f = phys_op id_map (unat e)"
proof -
  have "unat m * 16 mod 256 = 16 * (unat m mod 16)" for m :: u8
    using mult_mod_right [of 16 "unat m" 16] by (simp add: mult.commute)
  with assms show ?thesis by (simp add: remap_op_def high_nibble with_nibble phys_op_def)
qed

lemma remap_to_phys:
  assumes "known_end id_map rx_ch (unat e)"
  shows "\<exists>t. remap_to id_map rx_ch 0xF e = Inr t \<and> unat t = phys_end id_map rx_ch (unat e)"
proof (cases "unat e div 16 = 15")
  case True
  with assms show ?thesis
    by (auto simp: remap_to_def high_nibble_set low_nibble known_end_def phys_end_def split: option.splits)
next
  case False
  with assms remap_op_phys [of e id_map] show ?thesis
    by (simp add: remap_to_def high_nibble_set known_end_def phys_end_def)
qed

text \<open>What one operator's pair of words must look like after remapping.\<close>

definition remapped_words ::
    "u64 \<Rightarrow> (nat \<Rightarrow> u8) \<Rightarrow> (nat \<Rightarrow> u8) \<Rightarrow> cmd \<Rightarrow> cmd \<Rightarrow> cmd \<Rightarrow> bool" where
  "remapped_words phy F T s d1 d2 \<longleftrightarrow> d1 = phy \<and> connections_num d2 = connections_num s
     \<and> (\<forall>m < unat (connections_num s). conn_from d2 m = F m \<and> conn_to d2 m = T m)"

lemma remap_op_words_ok:
  assumes "i < length ctxs" and "ctxs ! i = Some phy" and "j + 2 < length src" and "j + 2 < length dst"
    and "unat (connections_num (src ! (j + 2))) \<le> 3"
    and "\<forall>m < unat (connections_num (src ! (j + 2))). remap_op id_map (conn_from (src ! (j + 2)) m) = Inr (F m)
      \<and> remap_to id_map rx_ch 0xF (conn_to (src ! (j + 2)) m) = Inr (T m)"
  shows "\<exists>d2. remap_op_words id_map ctxs rx_ch src i j dst = Inr (j + 2, dst[j + 1 := phy, j + 2 := d2])
     \<and> remapped_words phy F T (src ! (j + 2)) phy d2"
proof -
  let ?s = "src ! (j + 2)" and ?n = "unat (connections_num (src ! (j + 2)))"
  let ?d = "set_connections_num (dst ! (j + 2)) (connections_num ?s)"
  from remap_conns_ok [of 0 ?n id_map ?s F rx_ch "0xF" T ?d] assms(5,6) obtain d2 where
    1: "remap_conns ?n 0 id_map rx_ch 0xF ?s ?d = Inr d2" "connections_num d2 = connections_num ?d"
      "\<forall>m < 3. conn_from d2 m = (if m < ?n then F m else conn_from ?d m)
        \<and> conn_to d2 m = (if m < ?n then T m else conn_to ?d m)" by auto
  have "min ?n 3 = ?n" using assms(5) by simp
  then have "remap_op_words id_map ctxs rx_ch src i j dst = Inr (j + 2, dst[j + 1 := phy, j + 2 := d2])"
    using assms 1(1) by (simp add: remap_op_words_def Let_def)
  moreover have "remapped_words phy F T ?s phy d2"
    using 1(2,3) assms(5) by (auto simp: remapped_words_def connections_num_set)
  ultimately show ?thesis by blast
qed

lemma remap_apply_ok:
  assumes "i + n \<le> length ctxs" and "\<forall>k. i \<le> k \<and> k < i + n \<longrightarrow> ctxs ! k = Some (phy k)"
    and "2 * (i + n) < length src" and "2 * (i + n) < length dst"
    and "\<forall>k. i \<le> k \<and> k < i + n \<longrightarrow> unat (connections_num (src ! (2 * k + 2))) \<le> 3
      \<and> (\<forall>m < unat (connections_num (src ! (2 * k + 2))).
          remap_op id_map (conn_from (src ! (2 * k + 2)) m) = Inr (F k m)
        \<and> remap_to id_map rx_ch 0xF (conn_to (src ! (2 * k + 2)) m) = Inr (T k m))"
  shows "\<exists>d. remap_apply n i (2 * i) id_map ctxs rx_ch src dst = Inr d \<and> length d = length dst
     \<and> (\<forall>k \<le> 2 * i. d ! k = dst ! k) \<and> (\<forall>k. 2 * (i + n) < k \<longrightarrow> d ! k = dst ! k)
     \<and> (\<forall>k. i \<le> k \<and> k < i + n \<longrightarrow>
          remapped_words (phy k) (F k) (T k) (src ! (2 * k + 2)) (d ! (2 * k + 1)) (d ! (2 * k + 2)))"
  using assms
proof (induction n arbitrary: i dst)
  case 0
  then show ?case by auto
next
  case (Suc n)
  have "ctxs ! i = Some (phy i)" "i < length ctxs" "unat (connections_num (src ! (2 * i + 2))) \<le> 3"
    "\<forall>m < unat (connections_num (src ! (2 * i + 2))).
        remap_op id_map (conn_from (src ! (2 * i + 2)) m) = Inr (F i m)
      \<and> remap_to id_map rx_ch 0xF (conn_to (src ! (2 * i + 2)) m) = Inr (T i m)"
    using Suc.prems(1,2,5) by auto
  with remap_op_words_ok [of i ctxs "phy i" "2 * i" src dst id_map "F i" rx_ch "T i"] Suc.prems(3,4)
  obtain d2 where
    1: "remap_op_words id_map ctxs rx_ch src i (2 * i) dst
        = Inr (2 * i + 2, dst[2 * i + 1 := phy i, 2 * i + 2 := d2])"
      "remapped_words (phy i) (F i) (T i) (src ! (2 * i + 2)) (phy i) d2" by auto
  let ?dst = "dst[2 * i + 1 := phy i, 2 * i + 2 := d2]"
  from Suc.IH [of "Suc i" ?dst] Suc.prems obtain d where
    2: "remap_apply n (Suc i) (2 * Suc i) id_map ctxs rx_ch src ?dst = Inr d" "length d = length dst"
      "\<forall>k \<le> 2 * Suc i. d ! k = ?dst ! k" "\<forall>k. 2 * (Suc i + n) < k \<longrightarrow> d ! k = ?dst ! k"
      "\<forall>k. Suc i \<le> k \<and> k < Suc i + n \<longrightarrow>
         remapped_words (phy k) (F k) (T k) (src ! (2 * k + 2)) (d ! (2 * k + 1)) (d ! (2 * k + 2))" by auto
  have "d ! (2 * i + 1) = phy i" "d ! (2 * i + 2) = d2" "\<forall>k \<le> 2 * i. d ! k = dst ! k"
    "\<forall>k. 2 * (i + Suc n) < k \<longrightarrow> d ! k = dst ! k"
    using 2(3,4) Suc.prems(4) by auto
  moreover have "remap_apply (Suc n) i (2 * i) id_map ctxs rx_ch src dst = Inr d"
    using 1(1) 2(1) by simp
  moreover have "remapped_words (phy k) (F k) (T k) (src ! (2 * k + 2)) (d ! (2 * k + 1)) (d ! (2 * k + 2))"
    if "i \<le> k \<and> k < i + Suc n" for k
    using that 1(2) 2(5) calculation(1,2) by (cases "k = i") auto
  ultimately show ?case using 2(2) by blast
qed

section \<open>The completion ring\<close>

text \<open>What the callbacks of a list of completions make of the client state when they leave the rings
  alone.\<close>

definition run_all ::
    "('f \<Rightarrow> cmd \<Rightarrow> cqe \<Rightarrow> 'a option \<Rightarrow> 'c \<Rightarrow> 'c) \<Rightarrow> ('f, 'a) cmd_queue \<Rightarrow> cqe list \<Rightarrow> 'c \<Rightarrow> 'c" where
  "run_all cb q es c = fold (\<lambda>e c. case cmd_cb_fns q ! unat (cqe_cid e) of None \<Rightarrow> c
     | Some f \<Rightarrow> cb f (sq q ! unat (cqe_cid e)) e (cmd_cb_args q ! unat (cqe_cid e)) c) es c"

lemma poll_cq_loop_ok:
  assumes "queue_wf q" and "\<forall>e \<in> set (cq q). unat (cqe_cid e) < SQ_SIZE"
    and "unat t < CQ_SIZE" and "unat h < CQ_SIZE" and "(unat h + incr) mod CQ_SIZE = unat t"
    and "unat (cq_tail q) = (unat t + n) mod CQ_SIZE" and "n < CQ_SIZE" and "n < fuel"
  shows "poll_cq_loop fuel (\<lambda>f w e a (q, c). Inr (q, cb f w e a c)) incr has
       (q\<lparr>cq_head := h, inner_tail := t\<rparr>, c)
     = Inr (has \<or> 0 < n, q\<lparr>cq_head := cq_tail q, inner_tail := cq_tail q\<rparr>,
            run_all cb q (ring_window (cq q) (unat t) n) c)"
  using assms(3-8)
proof (induction n arbitrary: fuel incr has h t c)
  case 0
  then obtain f where f: "fuel = Suc f" by (cases fuel) auto
  have eqI: "x = y" if "unat x = unat y" for x y :: u32
    using that by (rule unsigned_word_eqI [where ?'a = nat])
  have t: "t = cq_tail q" by (rule eqI) (use 0 in simp)
  have "h = t" if "incr = 0" by (rule eqI) (use 0 that in simp)
  moreover have "of_nat ((unat h + incr) mod SQ_SIZE) = t"
    using 0 by (simp add: SQ_SIZE_def CQ_SIZE_def)
  ultimately show ?case using t f by (simp add: run_all_def)
next
  case (Suc n)
  then obtain f where f: "fuel = Suc f" by (cases fuel) auto
  have lenq: "length (cq q) = 32" "length (cmd_cb_fns q) = 32" "length (cmd_cb_args q) = 32" "length (sq q) = 32"
    using assms(1) by (simp_all add: queue_wf_def SQ_SIZE_def CQ_SIZE_def)
  have t32: "unat t < 32" using Suc.prems(1) by (simp add: CQ_SIZE_def)
  let ?e = "cq q ! unat t"
  let ?t = "of_nat (Suc (unat t) mod 32) :: u32"
  have ut: "unat ?t = Suc (unat t) mod 32" by (rule unat_of_nat_small) simp
  have ne: "t \<noteq> cq_tail q"
  proof
    assume "t = cq_tail q"
    then have "(unat t + 0) mod 32 = (unat t + Suc n) mod 32" using Suc.prems(4) t32 by (simp add: CQ_SIZE_def)
    moreover have "Suc n < 32" using Suc.prems(5) by (simp add: CQ_SIZE_def)
    ultimately show False using mod_add_neq [of 0 32 "Suc n" "unat t"] by auto
  qed
  have cid: "unat (cqe_cid ?e) < 32" using assms(2) t32 lenq(1) by (simp add: SQ_SIZE_def)
  have nx: "unat ?t < CQ_SIZE" "unat (cq_tail q) = (unat ?t + n) mod CQ_SIZE" "n < CQ_SIZE" "n < f"
    using Suc.prems f ut by (simp_all add: CQ_SIZE_def mod_simps)
  have win: "ring_window (cq q) (unat t) (Suc n) = ?e # ring_window (cq q) (unat ?t) n"
    using ring_window_Suc [of "unat t" "cq q" n] t32 lenq(1) ut by simp
  have hd: "(unat h + Suc incr) mod 32 = Suc (unat t) mod 32"
    using Suc.prems(3) by (simp add: CQ_SIZE_def) (metis mod_Suc_eq)
  show ?case
  proof (cases "cmd_cb_fns q ! unat (cqe_cid ?e)")
    case None
    have "(unat h + Suc incr) mod CQ_SIZE = unat ?t" using hd ut by (simp add: CQ_SIZE_def)
    from Suc.IH [OF nx(1) Suc.prems(2) this nx(2-4), of True c] None f ne t32 cid lenq win Suc.prems(3)
    show ?thesis by (simp add: Let_def SQ_SIZE_def CQ_SIZE_def run_all_def)
  next
    case (Some g)
    have swap: "q\<lparr>inner_tail := a, cq_head := b\<rparr> = q\<lparr>cq_head := b, inner_tail := a\<rparr>" for a b by simp
    have "(unat ?t + 0) mod CQ_SIZE = unat ?t" using nx(1) by simp
    from Suc.IH [OF nx(1) nx(1) this nx(2-4), of True "cb g (sq q ! unat (cqe_cid ?e)) ?e (cmd_cb_args q ! unat (cqe_cid ?e)) c"]
      Some f ne t32 cid lenq win Suc.prems(3) hd
    show ?thesis by (simp add: Let_def SQ_SIZE_def CQ_SIZE_def run_all_def swap)
  qed
qed

section \<open>An example queue and program\<close>

definition queue0 :: "(nat, nat) cmd_queue" where
  "queue0 = \<lparr>sq = replicate 32 0, sq_tail = 30, cq = replicate 32 \<lparr>cqe_cid = 5, cqe_ops = 0, cqe_state = 1\<rparr>,
     cq_head = 31, cq_tail = 1, inner_tail = 31,
     cmd_cb_fns = (replicate 32 None)[5 := Some 8], cmd_cb_args = (replicate 32 None)[5 := Some 9]\<rparr>"

lemma queue0_wf: "queue_wf queue0"
  by (simp add: queue0_def queue_wf_def SQ_SIZE_def CQ_SIZE_def)

text \<open>An apply command of one operator with two connections: operator 0 port 1 to operator 1 port 2,
  and operator 1 port 0 to receive channel 0; and a release command of two operators.\<close>

definition apply_one :: "cmd list" where
  "apply_one = [0x03010100, 0, 0xF01012010002]"

definition free_two :: "cmd list" where
  "free_two = [0x02020000, 0x0001, 0]"

section \<open>Properties of the command interface\<close>

text \<open>C18. A submission writes the command's words contiguously into the ring from the old tail on,
  wrapping at the end, tags the first word with the tail, registers the callback and its argument
  under that tag, advances the tail by the command's size modulo the ring, and changes no other
  entry of the ring nor anything of the completion side.\<close>

theorem execute_sqe_publishes:
  assumes "queue_wf q" and "cmds \<noteq> []"
    and "cmd_opc (cmds ! 0) \<in> {APPLY_OPS, SUSPEND_OPS, RESUME_OPS, FORCE_FREE_OPS}"
    and "n = (if cmd_opc (cmds ! 0) = APPLY_OPS then unat sz else 2)"
    and "0 < n" and "n \<le> length cmds" and "n \<le> SQ_SIZE"
  shows "\<exists>q'. execute_sqe sz cmds arg fn q
        = Inr (sq_tail q, cmds[0 := set_cmd_byte (cmds ! 0) 0 (ucast (sq_tail q))], q')
     \<and> queue_wf q' \<and> unat (sq_tail q') = (unat (sq_tail q) + n) mod SQ_SIZE
     \<and> ring_window (sq q') (unat (sq_tail q)) n
         = take n (cmds[0 := set_cmd_byte (cmds ! 0) 0 (ucast (sq_tail q))])
     \<and> (\<forall>m < SQ_SIZE. (\<forall>k < n. m \<noteq> (unat (sq_tail q) + k) mod SQ_SIZE) \<longrightarrow> sq q' ! m = sq q ! m)
     \<and> cmd_cb_fns q' = (cmd_cb_fns q)[unat (sq_tail q) := fn]
     \<and> cmd_cb_args q' = (cmd_cb_args q)[unat (sq_tail q) := arg]
     \<and> cq q' = cq q \<and> cq_head q' = cq_head q \<and> cq_tail q' = cq_tail q \<and> inner_tail q' = inner_tail q"
proof -
  have c0: "arr_get cmds 0 = Inr (cmds ! 0)" using assms(2) by (cases cmds) auto
  from submit_cmd_ok [OF assms(1,5-7), of arg fn] obtain q' where q':
    "submit_cmd n cmds arg fn q = Inr (cmds[0 := set_cmd_byte (cmds ! 0) 0 (ucast (sq_tail q))], q')"
    "queue_wf q'" "unat (sq_tail q') = (unat (sq_tail q) + n) mod SQ_SIZE"
    "ring_window (sq q') (unat (sq_tail q)) n
       = take n (cmds[0 := set_cmd_byte (cmds ! 0) 0 (ucast (sq_tail q))])"
    "\<forall>m < SQ_SIZE. (\<forall>k < n. m \<noteq> (unat (sq_tail q) + k) mod SQ_SIZE) \<longrightarrow> sq q' ! m = sq q ! m"
    "cmd_cb_fns q' = (cmd_cb_fns q)[unat (sq_tail q) := fn]"
    "cmd_cb_args q' = (cmd_cb_args q)[unat (sq_tail q) := arg]"
    "cq q' = cq q" "cq_head q' = cq_head q" "cq_tail q' = cq_tail q" "inner_tail q' = inner_tail q" by blast
  have "execute_sqe sz cmds arg fn q
      = Inr (sq_tail q, cmds[0 := set_cmd_byte (cmds ! 0) 0 (ucast (sq_tail q))], q')"
    using assms(3,4) c0 q'(1) by (auto simp: execute_sqe_def split: if_splits)
  with q'(2-) show ?thesis by blast
qed

theorem execute_sqe_publishes_witness:
  "\<exists>q'. execute_sqe 0 free_two (Some 4) None queue0
        = Inr (30, free_two[0 := set_cmd_byte (free_two ! 0) 0 30], q')
     \<and> unat (sq_tail q') = 0 \<and> ring_window (sq q') 30 2 = [0x0202001e, 0x0001]"
  using execute_sqe_publishes [OF queue0_wf, of free_two 2 0 "Some 4" None]
  by (auto simp: free_two_def queue0_def cmd_opc_def cmd_byte_def FORCE_FREE_OPS_def APPLY_OPS_def
      SQ_SIZE_def set_cmd_byte_def mask_eq_exp_minus_1)

text \<open>C29. A poll whose callbacks leave the rings alone handles exactly the completions between the
  runtime's tail and the controller's, oldest first and each once: it ends, both the head register
  and the runtime's tail arrive at the controller's tail, the callbacks registered for the
  completions' tags have run in that order, and the result says whether there were any.\<close>

theorem spdk_hlsacccompute_poll_cq_drains:
  assumes "queue_wf q" and "\<forall>e \<in> set (cq q). unat (cqe_cid e) < SQ_SIZE"
    and "cq_head q = inner_tail q" and "unat (cq_tail q) = (unat (inner_tail q) + n) mod CQ_SIZE"
    and "n < CQ_SIZE" and "n < fuel"
  shows "spdk_hlsacccompute_poll_cq fuel (\<lambda>f w e a (q, c). Inr (q, cb f w e a c)) (q, c)
     = Inr (0 < n, q\<lparr>cq_head := cq_tail q, inner_tail := cq_tail q\<rparr>,
            run_all cb q (ring_window (cq q) (unat (inner_tail q)) n) c)"
proof -
  have q: "q\<lparr>cq_head := inner_tail q, inner_tail := inner_tail q\<rparr> = q"
    using assms(3) [symmetric] by simp
  have "unat (inner_tail q) < CQ_SIZE" using assms(1) by (simp add: queue_wf_def)
  from poll_cq_loop_ok [OF assms(1,2) this this _ assms(4-6), of 0 cb False c] this
  show ?thesis by (simp add: spdk_hlsacccompute_poll_cq_def q)
qed

theorem spdk_hlsacccompute_poll_cq_drains_witness:
  "spdk_hlsacccompute_poll_cq 3 (\<lambda>f w e a (q, c). Inr (q, c @ [(f, a)])) (queue0, [])
     = Inr (True, queue0\<lparr>cq_head := 1, inner_tail := 1\<rparr>, [(8, Some 9), (8, Some 9)])"
  using spdk_hlsacccompute_poll_cq_drains [OF queue0_wf, of 2 3 "\<lambda>f w e a c. c @ [(f, a)]" "[]"]
  by (simp add: queue0_def SQ_SIZE_def CQ_SIZE_def run_all_def ring_window_def upt_rec)

text \<open>C25. Remapping an apply command whose operators have at most three connections each, all
  between operators of the request's map and receive channels the request holds, succeeds.  The
  header word is the destination's own if that is an apply command already, and the source's
  otherwise; operator \<open>k\<close> has the physical address of its context in word \<open>2 k + 1\<close>, and in word
  \<open>2 k + 2\<close> the source's number of connections and both endpoints of each translated: the operator
  number \<open>e div 16\<close> replaced by its entry in the map, the port \<open>e mod 16\<close> kept, and a destination of
  number 15 replaced by the identifier of the receive channel \<open>e mod 16\<close>.  The words behind the last
  operator's are the destination's own.\<close>

theorem id_remap_apply_correct:
  assumes "N = unat (cmd_ops_num (src ! 0))" and "cmd_opc (src ! 0) = APPLY_OPS"
    and "2 * N < length src" and "2 * N < length dst" and "N \<le> length ctxs"
    and "\<forall>k < N. ctxs ! k = Some (phy k)"
    and "\<forall>k < N. unat (connections_num (src ! (2 * k + 2))) \<le> 3
      \<and> (\<forall>m < unat (connections_num (src ! (2 * k + 2))).
          unat (conn_from (src ! (2 * k + 2)) m) div 16 < length id_map
        \<and> known_end id_map rx_ch (unat (conn_to (src ! (2 * k + 2)) m)))"
  shows "\<exists>d. id_remap id_map ctxs rx_ch src dst = Inr d \<and> length d = length dst
     \<and> d ! 0 = (if cmd_opc (dst ! 0) = APPLY_OPS then dst ! 0 else src ! 0)
     \<and> (\<forall>k < N. d ! (2 * k + 1) = phy k
          \<and> connections_num (d ! (2 * k + 2)) = connections_num (src ! (2 * k + 2))
          \<and> (\<forall>m < unat (connections_num (src ! (2 * k + 2))).
               unat (conn_from (d ! (2 * k + 2)) m) = phys_op id_map (unat (conn_from (src ! (2 * k + 2)) m))
             \<and> unat (conn_to (d ! (2 * k + 2)) m)
                 = phys_end id_map rx_ch (unat (conn_to (src ! (2 * k + 2)) m))))
     \<and> (\<forall>k. 2 * N < k \<longrightarrow> d ! k = dst ! k)"
proof -
  let ?from = "\<lambda>k m. conn_from (src ! (2 * k + 2)) m" and ?to = "\<lambda>k m. conn_to (src ! (2 * k + 2)) m"
  let ?n = "\<lambda>k. unat (connections_num (src ! (2 * k + 2)))"
  define e where "e = (if cmd_opc (src ! 0) \<noteq> cmd_opc (dst ! 0) then dst[0 := src ! 0] else dst)"
  have len: "0 < length src" "0 < length dst" "length e = length dst"
    and e: "e ! 0 = (if cmd_opc (dst ! 0) = APPLY_OPS then dst ! 0 else src ! 0)" "\<forall>k > 0. e ! k = dst ! k"
    using assms(2-4) by (cases dst; auto simp: e_def)+
  define F where "F k m = projr (remap_op id_map (?from k m))" for k m
  define T where "T k m = projr (remap_to id_map rx_ch 0xF (?to k m))" for k m
  have ends: "remap_op id_map (?from k m) = Inr (F k m) \<and> unat (F k m) = phys_op id_map (unat (?from k m))
      \<and> remap_to id_map rx_ch 0xF (?to k m) = Inr (T k m) \<and> unat (T k m) = phys_end id_map rx_ch (unat (?to k m))"
    if "k < N" "m < ?n k" for k m
    using assms(7) that remap_op_phys [of "?from k m" id_map] remap_to_phys [of id_map rx_ch "?to k m"]
    by (auto simp: F_def T_def)
  have "\<forall>k. 0 \<le> k \<and> k < 0 + N \<longrightarrow> ?n k \<le> 3 \<and> (\<forall>m < ?n k. remap_op id_map (?from k m) = Inr (F k m)
      \<and> remap_to id_map rx_ch 0xF (?to k m) = Inr (T k m))"
    using assms(7) ends by auto
  from remap_apply_ok [of 0 N ctxs phy src e, OF _ _ _ _ this] assms(3-6) len(3) obtain d where
    1: "remap_apply N 0 0 id_map ctxs rx_ch src e = Inr d" "length d = length dst" "d ! 0 = e ! 0"
      "\<forall>k. 2 * N < k \<longrightarrow> d ! k = e ! k"
      "\<forall>k < N. remapped_words (phy k) (F k) (T k) (src ! (2 * k + 2)) (d ! (2 * k + 1)) (d ! (2 * k + 2))"
    by auto
  have "id_remap id_map ctxs rx_ch src dst = Inr d"
    using len assms(1,2) 1(1) by (simp add: id_remap_def Let_def e_def)
  moreover have "\<forall>k. 2 * N < k \<longrightarrow> d ! k = dst ! k" using 1(4) e(2) by simp
  ultimately show ?thesis using 1(2,3,5) e(1) ends by (intro exI [of _ d]) (simp add: remapped_words_def)
qed

theorem id_remap_apply_correct_witness:
  "\<exists>d. id_remap [3, 6] [Some 0x9000] [Some 2] apply_one (replicate 3 0) = Inr d
     \<and> d ! 0 = apply_one ! 0 \<and> d ! 1 = 0x9000 \<and> unat (connections_num (d ! 2)) = 2
     \<and> unat (conn_from (d ! 2) 0) = 0x31 \<and> unat (conn_to (d ! 2) 0) = 0x62
     \<and> unat (conn_from (d ! 2) 1) = 0x60 \<and> unat (conn_to (d ! 2) 1) = 2"
proof -
  have a: "1 = unat (cmd_ops_num (apply_one ! 0))" "cmd_opc (apply_one ! 0) = APPLY_OPS" "length apply_one = 3"
    by (simp_all add: apply_one_def cmd_ops_num_def cmd_opc_def cmd_byte_def APPLY_OPS_def)
  have c: "unat (connections_num (apply_one ! 2)) = 2" "conn_from (apply_one ! 2) 0 = 0x01"
    "conn_to (apply_one ! 2) 0 = 0x12" "conn_from (apply_one ! 2) 1 = 0x10" "conn_to (apply_one ! 2) 1 = 0xF0"
    by (simp_all add: apply_one_def connections_num_def conn_from_def conn_to_def cmd_byte_def)
  have z: "cmd_opc (replicate 3 0 ! 0) \<noteq> APPLY_OPS" by (simp add: cmd_opc_def cmd_byte_def APPLY_OPS_def)
  have "unat (conn_from (apply_one ! 2) m) div 16 < length [3, 6 :: u8]
    \<and> known_end [3, 6] [Some 2] (unat (conn_to (apply_one ! 2) m))" if "m < 2" for m
    using c less_2_cases [OF that] by (auto simp: known_end_def)
  then have h: "\<forall>k < 1. unat (connections_num (apply_one ! (2 * k + 2))) \<le> 3
      \<and> (\<forall>m < unat (connections_num (apply_one ! (2 * k + 2))).
          unat (conn_from (apply_one ! (2 * k + 2)) m) div 16 < length [3, 6 :: u8]
        \<and> known_end [3, 6] [Some 2] (unat (conn_to (apply_one ! (2 * k + 2)) m)))"
    using c(1) by (simp add: numeral_2_eq_2)
  from id_remap_apply_correct [OF a(1,2), of "replicate 3 0" "[Some 0x9000]" "\<lambda>_. 0x9000", OF _ _ _ _ h]
  obtain d where d: "id_remap [3, 6] [Some 0x9000] [Some 2] apply_one (replicate 3 0) = Inr d"
    "d ! 0 = apply_one ! 0" "d ! 1 = 0x9000" "connections_num (d ! 2) = connections_num (apply_one ! 2)"
    "\<forall>m < 2. unat (conn_from (d ! 2) m) = phys_op [3, 6] (unat (conn_from (apply_one ! 2) m))
       \<and> unat (conn_to (d ! 2) m) = phys_end [3, 6] [Some 2] (unat (conn_to (apply_one ! 2) m))"
    using z c(1) by (auto simp: a(3) numeral_2_eq_2)
  have "phys_op [3, 6] 0x01 = 0x31" "phys_op [3, 6] 0x10 = 0x60"
    "phys_end [3, 6] [Some 2] 0x12 = 0x62" "phys_end [3, 6] [Some 2] 0xF0 = 2"
    by (simp_all add: phys_op_def phys_end_def)
  with d(5) c d(1-4) show ?thesis by (intro exI [of _ d]) simp
qed

text \<open>Remapping a suspend, resume or release command translates every operator number of its list
  through the request's map and copies the operator count.  The rest of the header is copied only
  when the operation code of the destination differs: a release command (code 0) remapped into a
  zeroed request keeps a command length of 0, whatever the program's command says.\<close>

theorem id_remap_generic_correct:
  assumes "cmd_opc (src ! 0) \<in> {SUSPEND_OPS, RESUME_OPS, FORCE_FREE_OPS}" and "1 < length src" and "1 < length dst"
    and "N = unat (cmd_ops_num (src ! 0))" and "N \<le> 8"
    and "\<forall>k < N. unat (cmd_byte (src ! 1) k) < length id_map"
  shows "\<exists>d. id_remap id_map ctxs rx_ch src dst = Inr d
     \<and> (\<forall>k < N. cmd_byte (d ! 1) k = id_map ! unat (cmd_byte (src ! 1) k))
     \<and> cmd_ops_num (d ! 0) = cmd_ops_num (src ! 0) \<and> cmd_opc (d ! 0) = cmd_opc (src ! 0)
     \<and> cmd_length (d ! 0)
         = (if cmd_opc (src ! 0) = cmd_opc (dst ! 0) then cmd_length (dst ! 0) else cmd_length (src ! 0))"
proof -
  define e where "e = (if cmd_opc (src ! 0) \<noteq> cmd_opc (dst ! 0) then dst[0 := src ! 0] else dst)"
  define h where "h = set_cmd_byte (e ! 0) 2 (cmd_ops_num (src ! 0))"
  have len: "0 < length src" "0 < length dst" "length e = length dst" "e ! 1 = dst ! 1"
    "arr_get (e[0 := h]) 1 = Inr (dst ! 1)"
    using assms(2,3) by (auto simp: e_def)
  from remap_ops_ok [of 0 N "src ! 1" id_map "dst ! 1"] assms(5,6) obtain d1 where
    1: "remap_ops N 0 id_map (src ! 1) (dst ! 1) = Inr d1"
      "\<forall>k < 8. cmd_byte d1 k = (if k < N then id_map ! unat (cmd_byte (src ! 1) k) else cmd_byte (dst ! 1) k)"
    by auto
  have ne: "cmd_opc (src ! 0) \<noteq> APPLY_OPS"
    using assms(1) by (auto simp: APPLY_OPS_def SUSPEND_OPS_def RESUME_OPS_def FORCE_FREE_OPS_def)
  have "id_remap id_map ctxs rx_ch src dst = Inr (e[0 := h, 1 := d1])"
    using len assms(1,2,4) 1(1) ne by (auto simp: id_remap_def Let_def e_def h_def)
  moreover have "cmd_ops_num h = cmd_ops_num (src ! 0)" "cmd_opc h = cmd_opc (src ! 0)"
    "cmd_length h = (if cmd_opc (src ! 0) = cmd_opc (dst ! 0) then cmd_length (dst ! 0) else cmd_length (src ! 0))"
    using len(2) by (simp_all add: h_def e_def cmd_ops_num_def cmd_opc_def cmd_length_def cmd_byte_set)
  ultimately show ?thesis
    using 1(2) assms(3,5) len by (intro exI [of _ "e[0 := h, 1 := d1]"]) simp
qed

theorem id_remap_generic_correct_witness:
  "\<exists>d. id_remap [3, 6] [] [] free_two (replicate 3 0) = Inr d
     \<and> cmd_byte (d ! 1) 0 = 6 \<and> cmd_byte (d ! 1) 1 = 3 \<and> cmd_length (d ! 0) = 0 \<and> cmd_length (free_two ! 0) = 2"
proof -
  have f: "cmd_opc (free_two ! 0) = FORCE_FREE_OPS" "cmd_ops_num (free_two ! 0) = 2" "length free_two = 3"
    "cmd_byte (free_two ! 1) 0 = 1" "cmd_byte (free_two ! 1) 1 = 0" "cmd_length (free_two ! 0) = 2"
    by (simp_all add: free_two_def cmd_opc_def cmd_ops_num_def cmd_byte_def cmd_length_def FORCE_FREE_OPS_def)
  have z: "cmd_opc 0 = FORCE_FREE_OPS" "cmd_length 0 = 0"
    by (simp_all add: cmd_opc_def cmd_length_def cmd_byte_def FORCE_FREE_OPS_def)
  have "unat (cmd_byte (free_two ! 1) k) < length [3 :: u8, 6]" if "k < 2" for k
    using f(4,5) less_2_cases [OF that] by auto
  then have "\<forall>k < 2. unat (cmd_byte (free_two ! 1) k) < length [3 :: u8, 6]" by blast
  note ids = this
  have p: "cmd_opc (free_two ! 0) \<in> {SUSPEND_OPS, RESUME_OPS, FORCE_FREE_OPS}" "1 < length free_two"
    "1 < length (replicate 3 (0 :: cmd))" "2 = unat (cmd_ops_num (free_two ! 0))" "2 \<le> (8 :: nat)"
    using f by simp_all
  obtain d where d: "id_remap [3, 6] [] [] free_two (replicate 3 0) = Inr d"
    "\<forall>k < 2. cmd_byte (d ! 1) k = [3, 6] ! unat (cmd_byte (free_two ! 1) k)"
    "cmd_length (d ! 0) = (if cmd_opc (free_two ! 0) = cmd_opc (replicate 3 0 ! 0)
       then cmd_length (replicate 3 0 ! 0) else cmd_length (free_two ! 0))"
    using id_remap_generic_correct [OF p ids] by blast
  from d(2) f(4,5) have "cmd_byte (d ! 1) 0 = 6" "cmd_byte (d ! 1) 1 = 3" by simp_all
  with d(1,3) f(1,6) z show ?thesis by auto
qed

text \<open>An operator with more than three connections uses a second word, where a receive channel
  cannot be a destination: the channel index keeps the marker nibble, so the lookup leaves the
  request's eight receive channels.\<close>

theorem remap_conns_second_word_channel:
  assumes "conn_to src 0 AND 0xF0 = 0xF0" and "length rx_ch \<le> 8" and "remap_op id_map (conn_from src 0) = Inr f"
  shows "remap_conns (Suc n) 0 id_map rx_ch 0xFF src dst = Inl OutOfBounds"
proof -
  let ?e = "conn_to src 0"
  have all: "(0xFF :: u8) = NOT 0" by simp
  have "?e AND 0xFF = ?e" unfolding all by (simp only: bit.conj_one_right bit.compl_zero)
  moreover have "(0xF0 :: u8) \<le> ?e" using assms(1) by (metis word_and_le1 word_and_le2)
  then have "240 \<le> unat ?e" by (simp add: word_le_nat_alt)
  ultimately show ?thesis
    using assms by (simp add: remap_to_def arr_get_def)
qed

theorem remap_conns_second_word_channel_witness:
  "remap_conns 1 0 [3, 6] (replicate 8 (Some 2)) 0xFF 0xF0100000 0 = Inl OutOfBounds"
  using remap_conns_second_word_channel [of "0xF0100000" "replicate 8 (Some 2)" "[3, 6]" "0x60" 0 0]
  by (simp add: conn_to_def conn_from_def cmd_byte_def remap_op_def)

end
