(* ===== verification/Acc_Device.thy ===== *)
theory Acc_Device
  imports Acc_Cmd Axi_Dma
begin

unbundle bit_operations_syntax

text \<open>
  The resources of the accelerator runtime (\<^verbatim>\<open>lib/hlsacccompute/hlsacccompute.c\<close>): operator types and
  their elements read from the configuration, the program registry, requests with their contexts,
  the pools of channels, and device memory.

  Objects live in stores indexed by natural numbers; the \<^verbatim>\<open>TAILQ\<close> lists of the device are lists of
  these numbers.  The pools of channels hold entries of two kinds, because the software path puts
  virtual objects into them; using such an entry as a channel is the fault \<open>BadCast\<close>.  Operations of
  a channel (function pointers in the source, filled in by the NVMe target) are arguments, as are
  the allocator, the address translation, the JSON decoder and the cuckoo hash table.
\<close>

section \<open>Data\<close>

datatype fsm_state = IDLE | UNIMPLEMENTED | WORKING | LOCKED

datatype req_status = ACC_REQ_WAITING | ACC_REQ_PREEMPTING | ACC_REQ_APPLYING | ACC_REQ_EXECUTING
  | ACC_REQ_FINISHED | ACC_REQ_ERROR | ACC_REQ_WAITING_PAUSE | ACC_REQ_WAITING_CHANNEL | ACC_REQ_IDLE

datatype work_state = HLSDEV_IDLE | HLSDEV_RUN_REQUEST | HLSDEV_SCHEDING | HLSDEV_ERROR

datatype cmd_cb = cqe_recv_norm_cb

datatype pool_entry = PChan nat | PVo nat

definition MAX_OPERATOR_CAP :: nat where "MAX_OPERATOR_CAP = 8"
definition MAX_OPERATORS_SUPPORT :: nat where "MAX_OPERATORS_SUPPORT = 64"
definition SLICE_WINDOWS :: nat where "SLICE_WINDOWS = 8"

record op_elm =
  elm_state :: fsm_state
  elm_request :: "nat option"
  elm_type :: nat
  elm_slot :: u8

record opconfig =
  input_port_num :: u32
  output_port_num :: u32
  esti_executed_times :: u32
  op_bram :: u32
  operator_type_id :: u8
  elements :: "nat list"

record acc_program =
  p_applyops :: "cmd list"
  p_pauseops :: "cmd list"
  p_freeops :: "cmd list"
  apply_ops_size :: u32
  program_id :: u32
  apply_operators_id_map :: "u8 list"
  input_channel_destination :: "u8 list"
  software_data :: u64
  software_data_size :: u32
  software_data_id :: u32
  apply_operators_num :: u8
  input_channum :: u8
  output_channum :: u8
  activated :: bool

record acc_context =
  context_phy :: u64
  desc_lengths :: "u8 list"
  descriptor_num :: u64
  stream_bufs :: "u64 list"

record acc_chan =
  chan_req :: "nat option"
  channel_id :: u8
  dest_id :: u8
  virtual_channel_id :: u8
  is_tx :: bool

text \<open>A virtual object: a piece of device memory that a channel reads from or writes to.\<close>

record vobject =
  vo_is_mem :: bool
  vo_base :: u64
  vo_len :: u64
  vo_used :: u64

text \<open>What the NVMe target keeps for a channel (\<^verbatim>\<open>struct axi_dma_channel_info\<close> and the poller of its DMA
  channel): the index of the DMA channel, the buffers in flight, and the flags of the transfer.\<close>

datatype poller_state = PNone | PRunning | PPaused

record chan_info =
  ci_axi :: nat
  ci_dev :: bool
  ci_iovcnt :: u8
  ci_working :: bool
  ci_last :: bool
  ci_next :: bool
  ci_poller :: poller_state

record acc_req =
  req_program :: "nat option"
  dynamic_id_map :: "u8 list"
  req_elm :: "nat option list"
  priority :: u16
  run_way :: u16
  status :: req_status
  waiting_preempt_req :: int
  responding_time :: u64
  tx_channel :: "nat option list"
  tx_channel_num :: u8
  rx_channel :: "nat option list"
  rx_channel_num :: u8
  tx_vos :: "nat list list"
  rx_vos :: "nat list list"
  acccontext :: "nat option list"
  r_applyops :: "cmd list"
  r_pauseops :: "cmd list"
  r_freeops :: "cmd list"
  request_id :: u32
  sw_res :: "nat option"
  next_request :: "nat option"
  req_result :: u64
  has_dev :: bool
  has_cb :: bool

record acc_dev =
  dq :: "(cmd_cb, nat) cmd_queue"
  opconfigs :: "opconfig option list"
  register_op_type_num :: u32
  waiting_queue :: "nat list list"
  waiting_queue_ptr :: nat
  working_queue :: "nat list"
  tx_channel_pool :: "pool_entry list"
  rx_channel_pool :: "pool_entry list"
  vo_pool :: "nat list"
  opcontext_pool :: "nat list"
  sw_resources_pool :: "nat list"
  mgnt_mempool :: "u64 list"
  request_poolv2 :: "nat list"
  request_pool_ele_num :: u32
  program_list :: "nat option list"
  next_mem_id :: u32
  dev_state :: work_state
  id_allocator :: u32
  sw_msgs :: "nat list"
  sw_done :: "nat list"
  requests :: "nat \<Rightarrow> acc_req option"
  programs :: "nat \<Rightarrow> acc_program option"
  op_elms :: "nat \<Rightarrow> op_elm option"
  chans :: "nat \<Rightarrow> acc_chan option"
  contexts :: "nat \<Rightarrow> acc_context option"
  chan_infos :: "nat \<Rightarrow> chan_info option"
  vobjs :: "nat \<Rightarrow> vobject option"
  axi :: "dma_channel axi_sys"
  completions :: "(nat \<times> u64) list"
  mempool_places :: "nat \<Rightarrow> nat"

text \<open>A request keeps whether its pointers to the device (\<^verbatim>\<open>req->dev\<close>) and to its callback (\<^verbatim>\<open>req->req_cb_fns\<close>) are
  set.

  The memory pools of the SPDK library (\<^verbatim>\<open>mgnt_mempool\<close> and \<^verbatim>\<open>request_poolv2\<close>) promise no order.  A pool is the list of its
  elements in the order in which the library will hand them out, and where the library puts an element that
  comes back is its choice: \<open>mempool_places\<close> lists these choices, is fixed nowhere, and every choice is a possible
  behaviour.  Nothing is known of it, so that what is proved holds for every order.\<close>

definition mempool_put :: "nat \<Rightarrow> 'a \<Rightarrow> 'a list \<Rightarrow> 'a list" where
  "mempool_put place x pool = take place pool @ x # drop place pool"

fun mempool_puts :: "(nat \<Rightarrow> nat) \<Rightarrow> 'a list \<Rightarrow> 'a list \<Rightarrow> 'a list" where
  "mempool_puts places [] pool = pool"
| "mempool_puts places (x # xs) pool = mempool_puts (\<lambda>i. places (Suc i)) xs (mempool_put (places 0) x pool)"

type_synonym chan_op = "nat \<Rightarrow> acc_dev \<Rightarrow> acc_dev res"

text \<open>The function pointers of a channel object.\<close>

record chan_ops =
  channel_apply :: chan_op
  channel_release :: chan_op
  channel_pause :: chan_op
  channel_poller :: chan_op
  channel_send :: chan_op
  channel_recv :: chan_op

definition upd_req :: "nat \<Rightarrow> (acc_req \<Rightarrow> acc_req) \<Rightarrow> acc_dev \<Rightarrow> acc_dev res" where
  "upd_req r f d = rbind (deref (requests d) (Some r)) (\<lambda>q. Inr (d\<lparr>requests := (requests d)(r \<mapsto> f q)\<rparr>))"

definition upd_elm :: "nat \<Rightarrow> (op_elm \<Rightarrow> op_elm) \<Rightarrow> acc_dev \<Rightarrow> acc_dev res" where
  "upd_elm e f d = rbind (deref (op_elms d) (Some e)) (\<lambda>x. Inr (d\<lparr>op_elms := (op_elms d)(e \<mapsto> f x)\<rparr>))"

definition upd_chan :: "nat \<Rightarrow> (acc_chan \<Rightarrow> acc_chan) \<Rightarrow> acc_dev \<Rightarrow> acc_dev res" where
  "upd_chan c f d = rbind (deref (chans d) (Some c)) (\<lambda>x. Inr (d\<lparr>chans := (chans d)(c \<mapsto> f x)\<rparr>))"

definition upd_opconfig :: "nat \<Rightarrow> (opconfig \<Rightarrow> opconfig) \<Rightarrow> acc_dev \<Rightarrow> acc_dev res" where
  "upd_opconfig t f d =
     rbind (arr_get (opconfigs d) t) (\<lambda>oc.
     case oc of None \<Rightarrow> Inl NullDeref | Some x \<Rightarrow> Inr (d\<lparr>opconfigs := (opconfigs d)[t := Some (f x)]\<rparr>))"

text \<open>\<open>axi\<close> is the DMA layer of \<open>Axi_Dma\<close>, and \<open>completions\<close> the results reported to the owners of finished
  requests, oldest first.  \<open>sw_msgs\<close> are the requests whose software run has been sent to a thread and has not started,
  \<open>sw_done\<close> those whose completion message has been sent back.\<close>

section \<open>Operator configuration\<close>

text \<open>One decoded entry of the \<^verbatim>\<open>operators\<close> array: the decoder's return code and the fields it set.\<close>

record op_inform =
  inf_rc :: int
  inf_type :: u8
  inf_slot :: u8
  inf_in :: u32
  inf_out :: u32
  inf_time :: u32
  inf_bram :: u32

text \<open>\<open>e\<close> is the address of the freshly allocated element.\<close>

definition register_operator :: "nat \<Rightarrow> op_inform \<Rightarrow> acc_dev \<Rightarrow> acc_dev res" where
  "register_operator e oi d =
     (let t = unat (inf_type oi) in
      rbind (arr_get (opconfigs d) t) (\<lambda>oc.
      let d1 = (case oc of
            Some _ \<Rightarrow> d
          | None \<Rightarrow> d\<lparr>opconfigs := (opconfigs d)[t := Some \<lparr>input_port_num = inf_in oi,
                output_port_num = inf_out oi, esti_executed_times = inf_time oi, op_bram = inf_bram oi,
                operator_type_id = inf_type oi, elements = []\<rparr>],
              register_op_type_num := register_op_type_num d + 1\<rparr>);
          d2 = d1\<lparr>op_elms := (op_elms d1)(e \<mapsto> \<lparr>elm_state = IDLE, elm_request = None, elm_type = t,
                elm_slot = inf_slot oi\<rparr>)\<rparr>
      in upd_opconfig t (\<lambda>c. c\<lparr>elements := elements c @ [e]\<rparr>) d2))"

fun parse_operators_array :: "nat \<Rightarrow> op_inform list \<Rightarrow> acc_dev \<Rightarrow> (int \<times> acc_dev) res" where
  "parse_operators_array e [] d = Inr (0, d)"
| "parse_operators_array e (oi # ois) d =
     (if inf_rc oi < 0 then Inr (inf_rc oi, d)
      else rbind (register_operator e oi d) (\<lambda>d'. parse_operators_array (Suc e) ois d'))"

text \<open>The listing loop at the end of the configuration walks the first \<open>register_op_type_num\<close> slots of
  the type table.\<close>

definition list_operators :: "acc_dev \<Rightarrow> acc_dev res" where
  "list_operators d = for_each (\<lambda>i d. rbind (arr_get (opconfigs d) i) (\<lambda>oc.
     case oc of None \<Rightarrow> Inl NullDeref | Some _ \<Rightarrow> Inr d)) [0..<unat (register_op_type_num d)] d"

text \<open>The configuration file as the loader sees it: each field is the outcome of one library call.
  \<open>cf_count\<close> is the result of the first parser pass, \<open>cf_parse\<close> of the second, and \<open>cf_ops\<close> the decoded
  operators array when there is one.\<close>

record config_file =
  cf_open :: bool
  cf_buffer :: bool
  cf_read :: bool
  cf_count :: int
  cf_alloc :: bool
  cf_parse :: int
  cf_ops :: "op_inform list option"

definition SPDK_JSON_PARSE_INCOMPLETE :: int where "SPDK_JSON_PARSE_INCOMPLETE = - 2"

definition spdk_hlsacccompute_init_opconfig :: "nat \<Rightarrow> config_file \<Rightarrow> acc_dev \<Rightarrow> (int \<times> acc_dev) res" where
  "spdk_hlsacccompute_init_opconfig e cf d =
     (if \<not> cf_open cf then Inr (- 1, d)
      else if \<not> cf_buffer cf then Inr (- 1, d)
      else if \<not> cf_read cf then Inr (- 1, d)
      else if cf_count cf = SPDK_JSON_PARSE_INCOMPLETE then Inr (- 1, d)
      else if \<not> cf_alloc cf then Inr (- ENOMEM, d)
      else if cf_parse cf < 0 then Inr (cf_parse cf, d)
      else rbind (case cf_ops cf of None \<Rightarrow> Inr (cf_parse cf, d)
                  | Some ois \<Rightarrow> parse_operators_array e ois d) (\<lambda>(rc, d1).
           if rc < 0 then Inr (rc, d1)
           else rbind (list_operators d1) (\<lambda>d2. Inr (0, d2))))"

section \<open>Bringing the device up\<close>

text \<open>What the environment returns to the initialisation: addresses of the allocated objects by index,
  \<open>None\<close> where the call fails, and the initial contents of the request objects.\<close>

record dev_alloc =
  al_vo :: "(nat \<Rightarrow> nat) option"
  al_ctx :: "(nat \<Rightarrow> nat) option"
  al_phys :: "nat \<Rightarrow> u64"
  al_buf :: "(nat \<Rightarrow> u64) option"
  al_req :: "(nat \<Rightarrow> nat) option"
  al_req_mem :: "nat \<Rightarrow> acc_req option"
  al_ctx2 :: bool
  al_sw :: "nat \<Rightarrow> nat"

text \<open>A context as the allocator of zeroed memory leaves it, with its physical address filled in.\<close>

definition blank_context :: "u64 \<Rightarrow> acc_context" where
  "blank_context phy = \<lparr>context_phy = phy, desc_lengths = replicate 28 0, descriptor_num = 0,
     stream_bufs = replicate 7 0\<rparr>"

text \<open>The list \<^verbatim>\<open>request_pool\<close> that the source also fills is read nowhere (requests come from the
  memory pool \<^verbatim>\<open>request_poolv2\<close>) and is left out, as are the poller and the two software threads
  except for the resource entries that stand for them.\<close>

definition spdk_hlsacccompute_qpair_create :: "dev_alloc \<Rightarrow> acc_dev \<Rightarrow> acc_dev res" where
  "spdk_hlsacccompute_qpair_create al d =
     (case al_vo al of None \<Rightarrow> Inl NullDeref
      | Some vo \<Rightarrow> (case al_ctx al of None \<Rightarrow> Inl NullDeref
      | Some ctx \<Rightarrow> (case al_buf al of None \<Rightarrow> Inl AssertFail
      | Some buf \<Rightarrow> (case al_req al of None \<Rightarrow> Inl AssertFail
      | Some rq \<Rightarrow>
          if \<not> al_ctx2 al then Inl AssertFail
          else Inr (d\<lparr>working_queue := [], tx_channel_pool := [], rx_channel_pool := [],
            waiting_queue := replicate SLICE_WINDOWS [],
            opconfigs := replicate MAX_OPERATORS_SUPPORT None,
            vo_pool := map vo [0..<8192],
            opcontext_pool := map ctx [0..<2048],
            contexts := (\<lambda>c. if c \<in> ctx ` {0..<2048} then Some (blank_context (al_phys al c)) else contexts d c),
            mgnt_mempool := map buf [0..<4096],
            request_poolv2 := map rq [0..<4096],
            requests := al_req_mem al,
            request_pool_ele_num := 4096,
            sw_resources_pool := map (al_sw al) [0..<2]\<rparr>)))))"

definition BAR_PHYS_ADDR :: u64 where "BAR_PHYS_ADDR = 0xB0070000"
definition BAR_SQ_TAILER :: u64 where "BAR_SQ_TAILER = 0x4020"
definition BAR_SQ_HEADER :: u64 where "BAR_SQ_HEADER = 0x4010"
definition BAR_CQ_HEADER :: u64 where "BAR_CQ_HEADER = 0x4028"
definition BAR_CQ_TAILER :: u64 where "BAR_CQ_TAILER = 0x4030"
definition BAR_SQ :: u64 where "BAR_SQ = 0x2000"
definition BAR_CQ :: u64 where "BAR_CQ = 0x1000"
definition BAR_RESETN :: u64 where "BAR_RESETN = 0x88"

text \<open>\<open>fd\<close>: the memory device could be opened.  \<open>mm\<close> is the mapping call on a page address, which
  returns \<open>-1\<close> when it fails; the offset is added to the result in either case.\<close>

definition MAP_FAILED :: u64 where "MAP_FAILED = - 1"

definition spdk_hlsacccompute_addr_map :: "bool \<Rightarrow> (u64 \<Rightarrow> u64) \<Rightarrow> u64 \<Rightarrow> u64 res" where
  "spdk_hlsacccompute_addr_map fd mm addr =
     rbind (assert_c fd) (\<lambda>_.
     let aligned = addr AND NOT (mask 12); offset = addr - aligned in
     Inr (mm aligned + offset))"

text \<open>Writing a register whose page is not mapped is a fault.\<close>

definition write_bar :: "(u64 \<Rightarrow> u64) \<Rightarrow> u64 \<Rightarrow> unit res" where
  "write_bar mm addr = (if mm (addr AND NOT (mask 12)) = MAP_FAILED then Inl NullDeref else Inr ())"

definition spdk_hlsacccompute_dev_init ::
    "bool \<Rightarrow> (u64 \<Rightarrow> u64) \<Rightarrow> u64 \<Rightarrow> bool \<Rightarrow> dev_alloc \<Rightarrow> nat \<Rightarrow> config_file \<Rightarrow> bool \<Rightarrow> acc_dev \<Rightarrow> (int \<times> acc_dev) res" where
  "spdk_hlsacccompute_dev_init fd mm bar cpus al e cf table d =
     rbind (spdk_hlsacccompute_addr_map fd mm (bar + BAR_SQ_TAILER)) (\<lambda>sqt.
     rbind (spdk_hlsacccompute_addr_map fd mm (bar + BAR_SQ_HEADER)) (\<lambda>sqh.
     rbind (spdk_hlsacccompute_addr_map fd mm (bar + BAR_CQ_TAILER)) (\<lambda>cqt.
     rbind (spdk_hlsacccompute_addr_map fd mm (bar + BAR_CQ_HEADER)) (\<lambda>cqh.
     rbind (spdk_hlsacccompute_addr_map fd mm (bar + BAR_SQ)) (\<lambda>sqp.
     rbind (spdk_hlsacccompute_addr_map fd mm (bar + BAR_CQ)) (\<lambda>cqp.
     rbind (spdk_hlsacccompute_addr_map fd mm (bar + BAR_RESETN)) (\<lambda>rst.
     if MAP_FAILED \<in> {cqt, cqh, sqt, sqh, sqp, cqp} then Inr (- 1, d)
     else
       let d1 = d\<lparr>program_list := replicate 64 None\<rparr> in
       rbind (write_bar mm (bar + BAR_RESETN)) (\<lambda>_.
       rbind (write_bar mm (bar + BAR_SQ_TAILER)) (\<lambda>_.
       rbind (write_bar mm (bar + BAR_CQ_HEADER)) (\<lambda>_.
       let d2 = d1\<lparr>dq := (dq d1)\<lparr>sq_tail := 0, cq_head := 0, inner_tail := 0\<rparr>\<rparr> in
       if \<not> cpus then Inr (- 1, d2)
       else rbind (spdk_hlsacccompute_qpair_create al d2) (\<lambda>d3.
            rbind (spdk_hlsacccompute_init_opconfig e cf d3) (\<lambda>(rc, d4).
            if rc \<noteq> 0 then Inr (- 1, d4)
            else if \<not> table then Inr (- 1, d4\<lparr>next_mem_id := 1\<rparr>)
            else Inr (0, d4\<lparr>next_mem_id := 1, dev_state := HLSDEV_IDLE\<rparr>)))))))))))))"

section \<open>Programs\<close>

text \<open>The check both registration functions make: every operator type the program names exists.\<close>

fun check_types :: "u8 list \<Rightarrow> nat \<Rightarrow> nat \<Rightarrow> acc_dev \<Rightarrow> bool res" where
  "check_types ids j 0 d = Inr True"
| "check_types ids j (Suc n) d =
     rbind (arr_get ids j) (\<lambda>t.
     if unat t \<ge> MAX_OPERATORS_SUPPORT then Inr False
     else rbind (arr_get (opconfigs d) (unat t)) (\<lambda>oc.
          if oc = None then Inr False else check_types ids (Suc j) n d))"

definition program_ok :: "acc_program \<Rightarrow> acc_dev \<Rightarrow> bool res" where
  "program_ok p d = check_types (apply_operators_id_map p) 0 (unat (apply_operators_num p)) d"

definition install_program :: "nat \<Rightarrow> nat \<Rightarrow> (acc_program \<Rightarrow> acc_program) \<Rightarrow> acc_program \<Rightarrow> acc_dev \<Rightarrow> acc_dev" where
  "install_program i pp f p d =
     d\<lparr>program_list := (program_list d)[i := Some pp], programs := (programs d)(pp \<mapsto> f (p\<lparr>program_id := of_nat i\<rparr>))\<rparr>"

fun add_program_loop :: "nat \<Rightarrow> nat \<Rightarrow> nat \<Rightarrow> acc_dev \<Rightarrow> (int \<times> acc_dev) res" where
  "add_program_loop 0 i pp d = Inr (- 1, d)"
| "add_program_loop (Suc n) i pp d =
     rbind (arr_get (program_list d) i) (\<lambda>slot.
     if slot \<noteq> None then add_program_loop n (Suc i) pp d
     else rbind (deref (programs d) (Some pp)) (\<lambda>p.
          rbind (program_ok p d) (\<lambda>ok.
          if ok then Inr (int i, install_program i pp (\<lambda>p. p) p d) else Inr (- 1, d))))"

definition spdk_hlsacccompute_add_program :: "nat \<Rightarrow> acc_dev \<Rightarrow> (int \<times> acc_dev) res" where
  "spdk_hlsacccompute_add_program pp d = add_program_loop 64 0 pp d"

text \<open>The compare-and-swap of the slot succeeds, since nothing else runs between test and swap here; a
  spurious failure only repeats it.\<close>

definition spdk_hlsacccompute_add_program_with_id :: "nat \<Rightarrow> int \<Rightarrow> acc_dev \<Rightarrow> (int \<times> acc_dev) res" where
  "spdk_hlsacccompute_add_program_with_id pp i d =
     (if i < 0 \<or> i \<ge> 64 then Inr (- 1, d)
      else rbind (arr_get (program_list d) (nat i)) (\<lambda>slot.
        if slot \<noteq> None then Inr (- 1, d)
        else rbind (deref (programs d) (Some pp)) (\<lambda>p.
             rbind (program_ok p d) (\<lambda>ok.
             if ok then Inr (i, install_program (nat i) pp (\<lambda>p. p\<lparr>activated := False\<rparr>) p d) else Inr (- 1, d)))))"

definition spdk_hlsacccompute_del_program :: "int \<Rightarrow> acc_dev \<Rightarrow> (int \<times> acc_dev) res" where
  "spdk_hlsacccompute_del_program i d =
     (if i < 0 then Inl OutOfBounds
      else rbind (arr_get (program_list d) (nat i)) (\<lambda>slot.
        Inr (0, if slot \<noteq> None then d\<lparr>program_list := (program_list d)[nat i := None]\<rparr> else d)))"

definition spdk_hlsacccompute_lookup_program :: "int \<Rightarrow> acc_dev \<Rightarrow> (int \<times> nat option) res" where
  "spdk_hlsacccompute_lookup_program i d =
     (if i < 0 then Inl OutOfBounds
      else rbind (arr_get (program_list d) (nat i)) (\<lambda>slot.
        Inr (case slot of None \<Rightarrow> (- 1, None) | Some p \<Rightarrow> (0, Some p))))"

section \<open>Channels\<close>

definition chan_pool :: "bool \<Rightarrow> acc_dev \<Rightarrow> pool_entry list" where
  "chan_pool t d = (if t then tx_channel_pool d else rx_channel_pool d)"

definition set_chan_pool :: "bool \<Rightarrow> pool_entry list \<Rightarrow> acc_dev \<Rightarrow> acc_dev" where
  "set_chan_pool t xs d = (if t then d\<lparr>tx_channel_pool := xs\<rparr> else d\<lparr>rx_channel_pool := xs\<rparr>)"

definition spdk_hlsacccompute_register_channel :: "nat \<Rightarrow> acc_dev \<Rightarrow> acc_dev res" where
  "spdk_hlsacccompute_register_channel c d =
     rbind (deref (chans d) (Some c)) (\<lambda>ch.
     Inr (set_chan_pool (is_tx ch) (chan_pool (is_tx ch) d @ [PChan c]) d))"

definition spdk_hlsacccompute_apply_channel ::
    "chan_ops \<Rightarrow> bool \<Rightarrow> acc_dev \<Rightarrow> (nat option \<times> acc_dev) res" where
  "spdk_hlsacccompute_apply_channel ops t d =
     (case chan_pool t d of
        [] \<Rightarrow> Inr (None, d)
      | PVo v # _ \<Rightarrow> Inl BadCast
      | PChan c # rest \<Rightarrow>
          rbind (channel_apply ops c (set_chan_pool t rest d)) (\<lambda>d'. Inr (Some c, d')))"

definition spdk_hlsacccompute_release_channel ::
    "chan_ops \<Rightarrow> nat option \<Rightarrow> acc_dev \<Rightarrow> (int \<times> acc_dev) res" where
  "spdk_hlsacccompute_release_channel ops co d =
     (case co of None \<Rightarrow> Inr (- 1, d)
      | Some c \<Rightarrow>
          rbind (channel_release ops c d) (\<lambda>d1.
          rbind (deref (chans d1) (Some c)) (\<lambda>ch.
          Inr (0, set_chan_pool (is_tx ch) (chan_pool (is_tx ch) d1 @ [PChan c]) d1))))"

section \<open>Requests\<close>

text \<open>A request object as it lies in the pool: cleared, with empty queues.\<close>

definition zero_request :: acc_req where
  "zero_request = \<lparr>req_program = None, dynamic_id_map = replicate 8 0, req_elm = replicate 8 None, priority = 0,
     run_way = 0, status = ACC_REQ_IDLE, waiting_preempt_req = 0, responding_time = 0,
     tx_channel = replicate 8 None, tx_channel_num = 0, rx_channel = replicate 8 None, rx_channel_num = 0,
     tx_vos = replicate 8 [], rx_vos = replicate 8 [], acccontext = replicate 8 None,
     r_applyops = replicate 22 0, r_pauseops = replicate 3 0, r_freeops = replicate 3 0, request_id = - 1,
     sw_res = None, next_request = None, req_result = 0, has_dev = False, has_cb = False\<rparr>"

text \<open>One iteration of \<^verbatim>\<open>alloc_op_address\<close>: take a context, clear it, and hand it one stream buffer per
  input port of the operator.  \<open>vtophys\<close> translates the context's address.\<close>

definition alloc_context :: "(nat \<Rightarrow> u64) \<Rightarrow> acc_program \<Rightarrow> nat \<Rightarrow> acc_dev \<Rightarrow> (nat \<times> acc_dev) res" where
  "alloc_context vtophys p i d =
     (case opcontext_pool d of
        [] \<Rightarrow> Inl NullDeref
      | c # rest \<Rightarrow>
          rbind (arr_get (apply_operators_id_map p) i) (\<lambda>t.
          rbind (arr_get (opconfigs d) (unat t)) (\<lambda>oc.
          case oc of None \<Rightarrow> Inl AssertFail
          | Some cfg \<Rightarrow>
              let n = unat (input_port_num cfg) in
              if length (mgnt_mempool d) < n then Inl AssertFail
              else if n > 7 then Inl OutOfBounds
              else Inr (c, d\<lparr>opcontext_pool := rest, mgnt_mempool := drop n (mgnt_mempool d),
                contexts := (contexts d)(c \<mapsto> (blank_context (vtophys c))\<lparr>stream_bufs :=
                  take n (mgnt_mempool d) @ replicate (7 - n) 0\<rparr>)\<rparr>))))"

fun alloc_op_address ::
    "(nat \<Rightarrow> u64) \<Rightarrow> acc_program \<Rightarrow> nat \<Rightarrow> nat \<Rightarrow> nat option list \<Rightarrow> acc_dev \<Rightarrow> (nat option list \<times> acc_dev) res" where
  "alloc_op_address vtophys p i 0 arr d = Inr (arr, d)"
| "alloc_op_address vtophys p i (Suc n) arr d =
     rbind (alloc_context vtophys p i d) (\<lambda>(c, d1).
     rbind (arr_set arr i (Some c)) (\<lambda>arr'.
     alloc_op_address vtophys p (Suc i) n arr' d1))"

definition spdk_hlsacccompute_create_request :: "(nat \<Rightarrow> u64) \<Rightarrow> nat \<Rightarrow> acc_dev \<Rightarrow> (nat \<times> acc_dev) res" where
  "spdk_hlsacccompute_create_request vtophys pp d =
     rbind (assert_c (request_pool_ele_num d \<noteq> 0)) (\<lambda>_.
     case request_poolv2 d of
       [] \<Rightarrow> Inl AssertFail
     | r # rest \<Rightarrow>
         let d1 = d\<lparr>request_poolv2 := rest, request_pool_ele_num := request_pool_ele_num d - 1\<rparr> in
         rbind (deref (requests d1) (Some r)) (\<lambda>q.
         rbind (arr_get (tx_channel q) 0) (\<lambda>tx0. rbind (assert_c (tx0 = None)) (\<lambda>_.
         rbind (arr_get (rx_channel q) 0) (\<lambda>rx0. rbind (assert_c (rx0 = None)) (\<lambda>_.
         rbind (deref (programs d1) (Some pp)) (\<lambda>p.
         rbind (alloc_op_address vtophys p 0 (unat (apply_operators_num p)) (replicate 8 None) d1) (\<lambda>(arr, d2).
         Inr (r, d2\<lparr>requests := (requests d2)(r \<mapsto> q\<lparr>rx_vos := replicate 8 [], tx_vos := replicate 8 [],
           has_dev := True, acccontext := arr, status := ACC_REQ_APPLYING, req_program := Some pp, request_id := - 1,
           req_result := 0\<rparr>)\<rparr>)))))))))"

section \<open>Device memory\<close>

text \<open>\<open>tab_add\<close>, \<open>tab_delete\<close> and \<open>tab_lookup\<close> are the operations of the hash table; \<open>va\<close> and \<open>pa\<close> are the
  results of the allocation and of the address translation.  The result of the insertion is
  ignored.\<close>

definition spdk_hlsacccompute_devmem_malloc ::
    "('t \<Rightarrow> u32 \<Rightarrow> vobject \<Rightarrow> int \<times> 't) \<Rightarrow> u64 \<Rightarrow> u64 \<Rightarrow> u64 \<Rightarrow> u64 \<Rightarrow> 't option \<Rightarrow> acc_dev \<Rightarrow> int \<times> 't option \<times> acc_dev" where
  "spdk_hlsacccompute_devmem_malloc tab_add va pa err len t d =
     (case t of None \<Rightarrow> (- 1, t, d)
      | Some tab \<Rightarrow>
          if pa = err then (- 1, t, d)
          else let key = next_mem_id d;
                   (ret, tab') = tab_add tab key \<lparr>vo_is_mem = True, vo_base = va, vo_len = len, vo_used = 0\<rparr>
               in (sint key, Some tab', d\<lparr>next_mem_id := key + 1\<rparr>))"

text \<open>The table reports the removed object; when nothing was removed the source frees whatever its
  uninitialised local object (\<open>junk\<close>) holds.  The second component is the freed address.\<close>

definition spdk_hlsacccompute_devmem_free ::
    "('t \<Rightarrow> u32 \<Rightarrow> int \<times> vobject option \<times> 't) \<Rightarrow> u64 \<Rightarrow> int \<Rightarrow> u64 \<Rightarrow> 't \<Rightarrow> int \<times> u64 \<times> 't" where
  "spdk_hlsacccompute_devmem_free tab_delete va i junk t =
     (if va \<noteq> 0 \<and> i < 0 then (0, va, t)
      else let (ret, ob, t') = tab_delete t (word_of_int i)
           in (ret, (case ob of None \<Rightarrow> junk | Some x \<Rightarrow> vo_base x), t'))"

definition spdk_hlsacccompute_devmem_lookup ::
    "('t \<Rightarrow> u32 \<Rightarrow> int \<times> vobject option) \<Rightarrow> (u64 \<Rightarrow> u64) \<Rightarrow> int \<Rightarrow> 't \<Rightarrow> int \<times> (u64 \<times> u64) option" where
  "spdk_hlsacccompute_devmem_lookup tab_lookup vtophys i t =
     (let (ret, ob) = tab_lookup t (word_of_int i) in
      case ob of None \<Rightarrow> (- 1, None)
      | Some x \<Rightarrow> (ret, if ret = 0 then Some (vo_base x, vtophys (vo_base x)) else None))"

end
