(* ===== verification/Acc_Device_Laws.thy ===== *)
theory Acc_Device_Laws
  imports Acc_Device
begin

unbundle bit_operations_syntax

text \<open>
  Properties of the accelerator runtime's resources: the program registry, the table of operator
  types built from the configuration, the allocation of contexts and stream buffers to a request,
  the channel pools, and device memory.
\<close>

section \<open>Memory pools\<close>

text \<open>What is known of a memory pool is the bag of its elements.\<close>

lemma mset_mempool_put [simp]: "mset (mempool_put place x pool) = add_mset x (mset pool)"
  by (simp add: mempool_put_def) (metis append_take_drop_id mset_append)

lemma mset_mempool_puts [simp]: "mset (mempool_puts places xs pool) = mset xs + mset pool"
  by (induction places xs pool rule: mempool_puts.induct) simp_all

section \<open>The program registry\<close>

text \<open>All operator types a program names are within the table and registered.\<close>

definition types_known :: "acc_program \<Rightarrow> acc_dev \<Rightarrow> bool" where
  "types_known p d \<longleftrightarrow> unat (apply_operators_num p) \<le> length (apply_operators_id_map p)
     \<and> (\<forall>j < unat (apply_operators_num p). unat (apply_operators_id_map p ! j) < 64
          \<and> opconfigs d ! unat (apply_operators_id_map p ! j) \<noteq> None)"

lemma check_types_ok:
  assumes "length (opconfigs d) = 64" and "j + n \<le> length ids"
  shows "check_types ids j n d = Inr (\<forall>k. j \<le> k \<and> k < j + n \<longrightarrow>
     unat (ids ! k) < 64 \<and> opconfigs d ! unat (ids ! k) \<noteq> None)"
  using assms(2)
proof (induction n arbitrary: j)
  case (Suc n)
  let ?ok = "\<lambda>k. unat (ids ! k) < 64 \<and> opconfigs d ! unat (ids ! k) \<noteq> None"
  have split: "(\<forall>k. j \<le> k \<and> k < j + Suc n \<longrightarrow> ?ok k)
      \<longleftrightarrow> ?ok j \<and> (\<forall>k. Suc j \<le> k \<and> k < Suc j + n \<longrightarrow> ?ok k)"
    by (metis Suc_leI add_Suc_right add_Suc_shift le_add1 le_neq_implies_less less_Suc_eq_le order_refl
        Suc_le_lessD less_imp_le)
  show ?case unfolding split using Suc assms(1)
    by (auto simp: MAX_OPERATORS_SUPPORT_def)
qed auto

lemma program_ok_iff:
  assumes "length (opconfigs d) = 64" and "unat (apply_operators_num p) \<le> length (apply_operators_id_map p)"
  shows "program_ok p d = Inr (types_known p d)"
  using check_types_ok [OF assms(1), of 0 "unat (apply_operators_num p)" "apply_operators_id_map p"] assms(2)
  by (simp add: program_ok_def types_known_def)

lemma add_program_loop_ok:
  assumes "length (program_list d) = 64" and "i + n = 64" and "programs d pp = Some p"
    and "program_ok p d = Inr True" and "k < 64" and "i \<le> k" and "program_list d ! k = None"
    and "\<forall>m. i \<le> m \<and> m < k \<longrightarrow> program_list d ! m \<noteq> None"
  shows "add_program_loop n i pp d = Inr (int k, install_program k pp (\<lambda>p. p) p d)"
  using assms(2,6,8)
proof (induction n arbitrary: i)
  case (Suc n)
  show ?case
  proof (cases "i = k")
    case True
    with assms Suc.prems show ?thesis by simp
  next
    case False
    with Suc.prems have "i < k" "program_list d ! i \<noteq> None" by auto
    moreover have "add_program_loop n (Suc i) pp d = Inr (int k, install_program k pp (\<lambda>p. p) p d)"
      using Suc.IH [of "Suc i"] Suc.prems \<open>i < k\<close> by auto
    ultimately show ?thesis using assms(1,5) by auto
  qed
qed (use assms in simp)

lemma add_program_first_free:
  assumes "length (program_list d) = 64" and "None \<in> set (program_list d)"
  obtains k where "k < 64" "program_list d ! k = None" "\<forall>m < k. program_list d ! m \<noteq> None"
proof -
  let ?P = "\<lambda>k. k < 64 \<and> program_list d ! k = None"
  have "\<exists>k. ?P k" using assms by (metis in_set_conv_nth)
  then have "?P (LEAST k. ?P k)" by (rule LeastI_ex)
  moreover have "\<not> ?P m" if "m < (LEAST k. ?P k)" for m using that not_less_Least by blast
  ultimately show ?thesis using that [of "LEAST k. ?P k"] by (meson order.strict_trans)
qed

lemma add_program_loop_fails:
  assumes "length (program_list d) = 64" and "i + n = 64" and "programs d pp = Some p"
    and "(\<forall>m. i \<le> m \<and> m < 64 \<longrightarrow> program_list d ! m \<noteq> None) \<or> program_ok p d = Inr False"
  shows "add_program_loop n i pp d = Inr (- 1, d)"
  using assms(2,4)
proof (induction n arbitrary: i)
  case (Suc n)
  then have "add_program_loop n (Suc i) pp d = Inr (- 1, d)" by auto
  with Suc.prems assms(1,3) show ?case by auto
qed simp

text \<open>C32. A program whose operator types are all registered is put into the first free slot of the program
  table, and the slot number is returned.  Looking that number up gives the program, every other
  number is looked up as before, and deleting it restores the table, so that it can no longer be
  looked up.\<close>

theorem spdk_hlsacccompute_add_program_roundtrip:
  assumes "length (opconfigs d) = 64" and "length (program_list d) = 64"
    and "programs d pp = Some p" and "types_known p d"
    and "k < 64" and "program_list d ! k = None" and "\<forall>m < k. program_list d ! m \<noteq> None"
  shows "\<exists>d' d''. spdk_hlsacccompute_add_program pp d = Inr (int k, d')
     \<and> programs d' pp = Some (p\<lparr>program_id := of_nat k\<rparr>)
     \<and> spdk_hlsacccompute_lookup_program (int k) d' = Inr (0, Some pp)
     \<and> (\<forall>i. i \<noteq> int k \<longrightarrow> spdk_hlsacccompute_lookup_program i d' = spdk_hlsacccompute_lookup_program i d)
     \<and> spdk_hlsacccompute_del_program (int k) d' = Inr (0, d'')
     \<and> program_list d'' = program_list d
     \<and> spdk_hlsacccompute_lookup_program (int k) d'' = Inr (- 1, None)"
proof -
  let ?d = "install_program k pp (\<lambda>p. p) p d"
  have "program_ok p d = Inr True"
    using assms(1,4) program_ok_iff [of d p] by (simp add: types_known_def)
  then have "spdk_hlsacccompute_add_program pp d = Inr (int k, ?d)"
    using add_program_loop_ok [of d 0 64 pp p k] assms by (simp add: spdk_hlsacccompute_add_program_def)
  moreover have pl: "program_list ?d = (program_list d)[k := Some pp]"
    by (simp add: install_program_def)
  moreover have "programs ?d pp = Some (p\<lparr>program_id := of_nat k\<rparr>)" by (simp add: install_program_def)
  moreover have "spdk_hlsacccompute_lookup_program i ?d = spdk_hlsacccompute_lookup_program i d"
    if "i \<noteq> int k" for i
    using that by (auto simp: spdk_hlsacccompute_lookup_program_def pl arr_get_def nth_list_update)
  moreover have "(program_list d)[k := None] = program_list d" using assms(6) by (metis list_update_id)
  then have "program_list (?d\<lparr>program_list := (program_list ?d)[k := None]\<rparr>) = program_list d"
    using pl by simp
  moreover have "spdk_hlsacccompute_del_program (int k) ?d
      = Inr (0, ?d\<lparr>program_list := (program_list ?d)[k := None]\<rparr>)"
    using pl assms(2,5) by (simp add: spdk_hlsacccompute_del_program_def)
  ultimately show ?thesis using assms(2,5,6)
    by (intro exI [of _ ?d] exI [of _ "?d\<lparr>program_list := (program_list ?d)[k := None]\<rparr>"])
      (simp add: spdk_hlsacccompute_lookup_program_def)
qed

text \<open>Registration fails with \<open>-1\<close> and changes nothing exactly when the table is full or the program
  names an operator type that is not registered; the variant for a given number fails exactly when
  the number is out of range, its slot is taken or a type is unknown.\<close>

theorem spdk_hlsacccompute_add_program_rejects:
  assumes "length (opconfigs d) = 64" and "length (program_list d) = 64" and "programs d pp = Some p"
    and "unat (apply_operators_num p) \<le> length (apply_operators_id_map p)"
  shows "(spdk_hlsacccompute_add_program pp d = Inr (- 1, d)
            \<longleftrightarrow> None \<notin> set (program_list d) \<or> \<not> types_known p d)
     \<and> (spdk_hlsacccompute_add_program_with_id pp i d = Inr (- 1, d)
            \<longleftrightarrow> i < 0 \<or> i \<ge> 64 \<or> program_list d ! nat i \<noteq> None \<or> \<not> types_known p d)"
proof (rule conjI)
  note ok = program_ok_iff [OF assms(1,4)]
  show "spdk_hlsacccompute_add_program pp d = Inr (- 1, d)
            \<longleftrightarrow> None \<notin> set (program_list d) \<or> \<not> types_known p d"
  proof (cases "None \<notin> set (program_list d) \<or> \<not> types_known p d")
    case True
    have "program_list d ! m \<noteq> None" if "None \<notin> set (program_list d)" "m < 64" for m
      using that assms(2) by (metis nth_mem)
    then have "(\<forall>m. 0 \<le> m \<and> m < 64 \<longrightarrow> program_list d ! m \<noteq> None) \<or> program_ok p d = Inr False"
      using True ok by auto
    then have "add_program_loop 64 0 pp d = Inr (- 1, d)"
      using add_program_loop_fails [OF assms(2) _ assms(3), of 0 64] by simp
    then show ?thesis using True by (simp add: spdk_hlsacccompute_add_program_def)
  next
    case False
    then obtain k where "k < 64" "program_list d ! k = None" "\<forall>m < k. program_list d ! m \<noteq> None"
      using add_program_first_free [OF assms(2)] by blast
    then have "add_program_loop 64 0 pp d = Inr (int k, install_program k pp (\<lambda>p. p) p d)"
      using add_program_loop_ok [of d 0 64 pp p k] assms(2,3) ok False by simp
    then show ?thesis using False by (simp add: spdk_hlsacccompute_add_program_def)
  qed
  show "spdk_hlsacccompute_add_program_with_id pp i d = Inr (- 1, d)
            \<longleftrightarrow> i < 0 \<or> i \<ge> 64 \<or> program_list d ! nat i \<noteq> None \<or> \<not> types_known p d"
  proof (cases "i < 0 \<or> i \<ge> 64")
    case False
    then have "nat i < 64" "i \<noteq> - 1" by arith+
    then show ?thesis using False ok assms(2,3)
      by (auto simp: spdk_hlsacccompute_add_program_with_id_def simp del: not_None_eq)
  qed (auto simp: spdk_hlsacccompute_add_program_with_id_def)
qed

section \<open>The operator table\<close>

definition elems_of :: "acc_dev \<Rightarrow> nat \<Rightarrow> nat list" where
  "elems_of d t = (case opconfigs d ! t of None \<Rightarrow> [] | Some c \<Rightarrow> elements c)"

definition types_of :: "acc_dev \<Rightarrow> nat set" where
  "types_of d = {t. t < 64 \<and> opconfigs d ! t \<noteq> None}"

fun ids_of :: "nat \<Rightarrow> op_inform list \<Rightarrow> nat \<Rightarrow> nat list" where
  "ids_of e [] t = []"
| "ids_of e (oi # ois) t = (if unat (inf_type oi) = t then e # ids_of (Suc e) ois t else ids_of (Suc e) ois t)"

definition table_ok :: "acc_dev \<Rightarrow> bool" where
  "table_ok d \<longleftrightarrow> length (opconfigs d) = 64 \<and> unat (register_op_type_num d) = card (types_of d)"

lemma finite_types_of [simp]: "finite (types_of d)"
  by (simp add: types_of_def)

lemma card_types_of: "card (types_of d) \<le> 64"
proof -
  have "types_of d \<subseteq> {0..<64}" by (auto simp: types_of_def)
  from card_mono [OF _ this] show ?thesis by simp
qed

lemma register_operator_ok:
  assumes "table_ok d" and "unat (inf_type oi) < 64"
  shows "\<exists>d'. register_operator e oi d = Inr d' \<and> table_ok d'
     \<and> types_of d' = insert (unat (inf_type oi)) (types_of d)
     \<and> (\<forall>t < 64. elems_of d' t = elems_of d t @ (if unat (inf_type oi) = t then [e] else []))"
proof -
  let ?t = "unat (inf_type oi)"
  have len: "length (opconfigs d) = 64" and num: "unat (register_op_type_num d) = card (types_of d)"
    using assms(1) by (simp_all add: table_ok_def)
  show ?thesis
  proof (cases "opconfigs d ! ?t")
    case None
    then have new: "?t \<notin> types_of d" by (simp add: types_of_def)
    obtain d' where d': "register_operator e oi d = Inr d'"
      "opconfigs d' = (opconfigs d)[?t := Some \<lparr>input_port_num = inf_in oi, output_port_num = inf_out oi,
         esti_executed_times = inf_time oi, op_bram = inf_bram oi, operator_type_id = inf_type oi, elements = [e]\<rparr>]"
      "register_op_type_num d' = register_op_type_num d + 1"
      using None assms(2) len by (simp add: register_operator_def Let_def upd_opconfig_def)
    have types: "types_of d' = insert ?t (types_of d)"
      using d'(2) assms(2) len by (auto simp: types_of_def nth_list_update)
    have "unat (register_op_type_num d + 1) = Suc (card (types_of d))"
      using num card_types_of [of d] by (simp add: unat_word_ariths)
    then have "table_ok d'" using d'(2,3) len types new by (simp add: table_ok_def)
    moreover have "\<forall>t < 64. elems_of d' t = elems_of d t @ (if ?t = t then [e] else [])"
      using d'(2) None len assms(2) by (auto simp: elems_of_def nth_list_update)
    ultimately show ?thesis using d'(1) types by blast
  next
    case (Some c)
    then have old: "?t \<in> types_of d" using assms(2) by (simp add: types_of_def)
    obtain d' where d': "register_operator e oi d = Inr d'"
      "opconfigs d' = (opconfigs d)[?t := Some (c\<lparr>elements := elements c @ [e]\<rparr>)]"
      "register_op_type_num d' = register_op_type_num d"
      using Some assms(2) len by (simp add: register_operator_def Let_def upd_opconfig_def)
    have types: "types_of d' = types_of d"
      using d'(2) assms(2) len Some by (auto simp: types_of_def nth_list_update)
    have "table_ok d'" using d'(2,3) len types num by (simp add: table_ok_def)
    moreover have "\<forall>t < 64. elems_of d' t = elems_of d t @ (if ?t = t then [e] else [])"
      using d'(2) Some len assms(2) by (auto simp: elems_of_def nth_list_update)
    ultimately show ?thesis using d'(1) types old by (auto simp: insert_absorb)
  qed
qed

lemma parse_operators_ok:
  assumes "table_ok d" and "\<forall>oi \<in> set ois. inf_rc oi \<ge> 0 \<and> unat (inf_type oi) < 64"
  shows "\<exists>d'. parse_operators_array e ois d = Inr (0, d') \<and> table_ok d'
     \<and> types_of d' = types_of d \<union> (\<lambda>oi. unat (inf_type oi)) ` set ois
     \<and> (\<forall>t < 64. elems_of d' t = elems_of d t @ ids_of e ois t)"
  using assms
proof (induction ois arbitrary: e d)
  case (Cons oi ois)
  from register_operator_ok [OF Cons.prems(1), of oi e] Cons.prems(2) obtain d1 where
    1: "register_operator e oi d = Inr d1" "table_ok d1" "types_of d1 = insert (unat (inf_type oi)) (types_of d)"
      "\<forall>t < 64. elems_of d1 t = elems_of d t @ (if unat (inf_type oi) = t then [e] else [])" by auto
  from Cons.IH [OF 1(2), of "Suc e"] Cons.prems(2) obtain d' where
    2: "parse_operators_array (Suc e) ois d1 = Inr (0, d')" "table_ok d'"
      "types_of d' = types_of d1 \<union> (\<lambda>oi. unat (inf_type oi)) ` set ois"
      "\<forall>t < 64. elems_of d' t = elems_of d1 t @ ids_of (Suc e) ois t" by auto
  show ?case using 1 2 Cons.prems(2) by (intro exI [of _ d']) auto
qed simp

lemma list_operators_iff:
  assumes "table_ok d"
  shows "list_operators d = (if {0..<card (types_of d)} \<subseteq> types_of d then Inr d else Inl NullDeref)"
proof -
  let ?f = "\<lambda>i d. rbind (arr_get (opconfigs d) i) (\<lambda>oc. case oc of None \<Rightarrow> Inl NullDeref | Some _ \<Rightarrow> Inr d)"
  have len: "length (opconfigs d) = 64" using assms by (simp add: table_ok_def)
  have "for_each ?f is d = (if set is \<subseteq> types_of d then Inr d else Inl NullDeref)" if "set is \<subseteq> {0..<64}" for "is"
    using that
  proof (induction "is")
    case (Cons i "is")
    then show ?case using len by (cases "opconfigs d ! i") (auto simp: types_of_def)
  qed simp
  from this [of "[0..<card (types_of d)]"] card_types_of [of d] assms show ?thesis
    by (simp add: list_operators_def table_ok_def)
qed

lemma contiguous_iff:
  assumes "finite T"
  shows "{0..<card T} \<subseteq> T \<longleftrightarrow> T = {0..<card T}"
proof
  assume sub: "{0..<card T} \<subseteq> T"
  have "card {0..<card T} = card T" by simp
  with card_subset_eq [OF assms sub] show "T = {0..<card T}" by metis
qed simp

section \<open>Bringing the device up\<close>

lemmas bar_defs = BAR_PHYS_ADDR_def BAR_SQ_TAILER_def BAR_SQ_HEADER_def BAR_CQ_TAILER_def BAR_CQ_HEADER_def
  BAR_SQ_def BAR_CQ_def BAR_RESETN_def

lemma addr_map_bar:
  "spdk_hlsacccompute_addr_map True mm (BAR_PHYS_ADDR + BAR_SQ_TAILER) = Inr (mm 0xB0074000 + 0x20)"
  "spdk_hlsacccompute_addr_map True mm (BAR_PHYS_ADDR + BAR_SQ_HEADER) = Inr (mm 0xB0074000 + 0x10)"
  "spdk_hlsacccompute_addr_map True mm (BAR_PHYS_ADDR + BAR_CQ_TAILER) = Inr (mm 0xB0074000 + 0x30)"
  "spdk_hlsacccompute_addr_map True mm (BAR_PHYS_ADDR + BAR_CQ_HEADER) = Inr (mm 0xB0074000 + 0x28)"
  "spdk_hlsacccompute_addr_map True mm (BAR_PHYS_ADDR + BAR_SQ) = Inr (mm 0xB0072000)"
  "spdk_hlsacccompute_addr_map True mm (BAR_PHYS_ADDR + BAR_CQ) = Inr (mm 0xB0071000)"
  "spdk_hlsacccompute_addr_map True mm (BAR_PHYS_ADDR + BAR_RESETN) = Inr (mm 0xB0070000 + 0x88)"
  by (simp_all add: spdk_hlsacccompute_addr_map_def bar_defs mask_eq_exp_minus_1)

lemma write_bar_simps:
  "write_bar mm (BAR_PHYS_ADDR + BAR_SQ_TAILER) = (if mm 0xB0074000 = MAP_FAILED then Inl NullDeref else Inr ())"
  "write_bar mm (BAR_PHYS_ADDR + BAR_CQ_HEADER) = (if mm 0xB0074000 = MAP_FAILED then Inl NullDeref else Inr ())"
  "write_bar mm (BAR_PHYS_ADDR + BAR_RESETN) = (if mm 0xB0070000 = MAP_FAILED then Inl NullDeref else Inr ())"
  by (simp_all add: write_bar_def bar_defs mask_eq_exp_minus_1)

lemma user_addr_off:
  fixes p k :: u64
  assumes "p < 2 ^ 48" and "k < 2 ^ 12"
  shows "p + k \<noteq> MAP_FAILED"
proof -
  have "unat p < 2 ^ 48" "unat k < 2 ^ 12" using assms by (simp_all add: word_less_nat_alt)
  then have "unat (p + k) = unat p + unat k" by (simp add: unat_word_ariths)
  with \<open>unat p < 2 ^ 48\<close> \<open>unat k < 2 ^ 12\<close> have "unat (p + k) < 2 ^ 49" by simp
  moreover have "unat MAP_FAILED = 2 ^ 64 - 1" by (simp add: MAP_FAILED_def unsigned_minus_1_eq_mask mask_eq_exp_minus_1)
  ultimately show ?thesis by (auto simp: MAP_FAILED_def)
qed


definition config_ok :: "config_file \<Rightarrow> op_inform list \<Rightarrow> bool" where
  "config_ok cf ois \<longleftrightarrow> cf_open cf \<and> cf_buffer cf \<and> cf_read cf \<and> cf_alloc cf
     \<and> cf_count cf \<noteq> SPDK_JSON_PARSE_INCOMPLETE \<and> cf_parse cf \<ge> 0 \<and> cf_ops cf = Some ois
     \<and> (\<forall>oi \<in> set ois. inf_rc oi \<ge> 0 \<and> unat (inf_type oi) < 64)"

lemma register_operator_frame:
  assumes "register_operator e oi d = Inr d'"
  shows "\<exists>oc rn oe. d' = d\<lparr>opconfigs := oc, register_op_type_num := rn, op_elms := oe\<rparr>"
proof -
  have "d' = d\<lparr>opconfigs := opconfigs d', register_op_type_num := register_op_type_num d', op_elms := op_elms d'\<rparr>"
    using assms by (auto simp: register_operator_def upd_opconfig_def Let_def rbind_Inr_iff split: option.splits)
  then show ?thesis by blast
qed

lemma parse_operators_frame:
  assumes "parse_operators_array e ois d = Inr (rc, d')"
  shows "\<exists>oc rn oe. d' = d\<lparr>opconfigs := oc, register_op_type_num := rn, op_elms := oe\<rparr>"
  using assms
proof (induction ois arbitrary: e d)
  case Nil
  then have "d' = d\<lparr>opconfigs := opconfigs d, register_op_type_num := register_op_type_num d, op_elms := op_elms d\<rparr>"
    by simp
  then show ?case by blast
next
  case (Cons oi ois)
  show ?case
  proof (cases "inf_rc oi < 0")
    case True
    with Cons.prems have "d' = d\<lparr>opconfigs := opconfigs d, register_op_type_num := register_op_type_num d, op_elms := op_elms d\<rparr>"
      by simp
    then show ?thesis by blast
  next
    case False
    with Cons.prems obtain d1 where d1: "register_operator e oi d = Inr d1"
      "parse_operators_array (Suc e) ois d1 = Inr (rc, d')"
      by (auto simp: rbind_Inr_iff)
    then obtain oc rn oe where "d1 = d\<lparr>opconfigs := oc, register_op_type_num := rn, op_elms := oe\<rparr>"
      using register_operator_frame by blast
    with Cons.IH [OF d1(2)] show ?thesis by auto
  qed
qed

lemma init_opconfig_ok:
  assumes "opconfigs d = replicate MAX_OPERATORS_SUPPORT None" and "register_op_type_num d = 0"
    and "config_ok cf ois" and "T = (\<lambda>oi. unat (inf_type oi)) ` set ois"
  shows "\<exists>oc rn oe d'. d' = d\<lparr>opconfigs := oc, register_op_type_num := rn, op_elms := oe\<rparr>
     \<and> spdk_hlsacccompute_init_opconfig e cf d = (if T = {0..<card T} then Inr (0, d') else Inl NullDeref)
     \<and> table_ok d' \<and> types_of d' = T \<and> (\<forall>t < 64. elems_of d' t = ids_of e ois t)"
proof -
  have blank: "table_ok d" "types_of d = {}" "\<forall>t < 64. elems_of d t = []"
    using assms(1,2) by (auto simp: table_ok_def types_of_def elems_of_def MAX_OPERATORS_SUPPORT_def)
  have cf: "\<forall>oi \<in> set ois. inf_rc oi \<ge> 0 \<and> unat (inf_type oi) < 64" using assms(3) by (simp add: config_ok_def)
  from parse_operators_ok [OF blank(1) cf, of e] obtain d' where
    d': "parse_operators_array e ois d = Inr (0, d')" "table_ok d'" "types_of d' = T"
      "\<forall>t < 64. elems_of d' t = ids_of e ois t"
    using blank assms(4) by auto
  have "finite T" using assms(4) by simp
  have "spdk_hlsacccompute_init_opconfig e cf d = rbind (list_operators d') (\<lambda>d2. Inr (0, d2))"
    using d'(1) assms(3) by (simp add: spdk_hlsacccompute_init_opconfig_def config_ok_def)
  also have "\<dots> = (if T = {0..<card T} then Inr (0, d') else Inl NullDeref)"
    using list_operators_iff [OF d'(2)] contiguous_iff [OF \<open>finite T\<close>] d'(3) by simp
  finally show ?thesis using parse_operators_frame [OF d'(1)] d'(2-4) by blast
qed

text \<open>A configuration file whose entries are all decoded and have types below 64 fills an empty type
  table: the types present are those of the file, and the elements of a type are the entries of that
  type in file order.  The listing loop at the end assumes that the types are numbered from 0 without
  a gap: otherwise it follows a null pointer.\<close>

theorem spdk_hlsacccompute_init_opconfig_table:
  assumes "opconfigs d = replicate MAX_OPERATORS_SUPPORT None" and "register_op_type_num d = 0"
    and "config_ok cf ois" and "T = (\<lambda>oi. unat (inf_type oi)) ` set ois"
  shows "if T = {0..<card T}
     then \<exists>d'. spdk_hlsacccompute_init_opconfig e cf d = Inr (0, d') \<and> table_ok d' \<and> types_of d' = T
            \<and> (\<forall>t < 64. elems_of d' t = ids_of e ois t)
     else spdk_hlsacccompute_init_opconfig e cf d = Inl NullDeref"
proof -
  obtain d' where "spdk_hlsacccompute_init_opconfig e cf d = (if T = {0..<card T} then Inr (0, d') else Inl NullDeref)"
     "table_ok d'" "types_of d' = T" "\<forall>t < 64. elems_of d' t = ids_of e ois t"
    using init_opconfig_ok [OF assms, of e] by blast
  then show ?thesis by simp
qed

lemma dev_init_state:
  assumes "\<forall>a. mm a < 2 ^ 48" and "al_vo al = Some vo" and "al_ctx al = Some ctx" and "al_buf al = Some buf"
    and "al_req al = Some rq" and "al_ctx2 al" and "register_op_type_num d = 0" and "config_ok cf ois"
    and "T = (\<lambda>oi. unat (inf_type oi)) ` set ois" and "T = {0..<card T}"
  shows "\<exists>d'. spdk_hlsacccompute_dev_init True mm BAR_PHYS_ADDR True al e cf True d = Inr (0, d')
     \<and> dev_state d' = HLSDEV_IDLE \<and> table_ok d' \<and> types_of d' = T \<and> (\<forall>t < 64. elems_of d' t = ids_of e ois t)
     \<and> program_list d' = replicate 64 None \<and> working_queue d' = [] \<and> waiting_queue d' = replicate 8 []
     \<and> opcontext_pool d' = map ctx [0..<2048] \<and> (\<forall>c \<in> set (opcontext_pool d'). contexts d' c = Some (blank_context (al_phys al c)))
     \<and> mgnt_mempool d' = map buf [0..<4096] \<and> request_poolv2 d' = map rq [0..<4096]
     \<and> unat (request_pool_ele_num d') = length (request_poolv2 d')
     \<and> dq d' = (dq d)\<lparr>sq_tail := 0, cq_head := 0, inner_tail := 0\<rparr>
     \<and> waiting_queue_ptr d' = waiting_queue_ptr d \<and> requests d' = al_req_mem al"
proof -
  let ?d2 = "d\<lparr>program_list := replicate 64 None, dq := (dq d)\<lparr>sq_tail := 0, cq_head := 0, inner_tail := 0\<rparr>\<rparr>"
  have mm: "MAP_FAILED \<noteq> mm a + k" if "k < 2 ^ 12" for a k
    using user_addr_off [of "mm a" k] assms(1) that by metis
  have mm0: "mm a \<noteq> MAP_FAILED" "MAP_FAILED \<noteq> mm a" for a using mm [of 0 a] by auto
  obtain d3 where d3: "spdk_hlsacccompute_qpair_create al ?d2 = Inr d3" "opconfigs d3 = replicate MAX_OPERATORS_SUPPORT None"
      "register_op_type_num d3 = 0" "program_list d3 = replicate 64 None" "working_queue d3 = []" "waiting_queue d3 = replicate 8 []"
      "opcontext_pool d3 = map ctx [0..<2048]" "\<forall>c \<in> set (opcontext_pool d3). contexts d3 c = Some (blank_context (al_phys al c))"
      "mgnt_mempool d3 = map buf [0..<4096]" "request_poolv2 d3 = map rq [0..<4096]" "request_pool_ele_num d3 = 4096"
      "dq d3 = (dq d)\<lparr>sq_tail := 0, cq_head := 0, inner_tail := 0\<rparr>"
      "waiting_queue_ptr d3 = waiting_queue_ptr d" "requests d3 = al_req_mem al"
    using assms(2-7) by (simp add: spdk_hlsacccompute_qpair_create_def SLICE_WINDOWS_def del: upt_rec_numeral)
  from init_opconfig_ok [OF d3(2,3) assms(8,9), of e] assms(10) obtain oc rn oe d4 where
    d4: "d4 = d3\<lparr>opconfigs := oc, register_op_type_num := rn, op_elms := oe\<rparr>"
      "spdk_hlsacccompute_init_opconfig e cf d3 = Inr (0, d4)" "table_ok d4" "types_of d4 = T"
      "\<forall>t < 64. elems_of d4 t = ids_of e ois t" by auto
  let ?d5 = "d4\<lparr>next_mem_id := 1, dev_state := HLSDEV_IDLE\<rparr>"
  have "spdk_hlsacccompute_dev_init True mm BAR_PHYS_ADDR True al e cf True d = Inr (0, ?d5)"
    using d3(1) d4(2) mm mm0 by (simp add: spdk_hlsacccompute_dev_init_def addr_map_bar write_bar_simps)
  moreover have "table_ok ?d5" "types_of ?d5 = T" "\<forall>t < 64. elems_of ?d5 t = ids_of e ois t"
    using d4(3-5) by (simp_all add: table_ok_def types_of_def elems_of_def)
  ultimately show ?thesis using d3(4-14) d4(1) by (simp del: upt_rec_numeral)
qed

text \<open>C31. When every library call of the initialisation succeeds and the operator types are numbered
  without a gap, the device comes up ready: the controller's rings are reset, no program is
  registered, nothing waits or runs, all 4096 requests, 2048 cleared contexts and 4096 stream buffers
  are free, the type table holds the operators of the configuration, and the scheduler is idle.\<close>

theorem spdk_hlsacccompute_dev_init_ready:
  assumes "\<forall>a. mm a < 2 ^ 48" and "al_vo al = Some vo" and "al_ctx al = Some ctx" and "al_buf al = Some buf"
    and "al_req al = Some rq" and "al_ctx2 al" and "register_op_type_num d = 0" and "config_ok cf ois"
    and "T = (\<lambda>oi. unat (inf_type oi)) ` set ois" and "T = {0..<card T}"
  shows "\<exists>d'. spdk_hlsacccompute_dev_init True mm BAR_PHYS_ADDR True al e cf True d = Inr (0, d')
     \<and> dev_state d' = HLSDEV_IDLE \<and> table_ok d' \<and> types_of d' = T \<and> (\<forall>t < 64. elems_of d' t = ids_of e ois t)
     \<and> program_list d' = replicate 64 None \<and> working_queue d' = [] \<and> waiting_queue d' = replicate 8 []
     \<and> opcontext_pool d' = map ctx [0..<2048] \<and> (\<forall>c \<in> set (opcontext_pool d'). contexts d' c = Some (blank_context (al_phys al c)))
     \<and> mgnt_mempool d' = map buf [0..<4096] \<and> request_poolv2 d' = map rq [0..<4096]
     \<and> unat (request_pool_ele_num d') = length (request_poolv2 d')
     \<and> sq_tail (dq d') = 0 \<and> cq_head (dq d') = 0 \<and> inner_tail (dq d') = 0"
proof -
  from dev_init_state [OF assms, of e] show ?thesis
    by (elim exE conjE) (intro exI conjI, assumption+, simp_all)
qed

text \<open>A failed mapping of the controller's register page is not noticed: the page offset is added to
  the failure value before the comparison, and the first register write goes to an unmapped
  address.\<close>

theorem spdk_hlsacccompute_dev_init_unmapped:
  assumes "mm 0xB0074000 = MAP_FAILED" and "\<forall>a. a \<noteq> 0xB0074000 \<longrightarrow> mm a < 2 ^ 48"
  shows "spdk_hlsacccompute_dev_init True mm BAR_PHYS_ADDR cpus al e cf table d = Inl NullDeref"
proof -
  have mm: "mm a \<noteq> MAP_FAILED" "MAP_FAILED \<noteq> mm a" if "a \<noteq> 0xB0074000" for a
    using user_addr_off [of "mm a" 0] assms(2) that by auto
  have "mm 0xB0070000 \<noteq> MAP_FAILED" "MAP_FAILED \<noteq> mm 0xB0071000" "MAP_FAILED \<noteq> mm 0xB0072000"
    by (rule mm, simp)+
  then show ?thesis using assms(1)
    by (simp add: spdk_hlsacccompute_dev_init_def addr_map_bar write_bar_simps)
qed

definition zero_queue :: "(cmd_cb, nat) cmd_queue" where
  "zero_queue = \<lparr>sq = replicate 32 0, sq_tail = 0, cq = replicate 32 \<lparr>cqe_cid = 0, cqe_ops = 0, cqe_state = 0\<rparr>,
     cq_head = 0, cq_tail = 0, inner_tail = 0, cmd_cb_fns = replicate 32 None, cmd_cb_args = replicate 32 None\<rparr>"

definition zero_dev :: acc_dev where
  "zero_dev = \<lparr>dq = zero_queue, opconfigs = replicate 64 None, register_op_type_num = 0,
     waiting_queue = replicate 8 [], waiting_queue_ptr = 0, working_queue = [], tx_channel_pool = [],
     rx_channel_pool = [], vo_pool = [], opcontext_pool = [], sw_resources_pool = [], mgnt_mempool = [],
     request_poolv2 = [], request_pool_ele_num = 0, program_list = replicate 64 None, next_mem_id = 0,
     dev_state = HLSDEV_IDLE, id_allocator = 0, sw_msgs = [], sw_done = [], requests = Map.empty,
     programs = Map.empty, op_elms = Map.empty, chans = Map.empty, contexts = Map.empty, chan_infos = Map.empty,
     vobjs = Map.empty, axi = \<lparr>axi_chs = [], aios = Map.empty, ameta = Map.empty\<rparr>, completions = [],
     mempool_places = (\<lambda>_. 0)\<rparr>"

definition sample_ops :: "op_inform list" where
  "sample_ops = [\<lparr>inf_rc = 0, inf_type = 1, inf_slot = 3, inf_in = 1, inf_out = 1, inf_time = 10, inf_bram = 4\<rparr>,
     \<lparr>inf_rc = 0, inf_type = 0, inf_slot = 5, inf_in = 2, inf_out = 1, inf_time = 20, inf_bram = 4\<rparr>]"

definition sample_cf :: config_file where
  "sample_cf = \<lparr>cf_open = True, cf_buffer = True, cf_read = True, cf_count = 40, cf_alloc = True, cf_parse = 0,
     cf_ops = Some sample_ops\<rparr>"

definition sample_alloc :: dev_alloc where
  "sample_alloc = \<lparr>al_vo = Some (\<lambda>i. i), al_ctx = Some (\<lambda>i. i), al_phys = (\<lambda>i. of_nat i), al_buf = Some (\<lambda>i. of_nat i + 1),
     al_req = Some (\<lambda>i. i), al_req_mem = Map.empty, al_ctx2 = True, al_sw = (\<lambda>i. i)\<rparr>"

lemma sample_config: "config_ok sample_cf sample_ops" "(\<lambda>oi. unat (inf_type oi)) ` set sample_ops = {0..<card {0, 1 :: nat}}"
  by (auto simp: config_ok_def sample_cf_def sample_ops_def SPDK_JSON_PARSE_INCOMPLETE_def)

theorem spdk_hlsacccompute_init_opconfig_table_witness:
  "\<exists>d'. spdk_hlsacccompute_init_opconfig 7 sample_cf zero_dev = Inr (0, d') \<and> elems_of d' 0 = [8] \<and> elems_of d' 1 = [7]"
proof -
  let ?T = "(\<lambda>oi. unat (inf_type oi)) ` set sample_ops"
  have z: "opconfigs zero_dev = replicate MAX_OPERATORS_SUPPORT None" "register_op_type_num zero_dev = 0"
    by (simp_all add: zero_dev_def MAX_OPERATORS_SUPPORT_def)
  have "?T = {0..<card ?T}" using sample_config(2) by simp
  with spdk_hlsacccompute_init_opconfig_table [OF z sample_config(1) refl, of 7] obtain d' where
    d': "spdk_hlsacccompute_init_opconfig 7 sample_cf zero_dev = Inr (0, d')" "\<forall>t < 64. elems_of d' t = ids_of 7 sample_ops t"
    by auto
  from d'(2) [rule_format, of 0] d'(2) [rule_format, of 1] have "elems_of d' 0 = [8]" "elems_of d' 1 = [7]"
    by (simp_all add: sample_ops_def)
  with d'(1) show ?thesis by blast
qed

theorem spdk_hlsacccompute_dev_init_ready_witness:
  "\<exists>d'. spdk_hlsacccompute_dev_init True (\<lambda>a. 0x7F0000000000) BAR_PHYS_ADDR True sample_alloc 7 sample_cf True zero_dev = Inr (0, d')
     \<and> dev_state d' = HLSDEV_IDLE \<and> program_list d' = replicate 64 None"
proof -
  let ?T = "(\<lambda>oi. unat (inf_type oi)) ` set sample_ops"
  have T: "?T = {0..<card ?T}" using sample_config(2) by simp
  have al: "al_vo sample_alloc = Some (\<lambda>i. i)" "al_ctx sample_alloc = Some (\<lambda>i. i)" "al_buf sample_alloc = Some (\<lambda>i. of_nat i + 1)"
    "al_req sample_alloc = Some (\<lambda>i. i)" "al_ctx2 sample_alloc" "register_op_type_num zero_dev = 0"
    by (simp_all add: sample_alloc_def zero_dev_def)
  have mm: "\<forall>a :: u64. (\<lambda>a. 0x7F0000000000 :: u64) a < 2 ^ 48" by simp
  show ?thesis
    using spdk_hlsacccompute_dev_init_ready [OF mm al sample_config(1) refl T, of 7] by blast
qed

theorem spdk_hlsacccompute_dev_init_unmapped_witness:
  "spdk_hlsacccompute_dev_init True (\<lambda>a. if a = 0xB0074000 then MAP_FAILED else 0x7F0000000000) BAR_PHYS_ADDR True
     sample_alloc 7 sample_cf True zero_dev = Inl NullDeref"
  by (rule spdk_hlsacccompute_dev_init_unmapped) simp_all

section \<open>Contexts and stream buffers\<close>

text \<open>The number of input ports of the \<open>i\<close>-th operator of a program, and a list cut into pieces.\<close>

definition ports :: "acc_program \<Rightarrow> acc_dev \<Rightarrow> nat \<Rightarrow> nat" where
  "ports p d i = (case opconfigs d ! unat (apply_operators_id_map p ! i) of None \<Rightarrow> 0 | Some c \<Rightarrow> unat (input_port_num c))"

fun chunks :: "nat list \<Rightarrow> 'a list \<Rightarrow> 'a list list" where
  "chunks [] bs = []"
| "chunks (n # ns) bs = take n bs # chunks ns (drop n bs)"

lemma concat_chunks: "concat (chunks ns bs) = take (sum_list ns) bs"
  by (induction ns arbitrary: bs) (simp_all add: take_add)

lemma length_chunks [simp]: "length (chunks ns bs) = length ns"
  by (induction ns arbitrary: bs) simp_all

lemma length_chunks_nth:
  "sum_list ns \<le> length bs \<Longrightarrow> j < length ns \<Longrightarrow> length (chunks ns bs ! j) = ns ! j"
  by (induction ns arbitrary: bs j) (auto simp: nth_Cons split: nat.splits)

definition filled_context :: "u64 \<Rightarrow> u64 list \<Rightarrow> acc_context" where
  "filled_context phy bs = (blank_context phy)\<lparr>stream_bufs := bs @ replicate (7 - length bs) 0\<rparr>"

text \<open>The pools cover operators \<open>i\<close> to \<open>i + n - 1\<close> of the program.\<close>

definition alloc_room :: "acc_program \<Rightarrow> nat \<Rightarrow> nat \<Rightarrow> acc_dev \<Rightarrow> bool" where
  "alloc_room p i n d \<longleftrightarrow> length (opconfigs d) = 64 \<and> i + n \<le> length (apply_operators_id_map p)
     \<and> (\<forall>j. i \<le> j \<and> j < i + n \<longrightarrow> unat (apply_operators_id_map p ! j) < 64
          \<and> opconfigs d ! unat (apply_operators_id_map p ! j) \<noteq> None \<and> ports p d j \<le> 7)
     \<and> n \<le> length (opcontext_pool d) \<and> distinct (opcontext_pool d)
     \<and> sum_list (map (ports p d) [i..<i + n]) \<le> length (mgnt_mempool d)"

definition allocated :: "(nat \<Rightarrow> u64) \<Rightarrow> acc_program \<Rightarrow> nat \<Rightarrow> nat \<Rightarrow> acc_dev \<Rightarrow> acc_dev" where
  "allocated vtophys p i n d =
     (let ns = map (ports p d) [i..<i + n] in
      d\<lparr>opcontext_pool := drop n (opcontext_pool d), mgnt_mempool := drop (sum_list ns) (mgnt_mempool d),
        contexts := contexts d ++ map_of (zip (take n (opcontext_pool d))
          (map2 (\<lambda>c bs. filled_context (vtophys c) bs) (take n (opcontext_pool d)) (chunks ns (mgnt_mempool d))))\<rparr>)"

lemma alloc_context_ok:
  assumes "alloc_room p i (Suc n) d" and "opcontext_pool d = c # cs"
  shows "alloc_context vtophys p i d = Inr (c, d\<lparr>opcontext_pool := cs, mgnt_mempool := drop (ports p d i) (mgnt_mempool d),
     contexts := (contexts d)(c \<mapsto> filled_context (vtophys c) (take (ports p d i) (mgnt_mempool d)))\<rparr>)"
proof -
  have i: "unat (apply_operators_id_map p ! i) < 64" "ports p d i \<le> 7" "ports p d i \<le> length (mgnt_mempool d)"
      "i < length (apply_operators_id_map p)" "length (opconfigs d) = 64"
    using assms(1) by (auto simp: alloc_room_def upt_conv_Cons simp del: upt_Suc)
  from assms(1) obtain cfg where "opconfigs d ! unat (apply_operators_id_map p ! i) = Some cfg"
    unfolding alloc_room_def by fastforce
  with i assms(2) show ?thesis by (simp add: alloc_context_def ports_def filled_context_def Let_def)
qed

lemma alloc_op_address_ok:
  assumes "alloc_room p i n d" and "i + n \<le> length arr"
  shows "alloc_op_address vtophys p i n arr d
     = Inr (take i arr @ map Some (take n (opcontext_pool d)) @ drop (i + n) arr, allocated vtophys p i n d)"
  using assms
proof (induction n arbitrary: i arr d)
  case 0
  then show ?case by (simp add: allocated_def)
next
  case (Suc n)
  from Suc.prems(1) obtain c cs where pool: "opcontext_pool d = c # cs" "n \<le> length cs" "c \<notin> set cs"
    by (cases "opcontext_pool d") (auto simp: alloc_room_def)
  let ?d1 = "d\<lparr>opcontext_pool := cs, mgnt_mempool := drop (ports p d i) (mgnt_mempool d),
     contexts := (contexts d)(c \<mapsto> filled_context (vtophys c) (take (ports p d i) (mgnt_mempool d)))\<rparr>"
  have ports: "ports p ?d1 = ports p d" by (simp add: ports_def fun_eq_iff)
  have upt: "[i..<i + Suc n] = i # [Suc i..<Suc i + n]" by (simp add: upt_conv_Cons)
  have alloc_room: "alloc_room p (Suc i) n ?d1"
    using Suc.prems(1) pool unfolding alloc_room_def ports upt by (auto simp del: upt_Suc)
  have arr: "arr[i := Some c] = take i arr @ Some c # drop (Suc i) arr"
    using Suc.prems(2) by (simp add: upd_conv_take_nth_drop)
  have fresh: "map_of (zip (take n cs) xs) c = None" for xs :: "acc_context list"
    using pool(3) by (metis (no_types, lifting) in_set_takeD in_set_zipE map_of_eq_None_iff imageE prod.collapse)
  have upd: "(contexts d)(c \<mapsto> v) ++ map_of (zip (take n cs) xs) = (contexts d ++ map_of (zip (take n cs) xs))(c \<mapsto> v)"
    for v xs using fresh [of xs] by (intro map_add_upd_left) (simp add: domIff)
  have alloc: "allocated vtophys p (Suc i) n ?d1 = allocated vtophys p i (Suc n) d"
    unfolding allocated_def Let_def ports upt by (simp add: pool(1) upd add.commute del: upt_Suc)
  have "alloc_op_address vtophys p i (Suc n) arr d
      = alloc_op_address vtophys p (Suc i) n (arr[i := Some c]) ?d1"
    using alloc_context_ok [OF Suc.prems(1) pool(1), of vtophys] Suc.prems(2) by simp
  also have "\<dots> = Inr (take (Suc i) (arr[i := Some c]) @ map Some (take n cs) @ drop (Suc i + n) (arr[i := Some c]),
      allocated vtophys p (Suc i) n ?d1)"
    using Suc.IH [OF alloc_room, of "arr[i := Some c]"] Suc.prems(2) by simp
  finally show ?case unfolding alloc using Suc.prems(2) by (simp add: arr pool(1) add.commute)
qed

lemma contexts_allocated:
  assumes "alloc_room p i n d" and "j < n"
  shows "contexts (allocated vtophys p i n d) (opcontext_pool d ! j)
     = Some (filled_context (vtophys (opcontext_pool d ! j)) (chunks (map (ports p d) [i..<i + n]) (mgnt_mempool d) ! j))"
proof -
  let ?cs = "take n (opcontext_pool d)" and ?bs = "chunks (map (ports p d) [i..<i + n]) (mgnt_mempool d)"
  let ?xs = "map2 (\<lambda>c bs. filled_context (vtophys c) bs) ?cs ?bs"
  have len: "length ?cs = n" "length ?bs = n" "distinct ?cs" using assms(1) by (auto simp: alloc_room_def)
  then have "map_of (zip ?cs ?xs) (?cs ! j) = Some (?xs ! j)"
    using assms(2) by (intro map_of_zip_nth) auto
  then show ?thesis using assms(2) len by (simp add: allocated_def Let_def del: upt_Suc)
qed

text \<open>The device after the creation of request \<open>r\<close>, the head of the request pool.\<close>

definition created_req :: "nat \<Rightarrow> acc_program \<Rightarrow> nat \<Rightarrow> acc_req \<Rightarrow> acc_dev \<Rightarrow> acc_req" where
  "created_req pp p n q d = q\<lparr>rx_vos := replicate 8 [], tx_vos := replicate 8 [], has_dev := True,
     acccontext := map Some (take n (opcontext_pool d)) @ replicate (8 - n) None,
     status := ACC_REQ_APPLYING, req_program := Some pp, request_id := - 1, req_result := 0\<rparr>"

definition created :: "(nat \<Rightarrow> u64) \<Rightarrow> nat \<Rightarrow> acc_program \<Rightarrow> nat \<Rightarrow> nat \<Rightarrow> acc_req \<Rightarrow> acc_dev \<Rightarrow> acc_dev" where
  "created vtophys pp p n r q d =
     (let d2 = allocated vtophys p 0 n (d\<lparr>request_poolv2 := tl (request_poolv2 d), request_pool_ele_num := request_pool_ele_num d - 1\<rparr>)
      in d2\<lparr>requests := (requests d2)(r \<mapsto> created_req pp p n q d)\<rparr>)"

definition creatable :: "nat \<Rightarrow> acc_program \<Rightarrow> nat \<Rightarrow> nat \<Rightarrow> acc_req \<Rightarrow> acc_dev \<Rightarrow> bool" where
  "creatable pp p n r q d \<longleftrightarrow> request_poolv2 d \<noteq> [] \<and> r = hd (request_poolv2 d) \<and> request_pool_ele_num d \<noteq> 0 \<and> requests d r = Some q
     \<and> length (tx_channel q) = 8 \<and> length (rx_channel q) = 8 \<and> tx_channel q ! 0 = None \<and> rx_channel q ! 0 = None
     \<and> programs d pp = Some p \<and> n = unat (apply_operators_num p) \<and> n \<le> 8 \<and> alloc_room p 0 n d"

lemma creatable_room:
  assumes "creatable pp p n r q d" and "d1 = d\<lparr>request_poolv2 := tl (request_poolv2 d), request_pool_ele_num := request_pool_ele_num d - 1\<rparr>"
  shows "ports p d1 = ports p d" and "alloc_room p 0 n d1"
proof -
  show ports: "ports p d1 = ports p d" by (simp add: ports_def fun_eq_iff assms(2))
  have "alloc_room p 0 n d" using assms(1) unfolding creatable_def by blast
  then show "alloc_room p 0 n d1" unfolding alloc_room_def ports by (simp add: assms(2))
qed

lemma create_request_run:
  assumes "creatable pp p n r q d"
  shows "spdk_hlsacccompute_create_request vtophys pp d = Inr (r, created vtophys pp p n r q d)"
proof -
  let ?d1 = "d\<lparr>request_poolv2 := tl (request_poolv2 d), request_pool_ele_num := request_pool_ele_num d - 1\<rparr>"
  from alloc_op_address_ok [OF creatable_room(2) [OF assms refl], of "replicate 8 None" vtophys]
  have "alloc_op_address vtophys p 0 n (replicate 8 None) ?d1 = Inr (acccontext (created_req pp p n q d), allocated vtophys p 0 n ?d1)"
    using assms by (simp add: creatable_def created_req_def)
  then show ?thesis using assms unfolding creatable_def
    by (cases "request_poolv2 d") (simp_all add: spdk_hlsacccompute_create_request_def created_def created_req_def Let_def)
qed

lemma created_facts:
  assumes "creatable pp p n r q d" and "bs = chunks (map (ports p d) [0..<n]) (mgnt_mempool d)"
    and "d' = created vtophys pp p n r q d"
  shows "requests d' r = Some (created_req pp p n q d)" and "length bs = n"
    and "\<forall>j < n. length (bs ! j) = ports p d j \<and> contexts d' (opcontext_pool d ! j)
          = Some (filled_context (vtophys (opcontext_pool d ! j)) (bs ! j))"
    and "mgnt_mempool d = concat bs @ mgnt_mempool d'" and "opcontext_pool d = take n (opcontext_pool d) @ opcontext_pool d'"
    and "request_poolv2 d' = tl (request_poolv2 d)" and "request_pool_ele_num d' = request_pool_ele_num d - 1"
    and "programs d' = programs d"
proof -
  let ?d1 = "d\<lparr>request_poolv2 := tl (request_poolv2 d), request_pool_ele_num := request_pool_ele_num d - 1\<rparr>"
  note ports = creatable_room(1) [OF assms(1) refl] and room = creatable_room(2) [OF assms(1) refl]
  have "\<forall>j < n. contexts d' (opcontext_pool d ! j)
          = Some (filled_context (vtophys (opcontext_pool d ! j)) (bs ! j))"
    using contexts_allocated [OF room, of _ vtophys] assms(2,3) unfolding ports by (simp add: created_def Let_def)
  moreover have "\<forall>j < n. length (bs ! j) = ports p d j"
    using room assms(2) length_chunks_nth [of "map (ports p d) [0..<n]" "mgnt_mempool d"] by (simp add: alloc_room_def ports)
  ultimately show "\<forall>j < n. length (bs ! j) = ports p d j \<and> contexts d' (opcontext_pool d ! j)
          = Some (filled_context (vtophys (opcontext_pool d ! j)) (bs ! j))" by blast
  show "mgnt_mempool d = concat bs @ mgnt_mempool d'" "opcontext_pool d = take n (opcontext_pool d) @ opcontext_pool d'"
    using assms(2,3) concat_chunks [of "map (ports p d) [0..<n]" "mgnt_mempool d"]
    by (simp_all add: created_def allocated_def Let_def ports)
  show "requests d' r = Some (created_req pp p n q d)" "request_poolv2 d' = tl (request_poolv2 d)"
    "request_pool_ele_num d' = request_pool_ele_num d - 1" "length bs = n" "programs d' = programs d"
    using assms(2,3) by (simp_all add: created_def allocated_def Let_def)
qed

text \<open>Creating a request takes a free request object and, for each operator of the program, the next
  context of the pool.  The context is cleared and receives as many stream buffers as the operator
  has input ports, in the order of the buffer pool: what the contexts hold followed by what is left
  in the pool is what the pool held before.\<close>

theorem spdk_hlsacccompute_create_request_allocates:
  assumes "creatable pp p n r q d" and "bs = chunks (map (ports p d) [0..<n]) (mgnt_mempool d)"
  shows "\<exists>d' q'. spdk_hlsacccompute_create_request vtophys pp d = Inr (r, d') \<and> requests d' r = Some q'
     \<and> status q' = ACC_REQ_APPLYING \<and> req_program q' = Some pp
     \<and> r # request_poolv2 d' = request_poolv2 d \<and> request_pool_ele_num d' = request_pool_ele_num d - 1
     \<and> acccontext q' = map Some (take n (opcontext_pool d)) @ replicate (8 - n) None
     \<and> opcontext_pool d = take n (opcontext_pool d) @ opcontext_pool d'
     \<and> (\<forall>j < n. length (bs ! j) = ports p d j \<and> contexts d' (opcontext_pool d ! j)
          = Some (filled_context (vtophys (opcontext_pool d ! j)) (bs ! j)))
     \<and> mgnt_mempool d = concat bs @ mgnt_mempool d'"
proof (intro exI conjI)
  let ?d' = "created vtophys pp p n r q d" and ?q' = "created_req pp p n q d"
  show "spdk_hlsacccompute_create_request vtophys pp d = Inr (r, ?d')" by (rule create_request_run [OF assms(1)])
  show "status ?q' = ACC_REQ_APPLYING" "req_program ?q' = Some pp"
    "acccontext ?q' = map Some (take n (opcontext_pool d)) @ replicate (8 - n) None" by (simp_all add: created_req_def)
  show "r # request_poolv2 ?d' = request_poolv2 d" using assms(1) created_facts(6) [OF assms refl] by (simp add: creatable_def)
qed (fact created_facts [OF assms refl])+

section \<open>Sample devices\<close>

definition sample_prog :: acc_program where
  "sample_prog = \<lparr>p_applyops = replicate 22 0, p_pauseops = replicate 3 0, p_freeops = replicate 3 0,
     apply_ops_size = 4, program_id = 0, apply_operators_id_map = [1, 0, 0, 0, 0, 0, 0, 0],
     input_channel_destination = replicate 8 0, software_data = 0, software_data_size = 0, software_data_id = 0,
     apply_operators_num = 2, input_channum = 1, output_channum = 1, activated = False\<rparr>"

text \<open>A device with operator types 0 and 1, one program in slot 0 and an unregistered one at address 9.\<close>

definition sample_cfg :: "u8 \<Rightarrow> u32 \<Rightarrow> nat list \<Rightarrow> opconfig" where
  "sample_cfg t n els = \<lparr>input_port_num = n, output_port_num = 1, esti_executed_times = 10, op_bram = 4,
     operator_type_id = t, elements = els\<rparr>"

definition prog_dev :: acc_dev where
  "prog_dev = zero_dev\<lparr>opconfigs := (replicate 64 None)[0 := Some (sample_cfg 0 2 [8]), 1 := Some (sample_cfg 1 1 [7])],
     program_list := (replicate 64 None)[0 := Some 5], programs := [9 \<mapsto> sample_prog]\<rparr>"

lemma prog_dev_facts:
  "length (opconfigs prog_dev) = 64" "length (program_list prog_dev) = 64" "programs prog_dev 9 = Some sample_prog"
  "types_known sample_prog prog_dev" "program_list prog_dev ! 1 = None" "program_list prog_dev ! 0 \<noteq> None"
  by (auto simp: prog_dev_def sample_prog_def types_known_def less_2_cases_iff)

theorem spdk_hlsacccompute_add_program_roundtrip_witness:
  "\<exists>d' d''. spdk_hlsacccompute_add_program 9 prog_dev = Inr (1, d')
     \<and> spdk_hlsacccompute_lookup_program 1 d' = Inr (0, Some 9)
     \<and> spdk_hlsacccompute_del_program 1 d' = Inr (0, d'')
     \<and> spdk_hlsacccompute_lookup_program 1 d'' = Inr (- 1, None)"
proof -
  have "\<forall>m < 1. program_list prog_dev ! m \<noteq> None" using prog_dev_facts(6) by simp
  from spdk_hlsacccompute_add_program_roundtrip [OF prog_dev_facts(1-4) _ prog_dev_facts(5) this]
  show ?thesis by auto
qed

theorem spdk_hlsacccompute_add_program_rejects_witness:
  "spdk_hlsacccompute_add_program 9 prog_dev \<noteq> Inr (- 1, prog_dev)
     \<and> spdk_hlsacccompute_add_program_with_id 9 0 prog_dev = Inr (- 1, prog_dev)"
proof -
  have "unat (apply_operators_num sample_prog) \<le> length (apply_operators_id_map sample_prog)"
    by (simp add: sample_prog_def)
  moreover have "None \<in> set (program_list prog_dev)"
    using prog_dev_facts(2,5) nth_mem [of 1 "program_list prog_dev"] by simp
  ultimately show ?thesis
    using spdk_hlsacccompute_add_program_rejects [OF prog_dev_facts(1-3), of 0] prog_dev_facts(4,6) by simp
qed

definition req_dev :: acc_dev where
  "req_dev = prog_dev\<lparr>request_poolv2 := [3, 4], request_pool_ele_num := 2, requests := [3 \<mapsto> zero_request, 4 \<mapsto> zero_request],
     opcontext_pool := [10, 11, 12], mgnt_mempool := [0x1000, 0x2000, 0x3000, 0x4000]\<rparr>"

lemma req_dev_ports: "ports sample_prog req_dev 0 = 1" "ports sample_prog req_dev 1 = 2"
  by (simp_all add: ports_def req_dev_def prog_dev_def sample_prog_def sample_cfg_def)

lemma req_dev_room: "alloc_room sample_prog 0 2 req_dev"
proof -
  have "unat (apply_operators_id_map sample_prog ! j) < 64 \<and> ports sample_prog req_dev j \<le> 7
      \<and> opconfigs req_dev ! unat (apply_operators_id_map sample_prog ! j) \<noteq> None" if "j < 2" for j
    using less_2_cases [OF that] req_dev_ports
    by (elim disjE) (simp_all add: req_dev_def prog_dev_def sample_prog_def)
  moreover have "[0..<2] = [0, 1 :: nat]" by (simp add: upt_rec)
  ultimately show ?thesis using req_dev_ports
    by (simp add: alloc_room_def) (simp add: req_dev_def prog_dev_def sample_prog_def)
qed

lemma req_dev_creatable: "creatable 9 sample_prog 2 3 zero_request req_dev"
  unfolding creatable_def using req_dev_room
  by (intro conjI) (simp_all add: req_dev_def prog_dev_def zero_request_def sample_prog_def)

theorem spdk_hlsacccompute_create_request_allocates_witness:
  "\<exists>d'. spdk_hlsacccompute_create_request (\<lambda>c. of_nat c * 8192) 9 req_dev = Inr (3, d') \<and> opcontext_pool d' = [12]
     \<and> mgnt_mempool d' = [0x4000]"
proof -
  let ?bs = "chunks (map (ports sample_prog req_dev) [0..<2]) (mgnt_mempool req_dev)"
  from spdk_hlsacccompute_create_request_allocates [OF req_dev_creatable refl, of "\<lambda>c. of_nat c * 8192"] obtain d' where
    d': "spdk_hlsacccompute_create_request (\<lambda>c. of_nat c * 8192) 9 req_dev = Inr (3, d')"
      "opcontext_pool req_dev = take 2 (opcontext_pool req_dev) @ opcontext_pool d'"
      "mgnt_mempool req_dev = concat ?bs @ mgnt_mempool d'" by blast
  have "[0..<2] = [0, 1 :: nat]" by (simp add: upt_rec)
  then have "map (ports sample_prog req_dev) [0..<2] = [1, 2]" using req_dev_ports by simp
  then have "opcontext_pool d' = [12]" "mgnt_mempool d' = [0x4000]"
    using d'(2,3) by (simp_all add: req_dev_def)
  with d'(1) show ?thesis by blast
qed

end
