(* ===== verification/Acc_Sched.thy ===== *)
theory Acc_Sched
  imports Acc_Device
begin

unbundle bit_operations_syntax

text \<open>
  The request state machine and the scheduler of the accelerator runtime
  (\<^verbatim>\<open>lib/hlsacccompute/hlsacccompute.c\<close>): selection and locking of operators, acquisition of channels,
  submission, preemption, pausing, release and rescheduling.

  \<^verbatim>\<open>__spdk_hlsacccompute_run_request\<close>, \<^verbatim>\<open>spdk_hlsacccompute_pause_request\<close> and the completion callback
  call each other (a run polls the completion ring, a completion runs a callback, a callback runs or
  pauses a request).  Each is a body with the recursive calls as an argument, and \<open>acc_exec\<close> ties the
  knot with a bound on the depth; running out of it is \<open>Hang\<close>.  Early returns are \<open>Inl rc\<close> in the sum
  of \<open>'a step\<close>, going on is \<open>Inr\<close>.
\<close>

type_synonym 'a step = "((int + 'a) \<times> acc_dev) res"

definition sbind :: "'a step \<Rightarrow> ('a \<Rightarrow> acc_dev \<Rightarrow> (int \<times> acc_dev) res) \<Rightarrow> (int \<times> acc_dev) res" where
  "sbind m k = rbind m (\<lambda>(r, d). case r of Inl rc \<Rightarrow> Inr (rc, d) | Inr x \<Rightarrow> k x d)"

datatype acc_call = CRun nat bool | CPause nat "nat option" "cmd_cb option" | CCallback "nat option"

type_synonym exec = "acc_call \<Rightarrow> acc_dev \<Rightarrow> (int \<times> acc_dev) res"

definition get_req :: "nat \<Rightarrow> acc_dev \<Rightarrow> acc_req res" where
  "get_req r d = deref (requests d) (Some r)"

definition get_prog :: "acc_req \<Rightarrow> acc_dev \<Rightarrow> acc_program res" where
  "get_prog q d = deref (programs d) (req_program q)"

text \<open>A loop over the channels of a request: its bound is read again before every round, because a
  channel operation may finish the request and clear it.\<close>

fun for_bound :: "(acc_dev \<Rightarrow> nat res) \<Rightarrow> (nat \<Rightarrow> acc_dev \<Rightarrow> acc_dev res) \<Rightarrow> nat list \<Rightarrow> acc_dev \<Rightarrow> acc_dev res" where
  "for_bound b f [] d = Inr d"
| "for_bound b f (i # is) d =
     rbind (b d) (\<lambda>n. if i < n then rbind (f i d) (\<lambda>d'. for_bound b f is d') else Inr d)"

definition num_tx :: "nat \<Rightarrow> acc_dev \<Rightarrow> nat res" where
  "num_tx r d = rbind (get_req r d) (\<lambda>q. Inr (unat (tx_channel_num q)))"

definition num_rx :: "nat \<Rightarrow> acc_dev \<Rightarrow> nat res" where
  "num_rx r d = rbind (get_req r d) (\<lambda>q. Inr (unat (rx_channel_num q)))"

definition each_tx :: "nat \<Rightarrow> (nat \<Rightarrow> acc_dev \<Rightarrow> acc_dev res) \<Rightarrow> acc_dev \<Rightarrow> acc_dev res" where
  "each_tx r f d = for_bound (num_tx r) f [0..<256] d"

definition each_rx :: "nat \<Rightarrow> (nat \<Rightarrow> acc_dev \<Rightarrow> acc_dev res) \<Rightarrow> acc_dev \<Rightarrow> acc_dev res" where
  "each_rx r f d = for_bound (num_rx r) f [0..<256] d"

definition on_tx :: "chan_op \<Rightarrow> nat \<Rightarrow> nat \<Rightarrow> acc_dev \<Rightarrow> acc_dev res" where
  "on_tx f r i d = rbind (get_req r d) (\<lambda>q. rbind (arr_get (tx_channel q) i) (\<lambda>c.
     case c of None \<Rightarrow> Inl NullDeref | Some ch \<Rightarrow> f ch d))"

definition on_rx :: "chan_op \<Rightarrow> nat \<Rightarrow> nat \<Rightarrow> acc_dev \<Rightarrow> acc_dev res" where
  "on_rx f r i d = rbind (get_req r d) (\<lambda>q. rbind (arr_get (rx_channel q) i) (\<lambda>c.
     case c of None \<Rightarrow> Inl NullDeref | Some ch \<Rightarrow> f ch d))"

section \<open>Choosing operators\<close>

text \<open>The element after \<open>e\<close> in the list of a type.\<close>

fun tq_next :: "nat list \<Rightarrow> nat \<Rightarrow> nat option" where
  "tq_next [] e = None"
| "tq_next (x # xs) e = (if x = e then (case xs of [] \<Rightarrow> None | y # _ \<Rightarrow> Some y) else tq_next xs e)"

text \<open>Stepping over the elements already chosen, one comparison per chosen element.\<close>

fun skip_used :: "nat list \<Rightarrow> nat list \<Rightarrow> nat option \<Rightarrow> nat option" where
  "skip_used els [] e = e"
| "skip_used els (u # us) e = skip_used els us (if e = Some u then tq_next els u else e)"

definition busy_elsewhere :: "op_elm \<Rightarrow> acc_dev \<Rightarrow> bool res" where
  "busy_elsewhere x d =
     (case elm_request x of
        None \<Rightarrow> Inr (elm_state x = WORKING)
      | Some o_req \<Rightarrow> rbind (get_req o_req d) (\<lambda>q.
          Inr (status q = ACC_REQ_WAITING \<or> status q = ACC_REQ_WAITING_PAUSE)))"

definition choose_operator ::
    "nat \<Rightarrow> bool \<Rightarrow> acc_program \<Rightarrow> nat \<Rightarrow> nat list \<times> nat list \<Rightarrow> acc_dev \<Rightarrow> (nat list \<times> nat list) step" where
  "choose_operator r preempt p i used d =
     (case used of (pre, non) \<Rightarrow>
     rbind (arr_get (apply_operators_id_map p) i) (\<lambda>t.
     rbind (arr_get (opconfigs d) (unat t)) (\<lambda>oc.
     if (case oc of None \<Rightarrow> True | Some cfg \<Rightarrow> elements cfg = []) then Inr (Inl (- 1), d)
     else
       let els = elements (the oc); e = skip_used els pre (skip_used els non (Some (hd els))) in
       case e of None \<Rightarrow> Inl NullDeref
       | Some el \<Rightarrow>
         rbind (deref (op_elms d) (Some el)) (\<lambda>x.
         rbind (get_req r d) (\<lambda>q.
         rbind (arr_set (req_elm q) i (Some el)) (\<lambda>elms'.
         rbind (arr_get (dynamic_id_map q) i) (\<lambda>old.
         rbind (arr_get (tx_channel q) 0) (\<lambda>tx0.
         let d1 = d\<lparr>requests := (requests d)(r \<mapsto> q\<lparr>req_elm := elms'\<rparr>)\<rparr> in
         if tx0 \<noteq> None \<and> elm_slot x \<noteq> old then Inr (Inl (- 1), d1)
         else
           let d2 = d1\<lparr>requests := (requests d1)(r \<mapsto> q\<lparr>req_elm := elms',
                      dynamic_id_map := (dynamic_id_map q)[i := elm_slot x]\<rparr>)\<rparr> in
           if elm_state x = UNIMPLEMENTED then Inr (Inl (- 1), d2\<lparr>dev_state := HLSDEV_IDLE\<rparr>)
           else if elm_state x \<noteq> IDLE \<and> (\<not> preempt \<or> elm_state x = LOCKED) then
             Inr (Inl (- 1), d2\<lparr>dev_state := HLSDEV_IDLE\<rparr>)
           else
             let used' = (if elm_state x = IDLE then (pre, non @ [el]) else (pre @ [el], non)) in
             rbind (busy_elsewhere x d2) (\<lambda>b.
             if b then Inr (Inl (- 1), d2\<lparr>dev_state := HLSDEV_IDLE\<rparr>)
             else Inr (Inr used', d2))))))))))"

fun choose_operators ::
    "nat \<Rightarrow> bool \<Rightarrow> acc_program \<Rightarrow> nat \<Rightarrow> nat \<Rightarrow> nat list \<times> nat list \<Rightarrow> acc_dev \<Rightarrow> (nat list \<times> nat list) step" where
  "choose_operators r preempt p i 0 used d = Inr (Inr used, d)"
| "choose_operators r preempt p i (Suc n) used d =
     rbind (choose_operator r preempt p i used d) (\<lambda>(res, d1).
     case res of Inl rc \<Rightarrow> Inr (Inl rc, d1)
     | Inr used' \<Rightarrow> choose_operators r preempt p (Suc i) n used' d1)"

text \<open>The requests that have to be paused for the operators to be taken over.\<close>

fun requests_to_pause :: "acc_req \<Rightarrow> nat list \<Rightarrow> nat list \<Rightarrow> acc_dev \<Rightarrow> (int + nat list) res" where
  "requests_to_pause q [] acc d = Inr (Inr acc)"
| "requests_to_pause q (e # es) acc d =
     rbind (deref (op_elms d) (Some e)) (\<lambda>x.
     case elm_request x of
       None \<Rightarrow> requests_to_pause q es acc d
     | Some o_req \<Rightarrow> rbind (get_req o_req d) (\<lambda>oq.
         if status oq = ACC_REQ_WAITING \<or> status oq = ACC_REQ_WAITING_PAUSE \<or> priority oq \<ge> priority q
         then Inr (Inl (- 1))
         else if status oq = ACC_REQ_EXECUTING \<and> o_req \<notin> set acc
         then requests_to_pause q es (acc @ [o_req]) d
         else requests_to_pause q es acc d))"

definition lock_element :: "nat \<Rightarrow> nat \<Rightarrow> acc_dev \<Rightarrow> acc_dev res" where
  "lock_element r e d =
     rbind (deref (op_elms d) (Some e)) (\<lambda>x.
     rbind (arr_get (opconfigs d) (elm_type x)) (\<lambda>oc.
     case oc of None \<Rightarrow> Inl NullDeref
     | Some cfg \<Rightarrow>
         rbind (tq_remove e (elements cfg)) (\<lambda>els.
         Inr (d\<lparr>opconfigs := (opconfigs d)[elm_type x := Some (cfg\<lparr>elements := els @ [e]\<rparr>)],
                op_elms := (op_elms d)(e \<mapsto> x\<lparr>elm_state := LOCKED, elm_request := Some r\<rparr>)\<rparr>))))"

section \<open>Channels of a request\<close>

text \<open>The destination of an input channel, as the source computes it: the table is indexed with the
  destination shifted to the left.\<close>

definition channel_dest :: "acc_req \<Rightarrow> acc_program \<Rightarrow> nat \<Rightarrow> u8 res" where
  "channel_dest q p i =
     rbind (arr_get (input_channel_destination p) i) (\<lambda>dst.
     rbind (arr_get (dynamic_id_map q) (unat dst * 16)) (\<lambda>m.
     Inr (push_bit 4 m OR (dst AND 0xF))))"

definition bind_rx_channel :: "chan_ops \<Rightarrow> nat \<Rightarrow> nat \<Rightarrow> acc_dev \<Rightarrow> unit step" where
  "bind_rx_channel ops r i d =
     rbind (get_req r d) (\<lambda>q.
     rbind (arr_get (rx_channel q) i) (\<lambda>c0.
     rbind (case c0 of Some c \<Rightarrow> Inr (Some c, d)
            | None \<Rightarrow> rbind (spdk_hlsacccompute_apply_channel ops False d) (\<lambda>(c, d1).
                rbind (upd_req r (\<lambda>q. q\<lparr>rx_channel := (rx_channel q)[i := c]\<rparr>) d1) (\<lambda>d2. Inr (c, d2))))
       (\<lambda>(c, d2).
       case c of None \<Rightarrow> Inr (Inl (- 1), d2)
       | Some ch \<Rightarrow> rbind (upd_chan ch (\<lambda>x. x\<lparr>virtual_channel_id := of_nat i, chan_req := Some r\<rparr>) d2) (\<lambda>d3.
           Inr (Inr (), d3)))))"

definition bind_tx_channel :: "chan_ops \<Rightarrow> nat \<Rightarrow> acc_program \<Rightarrow> nat \<Rightarrow> acc_dev \<Rightarrow> unit step" where
  "bind_tx_channel ops r p i d =
     rbind (get_req r d) (\<lambda>q.
     rbind (arr_get (tx_channel q) i) (\<lambda>c0.
     rbind (case c0 of Some c \<Rightarrow> Inr (Some c, d)
            | None \<Rightarrow> rbind (spdk_hlsacccompute_apply_channel ops True d) (\<lambda>(c, d1).
                rbind (upd_req r (\<lambda>q. q\<lparr>tx_channel := (tx_channel q)[i := c]\<rparr>) d1) (\<lambda>d2. Inr (c, d2))))
       (\<lambda>(c, d2).
       case c of None \<Rightarrow> Inr (Inl (- 1), d2)
       | Some ch \<Rightarrow> rbind (get_req r d2) (\<lambda>q2. rbind (channel_dest q2 p i) (\<lambda>dst.
           rbind (upd_chan ch (\<lambda>x. x\<lparr>virtual_channel_id := of_nat i, chan_req := Some r, dest_id := dst\<rparr>) d2) (\<lambda>d3.
           Inr (Inr (), d3)))))))"

fun bind_channels :: "(nat \<Rightarrow> acc_dev \<Rightarrow> unit step) \<Rightarrow> nat list \<Rightarrow> acc_dev \<Rightarrow> unit step" where
  "bind_channels f [] d = Inr (Inr (), d)"
| "bind_channels f (i # is) d =
     rbind (f i d) (\<lambda>(res, d1). case res of Inl rc \<Rightarrow> Inr (Inl rc, d1) | Inr _ \<Rightarrow> bind_channels f is d1)"

text \<open>The arguments of the three remappings.\<close>

definition ctx_phys :: "acc_req \<Rightarrow> acc_dev \<Rightarrow> u64 option list" where
  "ctx_phys q d = map (\<lambda>c. case c of None \<Rightarrow> None | Some k \<Rightarrow> map_option context_phy (contexts d k)) (acccontext q)"

definition rx_ids :: "acc_req \<Rightarrow> acc_dev \<Rightarrow> u8 option list" where
  "rx_ids q d = map (\<lambda>c. case c of None \<Rightarrow> None | Some k \<Rightarrow> map_option channel_id (chans d k)) (rx_channel q)"

definition remap_request :: "nat \<Rightarrow> acc_program \<Rightarrow> acc_dev \<Rightarrow> acc_dev res" where
  "remap_request r p d =
     rbind (get_req r d) (\<lambda>q.
     rbind (id_remap (dynamic_id_map q) (ctx_phys q d) (rx_ids q d) (p_applyops p) (r_applyops q)) (\<lambda>ap.
     rbind (id_remap (dynamic_id_map q) [] [] (p_pauseops p) (r_pauseops q)) (\<lambda>pa.
     rbind (id_remap (dynamic_id_map q) [] [] (p_freeops p) (r_freeops q)) (\<lambda>fr.
     Inr (d\<lparr>requests := (requests d)(r \<mapsto> q\<lparr>r_applyops := ap, r_pauseops := pa, r_freeops := fr\<rparr>)\<rparr>)))))"

section \<open>Submission\<close>

text \<open>\<^verbatim>\<open>execute_sqe\<close> on one of the request's commands, with the tag written back into it.\<close>

definition submit_apply :: "nat \<Rightarrow> acc_program \<Rightarrow> acc_dev \<Rightarrow> acc_dev res" where
  "submit_apply r p d =
     rbind (get_req r d) (\<lambda>q.
     rbind (execute_sqe (apply_ops_size p) (r_applyops q) (Some r) (Some cqe_recv_norm_cb) (dq d)) (\<lambda>(cid, cmds, q').
     Inr (d\<lparr>dq := q', requests := (requests d)(r \<mapsto> q\<lparr>r_applyops := cmds\<rparr>)\<rparr>)))"

definition poll_device :: "nat \<Rightarrow> exec \<Rightarrow> acc_dev \<Rightarrow> acc_dev res" where
  "poll_device fuel ex d =
     rbind (spdk_hlsacccompute_poll_cq fuel
         (\<lambda>f w e a (q, d). rbind (ex (CCallback a) (d\<lparr>dq := q\<rparr>)) (\<lambda>(rc, d'). Inr (dq d', d'))) (dq d, d))
       (\<lambda>(has, q, d'). Inr (d'\<lparr>dq := q\<rparr>))"

text \<open>The label \<^verbatim>\<open>sqe_execute\<close>: once no preemption is outstanding, the request is queued as working, its
  apply command is submitted, its channels are bound again and the completion ring is polled.\<close>

definition rebind_tx :: "nat \<Rightarrow> acc_program \<Rightarrow> nat \<Rightarrow> acc_dev \<Rightarrow> acc_dev res" where
  "rebind_tx r p i d =
     rbind (get_req r d) (\<lambda>q.
     rbind (arr_get (tx_channel q) i) (\<lambda>c.
     rbind (channel_dest q p i) (\<lambda>dst.
     case c of None \<Rightarrow> Inl NullDeref
     | Some ch \<Rightarrow> upd_chan ch (\<lambda>x. x\<lparr>virtual_channel_id := of_nat i, chan_req := Some r, dest_id := dst\<rparr>) d)))"

definition rebind_rx :: "nat \<Rightarrow> nat \<Rightarrow> acc_dev \<Rightarrow> acc_dev res" where
  "rebind_rx r i d =
     rbind (get_req r d) (\<lambda>q.
     rbind (arr_get (rx_channel q) i) (\<lambda>c.
     case c of None \<Rightarrow> Inl NullDeref
     | Some ch \<Rightarrow> upd_chan ch (\<lambda>x. x\<lparr>virtual_channel_id := of_nat i, chan_req := Some r\<rparr>) d))"

definition sqe_execute :: "nat \<Rightarrow> exec \<Rightarrow> nat \<Rightarrow> acc_dev \<Rightarrow> (int \<times> acc_dev) res" where
  "sqe_execute fuel ex r d =
     rbind (get_req r d) (\<lambda>q.
     if waiting_preempt_req q > 0 then Inr (0, d)
     else rbind (get_prog q d) (\<lambda>p.
       let d1 = d\<lparr>requests := (requests d)(r \<mapsto> q\<lparr>status := ACC_REQ_EXECUTING\<rparr>), working_queue := working_queue d @ [r]\<rparr> in
       rbind (submit_apply r p d1) (\<lambda>d2.
       rbind (for_each (rebind_tx r p) [0..<unat (input_channum p)] d2) (\<lambda>d3.
       rbind (for_each (rebind_rx r) [0..<unat (output_channum p)] d3) (\<lambda>d4.
       rbind (upd_req r (\<lambda>q. q\<lparr>tx_channel_num := input_channum p, rx_channel_num := output_channum p,
                status := ACC_REQ_WAITING_CHANNEL\<rparr>) d4) (\<lambda>d5.
       rbind (poll_device fuel ex d5) (\<lambda>d6. Inr (0, d6))))))))"

section \<open>Running a request\<close>

text \<open>The software path.\<close>

definition run_software :: "nat \<Rightarrow> acc_program \<Rightarrow> acc_dev \<Rightarrow> (int \<times> acc_dev) res" where
  "run_software r p d =
     (let idle = d\<lparr>dev_state := HLSDEV_IDLE\<rparr> in
      if input_channum p \<noteq> 1 \<or> output_channum p \<noteq> 1 \<or> apply_operators_num p \<noteq> 1 then
        rbind (upd_req r (\<lambda>q. q\<lparr>run_way := 0\<rparr>) idle) (\<lambda>d'. Inr (- 1, d'))
      else if software_data p = 0 then Inr (- 1, idle)
      else case sw_resources_pool d of
          [] \<Rightarrow> Inr (- 1, idle)
        | s # rest \<Rightarrow>
            rbind (upd_req r (\<lambda>q. q\<lparr>sw_res := Some s, status := ACC_REQ_EXECUTING\<rparr>)
              (idle\<lparr>sw_resources_pool := rest, sw_msgs := sw_msgs d @ [r], working_queue := working_queue d @ [r]\<rparr>))
              (\<lambda>d'. Inr (0, d')))"

text \<open>Locking the chosen operators, acquiring the channels, remapping the commands.\<close>

definition setup_hardware ::
    "chan_ops \<Rightarrow> nat \<Rightarrow> acc_program \<Rightarrow> bool \<Rightarrow> nat list \<times> nat list \<Rightarrow> acc_dev \<Rightarrow> nat list step" where
  "setup_hardware ops r p preempt used d =
     (case used of (pre, non) \<Rightarrow>
     rbind (get_req r d) (\<lambda>q.
     rbind (if preempt then requests_to_pause q pre [] d else Inr (Inr [])) (\<lambda>pauses.
     case pauses of Inl rc \<Rightarrow> Inr (Inl rc, d)
     | Inr ps \<Rightarrow>
       rbind (if preempt then for_each (lock_element r) pre d else Inr d) (\<lambda>d1.
       if \<not> preempt \<and> pre \<noteq> [] then Inr (Inl (- 1), d1\<lparr>dev_state := HLSDEV_IDLE\<rparr>)
       else
         rbind (for_each (lock_element r) non d1) (\<lambda>d2.
         rbind (upd_req r (\<lambda>q. q\<lparr>tx_channel_num := input_channum p\<rparr>) d2) (\<lambda>d3.
         rbind (bind_channels (bind_rx_channel ops r) [0..<unat (output_channum p)] d3) (\<lambda>(res, d4).
         case res of Inl rc \<Rightarrow> Inr (Inl rc, d4)
         | Inr _ \<Rightarrow>
           rbind (bind_channels (bind_tx_channel ops r p) [0..<unat (input_channum p)] d4) (\<lambda>(res, d5).
           case res of Inl rc \<Rightarrow> Inr (Inl rc, d5)
           | Inr _ \<Rightarrow>
             rbind (upd_req r (\<lambda>q. q\<lparr>rx_channel_num := output_channum p\<rparr>) d5) (\<lambda>d6.
             rbind (remap_request r p d6) (\<lambda>d7.
             rbind (upd_req r (\<lambda>q. q\<lparr>waiting_preempt_req := int (length pre)\<rparr>) d7) (\<lambda>d8.
             Inr (Inr ps, d8))))))))))))"

definition pause_others :: "exec \<Rightarrow> nat \<Rightarrow> nat list \<Rightarrow> acc_dev \<Rightarrow> acc_dev res" where
  "pause_others ex r ps d = for_each (\<lambda>o_req d.
     rbind (upd_req o_req (\<lambda>q. q\<lparr>next_request := Some r\<rparr>) d) (\<lambda>d1.
     rbind (ex (CPause o_req (Some o_req) (Some cqe_recv_norm_cb)) d1) (\<lambda>(rc, d2). Inr d2))) ps d"

definition run_applying :: "nat \<Rightarrow> chan_ops \<Rightarrow> exec \<Rightarrow> nat \<Rightarrow> bool \<Rightarrow> acc_dev \<Rightarrow> (int \<times> acc_dev) res" where
  "run_applying fuel ops ex r preempt d =
     rbind (get_req r d) (\<lambda>q.
     rbind (get_prog q d) (\<lambda>p.
     if run_way q = 1 then run_software r p d
     else if run_way q \<noteq> 0 \<and> run_way q \<noteq> 2 then Inr (- 1, d)
     else
       rbind (choose_operators r preempt p 0 (unat (apply_operators_num p)) ([], []) d) (\<lambda>(res, d1).
       case res of Inl rc \<Rightarrow> Inr (rc, d1)
       | Inr (pre, non) \<Rightarrow>
         sbind (setup_hardware ops r p preempt (pre, non) d1) (\<lambda>ps d2.
         if pre \<noteq> [] then
           rbind (upd_req r (\<lambda>q. q\<lparr>status := ACC_REQ_PREEMPTING\<rparr>) d2) (\<lambda>d3.
           rbind (pause_others ex r ps d3) (\<lambda>d4. Inr (0, d4)))
         else sqe_execute fuel ex r d2))))"

definition start_channels :: "chan_ops \<Rightarrow> nat \<Rightarrow> acc_dev \<Rightarrow> (int \<times> acc_dev) res" where
  "start_channels ops r d =
     rbind (each_rx r (on_rx (channel_recv ops) r) (d\<lparr>dev_state := HLSDEV_IDLE\<rparr>)) (\<lambda>d1.
     rbind (each_tx r (on_tx (channel_send ops) r) d1) (\<lambda>d2.
     rbind (upd_req r (\<lambda>q. q\<lparr>status := ACC_REQ_EXECUTING\<rparr>) d2) (\<lambda>d3.
     rbind (get_req r d3) (\<lambda>q3. rbind (get_prog q3 d3) (\<lambda>p.
     rbind (for_each (\<lambda>i d. rbind (get_req r d) (\<lambda>q. rbind (arr_get (req_elm q) i) (\<lambda>e.
         case e of None \<Rightarrow> Inl NullDeref | Some el \<Rightarrow> upd_elm el (\<lambda>x. x\<lparr>elm_state := WORKING\<rparr>) d)))
       [0..<unat (apply_operators_num p)] d3) (\<lambda>d4. Inr (0, d4)))))))"

definition run_body :: "nat \<Rightarrow> chan_ops \<Rightarrow> exec \<Rightarrow> nat \<Rightarrow> bool \<Rightarrow> acc_dev \<Rightarrow> (int \<times> acc_dev) res" where
  "run_body fuel ops ex r preempt d0 =
     (let d = d0\<lparr>dev_state := HLSDEV_RUN_REQUEST\<rparr> in
      rbind (get_req r d) (\<lambda>q0.
      let d1 = (if request_id q0 = - 1
                then d\<lparr>id_allocator := id_allocator d + 1,
                       requests := (requests d)(r \<mapsto> q0\<lparr>request_id := id_allocator d\<rparr>)\<rparr>
                else d) in
      if status q0 = ACC_REQ_APPLYING \<or> status q0 = ACC_REQ_WAITING then run_applying fuel ops ex r preempt d1
      else if status q0 = ACC_REQ_PREEMPTING then
        rbind (upd_req r (\<lambda>q. q\<lparr>waiting_preempt_req := waiting_preempt_req q - 1\<rparr>) d1) (\<lambda>d2.
        sqe_execute fuel ex r d2)
      else if status q0 = ACC_REQ_WAITING_CHANNEL then start_channels ops r d1
      else Inr (0, d1)))"

section \<open>Pausing\<close>

text \<open>The strategy argument is overwritten by the source, so the request always goes to the back of the
  current waiting queue, unless it has no device.\<close>

definition spdk_hlsacccompute_prepare_for_next_sched :: "nat \<Rightarrow> acc_dev \<Rightarrow> acc_dev res" where
  "spdk_hlsacccompute_prepare_for_next_sched r d =
     (let w = waiting_queue_ptr d mod SLICE_WINDOWS in
      rbind (get_req r d) (\<lambda>q.
      rbind (if has_dev q then
               rbind (arr_get (waiting_queue d) w) (\<lambda>xs. Inr (d\<lparr>waiting_queue := (waiting_queue d)[w := xs @ [r]]\<rparr>))
             else Inr d) (\<lambda>d1.
      upd_req r (\<lambda>q. q\<lparr>status := ACC_REQ_WAITING\<rparr>) d1)))"

definition run_next :: "exec \<Rightarrow> nat \<Rightarrow> acc_dev \<Rightarrow> (int \<times> acc_dev) res" where
  "run_next ex r d = rbind (get_req r d) (\<lambda>q.
     case next_request q of None \<Rightarrow> Inr (0, d)
     | Some n \<Rightarrow> rbind (ex (CRun n False) d) (\<lambda>(rc, d'). Inr (0, d')))"

definition release_tx :: "chan_ops \<Rightarrow> nat \<Rightarrow> nat \<Rightarrow> acc_dev \<Rightarrow> acc_dev res" where
  "release_tx ops r i d = rbind (get_req r d) (\<lambda>q. rbind (arr_get (tx_channel q) i) (\<lambda>c.
     rbind (spdk_hlsacccompute_release_channel ops c d) (\<lambda>(rc, d'). Inr d')))"

definition release_rx :: "chan_ops \<Rightarrow> nat \<Rightarrow> nat \<Rightarrow> acc_dev \<Rightarrow> acc_dev res" where
  "release_rx ops r i d = rbind (get_req r d) (\<lambda>q. rbind (arr_get (rx_channel q) i) (\<lambda>c.
     rbind (spdk_hlsacccompute_release_channel ops c d) (\<lambda>(rc, d'). Inr d')))"

definition unlink_tx :: "nat \<Rightarrow> nat \<Rightarrow> acc_dev \<Rightarrow> acc_dev res" where
  "unlink_tx r i d = rbind (get_req r d) (\<lambda>q. rbind (arr_get (tx_channel q) i) (\<lambda>c.
     rbind (case c of None \<Rightarrow> Inr d | Some ch \<Rightarrow> upd_chan ch (\<lambda>x. x\<lparr>chan_req := None\<rparr>) d) (\<lambda>d1.
     upd_req r (\<lambda>q. q\<lparr>tx_channel := (tx_channel q)[i := None]\<rparr>) d1)))"

definition unlink_rx :: "nat \<Rightarrow> nat \<Rightarrow> acc_dev \<Rightarrow> acc_dev res" where
  "unlink_rx r i d = rbind (get_req r d) (\<lambda>q. rbind (arr_get (rx_channel q) i) (\<lambda>c.
     rbind (case c of None \<Rightarrow> Inr d | Some ch \<Rightarrow> upd_chan ch (\<lambda>x. x\<lparr>chan_req := None\<rparr>) d) (\<lambda>d1.
     upd_req r (\<lambda>q. q\<lparr>rx_channel := (rx_channel q)[i := None]\<rparr>) d1)))"

text \<open>Detaching one operator of a paused request: a locked operator stays locked for the preemptor.\<close>

definition detach_elm :: "nat \<Rightarrow> nat \<Rightarrow> acc_dev \<Rightarrow> acc_dev res" where
  "detach_elm r i d = rbind (get_req r d) (\<lambda>q. rbind (arr_get (req_elm q) i) (\<lambda>e.
     case e of None \<Rightarrow> Inl NullDeref
     | Some el \<Rightarrow>
         rbind (upd_elm el (\<lambda>x. x\<lparr>elm_request := None,
             elm_state := (if elm_state x = LOCKED then LOCKED else IDLE)\<rparr>) d) (\<lambda>d1.
         upd_req r (\<lambda>q. q\<lparr>req_elm := (req_elm q)[i := None]\<rparr>) d1)))"

definition pause_executing ::
    "chan_ops \<Rightarrow> exec \<Rightarrow> nat \<Rightarrow> nat option \<Rightarrow> cmd_cb option \<Rightarrow> acc_dev \<Rightarrow> (int \<times> acc_dev) res" where
  "pause_executing ops ex r arg fn d =
     rbind (upd_req r (\<lambda>q. q\<lparr>status := ACC_REQ_WAITING_PAUSE\<rparr>) d) (\<lambda>d1.
     rbind (each_tx r (on_tx (channel_pause ops) r) d1) (\<lambda>d2.
     rbind (each_tx r (release_tx ops r) d2) (\<lambda>d3.
     rbind (each_tx r (unlink_tx r) d3) (\<lambda>d4.
     rbind (each_rx r (on_rx (channel_poller ops) r) d4) (\<lambda>d5.
     rbind (get_req r d5) (\<lambda>q5.
     if status q5 \<noteq> ACC_REQ_IDLE \<and> status q5 \<noteq> ACC_REQ_FINISHED then
       rbind (get_prog q5 d5) (\<lambda>p.
       rbind (execute_sqe (apply_ops_size p) (r_pauseops q5) arg fn (dq d5)) (\<lambda>(cid, cmds, q').
       let d6 = d5\<lparr>dq := q', requests := (requests d5)(r \<mapsto> q5\<lparr>r_pauseops := cmds\<rparr>)\<rparr> in
       rbind (for_each (detach_elm r) [0..<unat (apply_operators_num p)] d6) (\<lambda>d7.
       rbind (tq_remove r (working_queue d7)) (\<lambda>w. Inr (0, d7\<lparr>working_queue := w\<rparr>)))))
     else run_next ex r d5))))))"

text \<open>The controller appends an empty descriptor when it saves a context; the runtime drops it.\<close>

definition trim_context :: "nat \<Rightarrow> nat \<Rightarrow> acc_dev \<Rightarrow> acc_dev res" where
  "trim_context r i d = rbind (get_req r d) (\<lambda>q. rbind (arr_get (acccontext q) i) (\<lambda>c.
     rbind (deref (contexts d) c) (\<lambda>x.
     if descriptor_num x = 0 then Inr d
     else rbind (arr_get (desc_lengths x) (unat (descriptor_num x) - 1)) (\<lambda>len.
       if len = 0 then Inr (d\<lparr>contexts := (contexts d)(the c \<mapsto> x\<lparr>descriptor_num := descriptor_num x - 1\<rparr>)\<rparr>)
       else Inr d))))"

definition pause_confirmed :: "chan_ops \<Rightarrow> exec \<Rightarrow> nat \<Rightarrow> acc_dev \<Rightarrow> (int \<times> acc_dev) res" where
  "pause_confirmed ops ex r d =
     rbind (get_req r d) (\<lambda>q.
     rbind (get_prog q d) (\<lambda>p.
     rbind (for_each (trim_context r) [0..<unat (apply_operators_num p)] d) (\<lambda>d1.
     rbind (upd_req r (\<lambda>q. q\<lparr>status := ACC_REQ_WAITING\<rparr>) d1) (\<lambda>d2.
     rbind (each_rx r (on_rx (channel_pause ops) r) d2) (\<lambda>d3.
     rbind (each_rx r (release_rx ops r) d3) (\<lambda>d4.
     rbind (each_rx r (unlink_rx r) d4) (\<lambda>d5.
     rbind (spdk_hlsacccompute_prepare_for_next_sched r d5) (\<lambda>d6.
     run_next ex r d6))))))))"

definition pause_body ::
    "chan_ops \<Rightarrow> exec \<Rightarrow> nat \<Rightarrow> nat option \<Rightarrow> cmd_cb option \<Rightarrow> acc_dev \<Rightarrow> (int \<times> acc_dev) res" where
  "pause_body ops ex r arg fn d =
     rbind (get_req r d) (\<lambda>q.
     case status q of
       ACC_REQ_EXECUTING \<Rightarrow> pause_executing ops ex r arg fn d
     | ACC_REQ_WAITING_PAUSE \<Rightarrow> pause_confirmed ops ex r d
     | _ \<Rightarrow> Inl AssertFail)"

definition callback_body :: "exec \<Rightarrow> nat option \<Rightarrow> acc_dev \<Rightarrow> (int \<times> acc_dev) res" where
  "callback_body ex arg d =
     rbind (deref (requests d) arg) (\<lambda>q.
     if status q = ACC_REQ_WAITING_PAUSE then ex (CPause (the arg) None None) d
     else if req_program q \<noteq> None then ex (CRun (the arg) False) d
     else Inr (0, d))"

section \<open>The recursive runtime\<close>

fun acc_exec :: "nat \<Rightarrow> chan_ops \<Rightarrow> exec" where
  "acc_exec 0 ops call d = Inl Hang"
| "acc_exec (Suc n) ops call d =
     (case call of
        CRun r preempt \<Rightarrow> run_body n ops (acc_exec n ops) r preempt d
      | CPause r arg fn \<Rightarrow> pause_body ops (acc_exec n ops) r arg fn d
      | CCallback arg \<Rightarrow> callback_body (acc_exec n ops) arg d)"

definition run_request_inner :: "nat \<Rightarrow> chan_ops \<Rightarrow> nat \<Rightarrow> bool \<Rightarrow> acc_dev \<Rightarrow> (int \<times> acc_dev) res" where
  "run_request_inner fuel ops r preempt d = acc_exec fuel ops (CRun r preempt) d"

definition spdk_hlsacccompute_pause_request ::
    "nat \<Rightarrow> chan_ops \<Rightarrow> nat \<Rightarrow> nat option \<Rightarrow> cmd_cb option \<Rightarrow> acc_dev \<Rightarrow> (int \<times> acc_dev) res" where
  "spdk_hlsacccompute_pause_request fuel ops r arg fn d = acc_exec fuel ops (CPause r arg fn) d"

definition spdk_hlsacccompute_run_request ::
    "nat \<Rightarrow> u64 \<Rightarrow> chan_ops \<Rightarrow> nat \<Rightarrow> bool \<Rightarrow> acc_dev \<Rightarrow> (int \<times> acc_dev) res" where
  "spdk_hlsacccompute_run_request fuel now ops r preempt d =
     rbind (upd_req r (\<lambda>q. q\<lparr>responding_time := now\<rparr>) d) (\<lambda>d1.
     rbind (run_request_inner fuel ops r preempt d1) (\<lambda>(rc, d2).
     if rc = - 1 then rbind (spdk_hlsacccompute_prepare_for_next_sched r d2) (\<lambda>d3. Inr (rc, d3))
     else Inr (rc, d2)))"

section \<open>Scheduling and release\<close>

fun sched_loop :: "nat \<Rightarrow> chan_ops \<Rightarrow> nat list \<Rightarrow> acc_dev \<Rightarrow> (nat list \<times> acc_dev) res" where
  "sched_loop 0 ops again d = Inl Hang"
| "sched_loop (Suc n) ops again d =
     rbind (arr_get (waiting_queue d) (waiting_queue_ptr d)) (\<lambda>xs.
     case xs of [] \<Rightarrow> Inr (again, d)
     | r # rest \<Rightarrow>
         let d1 = d\<lparr>waiting_queue := (waiting_queue d)[waiting_queue_ptr d := rest]\<rparr> in
         rbind (get_req r d1) (\<lambda>q.
         rbind (run_request_inner n ops r (unat (priority q) \<ge> 220) d1) (\<lambda>(rc, d2).
         sched_loop n ops (if rc = - 1 then again @ [r] else again) d2)))"

definition spdk_hlsacccompute_schedule_request :: "nat \<Rightarrow> chan_ops \<Rightarrow> acc_dev \<Rightarrow> acc_dev res" where
  "spdk_hlsacccompute_schedule_request fuel ops d =
     (if dev_state d \<noteq> HLSDEV_IDLE then Inr (d\<lparr>waiting_queue_ptr := 0\<rparr>)
      else rbind (sched_loop fuel ops [] (d\<lparr>dev_state := HLSDEV_SCHEDING\<rparr>)) (\<lambda>(again, d1).
           rbind (for_each spdk_hlsacccompute_prepare_for_next_sched again d1) (\<lambda>d2.
           Inr (d2\<lparr>waiting_queue_ptr := 0, dev_state := HLSDEV_IDLE\<rparr>))))"

text \<open>The stream buffers of one context go back to the pool up to the first empty entry.\<close>

fun leading :: "u64 list \<Rightarrow> u64 list" where
  "leading [] = []"
| "leading (b # bs) = (if b = 0 then [] else b # leading bs)"

definition free_buffers :: "nat \<Rightarrow> nat \<Rightarrow> acc_dev \<Rightarrow> acc_dev res" where
  "free_buffers r i d = rbind (get_req r d) (\<lambda>q. rbind (arr_get (acccontext q) i) (\<lambda>c.
     rbind (deref (contexts d) c) (\<lambda>x.
     let bs = leading (stream_bufs x) in
     Inr (d\<lparr>mgnt_mempool := mempool_puts (mempool_places d) bs (mgnt_mempool d),
            mempool_places := (\<lambda>i. mempool_places d (length bs + i)),
            contexts := (contexts d)(the c \<mapsto> x\<lparr>stream_bufs := replicate (length bs) 0 @ drop (length bs) (stream_bufs x)\<rparr>)\<rparr>))))"

definition free_operator :: "nat \<Rightarrow> nat \<Rightarrow> acc_dev \<Rightarrow> acc_dev res" where
  "free_operator r i d = rbind (get_req r d) (\<lambda>q. rbind (arr_get (acccontext q) i) (\<lambda>c.
     rbind (deref (contexts d) c) (\<lambda>x.
     rbind (arr_get (req_elm q) i) (\<lambda>e.
     let d1 = d\<lparr>contexts := (contexts d)(the c \<mapsto> blank_context (context_phy x)),
                opcontext_pool := opcontext_pool d @ [the c]\<rparr> in
     case e of None \<Rightarrow> Inr d1
     | Some el \<Rightarrow>
         rbind (upd_elm el (\<lambda>x. x\<lparr>elm_request := None, elm_state := IDLE\<rparr>) d1) (\<lambda>d2.
         rbind (deref (op_elms d2) (Some el)) (\<lambda>y.
         rbind (arr_get (opconfigs d2) (elm_type y)) (\<lambda>oc.
         case oc of None \<Rightarrow> Inl NullDeref
         | Some cfg \<Rightarrow> rbind (tq_remove el (elements cfg)) (\<lambda>els.
             Inr (d2\<lparr>opconfigs := (opconfigs d2)[elm_type y := Some (cfg\<lparr>elements := el # els\<rparr>)]\<rparr>)))))))))"

definition free_tx_channel :: "chan_ops \<Rightarrow> nat \<Rightarrow> nat \<Rightarrow> acc_dev \<Rightarrow> acc_dev res" where
  "free_tx_channel ops r i d = rbind (get_req r d) (\<lambda>q. rbind (arr_get (tx_channel q) i) (\<lambda>c.
     case c of None \<Rightarrow> Inr d
     | Some ch \<Rightarrow> rbind (channel_pause ops ch d) (\<lambda>d1.
         rbind (spdk_hlsacccompute_release_channel ops (Some ch) d1) (\<lambda>(rc, d2). unlink_tx r i d2))))"

definition free_rx_channel :: "chan_ops \<Rightarrow> nat \<Rightarrow> nat \<Rightarrow> acc_dev \<Rightarrow> acc_dev res" where
  "free_rx_channel ops r i d = rbind (get_req r d) (\<lambda>q. rbind (arr_get (rx_channel q) i) (\<lambda>c.
     case c of None \<Rightarrow> Inr d
     | Some ch \<Rightarrow> rbind (channel_pause ops ch d) (\<lambda>d1.
         rbind (spdk_hlsacccompute_release_channel ops (Some ch) d1) (\<lambda>(rc, d2). unlink_rx r i d2))))"

text \<open>The virtual objects returned to the pool.  The receive loop tests list 0 in every round, so it
  returns list 0 and nothing else; the transmit loop returns the lists up to the first empty one.\<close>

definition freed_rx_vos :: "nat list list \<Rightarrow> nat list" where
  "freed_rx_vos vos = (case vos of [] \<Rightarrow> [] | v # _ \<Rightarrow> v)"

definition freed_tx_vos :: "nat list list \<Rightarrow> nat list" where
  "freed_tx_vos vos = concat (takeWhile (\<lambda>v. v \<noteq> []) vos)"

text \<open>What is sent to the controller, or given back of the software path.\<close>

definition free_announce :: "nat \<Rightarrow> bool \<Rightarrow> acc_req \<Rightarrow> acc_dev \<Rightarrow> acc_dev res" where
  "free_announce r sendsqe q d =
     (if sendsqe \<and> run_way q \<noteq> 1 then
        rbind (get_prog q d) (\<lambda>p.
        rbind (execute_sqe (apply_ops_size p) (r_freeops q) (Some r) None (dq d)) (\<lambda>(cid, cmds, q').
        Inr (d\<lparr>dq := q', requests := (requests d)(r \<mapsto> q\<lparr>r_freeops := cmds\<rparr>)\<rparr>)))
      else if run_way q = 1 \<and> sw_res q \<noteq> None then
        Inr (d\<lparr>sw_resources_pool := sw_resources_pool d @ [the (sw_res q)],
               requests := (requests d)(r \<mapsto> q\<lparr>sw_res := None\<rparr>)\<rparr>)
      else Inr d)"

definition free_hardware :: "chan_ops \<Rightarrow> nat \<Rightarrow> acc_req \<Rightarrow> acc_program \<Rightarrow> acc_dev \<Rightarrow> acc_dev res" where
  "free_hardware ops r q p d =
     (if run_way q = 1 then Inr d
      else rbind (for_each (free_operator r) [0..<unat (apply_operators_num p)] d) (\<lambda>d1.
           rbind (each_tx r (free_tx_channel ops r) d1) (\<lambda>d2.
           each_rx r (free_rx_channel ops r) d2)))"

definition recycle_request :: "nat \<Rightarrow> acc_dev \<Rightarrow> acc_dev res" where
  "recycle_request r d =
     rbind (get_req r d) (\<lambda>q.
     Inr (d\<lparr>vo_pool := vo_pool d @ freed_rx_vos (rx_vos q) @ freed_tx_vos (tx_vos q),
            requests := (requests d)(r \<mapsto> zero_request),
            request_poolv2 := mempool_put (mempool_places d 0) r (request_poolv2 d),
            mempool_places := (\<lambda>i. mempool_places d (Suc i)),
            request_pool_ele_num := request_pool_ele_num d + 1\<rparr>))"

definition spdk_hlsacccompute_free_request ::
    "nat \<Rightarrow> u64 \<Rightarrow> chan_ops \<Rightarrow> nat \<Rightarrow> bool \<Rightarrow> acc_dev \<Rightarrow> (int \<times> acc_dev) res" where
  "spdk_hlsacccompute_free_request fuel now ops r sendsqe d =
     rbind (upd_req r (\<lambda>q. q\<lparr>status := ACC_REQ_FINISHED, responding_time := now - responding_time q\<rparr>) d) (\<lambda>d1.
     rbind (get_req r d1) (\<lambda>q.
     rbind (free_announce r sendsqe q d1) (\<lambda>d2.
     rbind (get_prog q d2) (\<lambda>p.
     rbind (for_each (free_buffers r) [0..<unat (apply_operators_num p)] d2) (\<lambda>d3.
     rbind (tq_remove r (working_queue d3)) (\<lambda>w.
     rbind (free_hardware ops r q p (d3\<lparr>working_queue := w\<rparr>)) (\<lambda>d4.
     rbind (recycle_request r d4) (\<lambda>d5.
     rbind (spdk_hlsacccompute_schedule_request fuel ops d5) (\<lambda>d6.
     Inr (0, d6))))))))))"

section \<open>The software path and the poller\<close>

text \<open>The thread that runs a program in software.  \<open>funcs\<close> says whether the program's library functions
  were found and \<open>size\<close> is what its size function returns, if it has one.  The two virtual objects
  are put back into the channel pools.\<close>

definition run_easy_sw :: "bool \<Rightarrow> u64 option \<Rightarrow> nat \<Rightarrow> acc_dev \<Rightarrow> acc_dev res" where
  "run_easy_sw funcs res_size r d =
     rbind (get_req r d) (\<lambda>q.
     rbind (assert_c (req_program q \<noteq> None)) (\<lambda>_.
     rbind (if \<not> funcs then Inr d
            else rbind (arr_get (tx_vos q) 0) (\<lambda>txs. rbind (arr_get (rx_vos q) 0) (\<lambda>rxs.
              case (txs, rxs) of (t # ts, x # xs) \<Rightarrow>
                  Inr (d\<lparr>requests := (requests d)(r \<mapsto> q\<lparr>tx_vos := (tx_vos q)[0 := ts], rx_vos := (rx_vos q)[0 := xs]\<rparr>),
                         tx_channel_pool := tx_channel_pool d @ [PVo t],
                         rx_channel_pool := rx_channel_pool d @ [PVo x]\<rparr>)
              | _ \<Rightarrow> Inl NullDeref))) (\<lambda>d1.
     rbind (case res_size of None \<Rightarrow> Inr d1 | Some n \<Rightarrow> upd_req r (\<lambda>q. q\<lparr>req_result := n\<rparr>) d1) (\<lambda>d2.
     Inr (d2\<lparr>sw_done := sw_done d2 @ [r]\<rparr>)))))"

text \<open>The poller polls the completion ring; its periodic scheduling call is commented out.\<close>

definition spdk_hlsacccompute_poller :: "nat \<Rightarrow> chan_ops \<Rightarrow> acc_dev \<Rightarrow> acc_dev res" where
  "spdk_hlsacccompute_poller fuel ops d = poll_device fuel (acc_exec fuel ops) d"

end
