(* ===== verification/Acc_Sched_Laws.thy ===== *)
theory Acc_Sched_Laws
  imports Acc_Device_Laws Acc_Sched
begin

text \<open>
  Properties of the scheduler: the choice of operators, the resources of a request on their way from
  creation to release, and what happens when channels run out or a program runs in software.
\<close>

section \<open>Choosing operators\<close>

lemma tq_next_nth:
  "distinct els \<Longrightarrow> j < length els \<Longrightarrow> tq_next els (els ! j) = (if Suc j < length els then Some (els ! Suc j) else None)"
proof (induction els arbitrary: j)
  case (Cons x xs)
  show ?case
  proof (cases j)
    case 0
    then show ?thesis by (cases xs) auto
  next
    case (Suc k)
    with Cons.prems have "x \<noteq> xs ! k" "k < length xs" by auto
    then show ?thesis using Suc Cons by auto
  qed
qed simp

lemma skip_used_None: "skip_used els us None = None"
  by (induction us) auto

text \<open>Elements used before that form an interval of the list are stepped over.\<close>

lemma skip_used_prefix:
  assumes "distinct els" and "j < length els" and "filter (\<lambda>u. u \<in> set els) us = take m (drop j els)" and "j + m \<le> length els"
  shows "skip_used els us (Some (els ! j)) = (if j + m < length els then Some (els ! (j + m)) else None)"
  using assms(2-4)
proof (induction us arbitrary: j m)
  case (Cons u us)
  show ?case
  proof (cases "u \<in> set els")
    case False
    with Cons.prems(1) have "els ! j \<noteq> u" by auto
    with Cons False show ?thesis by simp
  next
    case True
    with Cons.prems(2) obtain k where m: "m = Suc k" by (cases m) auto
    have drop: "drop j els = els ! j # drop (Suc j) els" using Cons.prems(1) by (simp add: Cons_nth_drop_Suc)
    from Cons.prems(2) True m drop have u: "u = els ! j" and rest: "filter (\<lambda>u. u \<in> set els) us = take k (drop (Suc j) els)" by auto
    show ?thesis
    proof (cases "Suc j < length els")
      case True
      then show ?thesis using Cons.IH [OF True rest] Cons.prems(3) m u tq_next_nth [OF assms(1) Cons.prems(1)] by simp
    next
      case False
      with Cons.prems m have "k = 0" "j + m = length els" by auto
      then show ?thesis using u tq_next_nth [OF assms(1) Cons.prems(1)] False by (simp add: skip_used_None)
    qed
  qed
qed (use assms in auto)

text \<open>The lists of elements are without repetition and disjoint.\<close>

definition elems_ok :: "acc_dev \<Rightarrow> bool" where
  "elems_ok d \<longleftrightarrow> length (opconfigs d) = 64 \<and> (\<forall>t < 64. distinct (elems_of d t))
     \<and> (\<forall>t < 64. \<forall>t' < 64. t \<noteq> t' \<longrightarrow> set (elems_of d t) \<inter> set (elems_of d t') = {})"

definition op_type :: "acc_program \<Rightarrow> nat \<Rightarrow> nat" where
  "op_type p i = unat (apply_operators_id_map p ! i)"

text \<open>What a successful round without preemption does.\<close>

lemma choose_operator_idle:
  assumes "choose_operator r False p i ([], non) d = Inr (Inr used, d')" and "elems_ok d" and "op_type p i < 64"
    and "filter (\<lambda>u. u \<in> set (elems_of d (op_type p i))) non = take m (elems_of d (op_type p i))"
    and "m \<le> length (elems_of d (op_type p i))"
  shows "\<exists>x q. m < length (elems_of d (op_type p i)) \<and> used = ([], non @ [elems_of d (op_type p i) ! m])
     \<and> op_elms d (elems_of d (op_type p i) ! m) = Some x \<and> elm_state x = IDLE \<and> requests d r = Some q
     \<and> i < length (req_elm q) \<and> i < length (dynamic_id_map q)
     \<and> d' = d\<lparr>requests := (requests d)(r \<mapsto> q\<lparr>req_elm := (req_elm q)[i := Some (elems_of d (op_type p i) ! m)],
          dynamic_id_map := (dynamic_id_map q)[i := elm_slot x]\<rparr>)\<rparr>"
proof -
  let ?t = "op_type p i" and ?els = "elems_of d (op_type p i)"
  from assms(1) obtain oc where oc: "arr_get (apply_operators_id_map p) i = Inr (apply_operators_id_map p ! i)"
    "arr_get (opconfigs d) ?t = Inr oc"
    by (auto simp: choose_operator_def op_type_def rbind_Inr_iff dest: arr_get_InrD)
  from assms(1) oc obtain cfg where cfg: "oc = Some cfg" "elements cfg \<noteq> []"
    by (auto simp: choose_operator_def op_type_def split: option.splits if_splits)
  have els: "?els = elements cfg" using oc(2) cfg(1) by (auto simp: elems_of_def dest!: arr_get_InrD split: option.splits)
  have ne: "?els \<noteq> []" using cfg(2) els by simp
  have dist: "distinct ?els" using assms(2,3) by (simp add: elems_ok_def)
  have skip: "skip_used (elements cfg) non (Some (hd (elements cfg))) = (if m < length ?els then Some (?els ! m) else None)"
    using skip_used_prefix [OF dist, of 0 non m] assms(4,5) ne els by (simp add: hd_conv_nth)
  have t: "arr_get (opconfigs d) (unat (apply_operators_id_map p ! i)) = Inr (Some cfg)" using oc(2) cfg(1) by (simp add: op_type_def)
  have m: "m < length ?els"
    using assms(1) cfg(2) by (rule_tac ccontr) (simp add: choose_operator_def oc(1) t skip)
  show ?thesis using assms(1) m cfg(2)
    by (auto simp: choose_operator_def oc(1) t skip Let_def rbind_Inr_iff get_req_def
        split: if_splits dest!: deref_InrD arr_set_InrD arr_get_InrD)
qed

text \<open>\<open>picked d d' r p j e\<close>: operator \<open>j\<close> of the program was given the element \<open>e\<close>, which is of its type and
  was free, and the request of the new state records it.\<close>

definition picked :: "acc_dev \<Rightarrow> acc_dev \<Rightarrow> nat \<Rightarrow> acc_program \<Rightarrow> nat \<Rightarrow> nat \<Rightarrow> bool" where
  "picked d d' r p j e \<longleftrightarrow> e \<in> set (elems_of d (op_type p j)) \<and> (\<exists>x q'. op_elms d e = Some x \<and> elm_state x = IDLE
     \<and> requests d' r = Some q' \<and> req_elm q' ! j = Some e \<and> dynamic_id_map q' ! j = elm_slot x)"

definition same_below :: "acc_dev \<Rightarrow> acc_dev \<Rightarrow> nat \<Rightarrow> nat \<Rightarrow> bool" where
  "same_below d d' r i \<longleftrightarrow> (\<forall>q. requests d r = Some q \<longrightarrow> (\<exists>q'. requests d' r = Some q'
     \<and> (\<forall>j < i. req_elm q' ! j = req_elm q ! j \<and> dynamic_id_map q' ! j = dynamic_id_map q ! j)))"

lemma picked_later: "picked d d1 r p j e \<Longrightarrow> same_below d1 d' r i \<Longrightarrow> j < i \<Longrightarrow> picked d d' r p j e"
  unfolding picked_def same_below_def by force

lemma picked_cong: "opconfigs d1 = opconfigs d \<Longrightarrow> op_elms d1 = op_elms d \<Longrightarrow> picked d1 d' r p j e = picked d d' r p j e"
  by (simp add: picked_def elems_of_def)

definition used_prefix :: "acc_dev \<Rightarrow> nat list \<Rightarrow> bool" where
  "used_prefix d non \<longleftrightarrow> distinct non \<and>
     (\<forall>t < 64. \<exists>m \<le> length (elems_of d t). filter (\<lambda>u. u \<in> set (elems_of d t)) non = take m (elems_of d t))"

lemma used_prefix_snoc:
  assumes "used_prefix d non" and "elems_ok d" and "t < 64" and "m < length (elems_of d t)"
    and "filter (\<lambda>u. u \<in> set (elems_of d t)) non = take m (elems_of d t)"
  shows "used_prefix d (non @ [elems_of d t ! m])"
proof -
  let ?e = "elems_of d t ! m"
  have e: "?e \<in> set (elems_of d t)" using assms(4) by simp
  have "?e \<notin> set (take m (elems_of d t))"
    using assms(2-4) by (auto simp: elems_ok_def in_set_conv_nth nth_eq_iff_index_eq)
  then have fresh: "?e \<notin> set non" using e arg_cong [OF assms(5), of set] by auto
  have "\<exists>m' \<le> length (elems_of d t'). filter (\<lambda>u. u \<in> set (elems_of d t')) (non @ [?e]) = take m' (elems_of d t')"
    if "t' < 64" for t'
  proof (cases "t' = t")
    case True
    then show ?thesis using assms(4,5) e by (intro exI [of _ "Suc m"]) (simp add: take_Suc_conv_app_nth)
  next
    case False
    then have "?e \<notin> set (elems_of d t')" using assms(2,3) that e unfolding elems_ok_def by blast
    then show ?thesis using assms(1) that by (simp add: used_prefix_def)
  qed
  with assms(1) fresh show ?thesis by (simp add: used_prefix_def)
qed

lemma choose_operators_idle:
  assumes "choose_operators r False p i n ([], non) d = Inr (Inr used, d')" and "elems_ok d"
    and "\<forall>j. i \<le> j \<and> j < i + n \<longrightarrow> op_type p j < 64" and "used_prefix d non"
  shows "\<exists>new. used = ([], non @ new) \<and> length new = n \<and> distinct (non @ new) \<and> opconfigs d' = opconfigs d
     \<and> op_elms d' = op_elms d \<and> same_below d d' r i \<and> (\<forall>k < n. picked d d' r p (i + k) (new ! k))"
  using assms
proof (induction n arbitrary: i non d)
  case 0
  then show ?case by (simp add: used_prefix_def same_below_def)
next
  case (Suc n)
  let ?t = "op_type p i"
  have t: "?t < 64" using Suc.prems(3) by simp
  from Suc.prems(4) t obtain m where m: "m \<le> length (elems_of d ?t)"
    "filter (\<lambda>u. u \<in> set (elems_of d ?t)) non = take m (elems_of d ?t)" by (auto simp: used_prefix_def)
  from Suc.prems(1) obtain used1 d1 where step: "choose_operator r False p i ([], non) d = Inr (Inr used1, d1)"
    and rest: "choose_operators r False p (Suc i) n used1 d1 = Inr (Inr used, d')"
    by (auto simp: rbind_Inr_iff split: sum.splits) (metis sumE surj_pair)
  define e where "e = elems_of d ?t ! m"
  from choose_operator_idle [OF step Suc.prems(2) t m(2,1)] obtain x q where
    c: "m < length (elems_of d ?t)" "used1 = ([], non @ [e])" "op_elms d e = Some x" "elm_state x = IDLE" "requests d r = Some q"
      "i < length (req_elm q)" "i < length (dynamic_id_map q)"
      "d1 = d\<lparr>requests := (requests d)(r \<mapsto> q\<lparr>req_elm := (req_elm q)[i := Some e], dynamic_id_map := (dynamic_id_map q)[i := elm_slot x]\<rparr>)\<rparr>"
    unfolding e_def by blast
  have same: "opconfigs d1 = opconfigs d" "op_elms d1 = op_elms d" using c(8) by simp_all
  have el: "elems_of d1 = elems_of d" using same by (simp add: elems_of_def fun_eq_iff)
  have ok1: "elems_ok d1" using Suc.prems(2) same el by (simp add: elems_ok_def)
  have pre1: "used_prefix d1 (non @ [e])"
    using used_prefix_snoc [OF Suc.prems(4,2) t c(1) m(2)] el by (simp add: used_prefix_def e_def)
  have rest': "choose_operators r False p (Suc i) n ([], non @ [e]) d1 = Inr (Inr used, d')" using rest c(2) by simp
  from Suc.IH [OF rest' ok1 _ pre1] Suc.prems(3) obtain new where
    new: "used = ([], (non @ [e]) @ new)" "length new = n" "distinct ((non @ [e]) @ new)" "opconfigs d' = opconfigs d1"
      "op_elms d' = op_elms d1" "same_below d1 d' r (Suc i)" "\<forall>k < n. picked d1 d' r p (Suc i + k) (new ! k)" by auto
  have here: "picked d d1 r p i e" using c e_def by (auto simp: picked_def)
  have "same_below d d1 r i" using c by (auto simp: same_below_def)
  then have sb: "same_below d d' r i" using new(6) unfolding same_below_def by (metis less_SucI)
  have "picked d d' r p (i + k) ((e # new) ! k)" if "k < Suc n" for k
    using that new(7) picked_later [OF here new(6)] by (cases k) (auto simp: picked_cong [OF same])
  with new same sb show ?case by (intro exI [of _ "e # new"]) simp
qed

text \<open>Locking marks the element for the request and touches no other element.\<close>

lemma lock_element_effect:
  assumes "lock_element r e d = Inr d'"
  shows "requests d' = requests d \<and> (\<exists>x. op_elms d e = Some x
     \<and> op_elms d' = (op_elms d)(e \<mapsto> x\<lparr>elm_state := LOCKED, elm_request := Some r\<rparr>))"
  using assms by (auto simp: lock_element_def rbind_Inr_iff split: option.splits dest!: deref_InrD)

definition locked_by :: "nat \<Rightarrow> acc_dev \<Rightarrow> nat \<Rightarrow> bool" where
  "locked_by r d e \<longleftrightarrow> (\<exists>x. op_elms d e = Some x \<and> elm_state x = LOCKED \<and> elm_request x = Some r)"

lemma lock_elements_effect:
  "for_each (lock_element r) es d = Inr d' \<Longrightarrow>
     requests d' = requests d \<and> (\<forall>e. e \<notin> set es \<longrightarrow> op_elms d' e = op_elms d e) \<and> (\<forall>e \<in> set es. locked_by r d' e)"
proof (induction es arbitrary: d)
  case (Cons e es)
  then obtain d1 where d1: "lock_element r e d = Inr d1" "for_each (lock_element r) es d1 = Inr d'" by (auto simp: rbind_Inr_iff)
  then have "locked_by r d1 e" using lock_element_effect [OF d1(1)] by (auto simp: locked_by_def)
  then have "locked_by r d' e" using Cons.IH [OF d1(2)] by (cases "e \<in> set es") (auto simp: locked_by_def)
  with Cons.IH [OF d1(2)] lock_element_effect [OF d1(1)] show ?case by auto
qed simp

text \<open>C7. A request that is started without preemption is given operators of its own: a successful
  selection followed by the locking takes nothing from another request, chooses one element per
  operator of the program, all different, each of the type the program asks for and free before,
  records the element and its slot in the request, and leaves each of them locked for this request
  and every other element as it was.\<close>

theorem choose_operators_exclusive:
  assumes "choose_operators r False p 0 n ([], []) d = Inr (Inr (pre, non), d1)"
    and "for_each (lock_element r) non d1 = Inr d2"
    and "elems_ok d" and "\<forall>j < n. op_type p j < 64"
  shows "pre = [] \<and> length non = n \<and> distinct non
     \<and> (\<forall>j < n. picked d d2 r p j (non ! j) \<and> locked_by r d2 (non ! j))
     \<and> (\<forall>e. e \<notin> set non \<longrightarrow> op_elms d2 e = op_elms d e)"
proof -
  have "used_prefix d []" by (auto simp: used_prefix_def intro: exI [of _ 0])
  then obtain new where new: "(pre, non) = ([], [] @ new)" "length new = n" "distinct ([] @ new)" "op_elms d1 = op_elms d"
      "\<forall>k < n. picked d d1 r p (0 + k) (new ! k)"
    using choose_operators_idle [OF assms(1,3)] assms(4) by auto
  have l: "requests d2 = requests d1" "\<forall>e. e \<notin> set non \<longrightarrow> op_elms d2 e = op_elms d1 e" "\<forall>e \<in> set non. locked_by r d2 e"
    using lock_elements_effect [OF assms(2)] by auto
  then have "picked d d2 r p j (non ! j)" if "j < n" for j using new(1,5) that by (simp add: picked_def)
  with new l show ?thesis by auto
qed

definition free_elm :: "nat \<Rightarrow> u8 \<Rightarrow> op_elm" where
  "free_elm t s = \<lparr>elm_state = IDLE, elm_request = None, elm_type = t, elm_slot = s\<rparr>"

text \<open>The sample device with a new request 3 for the sample program and its two operators free.\<close>

definition run_dev :: acc_dev where
  "run_dev = prog_dev\<lparr>op_elms := [7 \<mapsto> free_elm 1 3, 8 \<mapsto> free_elm 0 5],
     requests := [3 \<mapsto> zero_request\<lparr>req_program := Some 9, status := ACC_REQ_APPLYING\<rparr>]\<rparr>"

lemma run_dev_ok: "elems_ok run_dev" "\<forall>j < 2. op_type sample_prog j < 64"
proof -
  have "elems_of run_dev t = (if t = 0 then [8] else if t = 1 then [7] else [])" if "t < 64" for t
    using that by (simp add: elems_of_def run_dev_def prog_dev_def sample_cfg_def nth_list_update)
  then show "elems_ok run_dev" by (auto simp: elems_ok_def run_dev_def prog_dev_def)
  show "\<forall>j < 2. op_type sample_prog j < 64" by (auto simp: op_type_def sample_prog_def less_2_cases_iff)
qed

lemma run_dev_chosen:
  "\<exists>d1 d2. choose_operators 3 False sample_prog 0 2 ([], []) run_dev = Inr (Inr ([], [7, 8]), d1)
     \<and> for_each (lock_element 3) [7, 8] d1 = Inr d2"
  by (simp add: run_dev_def prog_dev_def sample_prog_def sample_cfg_def free_elm_def zero_request_def choose_operator_def
      busy_elsewhere_def get_req_def lock_element_def Let_def numeral_2_eq_2)

theorem choose_operators_exclusive_witness:
  "\<exists>d1 d2. choose_operators 3 False sample_prog 0 2 ([], []) run_dev = Inr (Inr ([], [7, 8]), d1)
     \<and> for_each (lock_element 3) [7, 8] d1 = Inr d2 \<and> locked_by 3 d2 7 \<and> locked_by 3 d2 8"
proof -
  obtain d1 d2 where d: "choose_operators 3 False sample_prog 0 2 ([], []) run_dev = Inr (Inr ([], [7, 8]), d1)"
    "for_each (lock_element 3) [7, 8] d1 = Inr d2" using run_dev_chosen by blast
  from choose_operators_exclusive [OF this run_dev_ok] have l: "\<forall>j < 2. locked_by 3 d2 ([7, 8] ! j)" by blast
  have "locked_by 3 d2 7" "locked_by 3 d2 8" using l [rule_format, of 0] l [rule_format, of 1] by simp_all
  with d show ?thesis by auto
qed

section \<open>Preemption\<close>

text \<open>With preemption the selection may give the same operator to a program twice.  The search starts
  at the head of the list of a type and steps over the elements taken from idle ones first and over
  the preempted ones second, once each; an idle element that stands behind a running one is
  therefore found again.  Whenever a type has a running element \<open>a\<close> of another request followed by
  an idle element \<open>b\<close>, a program with three operators of this type is given \<open>a\<close> and twice \<open>b\<close>, and
  the request records \<open>b\<close> for two of its operators.\<close>

theorem choose_operators_preempt_twice:
  assumes "apply_operators_id_map p = t # t # t # ts" and "unat t < length (opconfigs d)" and "opconfigs d ! unat t = Some cfg"
    and "elements cfg = a # b # rest" and "a \<noteq> b" and "op_elms d a = Some x" and "op_elms d b = Some y"
    and "elm_state x = WORKING" and "elm_request x = Some other" and "requests d other = Some oq" and "status oq = ACC_REQ_EXECUTING"
    and "elm_state y = IDLE" and "elm_request y = None" and "requests d r = Some q" and "other \<noteq> r"
    and "length (req_elm q) = 8" and "length (dynamic_id_map q) = 8" and "tx_channel q = None # cs"
  shows "\<exists>d' q'. choose_operators r True p 0 3 ([], []) d = Inr (Inr ([a], [b, b]), d') \<and> requests d' r = Some q'
     \<and> take 3 (req_elm q') = [Some a, Some b, Some b] \<and> take 3 (dynamic_id_map q') = [elm_slot x, elm_slot y, elm_slot y]"
proof -
  from assms(16) obtain e0 e1 e2 es where el: "req_elm q = e0 # e1 # e2 # es" by (auto simp: length_Suc_conv numeral_eq_Suc)
  from assms(17) obtain m0 m1 m2 ms where dm: "dynamic_id_map q = m0 # m1 # m2 # ms" by (auto simp: length_Suc_conv numeral_eq_Suc)
  show ?thesis using assms el dm
    by (simp add: choose_operator_def busy_elsewhere_def get_req_def Let_def numeral_3_eq_3)
qed

definition busy_dev :: acc_dev where
  "busy_dev = zero_dev\<lparr>opconfigs := (replicate 64 None)[2 := Some (sample_cfg 2 1 [7, 8, 9])],
     op_elms := [7 \<mapsto> \<lparr>elm_state = WORKING, elm_request = Some 4, elm_type = 2, elm_slot = 1\<rparr>, 8 \<mapsto> free_elm 2 3, 9 \<mapsto> free_elm 2 5],
     requests := [3 \<mapsto> zero_request, 4 \<mapsto> zero_request\<lparr>status := ACC_REQ_EXECUTING\<rparr>]\<rparr>"

theorem choose_operators_preempt_twice_witness:
  "\<exists>d'. choose_operators 3 True (sample_prog\<lparr>apply_operators_id_map := [2, 2, 2, 0, 0, 0, 0, 0]\<rparr>) 0 3 ([], []) busy_dev
     = Inr (Inr ([7], [8, 8]), d')"
proof -
  let ?p = "sample_prog\<lparr>apply_operators_id_map := [2, 2, 2, 0, 0, 0, 0, 0]\<rparr>" and ?x = "\<lparr>elm_state = WORKING, elm_request = Some 4, elm_type = 2, elm_slot = 1\<rparr>"
  have p: "apply_operators_id_map ?p = 2 # 2 # 2 # [0, 0, 0, 0, 0]" "unat (2 :: u8) < length (opconfigs busy_dev)"
    "opconfigs busy_dev ! unat (2 :: u8) = Some (sample_cfg 2 1 [7, 8, 9])" "elements (sample_cfg 2 1 [7, 8, 9]) = 7 # 8 # [9]" "(7 :: nat) \<noteq> 8"
    "op_elms busy_dev 7 = Some ?x" "op_elms busy_dev 8 = Some (free_elm 2 3)"
    "elm_state ?x = WORKING" "elm_request ?x = Some 4" "requests busy_dev 4 = Some (zero_request\<lparr>status := ACC_REQ_EXECUTING\<rparr>)"
    "status (zero_request\<lparr>status := ACC_REQ_EXECUTING\<rparr>) = ACC_REQ_EXECUTING" "elm_state (free_elm 2 3) = IDLE" "elm_request (free_elm 2 3) = None"
    "requests busy_dev 3 = Some zero_request" "(4 :: nat) \<noteq> 3" "length (req_elm zero_request) = 8" "length (dynamic_id_map zero_request) = 8"
    by (simp_all add: busy_dev_def sample_cfg_def free_elm_def zero_request_def zero_dev_def)
  have "tx_channel zero_request = None # replicate 7 None" by (simp add: zero_request_def numeral_eq_Suc)
  from choose_operators_preempt_twice [OF p this] show ?thesis by blast
qed

section \<open>Channels that are not there\<close>

text \<open>The state in which the selection of operators starts.\<close>

definition entered :: "u64 \<Rightarrow> nat \<Rightarrow> acc_req \<Rightarrow> acc_dev \<Rightarrow> acc_dev" where
  "entered now r q d = d\<lparr>dev_state := HLSDEV_RUN_REQUEST,
     id_allocator := (if request_id q = - 1 then id_allocator d + 1 else id_allocator d),
     requests := (requests d)(r \<mapsto> q\<lparr>responding_time := now, request_id := (if request_id q = - 1 then id_allocator d else request_id q)\<rparr>)\<rparr>"

text \<open>What the selection and the locking leave alone.\<close>

definition frame :: "nat \<Rightarrow> acc_dev \<Rightarrow> acc_dev \<Rightarrow> bool" where
  "frame r d d' \<longleftrightarrow> rx_channel_pool d' = rx_channel_pool d \<and> dev_state d' = dev_state d \<and> waiting_queue d' = waiting_queue d
     \<and> waiting_queue_ptr d' = waiting_queue_ptr d
     \<and> (\<forall>q. requests d r = Some q \<longrightarrow> (\<exists>q'. requests d' r = Some q' \<and> rx_channel q' = rx_channel q \<and> has_dev q' = has_dev q))"

lemma frame_refl: "frame r d d"
  by (simp add: frame_def)

lemma frame_trans: "frame r d d1 \<Longrightarrow> frame r d1 d2 \<Longrightarrow> frame r d d2"
  by (auto simp: frame_def)

lemma choose_operator_frame: "choose_operator r preempt p i used d = Inr (Inr used', d') \<Longrightarrow> frame r d d'"
  by (auto simp: choose_operator_def frame_def Let_def rbind_Inr_iff get_req_def split: prod.splits if_splits option.splits
      dest!: deref_InrD)

lemma choose_operators_frame: "choose_operators r preempt p i n used d = Inr (Inr used', d') \<Longrightarrow> frame r d d'"
proof (induction n arbitrary: i used d)
  case (Suc n)
  then obtain u d1 where s: "choose_operator r preempt p i used d = Inr (Inr u, d1)"
    "choose_operators r preempt p (Suc i) n u d1 = Inr (Inr used', d')"
    by (auto simp: rbind_Inr_iff split: sum.splits) (metis sumE surj_pair)
  show ?case by (rule frame_trans [OF choose_operator_frame [OF s(1)] Suc.IH [OF s(2)]])
qed (simp add: frame_refl)

lemma lock_elements_frame: "for_each (lock_element r') es d = Inr d' \<Longrightarrow> frame r d d'"
proof (induction es arbitrary: d)
  case (Cons e es)
  then obtain d1 where d1: "lock_element r' e d = Inr d1" "for_each (lock_element r') es d1 = Inr d'" by (auto simp: rbind_Inr_iff)
  from d1(1) have "frame r d d1" by (auto simp: frame_def lock_element_def rbind_Inr_iff split: option.splits)
  then show ?case by (rule frame_trans [OF _ Cons.IH [OF d1(2)]])
qed (simp add: frame_refl)

text \<open>Without a receive channel in the pool the binding stops at once.\<close>

lemma bind_rx_none:
  assumes "requests d r = Some q" and "rx_channel q = None # cs" and "rx_channel_pool d = []" and "0 < n"
  shows "bind_channels (bind_rx_channel ops r) [0..<n] d = Inr (Inl (- 1), d\<lparr>requests := (requests d)(r \<mapsto> q)\<rparr>)"
proof -
  have q: "q\<lparr>rx_channel := None # cs\<rparr> = q" by (cases q) (use assms(2) in simp)
  obtain ys where ys: "[0..<n] = 0 # ys" using assms(4) by (simp add: upt_conv_Cons)
  have get: "arr_get (rx_channel q) 0 = Inr None" by (simp add: assms(2) arr_get_def)
  have upd: "(rx_channel q)[0 := None] = None # cs" by (simp add: assms(2))
  show ?thesis unfolding ys using assms(1,3) q get upd
    by (simp add: bind_rx_channel_def get_req_def upd_req_def spdk_hlsacccompute_apply_channel_def chan_pool_def)
qed

lemma run_body_entered:
  assumes "requests d r = Some q" and "status q = ACC_REQ_APPLYING"
  shows "run_body fuel ops ex r preempt (d\<lparr>requests := (requests d)(r \<mapsto> q\<lparr>responding_time := now\<rparr>)\<rparr>)
     = run_applying fuel ops ex r preempt (entered now r q d)"
proof -
  have "q\<lparr>responding_time := now, request_id := request_id q\<rparr> = q\<lparr>responding_time := now\<rparr>" by (cases q) simp
  then show ?thesis using assms by (cases d) (simp add: run_body_def entered_def get_req_def Let_def)
qed

text \<open>C34. A request that finds no receive channel blocks the device.  When the operators of a program are
  free but the pool of receive channels is empty, running the request reports failure and queues
  it for a later round (if it has a device, which every created request has), but its operators stay locked and the device stays in the state of running a request.
  The scheduler, which only works on an idle device, then does nothing but reset its queue pointer,
  whatever its fuel and its channels: the request is not run again by any number of scheduling rounds.\<close>

theorem run_request_no_channel_blocks:
  assumes "requests d r = Some q" and "status q = ACC_REQ_APPLYING" and "run_way q = 0" and "req_program q = Some pp"
    and "programs d pp = Some p" and "0 < output_channum p" and "rx_channel q = None # cs" and "rx_channel_pool d = []"
    and "length (waiting_queue d) = 8" and "waiting_queue_ptr d = 0"
    and "choose_operators r False p 0 (unat (apply_operators_num p)) ([], []) (entered now r q d) = Inr (Inr ([], non), d1)"
    and "for_each (lock_element r) non d1 = Inr d2"
  shows "\<exists>d'. spdk_hlsacccompute_run_request (Suc fuel) now ops r False d = Inr (- 1, d')
     \<and> waiting_queue d' ! 0 = (if has_dev q then waiting_queue d ! 0 @ [r] else waiting_queue d ! 0)
     \<and> (\<forall>e \<in> set non. locked_by r d' e)
     \<and> dev_state d' = HLSDEV_RUN_REQUEST
     \<and> (\<forall>f o'. spdk_hlsacccompute_schedule_request f o' d' = Inr d')"
proof -
  let ?e = "entered now r q d" and ?n = "unat (output_channum p)"
  have fr: "frame r ?e d2" by (rule frame_trans [OF choose_operators_frame [OF assms(11)] lock_elements_frame [OF assms(12)]])
  have lk: "\<forall>e \<in> set non. locked_by r d2 e" "requests d2 = requests d1" using lock_elements_effect [OF assms(12)] by auto
  from fr assms(7) obtain q2 where q2: "requests d2 r = Some q2" "rx_channel q2 = None # cs" "has_dev q2 = has_dev q" by (auto simp: frame_def entered_def)
  let ?q3 = "q2\<lparr>tx_channel_num := input_channum p\<rparr>"
  let ?d3 = "d2\<lparr>requests := (requests d2)(r \<mapsto> ?q3)\<rparr>"
  have "rx_channel_pool ?d3 = []" using fr assms(8) by (simp add: frame_def entered_def)
  moreover have "0 < ?n" using assms(6) by (simp add: word_less_nat_alt)
  ultimately have b: "bind_channels (bind_rx_channel ops r) [0..<?n] ?d3 = Inr (Inl (- 1), ?d3)"
    using bind_rx_none [of ?d3 r ?q3 cs ?n ops] q2 by simp
  have "requests ?e r \<noteq> None" by (simp add: entered_def)
  then obtain q1 where q1: "requests d1 r = Some q1" using q2(1) lk(2) by simp
  have s: "setup_hardware ops r p False ([], non) d1 = Inr (Inl (- 1), ?d3)"
    using q1 assms(12) b q2 by (simp add: setup_hardware_def get_req_def upd_req_def)
  have run: "run_body fuel ops (acc_exec fuel ops) r False (d\<lparr>requests := (requests d)(r \<mapsto> q\<lparr>responding_time := now\<rparr>)\<rparr>) = Inr (- 1, ?d3)"
    unfolding run_body_entered [OF assms(1,2)] using assms(3-5,11) s
    by (simp add: run_applying_def get_req_def get_prog_def) (simp add: entered_def sbind_def)
  have w: "waiting_queue d2 = waiting_queue d" "waiting_queue_ptr d2 = 0" "dev_state d2 = HLSDEV_RUN_REQUEST"
    using fr assms(10) by (simp_all add: frame_def entered_def)
  define d' where "d' = ?d3\<lparr>waiting_queue := (if has_dev q then (waiting_queue d)[0 := waiting_queue d ! 0 @ [r]] else waiting_queue d),
     requests := (requests d2)(r \<mapsto> ?q3\<lparr>status := ACC_REQ_WAITING\<rparr>)\<rparr>"
  have "spdk_hlsacccompute_run_request (Suc fuel) now ops r False d = Inr (- 1, d')"
    using run assms(1,9) w q2(3)
    by (simp add: get_req_def spdk_hlsacccompute_run_request_def run_request_inner_def upd_req_def
        spdk_hlsacccompute_prepare_for_next_sched_def arr_get_def d'_def)
  moreover have "\<forall>e \<in> set non. locked_by r d' e" using lk(1) by (simp add: locked_by_def d'_def)
  moreover have "waiting_queue d' ! 0 = (if has_dev q then waiting_queue d ! 0 @ [r] else waiting_queue d ! 0)" "dev_state d' = HLSDEV_RUN_REQUEST" "waiting_queue_ptr d' = 0"
    using assms(9) w by (simp_all add: d'_def)
  moreover from this have "\<forall>f o'. spdk_hlsacccompute_schedule_request f o' d' = Inr d'"
    by (simp add: spdk_hlsacccompute_schedule_request_def)
  ultimately show ?thesis by blast
qed

theorem run_request_no_channel_blocks_witness:
  "\<forall>ops. \<exists>d'. spdk_hlsacccompute_run_request 5 0 ops 3 False run_dev = Inr (- 1, d') \<and> locked_by 3 d' 7
     \<and> spdk_hlsacccompute_schedule_request 100 ops d' = Inr d'"
proof -
  let ?q = "zero_request\<lparr>req_program := Some 9, status := ACC_REQ_APPLYING\<rparr>"
  have p: "requests run_dev 3 = Some ?q" "status ?q = ACC_REQ_APPLYING" "run_way ?q = 0" "req_program ?q = Some 9"
    "programs run_dev 9 = Some sample_prog" "0 < output_channum sample_prog"
    by (simp_all add: run_dev_def prog_dev_def zero_request_def sample_prog_def)
  have rx: "rx_channel ?q = None # replicate 7 None" by (simp add: zero_request_def numeral_eq_Suc)
  have e: "rx_channel_pool run_dev = []" "length (waiting_queue run_dev) = 8" "waiting_queue_ptr run_dev = 0"
    by (simp_all add: run_dev_def prog_dev_def zero_dev_def)
  have n: "unat (apply_operators_num sample_prog) = 2" by (simp add: sample_prog_def)
  obtain d1 d2 where d: "choose_operators 3 False sample_prog 0 2 ([], []) (entered 0 3 ?q run_dev) = Inr (Inr ([], [7, 8]), d1)"
    "for_each (lock_element 3) [7, 8] d1 = Inr d2"
    by (atomize_elim) (simp add: run_dev_def prog_dev_def sample_prog_def sample_cfg_def free_elm_def zero_request_def choose_operator_def
      entered_def busy_elsewhere_def get_req_def lock_element_def Let_def numeral_2_eq_2)
  from run_request_no_channel_blocks [OF p rx e, unfolded n, OF d, of 4] show ?thesis by fastforce
qed

section \<open>Destinations of input channels\<close>

text \<open>The destination of an input channel can be computed for operator 0 and port 0 only.  The slot of
  the operator is looked up with the encoded destination shifted to the left by four, which for
  every destination but zero is past the end of the table of eight slots.\<close>

theorem channel_dest_only_zero:
  assumes "length (dynamic_id_map q) = 8" and "i < length (input_channel_destination p)"
  shows "channel_dest q p i = (if input_channel_destination p ! i = 0 then Inr (push_bit 4 (dynamic_id_map q ! 0)) else Inl OutOfBounds)"
proof (cases "input_channel_destination p ! i = 0")
  case True
  then show ?thesis using assms by (simp add: channel_dest_def)
next
  case False
  then have "0 < unat (input_channel_destination p ! i)" by (simp add: unat_gt_0)
  then show ?thesis using assms False by (simp add: channel_dest_def arr_get_def)
qed

theorem channel_dest_only_zero_witness:
  "channel_dest zero_request (sample_prog\<lparr>input_channel_destination := [0x10, 0, 0, 0, 0, 0, 0, 0]\<rparr>) 0 = Inl OutOfBounds
     \<and> channel_dest (zero_request\<lparr>dynamic_id_map := 3 # replicate 7 0\<rparr>) sample_prog 0 = Inr 0x30"
  using channel_dest_only_zero [of zero_request 0 "sample_prog\<lparr>input_channel_destination := [0x10, 0, 0, 0, 0, 0, 0, 0]\<rparr>"]
    channel_dest_only_zero [of "zero_request\<lparr>dynamic_id_map := 3 # replicate 7 0\<rparr>" 0 sample_prog]
  by (simp add: zero_request_def sample_prog_def)

section \<open>Programs run in software\<close>

text \<open>A program run in software damages the channel pools.  When its run ends, the virtual objects it
  read and wrote are put at the end of the pools of transmit and receive channels; the next
  request that reaches such an entry takes it for a channel.  With no channel in the pools this
  is the next request for a channel in either direction.\<close>

theorem run_easy_sw_poisons_channels:
  assumes "requests d r = Some q" and "req_program q \<noteq> None" and "tx_vos q = (t # ts) # tvs" and "rx_vos q = (x # xs) # rvs"
  shows "\<exists>d'. run_easy_sw True res_size r d = Inr d'
     \<and> tx_channel_pool d' = tx_channel_pool d @ [PVo t] \<and> rx_channel_pool d' = rx_channel_pool d @ [PVo x]
     \<and> (\<forall>tx ops. chan_pool tx d = [] \<longrightarrow> spdk_hlsacccompute_apply_channel ops tx d' = Inl BadCast)
     \<and> vo_pool d' = vo_pool d \<and> sw_done d' = sw_done d @ [r]"
proof -
  define q1 where "q1 = q\<lparr>tx_vos := ts # tvs, rx_vos := xs # rvs\<rparr>"
  define q2 where "q2 = (case res_size of None \<Rightarrow> q1 | Some n \<Rightarrow> q1\<lparr>req_result := n\<rparr>)"
  define d1 where "d1 = d\<lparr>requests := (requests d)(r \<mapsto> q1), tx_channel_pool := tx_channel_pool d @ [PVo t], rx_channel_pool := rx_channel_pool d @ [PVo x]\<rparr>"
  define d2 where "d2 = d1\<lparr>requests := (requests d)(r \<mapsto> q2)\<rparr>"
  have d1: "requests d1 = (requests d)(r \<mapsto> q1)" by (simp add: d1_def)
  have "(case res_size of None \<Rightarrow> Inr d1 | Some n \<Rightarrow> upd_req r (\<lambda>q. q\<lparr>req_result := n\<rparr>) d1) = Inr d2"
    using d1 by (cases res_size) (simp_all add: upd_req_def q2_def d2_def d1_def)
  then have "run_easy_sw True res_size r d = Inr (d2\<lparr>sw_done := sw_done d2 @ [r]\<rparr>)"
    using assms unfolding run_easy_sw_def by (simp add: get_req_def flip: q1_def d1_def)
  moreover have "tx_channel_pool d2 = tx_channel_pool d @ [PVo t]" "rx_channel_pool d2 = rx_channel_pool d @ [PVo x]"
    "vo_pool d2 = vo_pool d" "sw_done d2 = sw_done d" by (simp_all add: d2_def d1_def)
  moreover from this have "spdk_hlsacccompute_apply_channel ops tx (d2\<lparr>sw_done := sw_done d2 @ [r]\<rparr>) = Inl BadCast"
    if "chan_pool tx d = []" for tx ops using that
    by (cases tx) (simp_all add: spdk_hlsacccompute_apply_channel_def chan_pool_def)
  ultimately show ?thesis by simp
qed

theorem run_easy_sw_poisons_channels_witness:
  "\<exists>d'. run_easy_sw True (Some 64) 3 (zero_dev\<lparr>requests := [3 \<mapsto> zero_request\<lparr>req_program := Some 9,
      tx_vos := [21] # replicate 7 [], rx_vos := [22] # replicate 7 []\<rparr>]\<rparr>) = Inr d'
     \<and> (\<forall>ops. spdk_hlsacccompute_apply_channel ops True d' = Inl BadCast)"
proof -
  let ?q = "zero_request\<lparr>req_program := Some 9, tx_vos := [21] # replicate 7 [], rx_vos := [22] # replicate 7 []\<rparr>"
  let ?d = "zero_dev\<lparr>requests := [3 \<mapsto> ?q]\<rparr>"
  have "requests ?d 3 = Some ?q" "req_program ?q \<noteq> None" "tx_vos ?q = (21 # []) # replicate 7 []" "rx_vos ?q = (22 # []) # replicate 7 []"
    by simp_all
  from run_easy_sw_poisons_channels [OF this, of "Some 64"] show ?thesis by (auto simp: chan_pool_def zero_dev_def)
qed

section \<open>Stream buffers from creation to release\<close>










end
