(* ===== verification/Mcdma_Channel.thy ===== *)
theory Mcdma_Channel
  imports Acc_Sched
begin

unbundle bit_operations_syntax

text \<open>
  The channels that connect accelerator requests with the DMA engine (\<^verbatim>\<open>lib/nvmf/mcdma.c\<close>): the
  functions the NVMe target installs in \<^verbatim>\<open>struct spdk_hlsacccompute_channel\<close>, and their installation.
  A transmit channel sends the virtual objects of its request page by page, a receive channel posts
  pages for the output, and the poller accounts completed transfers and ends the request.

  The functions work on the device of \<open>Acc_Device\<close>, whose field \<open>axi\<close> is the DMA layer of \<open>Axi_Dma\<close>.
  The environment layer below that (\<^verbatim>\<open>spdk_env_axi_dma_*\<close>) is not part of the repository and is the
  argument \<open>drv\<close>.  The callback of a request is the argument \<open>cb\<close>, because ending a request runs the
  scheduler, which uses channels again; \<open>Nest_System\<close> ties that knot.
\<close>

section \<open>Environment\<close>

record dma_drv =
  drv_send_seg :: "dma_channel \<Rightarrow> io_store \<Rightarrow> dma_iovec list \<Rightarrow> nat \<Rightarrow> bool \<Rightarrow> (int \<times> dma_channel \<times> io_store) res"
  drv_recv :: "dma_channel \<Rightarrow> io_store \<Rightarrow> dma_iovec list \<Rightarrow> nat \<Rightarrow> (int \<times> dma_channel \<times> io_store) res"
  drv_poll :: "dma_channel \<Rightarrow> io_store \<Rightarrow> (nat option \<times> dma_channel \<times> io_store) res"
  drv_enable :: "dma_channel \<Rightarrow> dma_channel res"
  drv_stop :: "dma_channel \<Rightarrow> dma_channel"
  drv_vtophys :: "u64 \<Rightarrow> u64 \<Rightarrow> u64 \<times> u64"
  drv_batch :: "string option"

type_synonym req_cb = "nat \<Rightarrow> acc_dev \<Rightarrow> acc_dev res"

section \<open>The receive batch\<close>

text \<open>\<^verbatim>\<open>strtol\<close> in base 10: the value, saturated to a 64-bit \<^verbatim>\<open>long\<close>, and the rest of the string; without a
  digit the rest is the whole string.\<close>

definition is_space :: "char \<Rightarrow> bool" where
  "is_space c \<longleftrightarrow> (of_char c :: nat) = 32 \<or> 9 \<le> (of_char c :: nat) \<and> (of_char c :: nat) \<le> 13"

definition is_digit :: "char \<Rightarrow> bool" where
  "is_digit c \<longleftrightarrow> 48 \<le> (of_char c :: nat) \<and> (of_char c :: nat) \<le> 57"

fun dec_value :: "int \<Rightarrow> string \<Rightarrow> int" where
  "dec_value a [] = a"
| "dec_value a (c # cs) = (if is_digit c then dec_value (10 * a + (of_char c - 48)) cs else a)"

definition strtol10 :: "string \<Rightarrow> int \<times> string" where
  "strtol10 s =
     (let t = dropWhile is_space s;
          neg = (t \<noteq> [] \<and> hd t = CHR ''-'');
          u = (if t \<noteq> [] \<and> (hd t = CHR ''-'' \<or> hd t = CHR ''+'') then tl t else t);
          v = (if neg then - dec_value 0 u else dec_value 0 u)
      in if u = [] \<or> \<not> is_digit (hd u) then (0, s)
         else (max (- (2 ^ 63)) (min v (2 ^ 63 - 1)), dropWhile is_digit u))"

definition MCDMA_COMPUTE_RX_BATCH_PAGES :: int where "MCDMA_COMPUTE_RX_BATCH_PAGES = 48"

text \<open>The static variable of the function is an argument and part of the result.\<close>

definition mcdma_compute_rx_batch_pages :: "int \<Rightarrow> string option \<Rightarrow> int \<times> int" where
  "mcdma_compute_rx_batch_pages batch_pages env =
     (if batch_pages \<noteq> 0 then (batch_pages, batch_pages)
      else let b = (case env of None \<Rightarrow> MCDMA_COMPUTE_RX_BATCH_PAGES
             | Some v \<Rightarrow>
                 if v = [] then MCDMA_COMPUTE_RX_BATCH_PAGES
                 else let (parsed, rest) = strtol10 v in
                   if rest \<noteq> v \<and> rest = [] \<and> 1 \<le> parsed \<and> parsed \<le> MCDMA_COMPUTE_RX_BATCH_PAGES then parsed
                   else MCDMA_COMPUTE_RX_BATCH_PAGES)
           in (b, b))"

section \<open>Access\<close>

definition get_chan :: "nat \<Rightarrow> acc_dev \<Rightarrow> acc_chan res" where
  "get_chan c d = deref (chans d) (Some c)"

definition get_info :: "nat \<Rightarrow> acc_dev \<Rightarrow> chan_info res" where
  "get_info c d = deref (chan_infos d) (Some c)"

definition upd_info :: "nat \<Rightarrow> (chan_info \<Rightarrow> chan_info) \<Rightarrow> acc_dev \<Rightarrow> acc_dev res" where
  "upd_info c f d = rbind (get_info c d) (\<lambda>i. Inr (d\<lparr>chan_infos := (chan_infos d)(c \<mapsto> f i)\<rparr>))"

text \<open>The queue of virtual objects a channel works on: \<^verbatim>\<open>ch->req->tx_vos[ch->virtual_channel_id]\<close>, or the
  receive queue.\<close>

definition vos_of :: "bool \<Rightarrow> acc_req \<Rightarrow> nat list list" where
  "vos_of t q = (if t then tx_vos q else rx_vos q)"

definition set_vos :: "bool \<Rightarrow> nat \<Rightarrow> nat list \<Rightarrow> acc_req \<Rightarrow> acc_req" where
  "set_vos t i xs q = (if t then q\<lparr>tx_vos := (tx_vos q)[i := xs]\<rparr> else q\<lparr>rx_vos := (rx_vos q)[i := xs]\<rparr>)"

definition chan_vos :: "bool \<Rightarrow> acc_chan \<Rightarrow> acc_dev \<Rightarrow> nat list res" where
  "chan_vos t ch d = rbind (deref (requests d) (chan_req ch)) (\<lambda>q. arr_get (vos_of t q) (unat (virtual_channel_id ch)))"

text \<open>Taking the first object off the queue, to the front or to the back of the pool.\<close>

definition drop_vo :: "bool \<Rightarrow> bool \<Rightarrow> acc_chan \<Rightarrow> acc_dev \<Rightarrow> acc_dev res" where
  "drop_vo front t ch d =
     rbind (chan_vos t ch d) (\<lambda>vs.
     case vs of [] \<Rightarrow> Inl NullDeref
     | v # rest \<Rightarrow>
         rbind (case chan_req ch of None \<Rightarrow> Inl NullDeref
                | Some r \<Rightarrow> upd_req r (set_vos t (unat (virtual_channel_id ch)) rest) d) (\<lambda>d'.
         Inr (d'\<lparr>vo_pool := (if front then v # vo_pool d' else vo_pool d' @ [v])\<rparr>)))"

text \<open>\<^verbatim>\<open>int size = ob->iov_len - ob->cur_used\<close>, and the number of pages it needs with C's division.\<close>

definition vo_left :: "vobject \<Rightarrow> int" where
  "vo_left ob = sint (ucast (vo_len ob - vo_used ob) :: u32)"

definition page_count :: "int \<Rightarrow> int" where
  "page_count n = (if n \<ge> 0 then n div 4096 else - ((- n) div 4096)) + (if n mod 4096 \<noteq> 0 then 1 else 0)"

definition page_iov :: "(u64 \<Rightarrow> u64 \<Rightarrow> u64 \<times> u64) \<Rightarrow> vobject \<Rightarrow> int \<Rightarrow> nat \<Rightarrow> dma_iovec" where
  "page_iov vt ob n i =
     (let b = vo_base ob + vo_used ob + of_nat (4096 * i); l = word_of_int (min (n - 4096 * int i) 4096)
      in \<lparr>iov_base = b, iov_len = l, paddr = fst (vt b l)\<rparr>)"

definition page_iovs :: "(u64 \<Rightarrow> u64 \<Rightarrow> u64 \<times> u64) \<Rightarrow> vobject \<Rightarrow> int \<Rightarrow> int \<Rightarrow> dma_iovec list" where
  "page_iovs vt ob n cnt = map (page_iov vt ob n) [0..<nat cnt]"

definition start_poller :: "chan_info \<Rightarrow> chan_info" where
  "start_poller i = i\<lparr>ci_poller := PRunning\<rparr>"

section \<open>Transmit channels\<close>

definition tx_channel_done :: "nat \<Rightarrow> acc_dev \<Rightarrow> acc_dev res" where
  "tx_channel_done c d =
     rbind (get_chan c d) (\<lambda>ch.
     rbind (chan_vos True ch d) (\<lambda>vs.
     case vs of [] \<Rightarrow> Inr d
     | v # rest \<Rightarrow>
         rbind (deref (vobjs d) (Some v)) (\<lambda>ob.
         rbind (if vo_left ob = 0 then
                  rbind (drop_vo True True ch d) (\<lambda>d1.
                  case rest of [] \<Rightarrow> Inr (0, d1)
                  | w # _ \<Rightarrow> rbind (deref (vobjs d1) (Some w)) (\<lambda>ob'. Inr (sint (ucast (vo_len ob') :: u32), d1)))
                else Inr (vo_left ob, d)) (\<lambda>(left, d1).
         rbind (get_info c d1) (\<lambda>i.
         upd_info c (\<lambda>i. i\<lparr>ci_next := (left > 0 \<and> ci_working i)\<rparr>) d1)))))"

text \<open>The control word of a transmission carries the channel number and the destination.\<close>

definition tx_ctrl :: "acc_chan \<Rightarrow> sideband" where
  "tx_ctrl ch = \<lparr>tuser = 0, mid = channel_id ch AND 0xF, tid = dest_id ch\<rparr>"

definition tx_channel_send :: "dma_drv \<Rightarrow> nat \<Rightarrow> acc_dev \<Rightarrow> (int \<times> acc_dev) res" where
  "tx_channel_send drv c d =
     (case chan_infos d c of None \<Rightarrow> Inr (- 1, d)
      | Some i \<Rightarrow>
          if \<not> ci_dev i then Inr (- 1, d)
          else
            rbind (upd_info c (\<lambda>i. (start_poller i)\<lparr>ci_working := True\<rparr>) d) (\<lambda>d1.
            rbind (get_chan c d1) (\<lambda>ch.
            rbind (chan_vos True ch d1) (\<lambda>vs.
            case vs of
              [] \<Rightarrow> rbind (upd_info c (\<lambda>i. i\<lparr>ci_working := False\<rparr>) d1) (\<lambda>d2.
                   rbind (tx_channel_done c d2) (\<lambda>d3. Inr (0, d3)))
            | v # rest \<Rightarrow>
                rbind (deref (vobjs d1) (Some v)) (\<lambda>ob.
                let n = vo_left ob; cnt = page_count n; last = (cnt \<le> 48 \<and> rest = []);
                    cnt' = min cnt 48; iovs = page_iovs (drv_vtophys drv) ob n cnt' in
                rbind (upd_info c (\<lambda>i. i\<lparr>ci_iovcnt := word_of_int cnt'\<rparr>) d1) (\<lambda>d2.
                rbind (spdk_axi_dma_tx_channel_send_seg (drv_send_seg drv) (drv_vtophys drv) (axi d2) (ci_axi i)
                         iovs 0 (of_nat c) (Some (tx_ctrl ch)) last) (\<lambda>(rc, ax).
                Inr (n, d2\<lparr>axi := ax\<rparr>))))))))"

section \<open>Receive channels\<close>

definition rx_channel_recv :: "dma_drv \<Rightarrow> nat \<Rightarrow> acc_dev \<Rightarrow> (int \<times> acc_dev) res" where
  "rx_channel_recv drv c d =
     (case chan_infos d c of None \<Rightarrow> Inr (- 1, d)
      | Some i \<Rightarrow>
          if \<not> ci_dev i then Inr (- 1, d)
          else
            rbind (upd_info c (\<lambda>i. (start_poller i)\<lparr>ci_working := True\<rparr>) d) (\<lambda>d1.
            rbind (get_chan c d1) (\<lambda>ch.
            rbind (chan_vos False ch d1) (\<lambda>vs.
            case vs of [] \<Rightarrow> Inr (- 1, d1)
            | v # _ \<Rightarrow>
                rbind (deref (vobjs d1) (Some v)) (\<lambda>ob.
                let n = vo_left ob; cnt = min (page_count n) (fst (mcdma_compute_rx_batch_pages 0 (drv_batch drv)));
                    iovs = page_iovs (drv_vtophys drv) ob n cnt in
                if cnt = 0 then Inr (0, d1)
                else rbind (spdk_axi_dma_rx_channel_recv (drv_recv drv) (drv_vtophys drv) (axi d1) (ci_axi i)
                         iovs 1 (of_nat c)) (\<lambda>(rc, ax).
                     let d2 = d1\<lparr>axi := ax\<rparr> in
                     if rc \<noteq> 0 then rbind (upd_info c (\<lambda>i. i\<lparr>ci_iovcnt := 0\<rparr>) d2) (\<lambda>d3. Inr (rc, d3))
                     else rbind (upd_info c (\<lambda>i. i\<lparr>ci_iovcnt := word_of_int cnt\<rparr>) d2) (\<lambda>d3. Inr (0, d3))))))))"

text \<open>The callback of the request, and the test whether it has one.\<close>

definition has_callback :: "acc_chan \<Rightarrow> acc_dev \<Rightarrow> bool res" where
  "has_callback ch d = rbind (deref (requests d) (chan_req ch)) (\<lambda>q. Inr (has_cb q))"

definition finish_req :: "req_cb \<Rightarrow> acc_chan \<Rightarrow> acc_dev \<Rightarrow> acc_dev res" where
  "finish_req cb ch d = (case chan_req ch of None \<Rightarrow> Inl NullDeref | Some r \<Rightarrow> cb r d)"

definition rx_channel_done :: "dma_drv \<Rightarrow> req_cb \<Rightarrow> nat \<Rightarrow> acc_dev \<Rightarrow> acc_dev res" where
  "rx_channel_done drv cb c d =
     rbind (get_chan c d) (\<lambda>ch.
     rbind (get_info c d) (\<lambda>i.
     rbind (if ci_last i then has_callback ch d else Inr False) (\<lambda>fin.
     if fin then finish_req cb ch d
     else
       rbind (chan_vos False ch d) (\<lambda>vs.
       rbind (case vs of [] \<Rightarrow> Inr (0, d)
              | v # rest \<Rightarrow>
                  rbind (deref (vobjs d) (Some v)) (\<lambda>ob.
                  if vo_left ob = 0 then
                    rbind (drop_vo False False ch d) (\<lambda>d1.
                    case rest of [] \<Rightarrow> Inr (0, d1)
                    | w # _ \<Rightarrow> rbind (deref (vobjs d1) (Some w)) (\<lambda>ob'. Inr (sint (ucast (vo_len ob') :: u32), d1)))
                  else Inr (vo_left ob, d))) (\<lambda>(left, d1).
       if left > 0 \<and> ci_working i \<and> \<not> ci_last i then rbind (rx_channel_recv drv c d1) (\<lambda>(rc, d2). Inr d2)
       else rbind (has_callback ch d1) (\<lambda>b.
            if b \<and> ci_working i then finish_req cb ch d1 else Inr d1))))))"

section \<open>The poller\<close>

definition channel_done :: "dma_drv \<Rightarrow> req_cb \<Rightarrow> bool \<Rightarrow> nat \<Rightarrow> acc_dev \<Rightarrow> acc_dev res" where
  "channel_done drv cb t c d = (if t then tx_channel_done c d else rx_channel_done drv cb c d)"

definition MCDMA_TASK_FINISH_BEAT_SIZE :: u32 where "MCDMA_TASK_FINISH_BEAT_SIZE = 64"
definition MCDMA_TASK_INPUT_FINISH_BEAT_SIZE :: u32 where "MCDMA_TASK_INPUT_FINISH_BEAT_SIZE = 16"

text \<open>The end marker in the user bits of a completion, and the payload of a completion that has it.\<close>

definition end_mark :: "dma_io \<Rightarrow> bool" where
  "end_mark io \<longleftrightarrow> drop_bit 4 (ucast (tuser (io_sideband io)) :: u8) = 0xF"

definition payload :: "bool \<Rightarrow> u32 \<Rightarrow> u32" where
  "payload t n = (let beat = (if t then MCDMA_TASK_INPUT_FINISH_BEAT_SIZE else MCDMA_TASK_FINISH_BEAT_SIZE)
     in if n \<ge> beat then n - beat else 0)"

definition poll_axi :: "dma_drv \<Rightarrow> nat \<Rightarrow> acc_dev \<Rightarrow> (nat option \<times> acc_dev) res" where
  "poll_axi drv x d = rbind (spdk_axi_dma_poller_for_compute (drv_poll drv) x (axi d)) (\<lambda>(r, ax). Inr (r, d\<lparr>axi := ax\<rparr>))"

definition free_axi_io :: "nat \<Rightarrow> acc_dev \<Rightarrow> acc_dev res" where
  "free_axi_io p d = rbind (spdk_axi_dma_io_free p (axi d)) (\<lambda>ax. Inr (d\<lparr>axi := ax\<rparr>))"

text \<open>The completion loop: \<open>io\<close> is the completed object, \<open>acc\<close> the bytes so far.  A completion of zero bytes
  without the end marker leaves the loop and its object is not given back.\<close>

fun poller_loop :: "nat \<Rightarrow> dma_drv \<Rightarrow> bool \<Rightarrow> nat \<Rightarrow> nat \<Rightarrow> nat option \<Rightarrow> u32 \<Rightarrow> acc_dev \<Rightarrow> (u32 \<times> acc_dev) res" where
  "poller_loop 0 drv t c x io acc d = Inl Hang"
| "poller_loop (Suc fuel) drv t c x io acc d =
     (case io of None \<Rightarrow> Inr (acc, d)
      | Some p \<Rightarrow>
          rbind (deref (aios (axi d)) (Some p)) (\<lambda>o_io.
          rbind (deref (ameta (axi d)) (Some p)) (\<lambda>m.
          let n = ucast (transfered_bytes (io_status o_io)) :: u32 in
          if end_mark o_io then
            rbind (upd_info c (\<lambda>i. if t then i\<lparr>ci_iovcnt := 0\<rparr> else i\<lparr>ci_last := True\<rparr>) d) (\<lambda>d1.
            rbind (free_axi_io p d1) (\<lambda>d2. Inr (acc + payload t n, d2)))
          else if n = 0 then Inr (acc, d)
          else
            rbind (upd_info c (\<lambda>i. i\<lparr>ci_iovcnt := (if length (aio_iovs m) \<ge> unat (ci_iovcnt i) then 0
                     else ci_iovcnt i - of_nat (length (aio_iovs m)))\<rparr>) d) (\<lambda>d1.
            rbind (poll_axi drv x d1) (\<lambda>(io', d2).
            rbind (deref (ameta (axi d2)) (Some p)) (\<lambda>m'.
            rbind (if aio_used m' = 0 then free_axi_io p d2 else Inr d2) (\<lambda>d3.
            poller_loop fuel drv t c x io' (acc + n) d3)))))))"

text \<open>Accounting on the first virtual object of the queue; \<open>Inl rc\<close> is the early return.\<close>

definition account :: "bool \<Rightarrow> acc_chan \<Rightarrow> u32 \<Rightarrow> acc_dev \<Rightarrow> unit step" where
  "account t ch n d =
     rbind (chan_vos t ch d) (\<lambda>vs.
     case vs of [] \<Rightarrow> Inl NullDeref
     | v # _ \<Rightarrow>
         rbind (deref (vobjs d) (Some v)) (\<lambda>ob.
         let ob' = ob\<lparr>vo_used := vo_used ob + scast n\<rparr>; d1 = d\<lparr>vobjs := (vobjs d)(v \<mapsto> ob')\<rparr> in
         if (if t then vo_used ob' = vo_len ob' else vo_used ob' \<ge> vo_len ob') then
           rbind (drop_vo True t ch d1) (\<lambda>d2. Inr (Inr (), d2))
         else if vo_used ob' > vo_len ob' then Inr (Inl (- 1), d1)
         else Inr (Inr (), d1)))"

definition add_result :: "nat option \<Rightarrow> u32 \<Rightarrow> acc_dev \<Rightarrow> acc_dev res" where
  "add_result r n d = (case r of None \<Rightarrow> Inl NullDeref | Some k \<Rightarrow> upd_req k (\<lambda>q. q\<lparr>req_result := req_result q + scast n\<rparr>) d)"

definition tx_rx_channel_poller :: "nat \<Rightarrow> dma_drv \<Rightarrow> req_cb \<Rightarrow> nat \<Rightarrow> acc_dev \<Rightarrow> (int \<times> acc_dev) res" where
  "tx_rx_channel_poller fuel drv cb c d =
     rbind (get_chan c d) (\<lambda>ch.
     rbind (get_info c d) (\<lambda>i0.
     let t = is_tx ch in
     rbind (poll_axi drv (ci_axi i0) d) (\<lambda>(io, d1).
     if io = None then Inr (0, d1)
     else
       rbind (poller_loop fuel drv t c (ci_axi i0) io 0 d1) (\<lambda>(n, d2).
       rbind (if t then Inr d2 else add_result (chan_req ch) n d2) (\<lambda>d3.
       rbind (get_info c d3) (\<lambda>i3.
       if n = 0 \<and> \<not> (\<not> t \<and> ci_last i3) then Inr (0, d3)
       else
         sbind (account t ch n d3) (\<lambda>_ d4.
         rbind (get_info c d4) (\<lambda>i4.
         rbind (if ci_iovcnt i4 = 0 \<or> \<not> ci_working i4 \<or> ci_last i4 then channel_done drv cb t c d4 else Inr d4) (\<lambda>d5.
         rbind (get_info c d5) (\<lambda>i5.
         if ci_next i5 \<and> t \<and> ci_working i5 then
           rbind (tx_channel_send drv c d5) (\<lambda>(rc, d6).
           rbind (upd_info c (\<lambda>i. i\<lparr>ci_next := False\<rparr>) d6) (\<lambda>d7. Inr (0, d7)))
         else Inr (0, d5)))))))))))"

section \<open>Applying, pausing and releasing\<close>

definition tx_rx_channel_apply :: "dma_drv \<Rightarrow> nat \<Rightarrow> acc_dev \<Rightarrow> acc_dev res" where
  "tx_rx_channel_apply drv c d =
     rbind (upd_info c (\<lambda>i. i\<lparr>ci_iovcnt := 0\<rparr>) d) (\<lambda>d1.
     rbind (get_info c d1) (\<lambda>i.
     rbind (spdk_axi_dma_enable_channel (drv_enable drv) (ci_axi i) (axi d1)) (\<lambda>ax.
     Inr (d1\<lparr>axi := ax\<rparr>))))"

definition pause_poller :: "chan_info \<Rightarrow> chan_info" where
  "pause_poller i = (if ci_poller i = PNone then i else i\<lparr>ci_poller := PPaused\<rparr>)"

text \<open>The function also reads the head of a transmit queue into variables it does not use.\<close>

definition tx_rx_channel_pause :: "dma_drv \<Rightarrow> nat \<Rightarrow> acc_dev \<Rightarrow> acc_dev res" where
  "tx_rx_channel_pause drv c d =
     rbind (upd_info c (\<lambda>i. pause_poller (i\<lparr>ci_working := False\<rparr>)) d) (\<lambda>d1.
     rbind (get_chan c d1) (\<lambda>ch.
     rbind (chan_vos True ch d1) (\<lambda>vs.
     rbind (case vs of [] \<Rightarrow> Inr () | v # _ \<Rightarrow> rbind (deref (vobjs d1) (Some v)) (\<lambda>_. Inr ())) (\<lambda>_.
     rbind (get_info c d1) (\<lambda>i.
     rbind (spdk_axi_dma_stop_channel (drv_stop drv) (ci_axi i) (axi d1)) (\<lambda>ax.
     Inr (d1\<lparr>axi := ax\<rparr>)))))))"

definition reset_io_pool :: "nat \<Rightarrow> acc_dev \<Rightarrow> acc_dev res" where
  "reset_io_pool x d =
     rbind (arr_get (axi_chs (axi d)) x) (\<lambda>ac.
     rbind (spdk_simple_pool_reset (io_pool ac)) (\<lambda>(rc, pool).
     Inr (d\<lparr>axi := set_pool x pool (axi d)\<rparr>)))"

definition tx_rx_channel_release :: "nat \<Rightarrow> dma_drv \<Rightarrow> req_cb \<Rightarrow> nat \<Rightarrow> acc_dev \<Rightarrow> acc_dev res" where
  "tx_rx_channel_release fuel drv cb c d =
     rbind (upd_info c (\<lambda>i. i\<lparr>ci_working := False\<rparr>) d) (\<lambda>d1.
     rbind (tx_rx_channel_poller fuel drv cb c d1) (\<lambda>(rc, d2).
     rbind (get_info c d2) (\<lambda>i.
     rbind (reset_io_pool (ci_axi i) d2) (\<lambda>d3.
     rbind (assert_c (ci_poller i \<noteq> PNone)) (\<lambda>_.
     rbind (get_chan c d3) (\<lambda>ch.
     rbind (chan_vos (is_tx ch) ch d3) (\<lambda>vs.
     rbind (case vs of [] \<Rightarrow> Inr () | v # _ \<Rightarrow> rbind (deref (vobjs d3) (Some v)) (\<lambda>_. Inr ())) (\<lambda>_.
     upd_info c (\<lambda>i. (pause_poller i)\<lparr>ci_last := False, ci_iovcnt := 0\<rparr>) d3))))))))"

section \<open>Installing the channels\<close>

text \<open>What the environment returns while the channels are created: the DMA channels, the two allocations
  of each pool, and the contents of the channel objects and their information before
  initialisation (the memory is not cleared).\<close>

record ch_alloc =
  ca_env :: "bool \<Rightarrow> u32 \<Rightarrow> int \<Rightarrow> dma_channel option"
  ca_pool :: simple_pool
  ca_io_size :: u64
  ca_arr :: "nat \<Rightarrow> u64"
  ca_ring :: "nat \<Rightarrow> u64"
  ca_chan :: "nat \<Rightarrow> acc_chan"
  ca_info :: "nat \<Rightarrow> chan_info"

text \<open>Round \<open>i\<close> of the loop: the first \<open>cnt\<close> channels receive, the others transmit.  The channel object is at
  address \<open>base + i\<close>.  The result tells whether the loop goes on.\<close>

definition create_channel_one :: "ch_alloc \<Rightarrow> nat \<Rightarrow> int \<Rightarrow> nat \<Rightarrow> nat \<Rightarrow> acc_dev \<Rightarrow> (bool \<times> acc_dev) res" where
  "create_channel_one al cnt phy_id_begin base i d =
     (let t = (i \<ge> cnt);
          k = (if t then phy_id_begin + int i - int cnt else phy_id_begin + int i);
          ch = (ca_chan al i)\<lparr>is_tx := t\<rparr>;
          d1 = d\<lparr>chan_infos := (chan_infos d)(base + i \<mapsto> (ca_info al i)\<lparr>ci_axi := length (axi_chs (axi d)), ci_dev := True,
                      ci_iovcnt := 0, ci_last := False, ci_poller := PNone\<rparr>),
                 chans := (chans d)(base + i \<mapsto> ch)\<rparr>
      in case ca_env al t 65 k of None \<Rightarrow> Inr (False, d1)
         | Some e \<Rightarrow>
             let (rc, pool) = spdk_simple_pool_init (ca_pool al) 4096 (ca_io_size al) (ca_arr al i) (ca_ring al i);
                 d2 = d1\<lparr>chans := (chans d)(base + i \<mapsto> ch\<lparr>channel_id := word_of_int k\<rparr>),
                   axi := (axi d)\<lparr>axi_chs := axi_chs (axi d) @ [\<lparr>env_ch = e, io_pool = pool, ax_id = k\<rparr>]\<rparr>\<rparr>
             in if rc \<noteq> 0 then Inr (False, d2)
                else rbind (spdk_hlsacccompute_register_channel (base + i) d2) (\<lambda>d3. Inr (True, d3)))"

fun create_channel_loop :: "nat \<Rightarrow> ch_alloc \<Rightarrow> nat \<Rightarrow> int \<Rightarrow> nat \<Rightarrow> nat \<Rightarrow> acc_dev \<Rightarrow> acc_dev res" where
  "create_channel_loop 0 al cnt phy_id_begin base i d = Inr d"
| "create_channel_loop (Suc n) al cnt phy_id_begin base i d =
     rbind (create_channel_one al cnt phy_id_begin base i d) (\<lambda>(more, d').
     if more then create_channel_loop n al cnt phy_id_begin base (Suc i) d' else Inr d')"

text \<open>\<open>objs\<close>: the channel objects could be allocated; \<open>mcdma\<close>: the DMA device is there or was found.\<close>

definition create_axi_dma_channel ::
    "bool \<Rightarrow> bool \<Rightarrow> ch_alloc \<Rightarrow> nat \<Rightarrow> int \<Rightarrow> nat \<Rightarrow> acc_dev \<Rightarrow> acc_dev res" where
  "create_axi_dma_channel objs mcdma al cnt phy_id_begin base d =
     (if cnt > 0 \<and> \<not> (objs \<and> mcdma) then Inl NullDeref
      else create_channel_loop (2 * cnt) al cnt phy_id_begin base 0 d)"

end
