(* ===== verification/Mcdma_Laws.thy ===== *)
theory Mcdma_Laws
  imports Mcdma_Channel Acc_Device_Laws
begin

unbundle bit_operations_syntax

text \<open>
  Properties of the channels of the NVMe target: their installation, the size of a receive batch,
  the pages a transmission covers, and the accounting of completed transfers.
\<close>

section \<open>The receive batch\<close>

text \<open>The number of pages of a receive batch is between 1 and 48 whatever the environment variable
  holds, it is the variable's value exactly when that is a complete decimal number in the range, and
  later calls return the same number.\<close>

theorem mcdma_compute_rx_batch_pages_bounds:
  assumes "mcdma_compute_rx_batch_pages 0 env = (b, s)"
  shows "1 \<le> b \<and> b \<le> 48 \<and> mcdma_compute_rx_batch_pages s env' = (b, s)
     \<and> (case env of None \<Rightarrow> b = 48
        | Some v \<Rightarrow> if v \<noteq> [] \<and> snd (strtol10 v) = [] \<and> 1 \<le> fst (strtol10 v) \<and> fst (strtol10 v) \<le> 48
                  then b = fst (strtol10 v) else b = 48)"
proof (cases env)
  case None
  then show ?thesis using assms
    by (auto simp: mcdma_compute_rx_batch_pages_def MCDMA_COMPUTE_RX_BATCH_PAGES_def)
next
  case (Some v)
  obtain parsed rest where p: "strtol10 v = (parsed, rest)" by (cases "strtol10 v")
  from assms Some p show ?thesis
    by (auto simp: mcdma_compute_rx_batch_pages_def MCDMA_COMPUTE_RX_BATCH_PAGES_def Let_def split: if_splits)
qed

theorem mcdma_compute_rx_batch_pages_bounds_witness:
  "mcdma_compute_rx_batch_pages 0 (Some ''16'') = (16, 16) \<and> mcdma_compute_rx_batch_pages 0 (Some ''16k'') = (48, 48)"
proof -
  have p: "strtol10 ''16'' = (16, [])" "strtol10 ''16k'' = (16, ''k'')"
    by (simp_all add: strtol10_def is_space_def is_digit_def Let_def of_char_def)
  obtain b s b' s' where r: "mcdma_compute_rx_batch_pages 0 (Some ''16'') = (b, s)"
    "mcdma_compute_rx_batch_pages 0 (Some ''16k'') = (b', s')" by (meson surj_pair)
  have "b = 16" "b' = 48"
    using mcdma_compute_rx_batch_pages_bounds [OF r(1), of None] mcdma_compute_rx_batch_pages_bounds [OF r(2), of None] p
    by auto
  moreover have "s = b" "s' = b'" using r by (auto simp: mcdma_compute_rx_batch_pages_def Let_def)
  ultimately show ?thesis using r by simp
qed

section \<open>Installation\<close>

text \<open>Everything the installation asks the environment for is there.\<close>

definition channels_avail :: "ch_alloc \<Rightarrow> bool" where
  "channels_avail al \<longleftrightarrow> (\<forall>t n k. ca_env al t n k \<noteq> None) \<and> (\<forall>i. ca_arr al i \<noteq> 0 \<and> ca_ring al i \<noteq> 0)"

text \<open>The physical number of channel \<open>i\<close>, and the channel object the installation leaves.\<close>

definition phy_id :: "nat \<Rightarrow> int \<Rightarrow> nat \<Rightarrow> int" where
  "phy_id cnt phy_id_begin i = phy_id_begin + int i - (if i \<ge> cnt then int cnt else 0)"

definition installed :: "ch_alloc \<Rightarrow> nat \<Rightarrow> int \<Rightarrow> nat \<Rightarrow> acc_chan" where
  "installed al cnt phy_id_begin i =
     (ca_chan al i)\<lparr>is_tx := (i \<ge> cnt), channel_id := word_of_int (phy_id cnt phy_id_begin i)\<rparr>"

lemma create_channel_one_ok:
  assumes "channels_avail al"
  shows "\<exists>d' i0. create_channel_one al cnt k base i d = Inr (True, d')
     \<and> chans d' = (chans d)(base + i \<mapsto> installed al cnt k i)
     \<and> chan_infos d' = (chan_infos d)(base + i \<mapsto> i0) \<and> ci_axi i0 = length (axi_chs (axi d)) \<and> ci_poller i0 = PNone
     \<and> length (axi_chs (axi d')) = Suc (length (axi_chs (axi d)))
     \<and> chan_pool (i \<ge> cnt) d' = chan_pool (i \<ge> cnt) d @ [PChan (base + i)]
     \<and> chan_pool (\<not> i \<ge> cnt) d' = chan_pool (\<not> i \<ge> cnt) d"
proof -
  from assms obtain e where e: "ca_env al (i \<ge> cnt) 65 (phy_id cnt k i) = Some e"
    unfolding channels_avail_def by (metis not_None_eq)
  have ptr: "ca_arr al i \<noteq> 0" "ca_ring al i \<noteq> 0" using assms by (simp_all add: channels_avail_def)
  have k: "(if i \<ge> cnt then k + int i - int cnt else k + int i) = phy_id cnt k i" by (simp add: phy_id_def)
  show ?thesis unfolding create_channel_one_def Let_def k e
    using ptr by (auto simp: spdk_simple_pool_init_def spdk_hlsacccompute_register_channel_def set_chan_pool_def chan_pool_def
        installed_def Let_def)
qed

lemma create_channel_loop_ok:
  assumes "channels_avail al"
  shows "\<exists>d'. create_channel_loop n al cnt k base i d = Inr d'
     \<and> rx_channel_pool d' = rx_channel_pool d @ map (\<lambda>j. PChan (base + j)) (filter (\<lambda>j. j < cnt) [i..<i + n])
     \<and> tx_channel_pool d' = tx_channel_pool d @ map (\<lambda>j. PChan (base + j)) (filter (\<lambda>j. j \<ge> cnt) [i..<i + n])
     \<and> (\<forall>j. i \<le> j \<and> j < i + n \<longrightarrow> chans d' (base + j) = Some (installed al cnt k j)
          \<and> (\<exists>i0. chan_infos d' (base + j) = Some i0 \<and> ci_axi i0 = length (axi_chs (axi d)) + (j - i)))
     \<and> (\<forall>j < i. chans d' (base + j) = chans d (base + j) \<and> chan_infos d' (base + j) = chan_infos d (base + j))
     \<and> length (axi_chs (axi d')) = length (axi_chs (axi d)) + n"
proof (induction n arbitrary: i d)
  case (Suc n)
  from create_channel_one_ok [OF assms, of cnt k base i d] obtain d1 i0 where
    1: "create_channel_one al cnt k base i d = Inr (True, d1)" "chans d1 = (chans d)(base + i \<mapsto> installed al cnt k i)"
      "chan_infos d1 = (chan_infos d)(base + i \<mapsto> i0)" "ci_axi i0 = length (axi_chs (axi d))"
      "length (axi_chs (axi d1)) = Suc (length (axi_chs (axi d)))"
    and pools: "chan_pool (i \<ge> cnt) d1 = chan_pool (i \<ge> cnt) d @ [PChan (base + i)]"
      "chan_pool (\<not> i \<ge> cnt) d1 = chan_pool (\<not> i \<ge> cnt) d" by blast
  from Suc.IH [of "Suc i" d1] obtain d' where
    2: "create_channel_loop n al cnt k base (Suc i) d1 = Inr d'"
      "rx_channel_pool d' = rx_channel_pool d1 @ map (\<lambda>j. PChan (base + j)) (filter (\<lambda>j. j < cnt) [Suc i..<Suc i + n])"
      "tx_channel_pool d' = tx_channel_pool d1 @ map (\<lambda>j. PChan (base + j)) (filter (\<lambda>j. j \<ge> cnt) [Suc i..<Suc i + n])"
      "\<forall>j. Suc i \<le> j \<and> j < Suc i + n \<longrightarrow> chans d' (base + j) = Some (installed al cnt k j)
          \<and> (\<exists>i0. chan_infos d' (base + j) = Some i0 \<and> ci_axi i0 = length (axi_chs (axi d1)) + (j - Suc i))"
      "\<forall>j < Suc i. chans d' (base + j) = chans d1 (base + j) \<and> chan_infos d' (base + j) = chan_infos d1 (base + j)"
      "length (axi_chs (axi d')) = length (axi_chs (axi d1)) + n" by blast
  have upt: "[i..<i + Suc n] = i # [Suc i..<Suc i + n]" by (simp add: upt_conv_Cons)
  have rx: "rx_channel_pool d' = rx_channel_pool d @ map (\<lambda>j. PChan (base + j)) (filter (\<lambda>j. j < cnt) [i..<i + Suc n])"
    and tx: "tx_channel_pool d' = tx_channel_pool d @ map (\<lambda>j. PChan (base + j)) (filter (\<lambda>j. j \<ge> cnt) [i..<i + Suc n])"
    using 2(2,3) pools unfolding upt by (cases "i \<ge> cnt"; simp add: chan_pool_def del: upt_Suc)+
  have chans: "chans d' (base + j) = Some (installed al cnt k j)
      \<and> (\<exists>i0. chan_infos d' (base + j) = Some i0 \<and> ci_axi i0 = length (axi_chs (axi d)) + (j - i))"
    if "i \<le> j" "j < i + Suc n" for j
  proof (cases "j = i")
    case True
    then show ?thesis using 1(2-4) 2(5) by simp
  next
    case False
    with that have "Suc i \<le> j" "j < Suc i + n" "Suc (j - Suc i) = j - i" by auto
    with 2(4) 1(5) show ?thesis by (metis add_Suc_right add_Suc)
  qed
  have low: "\<forall>j < i. chans d' (base + j) = chans d (base + j) \<and> chan_infos d' (base + j) = chan_infos d (base + j)"
    using 1(2,3) 2(5) by auto
  have "create_channel_loop (Suc n) al cnt k base i d = Inr d'" using 1(1) 2(1) by simp
  then show ?case using rx tx chans low 1(5) 2(6) by (intro exI [of _ d']) simp
qed auto

lemma filter_upt_split:
  assumes "cnt \<le> n"
  shows "filter (\<lambda>j. j < cnt) [0..<n] = [0..<cnt]" "filter (\<lambda>j. j \<ge> cnt) [0..<n] = [cnt..<n]"
proof -
  have u: "[0..<n] = [0..<cnt] @ [cnt..<n]" using assms upt_add_eq_append [of 0 cnt "n - cnt"] by simp
  show "filter (\<lambda>j. j < cnt) [0..<n] = [0..<cnt]" "filter (\<lambda>j. j \<ge> cnt) [0..<n] = [cnt..<n]"
    unfolding u by (simp_all add: filter_empty_conv filter_id_conv)
qed

text \<open>Installing the channels registers \<open>cnt\<close> receive channels and then \<open>cnt\<close> transmit channels at the ends
  of the two pools, in order; the receive and the transmit channel of one position have the same
  physical number, and each channel has a DMA channel of its own.\<close>

theorem create_axi_dma_channel_registers:
  assumes "channels_avail al"
  shows "\<exists>d'. create_axi_dma_channel True True al cnt phy_id_begin base d = Inr d'
     \<and> rx_channel_pool d' = rx_channel_pool d @ map (\<lambda>j. PChan (base + j)) [0..<cnt]
     \<and> tx_channel_pool d' = tx_channel_pool d @ map (\<lambda>j. PChan (base + j)) [cnt..<2 * cnt]
     \<and> (\<forall>j < 2 * cnt. chans d' (base + j) = Some ((ca_chan al j)\<lparr>is_tx := (j \<ge> cnt),
            channel_id := word_of_int (phy_id_begin + int (j mod cnt))\<rparr>)
          \<and> (\<exists>i0. chan_infos d' (base + j) = Some i0 \<and> ci_axi i0 = length (axi_chs (axi d)) + j))
     \<and> length (axi_chs (axi d')) = length (axi_chs (axi d)) + 2 * cnt"
proof -
  have "installed al cnt phy_id_begin j = (ca_chan al j)\<lparr>is_tx := (j \<ge> cnt),
      channel_id := word_of_int (phy_id_begin + int (j mod cnt))\<rparr>" if "j < 2 * cnt" for j
  proof (cases "j \<ge> cnt")
    case True
    with that have "j mod cnt = j - cnt" by (simp add: mod_if)
    then show ?thesis using True by (simp add: installed_def phy_id_def of_nat_diff algebra_simps)
  qed (simp add: installed_def phy_id_def)
  with create_channel_loop_ok [OF assms, of "2 * cnt" cnt phy_id_begin base 0 d] filter_upt_split [of cnt "2 * cnt"]
  show ?thesis by (auto simp: create_axi_dma_channel_def)
qed

definition sample_cal :: ch_alloc where
  "sample_cal = \<lparr>ca_env = (\<lambda>t n k. Some (created_channel (\<lambda>a. a) 0x40000 t (nat k) (unat n) blank_channel)), ca_pool = pool_zero,
     ca_io_size = 128, ca_arr = (\<lambda>i. 0x10000), ca_ring = (\<lambda>i. 0x20000),
     ca_chan = (\<lambda>i. \<lparr>chan_req = None, channel_id = 0, dest_id = 0, virtual_channel_id = 0, is_tx = False\<rparr>),
     ca_info = (\<lambda>i. \<lparr>ci_axi = 0, ci_dev = False, ci_iovcnt = 0, ci_working = False, ci_last = False, ci_next = False, ci_poller = PNone\<rparr>)\<rparr>"

lemma sample_cal_avail: "channels_avail sample_cal"
  by (simp add: channels_avail_def sample_cal_def)

theorem create_axi_dma_channel_registers_witness:
  "\<exists>d'. create_axi_dma_channel True True sample_cal 3 5 100 zero_dev = Inr d'
     \<and> rx_channel_pool d' = map (\<lambda>j. PChan (100 + j)) [0..<3] \<and> tx_channel_pool d' = map (\<lambda>j. PChan (100 + j)) [3..<2 * 3]"
proof -
  have "rx_channel_pool zero_dev = []" "tx_channel_pool zero_dev = []" by (simp_all add: zero_dev_def)
  with create_axi_dma_channel_registers [OF sample_cal_avail, of 3 5 100 zero_dev] show ?thesis by auto
qed

section \<open>Pages of a transmission\<close>

text \<open>A list of buffers that covers \<open>n\<close> bytes from address \<open>a\<close> on without gap or overlap, in pages.\<close>

fun covers :: "dma_iovec list \<Rightarrow> u64 \<Rightarrow> int \<Rightarrow> bool" where
  "covers [] a n \<longleftrightarrow> n = 0"
| "covers (v # vs) a n \<longleftrightarrow> iov_base v = a \<and> 0 < uint (iov_len v) \<and> uint (iov_len v) \<le> 4096
     \<and> (vs \<noteq> [] \<longrightarrow> uint (iov_len v) = 4096) \<and> covers vs (a + iov_len v) (n - uint (iov_len v))"

lemma page_count_pos:
  assumes "0 < n"
  shows "page_count n = (n + 4095) div 4096"
proof -
  define r where "r = n mod 4096"
  have r: "0 \<le> r" "r < 4096" by (simp_all add: r_def)
  have "(n + 4095) div 4096 = n div 4096 + (r + 4095) div 4096"
    unfolding r_def by (simp add: div_add1_eq [of n 4095])
  moreover have "(r + 4095) div 4096 = 1" if "r \<noteq> 0"
    using r that by (intro int_div_pos_eq [of _ _ _ "r - 1"]) auto
  ultimately show ?thesis using assms by (cases "r = 0") (simp_all add: page_count_def r_def)
qed

lemma page_count_bounds: "0 < n \<Longrightarrow> n \<le> 4096 * page_count n" "0 < n \<Longrightarrow> 4096 * page_count n < n + 4096"
  by (simp_all add: page_count_pos algebra_simps)

lemma covers_pages:
  assumes "0 \<le> n" and "n \<le> 4096 * int m" and "m > 0 \<longrightarrow> 4096 * int (m - 1) < n"
    and "\<forall>i < m. iov_base (f i) = a + of_nat (4096 * i) \<and> uint (iov_len (f i)) = min (n - 4096 * int i) 4096"
  shows "covers (map f [0..<m]) a n"
  using assms
proof (induction m arbitrary: f a n)
  case (Suc m)
  have f0: "iov_base (f 0) = a" "uint (iov_len (f 0)) = min n 4096" using Suc.prems(4) by auto
  have pos: "0 < n" using Suc.prems(3) by auto
  have upt: "[0..<Suc m] = 0 # map Suc [0..<m]" by (simp add: upt_conv_Cons map_Suc_upt)
  show ?case
  proof (cases m)
    case 0
    then show ?thesis using f0 pos Suc.prems(2) by simp
  next
    case (Suc k)
    then have big: "4096 < n" using Suc.prems(3) by auto
    have len: "iov_len (f 0) = 4096" using f0(2) big by (simp add: word_uint_eq_iff)
    have "covers (map (f \<circ> Suc) [0..<m]) (a + 4096) (n - 4096)"
    proof (rule Suc.IH)
      show "\<forall>i < m. iov_base ((f \<circ> Suc) i) = a + 4096 + of_nat (4096 * i)
          \<and> uint (iov_len ((f \<circ> Suc) i)) = min (n - 4096 - 4096 * int i) 4096"
        using Suc.prems(4) by (auto simp: algebra_simps)
      show "0 < m \<longrightarrow> 4096 * int (m - 1) < n - 4096" using Suc.prems(3) Suc by auto
    qed (use Suc.prems(2) big in auto)
    then show ?thesis unfolding upt using f0 len big Suc by simp
  qed
qed simp

lemma page_iovs_cover:
  assumes "0 < n" and "0 < k"
  shows "covers (page_iovs vt ob n (min (page_count n) k)) (vo_base ob + vo_used ob) (min n (4096 * k))"
    and "int (length (page_iovs vt ob n (min (page_count n) k))) = min (page_count n) k"
proof -
  define m where "m = nat (min (page_count n) k)"
  note pc = page_count_bounds [OF assms(1)]
  have pc0: "0 < page_count n" using pc assms(1) by simp
  have m: "int m = min (page_count n) k" "0 < m" using pc0 assms(2) by (auto simp: m_def)
  show "int (length (page_iovs vt ob n (min (page_count n) k))) = min (page_count n) k"
    using m pc0 assms(2) by (simp add: page_iovs_def)
  have "covers (map (page_iov vt ob n) [0..<m]) (vo_base ob + vo_used ob) (min n (4096 * k))"
  proof (rule covers_pages)
    show "0 \<le> min n (4096 * k)" using assms by simp
    show "min n (4096 * k) \<le> 4096 * int m" using m(1) pc by (auto simp: min_def)
    show "0 < m \<longrightarrow> 4096 * int (m - 1) < min n (4096 * k)" using m pc assms by (auto simp: of_nat_diff min_def)
    show "\<forall>i < m. iov_base (page_iov vt ob n i) = vo_base ob + vo_used ob + of_nat (4096 * i)
        \<and> uint (iov_len (page_iov vt ob n i)) = min (min n (4096 * k) - 4096 * int i) 4096"
    proof (intro allI impI conjI)
      fix i assume "i < m"
      then have i: "int i < page_count n" "int i < k" using m(1) by auto
      then have "0 < n - 4096 * int i" using pc by simp
      then have "uint (word_of_int (min (n - 4096 * int i) 4096) :: u64) = min (n - 4096 * int i) 4096"
        by (simp add: uint_word_of_int min_def)
      moreover have "min (n - 4096 * int i) 4096 = min (min n (4096 * k) - 4096 * int i) 4096"
        using i(2) by (simp add: min_def)
      ultimately show "uint (iov_len (page_iov vt ob n i)) = min (min n (4096 * k) - 4096 * int i) 4096"
        by (simp add: page_iov_def Let_def)
    qed (simp add: page_iov_def Let_def)
  qed
  then show "covers (page_iovs vt ob n (min (page_count n) k)) (vo_base ob + vo_used ob) (min n (4096 * k))"
    by (simp add: page_iovs_def m_def)
qed

text \<open>A transmission computes the unsent size of an object as a 32-bit integer: it is the unsent size modulo
  \<open>2 ^ 32\<close> when that is positive as a signed number.\<close>

definition unsent :: "vobject \<Rightarrow> int" where
  "unsent ob = uint (vo_len ob - vo_used ob)"

lemma vo_left_unsent:
  assumes "unsent ob mod 2 ^ 32 < 2 ^ 31"
  shows "vo_left ob = unsent ob mod 2 ^ 32"
proof -
  have u: "uint (ucast (vo_len ob - vo_used ob) :: u32) = unsent ob mod 2 ^ 32"
    by (simp add: unsent_def unsigned_ucast_eq take_bit_eq_mod)
  have "sint (ucast (vo_len ob - vo_used ob) :: u32) = signed_take_bit 31 (uint (ucast (vo_len ob - vo_used ob) :: u32))"
    by (simp add: sint_uint)
  also have "\<dots> = uint (ucast (vo_len ob - vo_used ob) :: u32)"
    using assms unfolding u by (intro signed_take_bit_int_eq_self) auto
  finally show ?thesis by (simp add: vo_left_def u)
qed

text \<open>C21. A transmit channel hands the DMA layer the next bytes of the first virtual object of its queue, up to 48 pages, as
  page-sized buffers without gap or overlap, starting where the last completed transfer ended.  How many bytes
  there are is computed in 32 bits: with \<open>n\<close> the unsent size of the object modulo \<open>2 ^ 32\<close> (below \<open>2 ^ 31\<close>), it
  sends the smaller of \<open>n\<close> and 48 pages, and marks them as the last data when \<open>n\<close> is at most 48 pages and no object
  follows.  So with less than 4 GiB left, data are marked as last exactly when they are all that is left of the last
  object; with 4 GiB or more left, less than what is left is sent, and it is still marked as last when \<open>n\<close> is
  at most 48 pages.\<close>

theorem tx_channel_send_pages:
  assumes "chan_infos d c = Some i" and "ci_dev i" and "chans d c = Some ch" and "chan_req ch = Some r"
    and "requests d r = Some q" and "unat (virtual_channel_id ch) < length (tx_vos q)"
    and "tx_vos q ! unat (virtual_channel_id ch) = v # rest" and "vobjs d v = Some ob"
    and "n = unsent ob mod 2 ^ 32" and "0 < n" and "n < 2 ^ 31"
    and "sent = min n 196608" and "final \<longleftrightarrow> n \<le> 196608 \<and> rest = []"
  shows "(\<exists>iovs. covers iovs (vo_base ob + vo_used ob) sent \<and> length iovs \<le> 48
       \<and> tx_channel_send drv c d =
         rbind (spdk_axi_dma_tx_channel_send_seg (drv_send_seg drv) (drv_vtophys drv) (axi d) (ci_axi i) iovs 0
                  (of_nat c) (Some (tx_ctrl ch)) final) (\<lambda>(rc, ax).
         Inr (n, d\<lparr>chan_infos := (chan_infos d)(c \<mapsto> i\<lparr>ci_poller := PRunning, ci_working := True,
           ci_iovcnt := of_nat (length iovs)\<rparr>), axi := ax\<rparr>)))
     \<and> (if unsent ob < 2 ^ 32 then final \<longleftrightarrow> sent = unsent ob \<and> rest = [] else sent < unsent ob)"
proof -
  have left: "vo_left ob = n" using vo_left_unsent [of ob] assms(9,11) by simp
  define cnt where "cnt = min (page_count n) 48"
  define iovs where "iovs = page_iovs (drv_vtophys drv) ob n cnt"
  note n = assms(10)
  have cov: "covers iovs (vo_base ob + vo_used ob) (min n 196608)" and len: "int (length iovs) = cnt"
    using page_iovs_cover [OF n, of 48 "drv_vtophys drv" ob] by (simp_all add: iovs_def cnt_def)
  have small: "(page_count n \<le> 48) = (n \<le> 196608)" using page_count_bounds [OF n] by linarith
  have word: "word_of_int cnt = (of_nat (length iovs) :: u8)" unfolding len [symmetric] by simp
  define i1 where "i1 = (start_poller i)\<lparr>ci_working := True\<rparr>"
  define d1 where "d1 = d\<lparr>chan_infos := (chan_infos d)(c \<mapsto> i1)\<rparr>"
  have 1: "upd_info c (\<lambda>i. (start_poller i)\<lparr>ci_working := True\<rparr>) d = Inr d1" "get_chan c d1 = Inr ch"
    "chan_vos True ch d1 = Inr (v # rest)" "deref (vobjs d1) (Some v) = Inr ob" "axi d1 = axi d"
    using assms by (simp_all add: upd_info_def get_info_def get_chan_def chan_vos_def vos_of_def d1_def i1_def)
  have 2: "upd_info c (\<lambda>i. i\<lparr>ci_iovcnt := word_of_int cnt\<rparr>) d1
      = Inr (d1\<lparr>chan_infos := (chan_infos d1)(c \<mapsto> i1\<lparr>ci_iovcnt := of_nat (length iovs)\<rparr>)\<rparr>)"
    unfolding word by (simp add: upd_info_def get_info_def d1_def)
  have "tx_channel_send drv c d = rbind (upd_info c (\<lambda>i. i\<lparr>ci_iovcnt := word_of_int cnt\<rparr>) d1) (\<lambda>d2.
      rbind (spdk_axi_dma_tx_channel_send_seg (drv_send_seg drv) (drv_vtophys drv) (axi d2) (ci_axi i)
               iovs 0 (of_nat c) (Some (tx_ctrl ch)) final) (\<lambda>(rc, ax). Inr (n, d2\<lparr>axi := ax\<rparr>)))"
    unfolding tx_channel_send_def using assms(1,2) 1(1-4)
    by (simp add: Let_def left cnt_def [symmetric] iovs_def [symmetric] small assms(13))
  also have "\<dots> = rbind (spdk_axi_dma_tx_channel_send_seg (drv_send_seg drv) (drv_vtophys drv) (axi d) (ci_axi i) iovs 0
                  (of_nat c) (Some (tx_ctrl ch)) final) (\<lambda>(rc, ax).
         Inr (n, d\<lparr>chan_infos := (chan_infos d)(c \<mapsto> i\<lparr>ci_poller := PRunning, ci_working := True,
           ci_iovcnt := of_nat (length iovs)\<rparr>), axi := ax\<rparr>))"
    unfolding 2 by (simp add: d1_def i1_def start_poller_def)
  finally have "\<exists>iovs. covers iovs (vo_base ob + vo_used ob) sent \<and> length iovs \<le> 48
       \<and> tx_channel_send drv c d =
         rbind (spdk_axi_dma_tx_channel_send_seg (drv_send_seg drv) (drv_vtophys drv) (axi d) (ci_axi i) iovs 0
                  (of_nat c) (Some (tx_ctrl ch)) final) (\<lambda>(rc, ax).
         Inr (n, d\<lparr>chan_infos := (chan_infos d)(c \<mapsto> i\<lparr>ci_poller := PRunning, ci_working := True,
           ci_iovcnt := of_nat (length iovs)\<rparr>), axi := ax\<rparr>))"
    using cov len assms(12) cnt_def by (intro exI [of _ iovs]) simp
  moreover have "if unsent ob < 2 ^ 32 then final \<longleftrightarrow> sent = unsent ob \<and> rest = [] else sent < unsent ob"
  proof (cases "unsent ob < 2 ^ 32")
    case True
    then have "n = unsent ob" using assms(9) by (simp add: unsent_def)
    then show ?thesis using True assms(12,13) by auto
  next
    case False
    then show ?thesis using assms(11,12) by simp
  qed
  ultimately show ?thesis by blast
qed

text \<open>A device with one transmit channel that has an object of 200000 bytes to send, and one whose object has 4 GiB and a page
  left.\<close>

definition free_pool :: simple_pool where
  "free_pool = \<lparr>io_ring = [0x1000, 0x1040, 0x1080], io_arr = 0x1000, io_tail = 2, io_head = 0, io_ring_size = 3, elem_size = 64,
     cur_cap = 0\<rparr>"

definition idle_io :: dma_io where
  "idle_io = \<lparr>io_start = 0, io_end = 0, io_sideband = \<lparr>tuser = 0, mid = 0, tid = 0\<rparr>,
     io_status = \<lparr>transfered_bytes = 100, rxeof = True, rxsof = True, int_err = False, slv_err = False, dec_err = False, completed = True\<rparr>,
     transfered_length = 0\<rparr>"

definition tx_dev :: acc_dev where
  "tx_dev = zero_dev\<lparr>chans := [100 \<mapsto> \<lparr>chan_req = Some 3, channel_id = 5, dest_id = 0x30, virtual_channel_id = 0, is_tx = True\<rparr>],
     chan_infos := [100 \<mapsto> \<lparr>ci_axi = 0, ci_dev = True, ci_iovcnt = 0, ci_working = False, ci_last = False, ci_next = False, ci_poller = PNone\<rparr>],
     requests := [3 \<mapsto> zero_request\<lparr>tx_vos := [[7], [], [], [], [], [], [], []]\<rparr>],
     vobjs := [7 \<mapsto> \<lparr>vo_is_mem = True, vo_base = 0x100000, vo_len = 200000, vo_used = 4096\<rparr>],
     axi := \<lparr>axi_chs = [\<lparr>env_ch = blank_channel, io_pool = free_pool, ax_id = 5\<rparr>], aios = [0x1000 \<mapsto> idle_io],
       ameta = [0x1000 \<mapsto> \<lparr>aio_ch = 0, aio_iovs = [], aio_cb = 1, aio_ctx = 100, aio_used = 0\<rparr>]\<rparr>\<rparr>"

definition big_tx_dev :: acc_dev where
  "big_tx_dev = tx_dev\<lparr>vobjs := [7 \<mapsto> \<lparr>vo_is_mem = True, vo_base = 0x100000, vo_len = 0x100002000, vo_used = 0x1000\<rparr>]\<rparr>"

definition idle_drv :: dma_drv where
  "idle_drv = \<lparr>drv_send_seg = (\<lambda>e ios iovs p l. Inr (0, e, ios)), drv_recv = (\<lambda>e ios iovs p. Inr (0, e, ios)),
     drv_poll = (\<lambda>e ios. Inr (None, e, ios)), drv_enable = Inr, drv_stop = (\<lambda>e. e), drv_vtophys = (\<lambda>a n. (a, n)), drv_batch = None\<rparr>"

lemma idle_send:
  "\<exists>rc ax. spdk_axi_dma_tx_channel_send_seg (drv_send_seg idle_drv) (drv_vtophys idle_drv) (axi tx_dev) 0 iovs cb ctx ctrl l = Inr (rc, ax)"
  by (cases "vtophys_loop (\<lambda>a n. (a, n)) iovs 0")
    (auto simp: spdk_axi_dma_tx_channel_send_seg_def idle_drv_def tx_dev_def free_pool_def spdk_simple_pool_get_def ring_succ_def set_pool_def
      set_io_def Let_def)

theorem tx_channel_send_pages_witness:
  "(\<exists>iovs ax. covers iovs 0x101000 195904 \<and> tx_channel_send idle_drv 100 tx_dev
       = Inr (195904, tx_dev\<lparr>chan_infos := (chan_infos tx_dev)(100 \<mapsto> \<lparr>ci_axi = 0, ci_dev = True, ci_iovcnt = of_nat (length iovs),
           ci_working = True, ci_last = False, ci_next = False, ci_poller = PRunning\<rparr>), axi := ax\<rparr>))
   \<and> (\<exists>iovs. covers iovs 0x101000 4096 \<and> tx_channel_send idle_drv 100 big_tx_dev
       = rbind (spdk_axi_dma_tx_channel_send_seg (drv_send_seg idle_drv) (drv_vtophys idle_drv) (axi tx_dev) 0 iovs 0 100
                  (Some \<lparr>tuser = 0, mid = 5, tid = 0x30\<rparr>) True) (\<lambda>(rc, ax).
         Inr (4096, big_tx_dev\<lparr>chan_infos := (chan_infos tx_dev)(100 \<mapsto> \<lparr>ci_axi = 0, ci_dev = True, ci_iovcnt = of_nat (length iovs),
           ci_working = True, ci_last = False, ci_next = False, ci_poller = PRunning\<rparr>), axi := ax\<rparr>))
       \<and> 4096 < unsent \<lparr>vo_is_mem = True, vo_base = 0x100000, vo_len = 0x100002000, vo_used = 0x1000\<rparr>)"
proof -
  let ?i = "\<lparr>ci_axi = 0, ci_dev = True, ci_iovcnt = 0, ci_working = False, ci_last = False, ci_next = False, ci_poller = PNone\<rparr>"
  let ?ch = "\<lparr>chan_req = Some 3, channel_id = 5, dest_id = 0x30, virtual_channel_id = 0, is_tx = True\<rparr>"
  let ?q = "zero_request\<lparr>tx_vos := [[7], [], [], [], [], [], [], []]\<rparr>"
  let ?ob = "\<lparr>vo_is_mem = True, vo_base = 0x100000, vo_len = 200000, vo_used = 4096\<rparr> :: vobject"
  let ?big = "\<lparr>vo_is_mem = True, vo_base = 0x100000, vo_len = 0x100002000, vo_used = 0x1000\<rparr> :: vobject"
  have p: "chan_infos d 100 = Some ?i" "chans d 100 = Some ?ch" "requests d 3 = Some ?q" "axi d = axi tx_dev" if "d = tx_dev \<or> d = big_tx_dev" for d
    using that by (auto simp: big_tx_dev_def tx_dev_def)
  have v: "vobjs tx_dev 7 = Some ?ob" "vobjs big_tx_dev 7 = Some ?big" by (simp_all add: big_tx_dev_def tx_dev_def)
  have u: "unsent ?ob = 195904" "unsent ?big = 0x100001000" by (simp_all add: unsent_def)
  have same: "chan_infos big_tx_dev = chan_infos tx_dev" by (simp add: big_tx_dev_def)
  have ctrl: "tx_ctrl ?ch = \<lparr>tuser = 0, mid = 5, tid = 0x30\<rparr>" by (simp add: tx_ctrl_def)
  note send = tx_channel_send_pages [where c = 100 and i = ?i and ch = ?ch and r = 3 and q = ?q and v = 7 and rest = "[]" and drv = idle_drv]
  have first: "\<exists>iovs. covers iovs 0x101000 195904 \<and> tx_channel_send idle_drv 100 tx_dev =
         rbind (spdk_axi_dma_tx_channel_send_seg (drv_send_seg idle_drv) (drv_vtophys idle_drv) (axi tx_dev) 0 iovs 0 100
                  (Some (tx_ctrl ?ch)) True) (\<lambda>(rc, ax).
         Inr (195904, tx_dev\<lparr>chan_infos := (chan_infos tx_dev)(100 \<mapsto> ?i\<lparr>ci_poller := PRunning, ci_working := True,
           ci_iovcnt := of_nat (length iovs)\<rparr>), axi := ax\<rparr>))"
    using send [of tx_dev ?ob 195904 195904 True] p [of tx_dev] v(1) u(1) by auto
  have second: "\<exists>iovs. covers iovs 0x101000 4096 \<and> tx_channel_send idle_drv 100 big_tx_dev =
         rbind (spdk_axi_dma_tx_channel_send_seg (drv_send_seg idle_drv) (drv_vtophys idle_drv) (axi tx_dev) 0 iovs 0 100
                  (Some (tx_ctrl ?ch)) True) (\<lambda>(rc, ax).
         Inr (4096, big_tx_dev\<lparr>chan_infos := (chan_infos tx_dev)(100 \<mapsto> ?i\<lparr>ci_poller := PRunning, ci_working := True,
           ci_iovcnt := of_nat (length iovs)\<rparr>), axi := ax\<rparr>)) \<and> 4096 < unsent ?big"
    using send [of big_tx_dev ?big 4096 4096 True] p [of big_tx_dev] p [of tx_dev] v(2) u(2) unfolding same by auto
  from first obtain iovs where f: "covers iovs 0x101000 195904" "tx_channel_send idle_drv 100 tx_dev =
         rbind (spdk_axi_dma_tx_channel_send_seg (drv_send_seg idle_drv) (drv_vtophys idle_drv) (axi tx_dev) 0 iovs 0 100
                  (Some (tx_ctrl ?ch)) True) (\<lambda>(rc, ax).
         Inr (195904, tx_dev\<lparr>chan_infos := (chan_infos tx_dev)(100 \<mapsto> ?i\<lparr>ci_poller := PRunning, ci_working := True,
           ci_iovcnt := of_nat (length iovs)\<rparr>), axi := ax\<rparr>))" by blast
  obtain rc ax where "spdk_axi_dma_tx_channel_send_seg (drv_send_seg idle_drv) (drv_vtophys idle_drv) (axi tx_dev) 0 iovs 0 100
      (Some (tx_ctrl ?ch)) True = Inr (rc, ax)" using idle_send by blast
  with f have "\<exists>iovs ax. covers iovs 0x101000 195904 \<and> tx_channel_send idle_drv 100 tx_dev
       = Inr (195904, tx_dev\<lparr>chan_infos := (chan_infos tx_dev)(100 \<mapsto> \<lparr>ci_axi = 0, ci_dev = True, ci_iovcnt = of_nat (length iovs),
           ci_working = True, ci_last = False, ci_next = False, ci_poller = PRunning\<rparr>), axi := ax\<rparr>)"
    by (intro exI [of _ iovs] exI [of _ ax]) simp
  with second show ?thesis unfolding ctrl by (intro conjI) simp_all
qed

section \<open>Accounting of completions\<close>

text \<open>What the poller meets when it polls until nothing is left, an end marker comes, or a completion of zero bytes without
  the marker: \<open>io\<close> is the object already taken from the ring, \<open>e\<close> and \<open>ios\<close> are the channel below and the objects
  before, \<open>xs\<close> lists the ordinary completions with their lengths, \<open>fin\<close> is how it ends, and \<open>e'\<close> and \<open>ios'\<close> are what the
  polls leave.\<close>

datatype drain_end = Nothing_left | Marked nat u32 | Zero_bytes nat

inductive drained ::
    "(dma_channel \<Rightarrow> io_store \<Rightarrow> (nat option \<times> dma_channel \<times> io_store) res) \<Rightarrow> nat option \<Rightarrow> dma_channel \<Rightarrow> io_store \<Rightarrow>
     (nat \<times> u32) list \<Rightarrow> drain_end \<Rightarrow> dma_channel \<Rightarrow> io_store \<Rightarrow> bool"
  for poll where
  none: "drained poll None e ios [] Nothing_left e ios"
| mark: "ios p = Some io \<Longrightarrow> end_mark io \<Longrightarrow> n = ucast (transfered_bytes (io_status io)) \<Longrightarrow>
    drained poll (Some p) e ios [] (Marked p n) e ios"
| zero: "ios p = Some io \<Longrightarrow> \<not> end_mark io \<Longrightarrow> (ucast (transfered_bytes (io_status io)) :: u32) = 0 \<Longrightarrow>
    drained poll (Some p) e ios [] (Zero_bytes p) e ios"
| more: "ios p = Some io \<Longrightarrow> \<not> end_mark io \<Longrightarrow> n = ucast (transfered_bytes (io_status io)) \<Longrightarrow> n \<noteq> 0 \<Longrightarrow>
    poll e ios = Inr (io', e1, ios1) \<Longrightarrow> drained poll io' e1 ios1 xs fin e' ios' \<Longrightarrow> drained poll (Some p) e ios ((p, n) # xs) fin e' ios'"

text \<open>The objects that come back: all but one that completes with zero bytes and without the marker.\<close>

definition returned :: "(nat \<times> u32) list \<Rightarrow> drain_end \<Rightarrow> nat list" where
  "returned xs fin = map fst xs @ (case fin of Marked p n \<Rightarrow> [p] | _ \<Rightarrow> [])"

definition end_bytes :: "bool \<Rightarrow> drain_end \<Rightarrow> u32" where
  "end_bytes t fin = (case fin of Marked p n \<Rightarrow> payload t n | _ \<Rightarrow> 0)"

text \<open>The count of buffers in flight after the ordinary completions, and the record of the channel at the end.\<close>

definition iovs_left :: "(nat \<Rightarrow> axi_meta option) \<Rightarrow> nat list \<Rightarrow> u8 \<Rightarrow> u8" where
  "iovs_left meta ps k = fold (\<lambda>p k. case meta p of None \<Rightarrow> k
     | Some m \<Rightarrow> if length (aio_iovs m) \<ge> unat k then 0 else k - of_nat (length (aio_iovs m))) ps k"

definition end_info :: "bool \<Rightarrow> drain_end \<Rightarrow> u8 \<Rightarrow> chan_info \<Rightarrow> chan_info" where
  "end_info t fin k i = (case fin of Marked p n \<Rightarrow> if t then i\<lparr>ci_iovcnt := 0\<rparr> else i\<lparr>ci_iovcnt := k, ci_last := True\<rparr>
     | _ \<Rightarrow> i\<lparr>ci_iovcnt := k\<rparr>)"

text \<open>The DMA layer with channel \<open>x\<close> polled and its pool changed, and nothing else.\<close>

definition axi_after :: "nat \<Rightarrow> dma_channel \<Rightarrow> io_store \<Rightarrow> simple_pool \<Rightarrow> dma_channel axi_sys \<Rightarrow> dma_channel axi_sys" where
  "axi_after x e ios pool s = s\<lparr>axi_chs := (axi_chs s)[x := (axi_chs s ! x)\<lparr>env_ch := e, io_pool := pool\<rparr>], aios := ios\<rparr>"

lemma axi_after_twice:
  "x < length (axi_chs s) \<Longrightarrow> axi_after x e ios pool (axi_after x e1 ios1 pool1 s) = axi_after x e ios pool s"
  by (simp add: axi_after_def)

lemma axi_after_step:
  "x < length (axi_chs s) \<Longrightarrow> set_pool x pool ((set_env x e s)\<lparr>aios := ios\<rparr>) = axi_after x e ios pool s"
  by (simp add: axi_after_def set_pool_def set_env_def)

lemma axi_after_same:
  "set_pool x pool s = axi_after x (env_ch (axi_chs s ! x)) (aios s) pool s"
proof -
  have "(axi_chs s ! x)\<lparr>io_pool := pool\<rparr> = (axi_chs s ! x)\<lparr>env_ch := env_ch (axi_chs s ! x), io_pool := pool\<rparr>"
    by (cases "axi_chs s ! x") simp
  then show ?thesis by (cases s) (simp add: axi_after_def set_pool_def)
qed

text \<open>Channel \<open>x\<close> of the DMA layer has room in its pool for these objects, which belong to it.\<close>

definition can_return :: "nat \<Rightarrow> nat list \<Rightarrow> dma_channel axi_sys \<Rightarrow> bool" where
  "can_return x ps s \<longleftrightarrow> x < length (axi_chs s) \<and> pool_inv (io_pool (axi_chs s ! x))
     \<and> length (pool_free (io_pool (axi_chs s ! x))) + length ps \<le> pool_cap (io_pool (axi_chs s ! x))
     \<and> (\<forall>p \<in> set ps. \<exists>m. ameta s p = Some m \<and> aio_ch m = x \<and> aio_used m = 0)"

text \<open>The pool of channel \<open>x\<close> after these objects have come back.\<close>

definition pool_with :: "simple_pool \<Rightarrow> nat list \<Rightarrow> simple_pool \<Rightarrow> bool" where
  "pool_with old ps pool \<longleftrightarrow> pool_inv pool \<and> pool_cap pool = pool_cap old \<and> pool_free pool = pool_free old @ map of_nat ps"

lemma io_free_ok:
  assumes "can_return x (p # ps) s"
  obtains pool where "spdk_axi_dma_io_free p s = Inr (set_pool x pool s)" "can_return x ps (set_pool x pool s)"
    "pool_with (io_pool (axi_chs s ! x)) [p] pool"
proof -
  let ?pl = "io_pool (axi_chs s ! x)"
  from assms obtain m where m: "ameta s p = Some m" "aio_ch m = x" by (auto simp: can_return_def)
  from assms have "pool_inv ?pl" "length (pool_free ?pl) < pool_cap ?pl" by (auto simp: can_return_def)
  from spool.put_room [OF this, of "of_nat p"] obtain pool where
    pl: "spdk_simple_pool_put ?pl (of_nat p) = Inr pool" "pool_inv pool" "pool_free pool = pool_free ?pl @ [of_nat p]"
      "pool_cap pool = pool_cap ?pl" by blast
  show thesis
  proof (rule that [of pool])
    show "spdk_axi_dma_io_free p s = Inr (set_pool x pool s)"
      using m pl(1) assms by (simp add: spdk_axi_dma_io_free_def can_return_def)
    show "can_return x ps (set_pool x pool s)"
      using assms pl by (simp add: can_return_def set_pool_def)
  qed (use pl in \<open>simp add: pool_with_def\<close>)
qed

text \<open>One ordinary completion.\<close>

lemma poller_loop_more:
  assumes "aios (axi d) p = Some o_io" and "\<not> end_mark o_io" and "n = ucast (transfered_bytes (io_status o_io))" and "n \<noteq> 0"
    and "drv_poll drv (env_ch (axi_chs (axi d) ! x)) (aios (axi d)) = Inr (io', e1, ios1)"
    and "can_return x (p # ps) (axi d)" and "chan_infos d c = Some i"
  obtains pool where "poller_loop (Suc fuel) drv t c x (Some p) acc d = poller_loop fuel drv t c x io' (acc + n)
      (d\<lparr>chan_infos := (chan_infos d)(c \<mapsto> i\<lparr>ci_iovcnt := iovs_left (ameta (axi d)) [p] (ci_iovcnt i)\<rparr>), axi := axi_after x e1 ios1 pool (axi d)\<rparr>)"
    "can_return x ps (axi_after x e1 ios1 pool (axi d))" "pool_with (io_pool (axi_chs (axi d) ! x)) [p] pool"
proof -
  let ?a = "axi d"
  obtain m where m: "ameta ?a p = Some m" "aio_used m = 0" "x < length (axi_chs ?a)" using assms(6) by (auto simp: can_return_def)
  define a1 where "a1 = (set_env x e1 ?a)\<lparr>aios := ios1\<rparr>"
  have a1: "axi_env_poll (drv_poll drv) x ?a = Inr (io', a1)" "can_return x (p # ps) a1" "ameta a1 = ameta ?a"
      "io_pool (axi_chs a1 ! x) = io_pool (axi_chs ?a ! x)"
    using assms(5,6) m(3) by (simp_all add: axi_env_poll_def a1_def set_env_def can_return_def)
  from io_free_ok [OF a1(2)] obtain pool where pl: "spdk_axi_dma_io_free p a1 = Inr (set_pool x pool a1)"
      "can_return x ps (set_pool x pool a1)" "pool_with (io_pool (axi_chs a1 ! x)) [p] pool" by blast
  have after: "set_pool x pool a1 = axi_after x e1 ios1 pool ?a" unfolding a1_def by (rule axi_after_step [OF m(3)])
  have "poller_loop (Suc fuel) drv t c x (Some p) acc d = poller_loop fuel drv t c x io' (acc + n)
      (d\<lparr>chan_infos := (chan_infos d)(c \<mapsto> i\<lparr>ci_iovcnt := iovs_left (ameta ?a) [p] (ci_iovcnt i)\<rparr>), axi := set_pool x pool a1\<rparr>)"
    using assms(1-4,7) m a1(1,3) pl(1)
    by (simp add: upd_info_def get_info_def poll_axi_def spdk_axi_dma_poller_for_compute_def free_axi_io_def Let_def iovs_left_def)
  with that pl(2,3) show thesis unfolding after a1(4) by blast
qed

lemma poller_loop_ok:
  assumes "drained (drv_poll drv) io e ios xs fin e' ios'" and "e = env_ch (axi_chs (axi d) ! x)" and "ios = aios (axi d)"
    and "can_return x (returned xs fin) (axi d)" and "\<forall>p. fin = Zero_bytes p \<longrightarrow> ameta (axi d) p \<noteq> None"
    and "chan_infos d c = Some i" and "length xs < fuel"
  shows "\<exists>pool. poller_loop fuel drv t c x io acc d = Inr (acc + sum_list (map snd xs) + end_bytes t fin,
       d\<lparr>chan_infos := (chan_infos d)(c \<mapsto> end_info t fin (iovs_left (ameta (axi d)) (map fst xs) (ci_iovcnt i)) i),
         axi := axi_after x e' ios' pool (axi d)\<rparr>)
     \<and> pool_with (io_pool (axi_chs (axi d) ! x)) (returned xs fin) pool"
  using assms
proof (induction arbitrary: d acc i fuel rule: drained.induct)
  case (none e ios)
  then obtain f where f: "fuel = Suc f" by (cases fuel) auto
  let ?pl = "io_pool (axi_chs (axi d) ! x)"
  have "axi_after x e ios ?pl (axi d) = axi d" using none(1,2) by (cases "axi d") (simp add: axi_after_def)
  moreover have "(chan_infos d)(c \<mapsto> i\<lparr>ci_iovcnt := ci_iovcnt i\<rparr>) = chan_infos d" using none(5) by (auto simp: fun_upd_idem)
  ultimately have "poller_loop fuel drv t c x None acc d
      = Inr (acc, d\<lparr>chan_infos := (chan_infos d)(c \<mapsto> i\<lparr>ci_iovcnt := ci_iovcnt i\<rparr>), axi := axi_after x e ios ?pl (axi d)\<rparr>)"
    using f by simp
  moreover have "end_info t Nothing_left (iovs_left (ameta (axi d)) (map fst []) (ci_iovcnt i)) i = i\<lparr>ci_iovcnt := ci_iovcnt i\<rparr>"
    by (simp add: end_info_def iovs_left_def)
  moreover have "pool_with ?pl (returned [] Nothing_left) ?pl" using none(3) by (simp add: pool_with_def returned_def can_return_def)
  moreover have "acc + sum_list (map snd []) + end_bytes t Nothing_left = acc" by (simp add: end_bytes_def)
  ultimately show ?case by metis
next
  case (mark ios p io n e)
  then obtain f where f: "fuel = Suc f" by (cases fuel) auto
  from mark have cr: "can_return x [p] (axi d)" by (simp add: returned_def)
  then obtain m where m: "ameta (axi d) p = Some m" by (auto simp: can_return_def)
  from io_free_ok [OF cr] obtain pool where pl: "spdk_axi_dma_io_free p (axi d) = Inr (set_pool x pool (axi d))"
    "pool_with (io_pool (axi_chs (axi d) ! x)) [p] pool" by blast
  have after: "set_pool x pool (axi d) = axi_after x e ios pool (axi d)" using axi_after_same [of x pool "axi d"] mark by simp
  have "poller_loop fuel drv t c x (Some p) acc d = Inr (acc + payload t n,
      d\<lparr>chan_infos := (chan_infos d)(c \<mapsto> end_info t (Marked p n) (ci_iovcnt i) i), axi := axi_after x e ios pool (axi d)\<rparr>)"
    using f m pl(1) mark unfolding after [symmetric]
    by (cases i) (simp add: upd_info_def get_info_def free_axi_io_def end_info_def)
  moreover have "iovs_left (ameta (axi d)) (map fst []) (ci_iovcnt i) = ci_iovcnt i" by (simp add: iovs_left_def)
  moreover have "returned [] (Marked p n) = [p]" "acc + sum_list (map snd []) + end_bytes t (Marked p n) = acc + payload t n"
    by (simp_all add: returned_def end_bytes_def)
  ultimately show ?case using pl(2) by metis
next
  case (zero ios p io e)
  then obtain f where f: "fuel = Suc f" by (cases fuel) auto
  let ?pl = "io_pool (axi_chs (axi d) ! x)"
  from zero obtain m where m: "ameta (axi d) p = Some m" by auto
  have "axi_after x e ios ?pl (axi d) = axi d" using zero(4,5) by (cases "axi d") (simp add: axi_after_def)
  moreover have "(chan_infos d)(c \<mapsto> i\<lparr>ci_iovcnt := ci_iovcnt i\<rparr>) = chan_infos d" using zero(8) by (auto simp: fun_upd_idem)
  ultimately have "poller_loop fuel drv t c x (Some p) acc d
      = Inr (acc, d\<lparr>chan_infos := (chan_infos d)(c \<mapsto> i\<lparr>ci_iovcnt := ci_iovcnt i\<rparr>), axi := axi_after x e ios ?pl (axi d)\<rparr>)"
    using f m zero(1-3,5) by simp
  moreover have "end_info t (Zero_bytes p) (iovs_left (ameta (axi d)) (map fst []) (ci_iovcnt i)) i = i\<lparr>ci_iovcnt := ci_iovcnt i\<rparr>"
    by (simp add: end_info_def iovs_left_def)
  moreover have "pool_with ?pl (returned [] (Zero_bytes p)) ?pl" using zero(6) by (simp add: pool_with_def returned_def can_return_def)
  moreover have "acc + sum_list (map snd []) + end_bytes t (Zero_bytes p) = acc" by (simp add: end_bytes_def)
  ultimately show ?case by metis
next
  case (more ios p io n e io' e1 ios1 xs fin e' ios')
  then obtain f where f: "fuel = Suc f" "length xs < f" by (cases fuel) auto
  let ?a = "axi d" and ?i = "i\<lparr>ci_iovcnt := iovs_left (ameta (axi d)) [p] (ci_iovcnt i)\<rparr>"
  have cr: "can_return x (p # returned xs fin) ?a" using more.prems(3) by (simp add: returned_def)
  then have x: "x < length (axi_chs ?a)" by (simp add: can_return_def)
  obtain pool1 where 1: "poller_loop (Suc f) drv t c x (Some p) acc d = poller_loop f drv t c x io' (acc + n)
      (d\<lparr>chan_infos := (chan_infos d)(c \<mapsto> ?i), axi := axi_after x e1 ios1 pool1 ?a\<rparr>)"
    "can_return x (returned xs fin) (axi_after x e1 ios1 pool1 ?a)" "pool_with (io_pool (axi_chs ?a ! x)) [p] pool1"
    using poller_loop_more [of d p io n drv x io' e1 ios1 "returned xs fin" c i f t acc] more.hyps(1-5) more.prems(1,2,5) cr by metis
  let ?d1 = "d\<lparr>chan_infos := (chan_infos d)(c \<mapsto> ?i), axi := axi_after x e1 ios1 pool1 ?a\<rparr>"
  have after: "axi_chs (axi ?d1) ! x = (axi_chs ?a ! x)\<lparr>env_ch := e1, io_pool := pool1\<rparr>" "aios (axi ?d1) = ios1" "ameta (axi ?d1) = ameta ?a"
    using x by (simp_all add: axi_after_def)
  have "\<exists>pool. poller_loop f drv t c x io' (acc + n) ?d1 = Inr (acc + n + sum_list (map snd xs) + end_bytes t fin,
       ?d1\<lparr>chan_infos := (chan_infos ?d1)(c \<mapsto> end_info t fin (iovs_left (ameta (axi ?d1)) (map fst xs) (ci_iovcnt ?i)) ?i),
         axi := axi_after x e' ios' pool (axi ?d1)\<rparr>)
     \<and> pool_with (io_pool (axi_chs (axi ?d1) ! x)) (returned xs fin) pool"
    by (rule more.IH) (use after 1(2) more.prems(4) f(2) in simp_all)
  then obtain pool where r: "poller_loop f drv t c x io' (acc + n) ?d1 = Inr (acc + n + sum_list (map snd xs) + end_bytes t fin,
       ?d1\<lparr>chan_infos := (chan_infos ?d1)(c \<mapsto> end_info t fin (iovs_left (ameta (axi ?d1)) (map fst xs) (ci_iovcnt ?i)) ?i),
         axi := axi_after x e' ios' pool (axi ?d1)\<rparr>)"
     "pool_with (io_pool (axi_chs (axi ?d1) ! x)) (returned xs fin) pool" by blast
  have i: "end_info t fin (iovs_left (ameta ?a) (map fst xs) (ci_iovcnt ?i)) ?i
      = end_info t fin (iovs_left (ameta ?a) (map fst ((p, n) # xs)) (ci_iovcnt i)) i"
    by (cases i) (simp add: end_info_def iovs_left_def split: drain_end.split)
  have "poller_loop fuel drv t c x (Some p) acc d = Inr (acc + sum_list (map snd ((p, n) # xs)) + end_bytes t fin,
       d\<lparr>chan_infos := (chan_infos d)(c \<mapsto> end_info t fin (iovs_left (ameta ?a) (map fst ((p, n) # xs)) (ci_iovcnt i)) i),
         axi := axi_after x e' ios' pool ?a\<rparr>)"
    unfolding f(1) 1(1) r(1) after(3) i [symmetric] using axi_after_twice [OF x, of e' ios' pool e1 ios1 pool1] by (simp add: add.assoc)
  moreover have "pool_with (io_pool (axi_chs ?a ! x)) (returned ((p, n) # xs) fin) pool"
    using r(2) 1(3) unfolding after(1) by (simp add: pool_with_def returned_def)
  ultimately show ?case by blast
qed

text \<open>C22. The completion loop of a channel adds up exactly the bytes of the completions it takes from the ring.  It ends when
  nothing is left, at a completion with the end marker, or at one of zero bytes without it.  A completion with the
  marker contributes its length without the marker's beat and, on a receive channel, marks the request as
  finished.  The IO objects go back to the pool of their channel, in the order of completion, except the one of a
  zero-byte completion without the marker, which is given back to no pool.  The count of buffers in flight drops by the
  buffers of each ordinary completion and not below zero, and is zero after a marker on a transmit channel.
  Nothing else of the device changes but what the polls themselves did to the channel below and its objects.\<close>

theorem poller_loop_accounts:
  assumes "drained (drv_poll drv) io (env_ch (axi_chs (axi d) ! x)) (aios (axi d)) xs fin e' ios'"
    and "can_return x (returned xs fin) (axi d)" and "\<forall>p. fin = Zero_bytes p \<longrightarrow> ameta (axi d) p \<noteq> None"
    and "chan_infos d c = Some i" and "length xs < fuel"
  shows "\<exists>pool. poller_loop fuel drv t c x io acc d = Inr (acc + sum_list (map snd xs) + end_bytes t fin,
       d\<lparr>chan_infos := (chan_infos d)(c \<mapsto> end_info t fin (iovs_left (ameta (axi d)) (map fst xs) (ci_iovcnt i)) i),
         axi := axi_after x e' ios' pool (axi d)\<rparr>)
     \<and> pool_inv pool \<and> pool_cap pool = pool_cap (io_pool (axi_chs (axi d) ! x))
     \<and> pool_free pool = pool_free (io_pool (axi_chs (axi d) ! x)) @ map of_nat (returned xs fin)"
  using poller_loop_ok [OF assms(1) refl refl assms(2-5)] by (simp add: pool_with_def)

text \<open>A channel with two buffers in flight, whose object at address \<open>0x1000\<close> completes with 100 bytes.  After it comes an object
  with 164 bytes and the end marker, or one with zero bytes and no marker.\<close>

definition end_pool :: simple_pool where
  "end_pool = \<lparr>io_ring = [0x1000, 0x1040, 0x1080], io_arr = 0x1000, io_tail = 2, io_head = 2, io_ring_size = 3, elem_size = 64,
     cur_cap = 0\<rparr>"

definition end_io :: dma_io where
  "end_io = idle_io\<lparr>io_sideband := \<lparr>tuser = 0xFF, mid = 0, tid = 0\<rparr>, io_status := (io_status idle_io)\<lparr>transfered_bytes := 164\<rparr>\<rparr>"

definition zero_io :: dma_io where
  "zero_io = idle_io\<lparr>io_status := (io_status idle_io)\<lparr>transfered_bytes := 0\<rparr>\<rparr>"

definition end_dev :: "dma_io \<Rightarrow> acc_dev" where
  "end_dev second = tx_dev\<lparr>axi := \<lparr>axi_chs = [\<lparr>env_ch = blank_channel, io_pool = end_pool, ax_id = 5\<rparr>],
     aios = [0x1000 \<mapsto> idle_io, 0x1040 \<mapsto> second],
     ameta = (\<lambda>p. Some \<lparr>aio_ch = 0, aio_iovs = [], aio_cb = 1, aio_ctx = 100, aio_used = 0\<rparr>)\<rparr>\<rparr>"

definition next_drv :: dma_drv where
  "next_drv = idle_drv\<lparr>drv_poll := (\<lambda>e ios. Inr (Some 0x1040, e, ios))\<rparr>"

theorem poller_loop_accounts_witness:
  "(\<exists>d'. poller_loop 2 next_drv False 100 0 (Some 0x1000) 0 (end_dev end_io) = Inr (200, d')
       \<and> pool_free (io_pool (axi_chs (axi d') ! 0)) = [0x1000, 0x1040])
   \<and> (\<exists>d'. poller_loop 2 next_drv False 100 0 (Some 0x1000) 0 (end_dev zero_io) = Inr (100, d')
       \<and> pool_free (io_pool (axi_chs (axi d') ! 0)) = [0x1000])"
proof -
  let ?i = "\<lparr>ci_axi = 0, ci_dev = True, ci_iovcnt = 0, ci_working = False, ci_last = False, ci_next = False, ci_poller = PNone\<rparr>"
  let ?e = "\<lambda>d :: acc_dev. env_ch (axi_chs (axi d) ! 0)"
  have marks: "end_mark end_io" "\<not> end_mark idle_io" "\<not> end_mark zero_io" by (simp_all add: end_mark_def end_io_def idle_io_def zero_io_def)
  have last: "drained (drv_poll next_drv) (Some 0x1040) (?e (end_dev end_io)) (aios (axi (end_dev end_io))) [] (Marked 0x1040 164)
        (?e (end_dev end_io)) (aios (axi (end_dev end_io)))"
    "drained (drv_poll next_drv) (Some 0x1040) (?e (end_dev zero_io)) (aios (axi (end_dev zero_io))) [] (Zero_bytes 0x1040)
        (?e (end_dev zero_io)) (aios (axi (end_dev zero_io)))"
    using marks by (auto intro!: drained.mark drained.zero simp: end_dev_def end_io_def zero_io_def)
  have dr: "drained (drv_poll next_drv) (Some 0x1000) (?e (end_dev o2)) (aios (axi (end_dev o2))) [(0x1000, 100)] fin
        (?e (end_dev o2)) (aios (axi (end_dev o2)))"
    if "drained (drv_poll next_drv) (Some 0x1040) (?e (end_dev o2)) (aios (axi (end_dev o2))) [] fin
        (?e (end_dev o2)) (aios (axi (end_dev o2)))" for o2 fin
    by (rule drained.more [OF _ marks(2) _ _ _ that]) (simp_all add: end_dev_def idle_io_def next_drv_def)
  have pool: "io_pool (axi_chs (axi (end_dev o2)) ! 0) = end_pool" "length (axi_chs (axi (end_dev o2))) = 1"
      "chan_infos (end_dev o2) 100 = Some ?i" for o2 by (simp_all add: end_dev_def tx_dev_def)
  have ep: "pool_inv end_pool" "pool_free end_pool = []" "pool_cap end_pool = 2"
    by (simp_all add: end_pool_def pool_inv_def pool_free_def pool_avail_def pool_cap_def)
  have cr: "can_return 0 ps (axi (end_dev o2))" if "length ps \<le> 2" for ps o2
    using that ep by (simp add: can_return_def pool) (simp add: end_dev_def)
  have meta: "ameta (axi (end_dev o2)) p \<noteq> None" for o2 p by (simp add: end_dev_def)
  have ret: "returned [(0x1000, 100)] (Marked 0x1040 164) = [0x1000, 0x1040]" "returned [(0x1000, 100)] (Zero_bytes 0x1040) = [0x1000]"
      "end_bytes False (Marked 0x1040 164) = 100" "end_bytes False (Zero_bytes 0x1040) = 0"
    by (simp_all add: returned_def end_bytes_def payload_def MCDMA_TASK_FINISH_BEAT_SIZE_def)
  have after: "io_pool (axi_chs (axi_after 0 e ios pl (axi (end_dev o2))) ! 0) = pl" for e ios pl o2
    using pool(2) [of o2] by (simp add: axi_after_def)
  have "\<exists>d'. poller_loop 2 next_drv False 100 0 (Some 0x1000) 0 (end_dev o2) = Inr (100 + end_bytes False fin, d')
      \<and> pool_free (io_pool (axi_chs (axi d') ! 0)) = map of_nat (returned [(0x1000, 100)] fin)"
    if d: "drained (drv_poll next_drv) (Some 0x1040) (?e (end_dev o2)) (aios (axi (end_dev o2))) [] fin
        (?e (end_dev o2)) (aios (axi (end_dev o2)))" and l: "length (returned [(0x1000, 100)] fin) \<le> 2" for o2 fin
    using poller_loop_accounts [OF dr [OF d] cr [OF l] _ pool(3), of 2 False 0] meta pool ep after by fastforce
  from this [OF last(1)] this [OF last(2)] show ?thesis by (simp add: ret)
qed

end
