(* ===== verification/Acc_Inv.thy ===== *)
theory Acc_Inv
  imports Acc_Cmd_Laws Acc_Device_Laws Acc_Sched
begin

text \<open>
  A type invariant of the accelerator runtime and its preservation by every operation of the
  scheduler.  The invariant fixes the sizes of all tables, queues and command buffers, and for each
  operator type the multiset of its elements: whatever is locked, released, preempted or freed, no
  operator is lost and none appears twice.

  The operations of the channels are function pointers, so the laws they have to obey are the
  assumptions of the locale \<open>acc_runtime\<close>; the theory \<open>Nest_System\<close> interprets it with the channel
  functions of the NVMe target.
\<close>

section \<open>Results that satisfy a predicate\<close>

definition holds :: "('a \<Rightarrow> bool) \<Rightarrow> 'a res \<Rightarrow> bool" where
  "holds Q m \<longleftrightarrow> (\<forall>x. m = Inr x \<longrightarrow> Q x)"

named_theorems wf_bind \<open>one step of a sequence, driven by the operation at its head\<close>

lemma holds_simps [simp]:
  "holds Q (Inr x) \<longleftrightarrow> Q x"
  "holds Q (Inl e)"
  by (simp_all add: holds_def)

lemma holdsD: "holds Q m \<Longrightarrow> m = Inr x \<Longrightarrow> Q x"
  by (simp add: holds_def)

lemma holds_bind: "holds R m \<Longrightarrow> (\<And>x. R x \<Longrightarrow> holds Q (f x)) \<Longrightarrow> holds Q (rbind m f)"
  by (cases m) auto

lemma holds_read: "(\<And>x. m = Inr x \<Longrightarrow> holds Q (f x)) \<Longrightarrow> holds Q (rbind m f)"
  by (cases m) auto

lemma holds_let: "(\<And>x. x = t \<Longrightarrow> holds Q (f x)) \<Longrightarrow> holds Q (Let t f)"
  by simp

lemmas holds_reads [wf_bind] =
  holds_read [where m = "arr_get xs i" for xs i] holds_read [where m = "deref st p" for st p]
  holds_read [where m = "assert_c b" for b] holds_read [where m = "tq_remove x xs" for x xs]

lemma holds_for_each:
  assumes "P d" and "\<And>x d. x \<in> set xs \<Longrightarrow> P d \<Longrightarrow> holds P (f x d)"
  shows "holds P (for_each f xs d)"
  using assms
proof (induction xs arbitrary: d)
  case (Cons x xs)
  show ?case using Cons.prems Cons.IH by (auto intro!: holds_bind [of P])
qed simp

section \<open>The invariant\<close>

definition req_wf :: "acc_req \<Rightarrow> bool" where
  "req_wf q \<longleftrightarrow> length (dynamic_id_map q) = 8 \<and> length (req_elm q) = 8 \<and> length (tx_channel q) = 8
     \<and> length (rx_channel q) = 8 \<and> length (tx_vos q) = 8 \<and> length (rx_vos q) = 8 \<and> length (acccontext q) = 8
     \<and> length (r_applyops q) = 22 \<and> length (r_pauseops q) = 3 \<and> length (r_freeops q) = 3"

definition reqs_wf :: "(nat \<Rightarrow> acc_req option) \<Rightarrow> bool" where
  "reqs_wf R \<longleftrightarrow> (\<forall>r q. R r = Some q \<longrightarrow> req_wf q)"

definition tab_wf :: "(nat \<Rightarrow> nat multiset) \<Rightarrow> opconfig option list \<Rightarrow> bool" where
  "tab_wf M ocs \<longleftrightarrow> length ocs = 64
     \<and> (\<forall>t < 64. mset (case ocs ! t of None \<Rightarrow> [] | Some c \<Rightarrow> elements c) = M t)"

definition dev_wf :: "(nat \<Rightarrow> nat multiset) \<Rightarrow> acc_dev \<Rightarrow> bool" where
  "dev_wf M d \<longleftrightarrow> tab_wf M (opconfigs d) \<and> length (waiting_queue d) = 8 \<and> waiting_queue_ptr d < 8
     \<and> length (program_list d) = 64 \<and> reqs_wf (requests d) \<and> queue_wf (dq d)"

lemma dev_wf_frame [simp]:
  "dev_wf M (d\<lparr>dev_state := x0\<rparr>) = dev_wf M d"
  "dev_wf M (d\<lparr>working_queue := x1\<rparr>) = dev_wf M d"
  "dev_wf M (d\<lparr>tx_channel_pool := x2\<rparr>) = dev_wf M d"
  "dev_wf M (d\<lparr>rx_channel_pool := x3\<rparr>) = dev_wf M d"
  "dev_wf M (d\<lparr>vo_pool := x4\<rparr>) = dev_wf M d"
  "dev_wf M (d\<lparr>opcontext_pool := x5\<rparr>) = dev_wf M d"
  "dev_wf M (d\<lparr>sw_resources_pool := x6\<rparr>) = dev_wf M d"
  "dev_wf M (d\<lparr>mgnt_mempool := x7\<rparr>) = dev_wf M d"
  "dev_wf M (d\<lparr>request_poolv2 := x8\<rparr>) = dev_wf M d"
  "dev_wf M (d\<lparr>mempool_places := x81\<rparr>) = dev_wf M d"
  "dev_wf M (d\<lparr>request_pool_ele_num := x9\<rparr>) = dev_wf M d"
  "dev_wf M (d\<lparr>next_mem_id := x10\<rparr>) = dev_wf M d"
  "dev_wf M (d\<lparr>id_allocator := x11\<rparr>) = dev_wf M d"
  "dev_wf M (d\<lparr>sw_msgs := x12\<rparr>) = dev_wf M d"
  "dev_wf M (d\<lparr>sw_done := x13\<rparr>) = dev_wf M d"
  "dev_wf M (d\<lparr>programs := x14\<rparr>) = dev_wf M d"
  "dev_wf M (d\<lparr>op_elms := x15\<rparr>) = dev_wf M d"
  "dev_wf M (d\<lparr>chans := x16\<rparr>) = dev_wf M d"
  "dev_wf M (d\<lparr>contexts := x17\<rparr>) = dev_wf M d"
  "dev_wf M (d\<lparr>chan_infos := x18\<rparr>) = dev_wf M d"
  "dev_wf M (d\<lparr>vobjs := x19\<rparr>) = dev_wf M d"
  "dev_wf M (d\<lparr>axi := x20\<rparr>) = dev_wf M d"
  "dev_wf M (d\<lparr>completions := x21\<rparr>) = dev_wf M d"
  "dev_wf M (d\<lparr>register_op_type_num := x22\<rparr>) = dev_wf M d"
  by (simp_all add: dev_wf_def)

lemma reqs_wf_upd [intro!]: "reqs_wf R \<Longrightarrow> req_wf q \<Longrightarrow> reqs_wf (R(r \<mapsto> q))"
  by (simp add: reqs_wf_def)

lemma reqs_wfD: "reqs_wf R \<Longrightarrow> R r = Some q \<Longrightarrow> req_wf q"
  by (simp add: reqs_wf_def)

lemma tab_wf_upd:
  assumes "tab_wf M ocs" and "ocs ! t = Some c" and "t < length ocs" and "mset (elements c') = mset (elements c)"
  shows "tab_wf M (ocs[t := Some c'])"
  using assms by (auto simp: tab_wf_def nth_list_update)

lemma get_req_wf: "get_req r d = Inr q \<Longrightarrow> dev_wf M d \<Longrightarrow> req_wf q"
  by (auto simp: get_req_def dev_wf_def reqs_wf_def deref_def split: option.splits)

lemmas get_req_bind [wf_bind] = holds_read [where m = "get_req r d" for r d]
lemmas execute_sqe_bind [wf_bind] = holds_read [where m = "execute_sqe n cmds arg fn q" for n cmds arg fn q]
lemmas get_prog_bind [wf_bind] = holds_read [where m = "get_prog q d" for q d]

text \<open>The two shapes of an operation that keeps the invariant.\<close>

abbreviation keeps :: "(nat \<Rightarrow> nat multiset) \<Rightarrow> acc_dev res \<Rightarrow> bool" where
  "keeps M \<equiv> holds (dev_wf M)"

abbreviation keeps2 :: "(nat \<Rightarrow> nat multiset) \<Rightarrow> ('a \<times> acc_dev) res \<Rightarrow> bool" where
  "keeps2 M \<equiv> holds (\<lambda>r. dev_wf M (snd r))"

section \<open>Command buffers and rings\<close>

lemma unat_mod_SQ [simp]: "unat (of_nat (n mod SQ_SIZE) :: u32) < SQ_SIZE"
proof -
  have "n mod SQ_SIZE < 32" by (simp add: SQ_SIZE_def)
  then show ?thesis by (simp add: unat_of_nat_small SQ_SIZE_def)
qed

lemma queue_wf_heads:
  "queue_wf q \<Longrightarrow> queue_wf (q\<lparr>inner_tail := of_nat (n mod SQ_SIZE)\<rparr>)"
  "queue_wf q \<Longrightarrow> queue_wf (q\<lparr>cq_head := of_nat (n mod SQ_SIZE)\<rparr>)"
  using unat_mod_SQ [of n] by (simp_all add: queue_wf_def SQ_SIZE_def CQ_SIZE_def)

lemma sq_copy_length: "sq_copy n i cmds tail ring = Inr ring' \<Longrightarrow> length ring' = length ring"
  by (induction n i cmds tail ring rule: sq_copy.induct) (auto simp: rbind_Inr_iff dest!: arr_set_InrD)

lemma submit_cmd_wf:
  "submit_cmd n cmds arg fn q = Inr (cmds', q') \<Longrightarrow> queue_wf q \<Longrightarrow> queue_wf q' \<and> length cmds' = length cmds"
  by (auto simp: submit_cmd_def Let_def rbind_Inr_iff queue_wf_def simp del: of_nat_add dest!: sq_copy_length arr_set_InrD)

lemma execute_sqe_wf:
  "execute_sqe n cmds arg fn q = Inr (cid, cmds', q') \<Longrightarrow> queue_wf q \<Longrightarrow> queue_wf q' \<and> length cmds' = length cmds"
  by (auto simp: execute_sqe_def Let_def rbind_Inr_iff split: if_splits dest!: submit_cmd_wf)

lemma remap_op_words_length:
  "remap_op_words m ctxs rx src i j dst = Inr (j', dst') \<Longrightarrow> length dst' = length dst"
  by (auto simp: remap_op_words_def Let_def rbind_Inr_iff split: option.splits if_splits dest!: arr_set_InrD)

lemma remap_apply_length: "remap_apply n i j m ctxs rx src dst = Inr dst' \<Longrightarrow> length dst' = length dst"
proof (induction n i j m ctxs rx src dst rule: remap_apply.induct)
  case (2 n i j m ctxs rx src dst)
  from "2.prems" obtain j1 d1 where 1: "remap_op_words m ctxs rx src i j dst = Inr (j1, d1)"
    "remap_apply n (Suc i) j1 m ctxs rx src d1 = Inr dst'" by (auto simp: rbind_Inr_iff)
  from "2.IH" [OF 1(1) refl 1(2)] remap_op_words_length [OF 1(1)] show ?case by simp
qed simp

lemma id_remap_length: "id_remap m ctxs rx src dst = Inr dst' \<Longrightarrow> length dst' = length dst"
  by (auto simp: id_remap_def Let_def rbind_Inr_iff split: if_splits dest!: remap_apply_length)

lemma poll_cq_loop_wf:
  assumes "poll_cq_loop fuel run_cb incr has (q, c) = Inr (has', q', c')" and "queue_wf q" and "P c"
    and "\<And>f w e a q c q' c'. run_cb f w e a (q, c) = Inr (q', c') \<Longrightarrow> queue_wf q \<Longrightarrow> P c \<Longrightarrow> queue_wf q' \<and> P c'"
  shows "queue_wf q' \<and> P c'"
  using assms(1-3)
proof (induction fuel arbitrary: incr has q c)
  case (Suc fuel)
  show ?case
  proof (cases "inner_tail q = cq_tail q")
    case True
    then show ?thesis using Suc.prems queue_wf_heads(2) [of q "unat (cq_head q) + incr"] by (auto split: if_splits)
  next
    case False
    let ?q1 = "q\<lparr>inner_tail := of_nat ((unat (inner_tail q) + 1) mod SQ_SIZE)\<rparr>"
    from False Suc.prems(1) obtain e fn where e: "arr_get (cq q) ((unat (cq_head q) + incr) mod CQ_SIZE) = Inr e"
      "arr_get (cmd_cb_fns q) (unat (cqe_cid e)) = Inr fn" by (auto simp: Let_def rbind_Inr_iff)
    show ?thesis
    proof (cases fn)
      case None
      with False Suc.prems(1) e have "poll_cq_loop fuel run_cb (Suc incr) True (?q1, c) = Inr (has', q', c')"
        by (simp add: Let_def)
      from Suc.IH [OF this queue_wf_heads(1) [OF Suc.prems(2)] Suc.prems(3)] show ?thesis .
    next
      case (Some f)
      let ?q2 = "?q1\<lparr>cq_head := of_nat ((unat (cq_head ?q1) + Suc incr) mod SQ_SIZE)\<rparr>"
      from Some False Suc.prems(1) e obtain w a qc cc where cb: "run_cb f w e a (?q2, c) = Inr (qc, cc)"
        "poll_cq_loop fuel run_cb 0 True (qc, cc) = Inr (has', q', c')"
        by (auto simp: Let_def rbind_Inr_iff)
      have "queue_wf qc \<and> P cc"
        using assms(4) [OF cb(1) queue_wf_heads(2) [OF queue_wf_heads(1) [OF Suc.prems(2)]] Suc.prems(3)] .
      then show ?thesis using Suc.IH [OF cb(2)] by blast
    qed
  qed
qed simp

section \<open>Updates of single objects\<close>

lemma upd_req_wf:
  assumes "dev_wf M d" and "\<And>q. req_wf q \<Longrightarrow> req_wf (f q)"
  shows "keeps M (upd_req r f d)"
  using assms by (auto simp: upd_req_def dev_wf_def deref_def intro!: holds_read split: option.splits dest: reqs_wfD)

lemma upd_elm_wf: "dev_wf M d \<Longrightarrow> keeps M (upd_elm e f d)"
  by (auto simp: upd_elm_def dev_wf_def intro!: wf_bind)

lemma upd_chan_wf: "dev_wf M d \<Longrightarrow> keeps M (upd_chan c f d)"
  by (auto simp: upd_chan_def dev_wf_def intro!: wf_bind)

lemma set_chan_pool_wf [simp]: "dev_wf M (set_chan_pool t xs d) = dev_wf M d"
  by (simp add: set_chan_pool_def dev_wf_def)

lemma tq_move_wf:
  assumes "tab_wf M ocs" and "arr_get ocs t = Inr (Some c)" and "tq_remove e (elements c) = Inr els"
  shows "tab_wf M (ocs[t := Some (c\<lparr>elements := e # els\<rparr>)])" "tab_wf M (ocs[t := Some (c\<lparr>elements := els @ [e]\<rparr>)])"
  using tab_wf_upd [OF assms(1), of t c] assms(2,3) by (auto dest!: arr_get_InrD tq_remove_InrD)

lemma lock_element_wf: "dev_wf M d \<Longrightarrow> keeps M (lock_element r e d)"
  by (auto simp: lock_element_def dev_wf_def intro!: wf_bind tq_move_wf(2) split: option.split)

section \<open>Choosing operators\<close>

lemma choose_operator_wf: "dev_wf M d \<Longrightarrow> keeps2 M (choose_operator r preempt p i used d)"
  by (auto simp: choose_operator_def Let_def dev_wf_def busy_elsewhere_def req_wf_def
      intro!: wf_bind holds_read split: prod.split option.split dest!: get_req_wf arr_set_InrD)

lemma choose_operators_wf: "dev_wf M d \<Longrightarrow> keeps2 M (choose_operators r preempt p i n used d)"
proof (induction n arbitrary: i used d)
  case (Suc n)
  show ?case using choose_operator_wf [OF Suc.prems, of r preempt p i used] Suc.IH
    by (auto intro!: holds_bind split: sum.split)
qed simp

section \<open>The runtime over a channel driver\<close>

text \<open>The laws of a channel driver: none of its functions breaks the invariant.\<close>

locale acc_runtime =
  fixes M :: "nat \<Rightarrow> nat multiset" and ops :: chan_ops
  assumes apply_wf: "dev_wf M d \<Longrightarrow> keeps M (channel_apply ops c d)"
    and release_wf: "dev_wf M d \<Longrightarrow> keeps M (channel_release ops c d)"
    and pause_wf: "dev_wf M d \<Longrightarrow> keeps M (channel_pause ops c d)"
    and poller_wf: "dev_wf M d \<Longrightarrow> keeps M (channel_poller ops c d)"
    and send_wf: "dev_wf M d \<Longrightarrow> keeps M (channel_send ops c d)"
    and recv_wf: "dev_wf M d \<Longrightarrow> keeps M (channel_recv ops c d)"
begin

lemmas step_binds [wf_bind] =
  holds_bind [OF upd_req_wf [where M = M]] holds_bind [OF upd_elm_wf [where M = M]]
  holds_bind [OF upd_chan_wf [where M = M]] holds_bind [OF holds_for_each [where P = "dev_wf M"]]
  holds_bind [OF apply_wf] holds_bind [OF release_wf] holds_bind [OF pause_wf]

lemmas wf_defs = dev_wf_def req_wf_def

lemma for_bound_wf:
  assumes "dev_wf M d" and "\<And>i d. dev_wf M d \<Longrightarrow> keeps M (f i d)"
  shows "keeps M (for_bound b f is d)"
  using assms(1)
proof (induction "is" arbitrary: d)
  case (Cons i "is")
  have "keeps M (rbind (f i d) (for_bound b f is))"
    using assms(2) [OF Cons.prems] Cons.IH by (rule holds_bind)
  then show ?case using Cons.prems by (auto intro!: holds_read [where m = "b d"])
qed simp

lemma each_wf:
  assumes "dev_wf M d" and "\<And>i d. dev_wf M d \<Longrightarrow> keeps M (f i d)"
  shows "keeps M (each_tx r f d)" "keeps M (each_rx r f d)"
  using for_bound_wf [OF assms] by (simp_all add: each_tx_def each_rx_def)

lemma on_wf:
  assumes "\<And>c d. dev_wf M d \<Longrightarrow> keeps M (f c d)" and "dev_wf M d"
  shows "keeps M (on_tx f r i d)" "keeps M (on_rx f r i d)"
  using assms by (auto simp: on_tx_def on_rx_def intro!: wf_bind split: option.split)

lemmas each_binds [wf_bind] = holds_bind [OF each_wf(1)] holds_bind [OF each_wf(2)]

lemma apply_channel_wf: "dev_wf M d \<Longrightarrow> keeps2 M (spdk_hlsacccompute_apply_channel ops t d)"
  by (auto simp: spdk_hlsacccompute_apply_channel_def intro!: wf_bind split: list.split pool_entry.split)

lemma release_channel_wf: "dev_wf M d \<Longrightarrow> keeps2 M (spdk_hlsacccompute_release_channel ops c d)"
  by (auto simp: spdk_hlsacccompute_release_channel_def intro!: wf_bind split: option.split)

lemmas chan_binds [wf_bind] = holds_bind [OF apply_channel_wf] holds_bind [OF release_channel_wf]

lemma bind_rx_channel_wf: "dev_wf M d \<Longrightarrow> keeps2 M (bind_rx_channel ops r i d)"
  by (auto simp: bind_rx_channel_def req_wf_def rbind_assoc intro!: wf_bind split: option.split)

lemma channel_dest_bind [wf_bind]: "(\<And>x. channel_dest q p i = Inr x \<Longrightarrow> holds Q (f x)) \<Longrightarrow> holds Q (rbind (channel_dest q p i) f)"
  by (rule holds_read)

lemma bind_tx_channel_wf: "dev_wf M d \<Longrightarrow> keeps2 M (bind_tx_channel ops r p i d)"
  by (auto simp: bind_tx_channel_def req_wf_def rbind_assoc intro!: wf_bind split: option.split)

lemma bind_channels_wf:
  assumes "\<And>i d. dev_wf M d \<Longrightarrow> keeps2 M (f i d)" and "dev_wf M d"
  shows "keeps2 M (bind_channels f is d)"
  using assms(2)
proof (induction "is" arbitrary: d)
  case (Cons i "is")
  show ?case using Cons.IH
    by (auto intro!: holds_bind [OF assms(1) [OF Cons.prems]] split: sum.split)
qed simp

lemmas bind_binds [wf_bind] = holds_bind [OF bind_channels_wf]

lemma remap_request_wf: "dev_wf M d \<Longrightarrow> keeps M (remap_request r p d)"
  unfolding remap_request_def
  by (rule holds_read, drule (1) get_req_wf)
    (auto simp: wf_defs intro!: holds_read dest!: id_remap_length)

lemma submit_apply_wf: "dev_wf M d \<Longrightarrow> keeps M (submit_apply r p d)"
  unfolding submit_apply_def
  by (rule holds_read, drule (1) get_req_wf)
    (auto simp: wf_defs intro!: holds_read dest!: execute_sqe_wf)

lemma rebind_wf: "dev_wf M d \<Longrightarrow> keeps M (rebind_tx r p i d)" "dev_wf M d \<Longrightarrow> keeps M (rebind_rx r i d)"
  by (auto simp: rebind_tx_def rebind_rx_def intro!: wf_bind upd_chan_wf split: option.split)

lemmas submit_binds [wf_bind] = holds_bind [OF remap_request_wf] holds_bind [OF submit_apply_wf]

lemma run_software_wf: "dev_wf M d \<Longrightarrow> keeps2 M (run_software r p d)"
  by (auto simp: run_software_def Let_def req_wf_def intro!: wf_bind split: list.split)

lemmas pause_read [wf_bind] = holds_read [where m = "requests_to_pause q es acc d" for q es acc d]

lemma setup_hardware_wf: "dev_wf M d \<Longrightarrow> keeps2 M (setup_hardware ops r p preempt used d)"
  by (auto simp: setup_hardware_def req_wf_def
      intro!: wf_bind lock_element_wf bind_rx_channel_wf bind_tx_channel_wf split: prod.split sum.split)

text \<open>The recursive calls, as far as they are known to keep the invariant.\<close>

definition exec_wf :: "exec \<Rightarrow> bool" where
  "exec_wf ex \<longleftrightarrow> (\<forall>call d. dev_wf M d \<longrightarrow> keeps2 M (ex call d))"

lemma exec_wfD: "exec_wf ex \<Longrightarrow> dev_wf M d \<Longrightarrow> keeps2 M (ex call d)"
  by (simp add: exec_wf_def)

lemma poll_device_wf:
  assumes "exec_wf ex" and "dev_wf M d"
  shows "keeps M (poll_device fuel ex d)"
  unfolding poll_device_def spdk_hlsacccompute_poll_cq_def
proof (rule holds_read, clarsimp)
  let ?cb = "\<lambda>f w e a (q, d). rbind (ex (CCallback a) (d\<lparr>dq := q\<rparr>)) (\<lambda>(rc, d'). Inr (dq d', d'))"
  fix has q' d'
  assume run: "poll_cq_loop fuel ?cb 0 False (dq d, d) = Inr (has, q', d')"
  have "queue_wf q' \<and> dev_wf M d'"
  proof (rule poll_cq_loop_wf [OF run])
    show "queue_wf (dq d)" using assms(2) by (simp add: dev_wf_def)
    fix f w e a q c q' c'
    assume cb: "?cb f w e a (q, c) = Inr (q', c')" and wf: "queue_wf q" "dev_wf M c"
    then obtain rc where ex: "ex (CCallback a) (c\<lparr>dq := q\<rparr>) = Inr (rc, c')" "q' = dq c'"
      by (auto simp: rbind_Inr_iff)
    have "dev_wf M (c\<lparr>dq := q\<rparr>)" using wf by (simp add: dev_wf_def)
    from holdsD [OF exec_wfD [OF assms(1) this] ex(1)] ex(2) show "queue_wf q' \<and> dev_wf M c'"
      by (simp add: dev_wf_def)
  qed (rule assms(2))
  then show "dev_wf M (d'\<lparr>dq := q'\<rparr>)" by (simp add: dev_wf_def)
qed

lemmas exec_binds [wf_bind] = holds_bind [OF exec_wfD] holds_bind [OF poll_device_wf]

lemma sqe_execute_wf:
  assumes "exec_wf ex" and "dev_wf M d"
  shows "keeps2 M (sqe_execute fuel ex r d)"
  unfolding sqe_execute_def
proof (rule holds_read, goal_cases)
  case (1 q)
  with assms(2) have "req_wf q" by (rule get_req_wf [rotated])
  then have "dev_wf M (d\<lparr>requests := (requests d)(r \<mapsto> q\<lparr>status := ACC_REQ_EXECUTING\<rparr>), working_queue := w\<rparr>)" for w
    using assms(2) by (auto simp: wf_defs)
  then show ?case using assms by (auto simp: Let_def req_wf_def intro!: wf_bind rebind_wf)
qed

lemma pause_others_wf: "exec_wf ex \<Longrightarrow> dev_wf M d \<Longrightarrow> keeps M (pause_others ex r ps d)"
  by (auto simp: pause_others_def req_wf_def intro!: wf_bind holds_for_each [where P = "dev_wf M"])

lemmas sbind_read = holds_bind [OF setup_hardware_wf]

lemma run_applying_wf:
  assumes "exec_wf ex" and "dev_wf M d"
  shows "keeps2 M (run_applying fuel ops ex r preempt d)"
  using assms unfolding run_applying_def sbind_def
  by (auto simp: req_wf_def intro!: wf_bind run_software_wf holds_bind [OF choose_operators_wf]
      holds_bind [OF setup_hardware_wf] holds_bind [OF pause_others_wf] sqe_execute_wf split: sum.split)

lemma start_channels_wf: "dev_wf M d \<Longrightarrow> keeps2 M (start_channels ops r d)"
  by (auto simp: start_channels_def req_wf_def intro!: wf_bind on_wf upd_elm_wf recv_wf send_wf split: option.split)

lemma run_body_wf:
  assumes "exec_wf ex" and "dev_wf M d"
  shows "keeps2 M (run_body fuel ops ex r preempt d)"
  unfolding run_body_def
proof (rule holds_let, rule holds_read, rule holds_let, goal_cases)
  case (1 d0 q d1)
  have "dev_wf M d0" using 1(1) assms(2) by simp
  with 1(2) have "req_wf q" by (rule get_req_wf)
  then have "dev_wf M d1" using 1(3) \<open>dev_wf M d0\<close> by (auto simp: wf_defs)
  with assms(1) show ?case
    by (auto simp: req_wf_def intro!: wf_bind run_applying_wf sqe_execute_wf start_channels_wf)
qed

lemma prepare_wf: "dev_wf M d \<Longrightarrow> keeps M (spdk_hlsacccompute_prepare_for_next_sched r d)"
  by (auto simp: spdk_hlsacccompute_prepare_for_next_sched_def Let_def rbind_assoc intro!: wf_bind holds_reads(1) upd_req_wf)
    (simp_all add: wf_defs)

lemma run_next_wf: "exec_wf ex \<Longrightarrow> dev_wf M d \<Longrightarrow> keeps2 M (run_next ex r d)"
  by (auto simp: run_next_def intro!: wf_bind split: option.split)

lemma release_each_wf: "dev_wf M d \<Longrightarrow> keeps M (release_tx ops r i d)" "dev_wf M d \<Longrightarrow> keeps M (release_rx ops r i d)"
  by (auto simp: release_tx_def release_rx_def intro!: wf_bind)

lemma unlink_wf: "dev_wf M d \<Longrightarrow> keeps M (unlink_tx r i d)" "dev_wf M d \<Longrightarrow> keeps M (unlink_rx r i d)"
  by (auto simp: unlink_tx_def unlink_rx_def req_wf_def intro!: wf_bind upd_req_wf split: option.split)

lemma detach_elm_wf: "dev_wf M d \<Longrightarrow> keeps M (detach_elm r i d)"
  by (auto simp: detach_elm_def req_wf_def intro!: wf_bind upd_req_wf split: option.split)

lemma trim_context_wf: "dev_wf M d \<Longrightarrow> keeps M (trim_context r i d)"
  by (auto simp: trim_context_def intro!: wf_bind)

lemma pause_submit_wf:
  assumes "dev_wf M d" and "req_wf q" and "execute_sqe n (r_pauseops q) arg fn (dq d) = Inr (cid, cmds, q')"
  shows "dev_wf M (d\<lparr>dq := q', requests := (requests d)(r \<mapsto> q\<lparr>r_pauseops := cmds\<rparr>)\<rparr>)"
  using assms execute_sqe_wf [OF assms(3)] by (auto simp: wf_defs)

lemma pause_executing_wf:
  assumes "exec_wf ex" and "dev_wf M d"
  shows "keeps2 M (pause_executing ops ex r arg fn d)"
proof -
  have tail: "keeps2 M (if status q \<noteq> ACC_REQ_IDLE \<and> status q \<noteq> ACC_REQ_FINISHED then
       rbind (get_prog q d5) (\<lambda>p.
       rbind (execute_sqe (apply_ops_size p) (r_pauseops q) arg fn (dq d5)) (\<lambda>(cid, cmds, q').
       let d6 = d5\<lparr>dq := q', requests := (requests d5)(r \<mapsto> q\<lparr>r_pauseops := cmds\<rparr>)\<rparr> in
       rbind (for_each (detach_elm r) [0..<unat (apply_operators_num p)] d6) (\<lambda>d7.
       rbind (tq_remove r (working_queue d7)) (\<lambda>w. Inr (0, d7\<lparr>working_queue := w\<rparr>)))))
     else run_next ex r d5)" if "dev_wf M d5" "get_req r d5 = Inr q" for d5 q
    using that assms(1) pause_submit_wf [OF that(1) get_req_wf [OF that(2,1)]]
    by (auto simp: Let_def intro!: wf_bind run_next_wf detach_elm_wf split: prod.split)
  show ?thesis unfolding pause_executing_def using assms
    by (auto simp: req_wf_def intro!: wf_bind tail on_wf pause_wf poller_wf release_each_wf unlink_wf simp del: if_split split del: if_split)
qed

lemma pause_confirmed_wf:
  assumes "exec_wf ex" and "dev_wf M d"
  shows "keeps2 M (pause_confirmed ops ex r d)"
  using assms unfolding pause_confirmed_def
  by (auto simp: req_wf_def intro!: wf_bind holds_bind [OF prepare_wf] run_next_wf trim_context_wf on_wf pause_wf
      release_each_wf unlink_wf)

lemma pause_body_wf: "exec_wf ex \<Longrightarrow> dev_wf M d \<Longrightarrow> keeps2 M (pause_body ops ex r arg fn d)"
  by (auto simp: pause_body_def intro!: wf_bind pause_executing_wf pause_confirmed_wf split: req_status.split)

lemma callback_body_wf: "exec_wf ex \<Longrightarrow> dev_wf M d \<Longrightarrow> keeps2 M (callback_body ex arg d)"
  unfolding callback_body_def by (rule holds_read) (simp add: exec_wfD)

theorem acc_exec_wf: "exec_wf (acc_exec n ops)"
proof (induction n)
  case (Suc n)
  have "keeps2 M (acc_exec (Suc n) ops call d)" if "dev_wf M d" for call d
    using Suc that by (cases call) (simp_all add: run_body_wf pause_body_wf callback_body_wf)
  then show ?case unfolding exec_wf_def by blast
qed (simp add: exec_wf_def)

lemmas run_wf = exec_wfD [OF acc_exec_wf]

lemma run_request_wf: "dev_wf M d \<Longrightarrow> keeps2 M (spdk_hlsacccompute_run_request fuel now ops r preempt d)"
  by (auto simp: spdk_hlsacccompute_run_request_def run_request_inner_def req_wf_def
      intro!: wf_bind holds_bind [OF run_wf] holds_bind [OF prepare_wf])

lemma pause_request_wf: "dev_wf M d \<Longrightarrow> keeps2 M (spdk_hlsacccompute_pause_request fuel ops r arg fn d)"
  by (simp add: spdk_hlsacccompute_pause_request_def run_wf)

lemma sched_loop_wf: "dev_wf M d \<Longrightarrow> keeps2 M (sched_loop n ops again d)"
proof (induction n arbitrary: again d)
  case (Suc n)
  have "dev_wf M (d\<lparr>waiting_queue := (waiting_queue d)[k := xs]\<rparr>)" for k xs
    using Suc.prems by (simp add: dev_wf_def)
  then show ?case using Suc.IH Suc.prems
    by (auto simp: Let_def run_request_inner_def intro!: holds_reads(1) get_req_bind holds_bind [OF run_wf] split: list.split)
qed simp

lemma schedule_request_wf: "dev_wf M d \<Longrightarrow> keeps M (spdk_hlsacccompute_schedule_request fuel ops d)"
proof -
  assume wf: "dev_wf M d"
  have ptr: "dev_wf M (d\<lparr>waiting_queue_ptr := 0\<rparr>)" if "dev_wf M d" for d
    using that by (simp add: dev_wf_def)
  then show ?thesis using wf
    by (auto simp: spdk_hlsacccompute_schedule_request_def intro!: wf_bind holds_bind [OF sched_loop_wf] prepare_wf)
qed

lemma free_buffers_wf: "dev_wf M d \<Longrightarrow> keeps M (free_buffers r i d)"
  by (auto simp: free_buffers_def Let_def intro!: wf_bind)

lemma free_operator_wf: "dev_wf M d \<Longrightarrow> keeps M (free_operator r i d)"
proof -
  have move: "dev_wf M (d\<lparr>opconfigs := (opconfigs d)[t := Some (c\<lparr>elements := e # els\<rparr>)]\<rparr>)"
    if "dev_wf M d" "arr_get (opconfigs d) t = Inr (Some c)" "tq_remove e (elements c) = Inr els" for d t c e els
    using that tq_move_wf(1) [OF _ that(2,3)] by (simp add: dev_wf_def)
  assume "dev_wf M d"
  then show ?thesis
    by (auto simp: free_operator_def Let_def intro!: wf_bind move split: option.split)
qed

lemma free_channel_wf: "dev_wf M d \<Longrightarrow> keeps M (free_tx_channel ops r i d)" "dev_wf M d \<Longrightarrow> keeps M (free_rx_channel ops r i d)"
  by (auto simp: free_tx_channel_def free_rx_channel_def intro!: wf_bind unlink_wf split: option.split)

lemma free_announce_wf:
  assumes "dev_wf M d" and "req_wf q"
  shows "keeps M (free_announce r sendsqe q d)"
proof -
  have "dev_wf M (d\<lparr>dq := q', requests := (requests d)(r \<mapsto> q\<lparr>r_freeops := cmds\<rparr>)\<rparr>)"
    if "execute_sqe n (r_freeops q) arg fn (dq d) = Inr (cid, cmds, q')" for n arg fn cid cmds q'
    using assms execute_sqe_wf [OF that] by (auto simp: wf_defs)
  moreover have "dev_wf M (d\<lparr>sw_resources_pool := w, requests := (requests d)(r \<mapsto> q\<lparr>sw_res := x\<rparr>)\<rparr>)" for w x
    using assms by (auto simp: wf_defs)
  ultimately show ?thesis using assms by (auto simp: free_announce_def intro!: holds_read)
qed

lemma free_hardware_wf: "dev_wf M d \<Longrightarrow> keeps M (free_hardware ops r q p d)"
  by (auto simp: free_hardware_def intro!: wf_bind each_wf free_operator_wf free_channel_wf)

lemma recycle_request_wf: "dev_wf M d \<Longrightarrow> keeps M (recycle_request r d)"
  by (auto simp: recycle_request_def wf_defs zero_request_def intro!: wf_bind)

theorem free_request_wf: "dev_wf M d \<Longrightarrow> keeps2 M (spdk_hlsacccompute_free_request fuel now ops r sendsqe d)"
  unfolding spdk_hlsacccompute_free_request_def
  apply (rule holds_bind [OF upd_req_wf [where M = M]], assumption, simp add: req_wf_def)
  apply (rule holds_read, frule (1) get_req_wf)
  by (auto intro!: wf_bind holds_bind [OF free_announce_wf] free_buffers_wf
      holds_bind [OF free_hardware_wf] holds_bind [OF recycle_request_wf] holds_bind [OF schedule_request_wf])

lemma poller_step_wf: "dev_wf M d \<Longrightarrow> keeps M (spdk_hlsacccompute_poller fuel ops d)"
  by (simp add: spdk_hlsacccompute_poller_def poll_device_wf acc_exec_wf)

end

lemma run_easy_sw_wf:
  assumes "dev_wf M d"
  shows "keeps M (run_easy_sw funcs n r d)"
  unfolding run_easy_sw_def
proof (rule holds_read, rule holds_read, goal_cases)
  case (1 q u)
  have "req_wf q" using 1(1) assms by (rule get_req_wf)
  then have "dev_wf M (d\<lparr>requests := (requests d)(r \<mapsto> q\<lparr>tx_vos := (tx_vos q)[0 := ts], rx_vos := (rx_vos q)[0 := xs]\<rparr>),
      tx_channel_pool := a, rx_channel_pool := b\<rparr>)" for ts xs a b
    using assms by (auto simp: dev_wf_def req_wf_def)
  then show ?case using assms
    by (cases n; auto simp: rbind_assoc req_wf_def
        intro!: holds_reads(1) holds_bind [OF upd_req_wf [where M = M]] split: list.split)
qed

end
