(* ===== verification/Nest_System.thy ===== *)
theory Nest_System
  imports Mcdma_Laws Acc_Inv Acc_Sched_Laws
begin

text \<open>
  The device side put together: the scheduler of the accelerator runtime over the channel functions
  of the NVMe target over the DMA layer.  A request ends in its callback
  (\<^verbatim>\<open>hlsacccompute_req_callback\<close>), which frees the request and schedules the next ones, which use
  channels again; \<open>nest_ops\<close> unfolds this recursion to a bounded depth, beyond which the result is
  \<open>Hang\<close>.
\<close>

section \<open>The callback and the function table\<close>

definition hlsacccompute_req_callback :: "nat \<Rightarrow> u64 \<Rightarrow> chan_ops \<Rightarrow> nat \<Rightarrow> acc_dev \<Rightarrow> acc_dev res" where
  "hlsacccompute_req_callback fuel now ops r d =
     rbind (get_req r d) (\<lambda>q.
     rbind (spdk_hlsacccompute_free_request fuel now ops r True (d\<lparr>completions := completions d @ [(r, req_result q)]\<rparr>)) (\<lambda>(rc, d').
     Inr d'))"

definition chan_send :: "dma_drv \<Rightarrow> nat \<Rightarrow> acc_dev \<Rightarrow> acc_dev res" where
  "chan_send drv c d = rbind (get_chan c d) (\<lambda>ch.
     if is_tx ch then rbind (tx_channel_send drv c d) (\<lambda>(rc, d'). Inr d') else Inr d)"

definition chan_recv :: "dma_drv \<Rightarrow> nat \<Rightarrow> acc_dev \<Rightarrow> acc_dev res" where
  "chan_recv drv c d = rbind (get_chan c d) (\<lambda>ch.
     if is_tx ch then Inr d else rbind (rx_channel_recv drv c d) (\<lambda>(rc, d'). Inr d'))"

fun nest_ops :: "nat \<Rightarrow> dma_drv \<Rightarrow> u64 \<Rightarrow> chan_ops" where
  "nest_ops 0 drv now = \<lparr>channel_apply = (\<lambda>c d. Inl Hang), channel_release = (\<lambda>c d. Inl Hang), channel_pause = (\<lambda>c d. Inl Hang),
     channel_poller = (\<lambda>c d. Inl Hang), channel_send = (\<lambda>c d. Inl Hang), channel_recv = (\<lambda>c d. Inl Hang)\<rparr>"
| "nest_ops (Suc n) drv now =
     (let cb = hlsacccompute_req_callback n now (nest_ops n drv now) in
      \<lparr>channel_apply = tx_rx_channel_apply drv,
       channel_release = tx_rx_channel_release n drv cb,
       channel_pause = tx_rx_channel_pause drv,
       channel_poller = (\<lambda>c d. rbind (tx_rx_channel_poller n drv cb c d) (\<lambda>(rc, d'). Inr d')),
       channel_send = chan_send drv,
       channel_recv = chan_recv drv\<rparr>)"

section \<open>The channel functions keep the invariant\<close>

lemmas chan_reads [wf_bind] =
  holds_read [where m = "get_chan c d" for c d] holds_read [where m = "get_info c d" for c d]
  holds_read [where m = "chan_vos t ch d" for t ch d] holds_read [where m = "has_callback ch d" for ch d]
  holds_read [where m = "spdk_axi_dma_enable_channel e x a" for e x a]
  holds_read [where m = "spdk_axi_dma_stop_channel e x a" for e x a]
  holds_read [where m = "spdk_axi_dma_tx_channel_send_seg e v a x iovs cb ctx ctrl l" for e v a x iovs cb ctx ctrl l]
  holds_read [where m = "spdk_axi_dma_rx_channel_recv e v a x iovs cb ctx" for e v a x iovs cb ctx]

lemma upd_info_wf: "dev_wf M d \<Longrightarrow> keeps M (upd_info c f d)"
  by (auto simp: upd_info_def intro!: wf_bind)

lemma set_vos_wf: "req_wf q \<Longrightarrow> req_wf (set_vos t i xs q)"
  by (simp add: set_vos_def req_wf_def)

lemma drop_vo_wf: "dev_wf M d \<Longrightarrow> keeps M (drop_vo front t ch d)"
  by (auto simp: drop_vo_def intro!: wf_bind holds_bind [OF upd_req_wf [where M = M]] set_vos_wf split: list.split option.split)

lemma poll_axi_wf: "dev_wf M d \<Longrightarrow> keeps2 M (poll_axi drv x d)"
  by (auto simp: poll_axi_def intro!: holds_read)

lemma free_axi_io_wf: "dev_wf M d \<Longrightarrow> keeps M (free_axi_io p d)"
  by (auto simp: free_axi_io_def intro!: holds_read)

lemma tx_channel_done_wf: "dev_wf M d \<Longrightarrow> keeps M (tx_channel_done c d)"
  by (auto simp: tx_channel_done_def rbind_assoc intro!: wf_bind holds_bind [OF drop_vo_wf [where M = M]] upd_info_wf split: list.split)

lemma tx_channel_send_wf: "dev_wf M d \<Longrightarrow> keeps2 M (tx_channel_send drv c d)"
  by (auto simp: tx_channel_send_def Let_def intro!: wf_bind holds_bind [OF upd_info_wf [where M = M]]
      holds_bind [OF tx_channel_done_wf [where M = M]] split: list.split option.split)

lemma rx_channel_recv_wf: "dev_wf M d \<Longrightarrow> keeps2 M (rx_channel_recv drv c d)"
  by (auto simp: rx_channel_recv_def Let_def intro!: wf_bind holds_bind [OF upd_info_wf [where M = M]] split: list.split option.split)

lemma rx_channel_done_wf:
  assumes cb: "\<And>r d. dev_wf M d \<Longrightarrow> keeps M (cb r d)" and "dev_wf M d"
  shows "keeps M (rx_channel_done drv cb c d)"
  using assms(2)
  by (auto simp: rx_channel_done_def finish_req_def rbind_assoc intro!: wf_bind cb holds_bind [OF drop_vo_wf [where M = M]]
      holds_bind [OF rx_channel_recv_wf [where M = M]] split: list.split option.split)

lemma poller_loop_wf: "dev_wf M d \<Longrightarrow> keeps2 M (poller_loop fuel drv t c x io acc d)"
proof (induction fuel arbitrary: io acc d)
  case (Suc fuel)
  show ?case using Suc.prems
    by (auto simp: Let_def intro!: holds_reads Suc.IH holds_bind [OF upd_info_wf [where M = M]] holds_bind [OF poll_axi_wf [where M = M]]
        holds_bind [OF free_axi_io_wf [where M = M]] split: option.split)
qed simp

lemma account_wf: "dev_wf M d \<Longrightarrow> keeps2 M (account t ch n d)"
  by (auto simp: account_def Let_def intro!: wf_bind holds_bind [OF drop_vo_wf [where M = M]] split: list.split)

lemma add_result_wf: "dev_wf M d \<Longrightarrow> keeps M (add_result r n d)"
  by (auto simp: add_result_def req_wf_def intro!: upd_req_wf split: option.split)

lemma channel_done_wf:
  "(\<And>r d. dev_wf M d \<Longrightarrow> keeps M (cb r d)) \<Longrightarrow> dev_wf M d \<Longrightarrow> keeps M (channel_done drv cb t c d)"
  by (simp add: channel_done_def tx_channel_done_wf rx_channel_done_wf)

lemma channel_poller_wf:
  assumes cb: "\<And>r d. dev_wf M d \<Longrightarrow> keeps M (cb r d)" and "dev_wf M d"
  shows "keeps2 M (tx_rx_channel_poller fuel drv cb c d)"
  using assms(2) unfolding tx_rx_channel_poller_def sbind_def
  by (auto simp: Let_def rbind_assoc intro!: wf_bind holds_bind [OF poll_axi_wf [where M = M]] holds_bind [OF poller_loop_wf [where M = M]]
      holds_bind [OF add_result_wf [where M = M]] holds_bind [OF account_wf [where M = M]]
      holds_bind [OF channel_done_wf [where M = M, OF cb]] holds_bind [OF tx_channel_send_wf [where M = M]]
      holds_bind [OF upd_info_wf [where M = M]] split: sum.split)

lemma channel_apply_wf: "dev_wf M d \<Longrightarrow> keeps M (tx_rx_channel_apply drv c d)"
  by (auto simp: tx_rx_channel_apply_def intro!: wf_bind holds_bind [OF upd_info_wf [where M = M]])

lemma channel_pause_wf: "dev_wf M d \<Longrightarrow> keeps M (tx_rx_channel_pause drv c d)"
  by (auto simp: tx_rx_channel_pause_def rbind_assoc intro!: wf_bind holds_bind [OF upd_info_wf [where M = M]] split: list.split)

lemma reset_io_pool_wf: "dev_wf M d \<Longrightarrow> keeps M (reset_io_pool x d)"
  by (auto simp: reset_io_pool_def intro!: holds_read)

lemma channel_release_wf:
  assumes cb: "\<And>r d. dev_wf M d \<Longrightarrow> keeps M (cb r d)" and "dev_wf M d"
  shows "keeps M (tx_rx_channel_release fuel drv cb c d)"
  using assms(2)
  by (auto simp: tx_rx_channel_release_def rbind_assoc intro!: wf_bind holds_bind [OF channel_poller_wf [where M = M, OF cb]]
      holds_bind [OF upd_info_wf [where M = M]] holds_bind [OF reset_io_pool_wf [where M = M]] upd_info_wf split: list.split)

lemma req_callback_wf:
  assumes "acc_runtime M ops" and "dev_wf M d"
  shows "keeps M (hlsacccompute_req_callback fuel now ops r d)"
  using assms(2) unfolding hlsacccompute_req_callback_def
  by (auto intro!: wf_bind holds_bind [OF acc_runtime.free_request_wf [OF assms(1)]])

text \<open>The function table of the NVMe target is a channel driver, at every depth of the recursion.\<close>

lemma nest_ops_runtime: "acc_runtime M (nest_ops n drv now)"
proof (induction n)
  case (Suc n)
  note cb = req_callback_wf [OF Suc, where fuel = n and now = now]
  show ?case
  proof unfold_locales
    fix c d
    assume wf: "dev_wf M d"
    show "keeps M (channel_apply (nest_ops (Suc n) drv now) c d)" using wf by (simp add: channel_apply_wf Let_def)
    show "keeps M (channel_release (nest_ops (Suc n) drv now) c d)" using wf cb by (simp add: channel_release_wf Let_def)
    show "keeps M (channel_pause (nest_ops (Suc n) drv now) c d)" using wf by (simp add: channel_pause_wf Let_def)
    show "keeps M (channel_poller (nest_ops (Suc n) drv now) c d)"
      using holds_bind [OF channel_poller_wf [OF cb wf], where Q = "dev_wf M"] by (auto simp: Let_def)
    show "keeps M (channel_send (nest_ops (Suc n) drv now) c d)"
      using wf by (auto simp: chan_send_def Let_def intro!: wf_bind holds_bind [OF tx_channel_send_wf])
    show "keeps M (channel_recv (nest_ops (Suc n) drv now) c d)"
      using wf by (auto simp: chan_recv_def Let_def intro!: wf_bind holds_bind [OF rx_channel_recv_wf])
  qed
qed (unfold_locales, simp_all)

interpretation nest: acc_runtime M "nest_ops n drv now" for M n drv now
  by (rule nest_ops_runtime)

section \<open>Runs of the system\<close>

lemma register_channel_wf: "dev_wf M d \<Longrightarrow> keeps M (spdk_hlsacccompute_register_channel c d)"
  by (auto simp: spdk_hlsacccompute_register_channel_def intro!: wf_bind)

lemma create_channel_one_wf: "dev_wf M d \<Longrightarrow> keeps2 M (create_channel_one al n k base i d)"
  by (auto simp: create_channel_one_def Let_def intro!: holds_bind [OF register_channel_wf [where M = M]]
      split: option.split prod.split)

lemma create_channel_loop_wf: "dev_wf M d \<Longrightarrow> keeps M (create_channel_loop n al cnt k base i d)"
proof (induction n arbitrary: i d)
  case (Suc n)
  show ?case using Suc.IH by (auto intro!: holds_bind [OF create_channel_one_wf [OF Suc.prems]])
qed simp

lemma create_axi_dma_channel_wf: "dev_wf M d \<Longrightarrow> keeps M (create_axi_dma_channel objs mcdma al n k base d)"
  by (simp add: create_axi_dma_channel_def create_channel_loop_wf)

lemma alloc_op_address_wf:
  "dev_wf M d \<Longrightarrow> holds (\<lambda>(arr', d'). length arr' = length arr \<and> dev_wf M d') (alloc_op_address vt p i n arr d)"
proof (induction n arbitrary: i arr d)
  case (Suc n)
  have one: "keeps2 M (alloc_context vt p i d)"
    using Suc.prems by (auto simp: alloc_context_def Let_def intro!: holds_reads split: list.split option.split)
  have "holds (\<lambda>(arr', d'). length arr' = length arr \<and> dev_wf M d')
      (rbind (arr_set arr i (Some c)) (\<lambda>arr'. alloc_op_address vt p (Suc i) n arr' d1))" if "dev_wf M d1" for c d1
    using Suc.IH [OF that, of _ "Suc i"] by (cases "i < length arr") (auto simp: arr_set_def holds_def)
  then show ?case by (auto intro!: holds_bind [OF one])
qed simp

lemma create_request_wf:
  assumes "dev_wf M d"
  shows "keeps2 M (spdk_hlsacccompute_create_request vt pp d)"
proof -
  have fill: "dev_wf M (d2\<lparr>requests := (requests d2)(r \<mapsto> q\<lparr>rx_vos := replicate 8 [], tx_vos := replicate 8 [],
      has_dev := b, acccontext := arr, status := s, req_program := pg, request_id := i, req_result := z\<rparr>)\<rparr>)"
    if "dev_wf M d2" "req_wf q" "length arr = 8" for d2 r q b arr s pg i z
    using that by (auto simp: dev_wf_def req_wf_def)
  have wf: "req_wf q" if "deref (requests d) (Some r) = Inr q" for r q
    using that assms get_req_wf [of r d q M] by (simp add: get_req_def)
  show ?thesis using assms
    by (auto simp: spdk_hlsacccompute_create_request_def Let_def intro!: holds_reads
        holds_bind [OF alloc_op_address_wf [where M = M]] fill wf split: list.split)
qed

lemma install_program_wf: "dev_wf M d \<Longrightarrow> dev_wf M (install_program i pp f p d)"
  by (simp add: install_program_def dev_wf_def)

lemma add_program_wf: "dev_wf M d \<Longrightarrow> keeps2 M (spdk_hlsacccompute_add_program pp d)"
proof -
  have "keeps2 M (add_program_loop n i pp d)" if "dev_wf M d" for n i
    using that by (induction n arbitrary: i)
      (auto simp: install_program_wf intro!: holds_reads holds_read [where m = "program_ok p d" for p d])
  then show "dev_wf M d \<Longrightarrow> ?thesis" by (simp add: spdk_hlsacccompute_add_program_def)
qed

lemma program_table_wf:
  "dev_wf M d \<Longrightarrow> keeps2 M (spdk_hlsacccompute_add_program_with_id pp i d)"
  "dev_wf M d \<Longrightarrow> keeps2 M (spdk_hlsacccompute_del_program i d)"
  by (auto simp: spdk_hlsacccompute_add_program_with_id_def spdk_hlsacccompute_del_program_def install_program_wf
      intro!: holds_reads holds_read [where m = "program_ok p d" for p d]) (simp_all add: dev_wf_def)

text \<open>One step of the device: a call of the target, a poller, a software thread, the controller writing
  its completion ring, or the DMA engine working.  \<open>n\<close> and \<open>fuel\<close> bound the recursion of a call, and \<open>now\<close> is
  the clock.\<close>

inductive nest_step :: "dma_drv \<Rightarrow> acc_dev \<Rightarrow> acc_dev \<Rightarrow> bool" for drv where
  create: "spdk_hlsacccompute_create_request vt pp d = Inr (r, d') \<Longrightarrow> nest_step drv d d'"
| fill: "upd_req r (\<lambda>q. q\<lparr>has_cb := True, priority := prio, has_dev := True, run_way := w, tx_vos := tv, rx_vos := rv\<rparr>) d = Inr d' \<Longrightarrow>
    length tv = 8 \<Longrightarrow> length rv = 8 \<Longrightarrow> nest_step drv d d'"
| run: "spdk_hlsacccompute_run_request fuel now (nest_ops n drv now) r preempt d = Inr (rc, d') \<Longrightarrow> nest_step drv d d'"
| poll: "spdk_hlsacccompute_poller fuel (nest_ops n drv now) d = Inr d' \<Longrightarrow> nest_step drv d d'"
| chan_poll: "channel_poller (nest_ops n drv now) c d = Inr d' \<Longrightarrow> nest_step drv d d'"
| software: "run_easy_sw funcs sz r d = Inr d' \<Longrightarrow> nest_step drv d d'"
| sw_done: "hlsacccompute_req_callback fuel now (nest_ops n drv now) r d = Inr d' \<Longrightarrow> nest_step drv d d'"
| add: "spdk_hlsacccompute_add_program pp d = Inr (rc, d') \<Longrightarrow> nest_step drv d d'"
| add_id: "spdk_hlsacccompute_add_program_with_id pp i d = Inr (rc, d') \<Longrightarrow> nest_step drv d d'"
| del: "spdk_hlsacccompute_del_program i d = Inr (rc, d') \<Longrightarrow> nest_step drv d d'"
| controller: "length es = 32 \<Longrightarrow> nest_step drv d (d\<lparr>dq := (dq d)\<lparr>cq := es, cq_tail := t\<rparr>\<rparr>)"
| engine: "nest_step drv d (d\<lparr>axi := ax\<rparr>)"

lemma nest_step_wf:
  assumes "nest_step drv d d'" and "dev_wf M d"
  shows "dev_wf M d'"
  using assms
proof (induction rule: nest_step.induct)
  case (create vt pp d r d')
  from holdsD [OF create_request_wf [OF create(2)] create(1)] show ?case by simp
next
  case (fill r rv tv w prio d d')
  have "keeps M (upd_req r (\<lambda>q. q\<lparr>has_cb := True, priority := prio, has_dev := True, run_way := w, tx_vos := tv, rx_vos := rv\<rparr>) d)"
    using fill(2-4) by (intro upd_req_wf) (simp_all add: req_wf_def)
  from holdsD [OF this fill(1)] show ?case .
next
  case (run fuel now n r preempt d rc d')
  from holdsD [OF nest.run_request_wf [OF run(2)] run(1)] show ?case by simp
next
  case (poll fuel n now d d')
  from holdsD [OF nest.poller_step_wf [OF poll(2)] poll(1)] show ?case .
next
  case (chan_poll n now c d d')
  from holdsD [OF nest.poller_wf [OF chan_poll(2)] chan_poll(1)] show ?case .
next
  case (software funcs sz r d d')
  from holdsD [OF run_easy_sw_wf [OF software(2)] software(1)] show ?case .
next
  case (sw_done fuel now n r d d')
  from holdsD [OF req_callback_wf [OF nest_ops_runtime sw_done(2)] sw_done(1)] show ?case .
next
  case (add pp d rc d')
  from holdsD [OF add_program_wf [OF add(2)] add(1)] show ?case by simp
next
  case (add_id pp i d rc d')
  from holdsD [OF program_table_wf(1) [OF add_id(2)] add_id(1)] show ?case by simp
next
  case (del i d rc d')
  from holdsD [OF program_table_wf(2) [OF del(2)] del(1)] show ?case by simp
next
  case (controller es d t)
  then show ?case by (simp add: dev_wf_def queue_wf_def CQ_SIZE_def)
next
  case (engine d ax)
  then show ?case by simp
qed

lemma nest_run_wf: "(nest_step drv)\<^sup>*\<^sup>* d d' \<Longrightarrow> dev_wf M d \<Longrightarrow> dev_wf M d'"
  by (induction rule: rtranclp_induct) (auto dest: nest_step_wf)

lemma dev_init_InrD:
  assumes "spdk_hlsacccompute_dev_init fd mm bar cpus al e cf table z = Inr (0, d0)"
  obtains d3 d4 where
    "spdk_hlsacccompute_qpair_create al (z\<lparr>program_list := replicate 64 None,
       dq := (dq z)\<lparr>sq_tail := 0, cq_head := 0, inner_tail := 0\<rparr>\<rparr>) = Inr d3"
    "spdk_hlsacccompute_init_opconfig e cf d3 = Inr (0, d4)"
    "d0 = d4\<lparr>next_mem_id := 1, dev_state := HLSDEV_IDLE\<rparr>"
  using assms by (auto simp: spdk_hlsacccompute_dev_init_def Let_def rbind_Inr_iff split: if_splits)

lemma qpair_create_InrD:
  assumes "spdk_hlsacccompute_qpair_create al d = Inr d3"
  shows "opconfigs d3 = replicate MAX_OPERATORS_SUPPORT None" "waiting_queue d3 = replicate 8 []"
    "requests d3 = al_req_mem al" "program_list d3 = program_list d" "waiting_queue_ptr d3 = waiting_queue_ptr d"
    "dq d3 = dq d" "register_op_type_num d3 = register_op_type_num d"
  using assms by (auto simp: spdk_hlsacccompute_qpair_create_def SLICE_WINDOWS_def simp del: upt_rec_numeral
      split: option.splits if_splits)

text \<open>A device object before its initialisation: the rings of the controller have their sizes.\<close>

definition raw_dev :: "acc_dev \<Rightarrow> bool" where
  "raw_dev z \<longleftrightarrow> length (sq (dq z)) = 32 \<and> length (cq (dq z)) = 32 \<and> length (cmd_cb_fns (dq z)) = 32
     \<and> length (cmd_cb_args (dq z)) = 32 \<and> waiting_queue_ptr z = 0 \<and> register_op_type_num z = 0"

lemma dev_init_wf:
  assumes "spdk_hlsacccompute_dev_init fd mm bar cpus al e cf table z = Inr (0, d0)" and "raw_dev z"
    and "config_ok cf ois" and "reqs_wf (al_req_mem al)"
  shows "dev_wf (\<lambda>t. mset (ids_of e ois t)) d0"
proof -
  from dev_init_InrD [OF assms(1)] obtain d3 d4 where
    q: "spdk_hlsacccompute_qpair_create al (z\<lparr>program_list := replicate 64 None,
       dq := (dq z)\<lparr>sq_tail := 0, cq_head := 0, inner_tail := 0\<rparr>\<rparr>) = Inr d3"
    and c: "spdk_hlsacccompute_init_opconfig e cf d3 = Inr (0, d4)"
    and d0: "d0 = d4\<lparr>next_mem_id := 1, dev_state := HLSDEV_IDLE\<rparr>" by blast
  note d3 = qpair_create_InrD [OF q]
  have reg: "register_op_type_num d3 = 0" using d3(7) assms(2) by (simp add: raw_dev_def)
  from init_opconfig_ok [OF d3(1) reg assms(3) refl, of e] c obtain oc rn oe where
    d4: "d4 = d3\<lparr>opconfigs := oc, register_op_type_num := rn, op_elms := oe\<rparr>" "table_ok d4"
      "\<forall>t < 64. elems_of d4 t = ids_of e ois t" by (auto split: if_splits)
  have "tab_wf (\<lambda>t. mset (ids_of e ois t)) (opconfigs d4)"
    using d4(2,3) by (simp add: tab_wf_def table_ok_def elems_of_def)
  then show ?thesis using d0 d4(1) d3(2-6) assms(2,4)
    by (simp add: dev_wf_def raw_dev_def queue_wf_def SQ_SIZE_def CQ_SIZE_def)
qed

lemma ids_of_ge: "x \<in> set (ids_of e ois t) \<Longrightarrow> e \<le> x"
  by (induction ois arbitrary: e) (fastforce split: if_splits)+

lemma ids_of_disjoint: "distinct (ids_of e ois t)" "t \<noteq> t' \<Longrightarrow> set (ids_of e ois t) \<inter> set (ids_of e ois t') = {}"
  by (induction ois arbitrary: e) (auto dest: ids_of_ge)

lemma wf_elems_ok:
  assumes "dev_wf (\<lambda>t. mset (ids_of e ois t)) d"
  shows "elems_ok d"
proof -
  have m: "mset (elems_of d t) = mset (ids_of e ois t)" if "t < 64" for t
    using assms that by (simp add: dev_wf_def tab_wf_def elems_of_def)
  have "distinct (elems_of d t)" "set (elems_of d t) = set (ids_of e ois t)" if "t < 64" for t
    using m [OF that] ids_of_disjoint(1) [of e ois t] by (auto dest: mset_eq_imp_distinct_iff mset_eq_setD)
  then show ?thesis using assms ids_of_disjoint(2) [of _ _ e ois] by (simp add: elems_ok_def dev_wf_def tab_wf_def)
qed

text \<open>C5. Whatever the target, the pollers, the software threads, the controller and the DMA engine do after
  a successful initialisation, in any order: every table, queue and command buffer of the device
  keeps its size, every index into the rings stays in range, and for each operator type the elements
  in its list are, up to order, those of the configuration file; no operator is lost or listed
  twice, and no operator is listed under two types, which is what the selection of operators relies
  on.\<close>

theorem nest_reachable_wf:
  assumes "spdk_hlsacccompute_dev_init fd mm bar cpus al e cf table z = Inr (0, d0)" and "raw_dev z"
    and "config_ok cf ois" and "reqs_wf (al_req_mem al)"
    and "create_axi_dma_channel objs mcdma cal cnt phy_id_begin base d0 = Inr d1"
    and "(nest_step drv)\<^sup>*\<^sup>* d1 d"
  shows "dev_wf (\<lambda>t. mset (ids_of e ois t)) d \<and> elems_ok d"
proof -
  have "dev_wf (\<lambda>t. mset (ids_of e ois t)) d1"
    using holdsD [OF create_axi_dma_channel_wf [OF dev_init_wf [OF assms(1-4)]] assms(5)] .
  from nest_run_wf [OF assms(6) this] show ?thesis by (simp add: wf_elems_ok)
qed

lemma sample_init:
  obtains d0 where "spdk_hlsacccompute_dev_init True (\<lambda>a. 0x7F0000000000) BAR_PHYS_ADDR True sample_alloc 7 sample_cf True zero_dev = Inr (0, d0)"
proof -
  let ?T = "(\<lambda>oi. unat (inf_type oi)) ` set sample_ops"
  have T: "?T = {0..<card ?T}" using sample_config(2) by simp
  have al: "al_vo sample_alloc = Some (\<lambda>i. i)" "al_ctx sample_alloc = Some (\<lambda>i. i)" "al_buf sample_alloc = Some (\<lambda>i. of_nat i + 1)"
    "al_req sample_alloc = Some (\<lambda>i. i)" "al_ctx2 sample_alloc" "register_op_type_num zero_dev = 0"
    by (simp_all add: sample_alloc_def zero_dev_def)
  have mm: "\<forall>a :: u64. (\<lambda>a. 0x7F0000000000 :: u64) a < 2 ^ 48" by simp
  from dev_init_state [OF mm al sample_config(1) refl T, of 7] that show ?thesis by blast
qed

theorem nest_reachable_wf_witness:
  "\<exists>d0 d1. spdk_hlsacccompute_dev_init True (\<lambda>a. 0x7F0000000000) BAR_PHYS_ADDR True sample_alloc 7 sample_cf True zero_dev = Inr (0, d0)
     \<and> create_axi_dma_channel True True sample_cal 3 5 100 d0 = Inr d1
     \<and> dev_wf (\<lambda>t. mset (ids_of 7 sample_ops t)) (d1\<lparr>axi := axi zero_dev\<rparr>)"
proof -
  obtain d0 where d0: "spdk_hlsacccompute_dev_init True (\<lambda>a. 0x7F0000000000) BAR_PHYS_ADDR True sample_alloc 7 sample_cf True zero_dev = Inr (0, d0)"
    by (rule sample_init)
  obtain d1 where d1: "create_axi_dma_channel True True sample_cal 3 5 100 d0 = Inr d1"
    using create_channel_loop_ok [OF sample_cal_avail, of "2 * 3" 3 5 100 0 d0] by (auto simp: create_axi_dma_channel_def)
  have raw: "raw_dev zero_dev" by (simp add: raw_dev_def zero_dev_def zero_queue_def)
  have mem: "reqs_wf (al_req_mem sample_alloc)" by (simp add: reqs_wf_def sample_alloc_def)
  have "(nest_step idle_drv)\<^sup>*\<^sup>* d1 (d1\<lparr>axi := axi zero_dev\<rparr>)" by (intro r_into_rtranclp nest_step.engine)
  from nest_reachable_wf [OF d0 raw sample_config(1) mem d1 this] d0 d1 show ?thesis by blast
qed

end
