(* ===== verification/Lwe_Encrypt.thy ===== *)
theory Lwe_Encrypt
  imports Nest_Prelude
begin

unbundle bit_operations_syntax

text \<open>
  The encryption operator of the device (\<^verbatim>\<open>operators/hls/lwe_encrypt/lwe_encrypt.cpp\<close>): it reads clear
  values from a stream, encrypts them under a binary LWE secret key kept in its context memory, and
  writes the ciphertexts as a stream, either as plain LWE ciphertexts or in the slot layout of the
  HPU.

  An \<^verbatim>\<open>ap_uint<n>\<close> is an \<open>n word\<close>; the widths of a packet are those of the ports of the synthesised
  operator.  A stream is the list of its packets; reading an empty stream blocks, which is
  \<open>Hang\<close>.  The operator returns what it wrote and what it left unread.  The context memory is the list
  of its 256 words.
\<close>

section \<open>Packets\<close>

record acc_pkt =
  pdata :: "512 word"
  pkeep :: u64
  pstrb :: u64
  puser :: u8
  plast :: bool
  pid :: u8
  pdest :: u8

type_synonym acc_ctx = "512 word list"

text \<open>\<^verbatim>\<open>x.range(lo + n - 1, lo)\<close>, read and assigned.\<close>

definition get_range :: "nat \<Rightarrow> 'a::len word \<Rightarrow> 'b::len word" where
  "get_range lo w = ucast (drop_bit lo w)"

definition set_range :: "nat \<Rightarrow> 'b::len word \<Rightarrow> 'a::len word \<Rightarrow> 'a word" where
  "set_range lo v w = (w AND NOT (push_bit lo (mask LENGTH('b)))) OR push_bit lo (ucast v)"

definition WORDS_PER_PKT :: nat where "WORDS_PER_PKT = 8"
definition MAX_LWE_DIMENSION :: nat where "MAX_LWE_DIMENSION = 4096"
definition STATIC_CONTEXT_BASE :: nat where "STATIC_CONTEXT_BASE = 3"
definition KEY_CONTEXT_BASE :: nat where "KEY_CONTEXT_BASE = 4"
definition BIG_LWE_DIMENSION :: nat where "BIG_LWE_DIMENSION = 2048"
definition GLWE_NOISE_BOUND_LOG2 :: u32 where "GLWE_NOISE_BOUND_LOG2 = 17"
definition MESSAGE_WIDTH :: nat where "MESSAGE_WIDTH = 2"
definition DELTA_LOG2 :: nat where "DELTA_LOG2 = 59"
definition DELTA :: u64 where "DELTA = push_bit DELTA_LOG2 1"
definition PC_DATA_WORDS :: nat where "PC_DATA_WORDS = 1024"
definition PC_SLOT_WORDS :: nat where "PC_SLOT_WORDS = 1536"
definition RADIX_BLOCK_COUNT :: nat where "RADIX_BLOCK_COUNT = 4"

definition INPUT_CLEAR :: u32 where "INPUT_CLEAR = 1"
definition INPUT_U8_RADIX :: u32 where "INPUT_U8_RADIX = 2"
definition NOISE_TUNIFORM :: u32 where "NOISE_TUNIFORM = 0"
definition NOISE_INPUT :: u32 where "NOISE_INPUT = 1"
definition OUTPUT_HPU_NATIVE :: u32 where "OUTPUT_HPU_NATIVE = 1"

section \<open>Randomness and key\<close>

text \<open>The generator updates its state and returns it.\<close>

definition next_random :: "u64 \<Rightarrow> u64" where
  "next_random state =
     (let s0 = (if state = 0 then 0x9e3779b97f4a7c15 else state);
          s1 = s0 XOR push_bit 13 s0;
          s2 = s1 XOR drop_bit 7 s1
      in s2 XOR push_bit 17 s2)"

definition sample_tuniform_like_noise :: "u64 \<Rightarrow> u32 \<Rightarrow> u64 \<times> u64" where
  "sample_tuniform_like_noise state bound_log2 =
     (if bound_log2 = 0 then (0, state)
      else let r = next_random state;
               magnitude_mask = (if bound_log2 < 64 then push_bit (unat bound_log2) 1 - 1 else NOT 0);
               magnitude = r AND magnitude_mask
           in (if bit r 63 then - magnitude else magnitude, r))"

definition secret_key_bit :: "acc_ctx \<Rightarrow> u32 \<Rightarrow> bool" where
  "secret_key_bit ctx index =
     (let context_word = of_nat KEY_CONTEXT_BASE + drop_bit 9 index; bit_index = index AND 511 in
      if context_word \<ge> 256 then False else bit (ctx ! unat context_word) (unat bit_index))"

section \<open>Output\<close>

text \<open>The output stream with the packet that is being filled.\<close>

record packer =
  pk_out :: "acc_pkt list"
  pk_data :: "512 word"
  pk_count :: "4 word"

definition payload_pkt :: "512 word \<Rightarrow> acc_pkt" where
  "payload_pkt x = \<lparr>pdata = x, pkeep = NOT 0, pstrb = NOT 0, puser = 0, plast = False, pid = 0, pdest = 0\<rparr>"

definition flush_output_packet :: "packer \<Rightarrow> packer" where
  "flush_output_packet k =
     (if pk_count k \<noteq> 0 then k\<lparr>pk_out := pk_out k @ [payload_pkt (pk_data k)], pk_data := 0, pk_count := 0\<rparr> else k)"

definition write_output_word :: "u64 \<Rightarrow> bool \<Rightarrow> packer \<Rightarrow> packer" where
  "write_output_word word force_flush k =
     (let word_index = unat (pk_count k);
          k1 = k\<lparr>pk_data := set_range (word_index * 64) word (pk_data k), pk_count := pk_count k + 1\<rparr>
      in if pk_count k1 = of_nat WORDS_PER_PKT \<or> force_flush then flush_output_packet k1 else k1)"

definition finish_pkt :: "512 word \<Rightarrow> acc_pkt" where
  "finish_pkt x = \<lparr>pdata = x, pkeep = NOT 0, pstrb = NOT 0, puser = 0xff, plast = True, pid = 0, pdest = 0\<rparr>"

definition error_pkt :: "u64 \<Rightarrow> u32 \<Rightarrow> acc_pkt" where
  "error_pkt magic code = finish_pkt (set_range 64 code (set_range 0 magic 0))"

definition write_error_packet :: "u32 \<Rightarrow> acc_pkt list \<Rightarrow> acc_pkt list" where
  "write_error_packet code out = out @ [error_pkt 0x4c57454552524f52 code]"

definition is_suda_done_packet :: "acc_pkt \<Rightarrow> bool" where
  "is_suda_done_packet pkt \<longleftrightarrow> (get_range 4 (puser pkt) :: 4 word) \<noteq> 0"

definition forward_done_packet :: "acc_pkt \<Rightarrow> acc_pkt list \<Rightarrow> acc_pkt list" where
  "forward_done_packet done_pkt out = out @ [done_pkt]"

definition write_synthetic_done_packet :: "acc_pkt list \<Rightarrow> acc_pkt list" where
  "write_synthetic_done_packet out = out @ [finish_pkt 0]"

section \<open>The layout of the HPU\<close>

fun reverse_index_loop :: "nat list \<Rightarrow> 11 word \<Rightarrow> 11 word \<Rightarrow> 11 word" where
  "reverse_index_loop [] index reversed = reversed"
| "reverse_index_loop (b # bs) index reversed =
     reverse_index_loop bs index (if bit index b then set_bit (10 - b) reversed else unset_bit (10 - b) reversed)"

definition reverse_psi64_mask_index :: "11 word \<Rightarrow> 11 word" where
  "reverse_psi64_mask_index index = reverse_index_loop [0..<11] index 0"

definition write_hpu_native_pc_slot :: "u64 list \<Rightarrow> u64 \<Rightarrow> bool \<Rightarrow> acc_pkt list \<Rightarrow> acc_pkt list" where
  "write_hpu_native_pc_slot pc_data body include_body out =
     (let k0 = \<lparr>pk_out = out, pk_data = 0, pk_count = 0\<rparr>;
          k1 = fold (\<lambda>i. write_output_word (pc_data ! i) False) [0..<PC_DATA_WORDS] k0;
          k2 = (if include_body then write_output_word body False k1 else k1);
          written_words = (if include_body then PC_DATA_WORDS + 1 else PC_DATA_WORDS);
          k3 = fold (\<lambda>i. write_output_word 0 False) (takeWhile (\<lambda>i. \<not> i \<ge> PC_SLOT_WORDS - written_words) [0..<PC_SLOT_WORDS]) k2
      in pk_out k3)"

text \<open>The position of a mask word: which of the two slots, and the offset in it.\<close>

definition hpu_position :: "u32 \<Rightarrow> bool \<times> 10 word" where
  "hpu_position natural_index =
     (let hpu_index = reverse_psi64_mask_index (get_range 0 natural_index);
          group = get_range 4 hpu_index :: 7 word;
          lane = get_range 0 hpu_index :: 4 word;
          pc_offset = push_bit 4 (ucast (drop_bit 1 group)) OR ucast lane
      in (bit group 0, pc_offset))"

record native_state =
  ns_rng :: u64
  ns_body :: u64
  ns_pc0 :: "u64 list"
  ns_pc1 :: "u64 list"

definition native_mask_step :: "acc_ctx \<Rightarrow> nat \<Rightarrow> native_state \<Rightarrow> native_state" where
  "native_mask_step ctx i s =
     (let natural_index = of_nat i;
          mask_word = next_random (ns_rng s);
          body = (if secret_key_bit ctx natural_index then ns_body s + mask_word else ns_body s);
          (second, pc_offset) = hpu_position natural_index
      in if \<not> second then s\<lparr>ns_rng := mask_word, ns_body := body, ns_pc0 := (ns_pc0 s)[unat pc_offset := mask_word]\<rparr>
         else s\<lparr>ns_rng := mask_word, ns_body := body, ns_pc1 := (ns_pc1 s)[unat pc_offset := mask_word]\<rparr>)"

text \<open>\<open>u0\<close> and \<open>u1\<close> are the contents of the two local arrays before they are written.\<close>

definition encrypt_encoded_lwe_hpu_native ::
    "u64 list \<Rightarrow> u64 list \<Rightarrow> acc_ctx \<Rightarrow> u32 \<Rightarrow> u32 \<Rightarrow> u64 \<Rightarrow> u64 \<Rightarrow> u64 \<Rightarrow> u32 \<Rightarrow> acc_pkt list \<Rightarrow> acc_pkt list" where
  "encrypt_encoded_lwe_hpu_native u0 u1 ctx noise_mode noise_bound_log2 encoded base_seed nonce ciphertext_index out =
     (let s0 = \<lparr>ns_rng = base_seed XOR nonce XOR (ucast ciphertext_index + 1), ns_body = 0, ns_pc0 = u0, ns_pc1 = u1\<rparr>;
          s = fold (native_mask_step ctx) [0..<BIG_LWE_DIMENSION] s0;
          noise = (if noise_mode = NOISE_TUNIFORM then fst (sample_tuniform_like_noise (ns_rng s) noise_bound_log2) else 0);
          body = ns_body s + encoded + noise
      in write_hpu_native_pc_slot (ns_pc1 s) 0 False (write_hpu_native_pc_slot (ns_pc0 s) body True out))"

section \<open>Plain ciphertexts\<close>

definition mask_step :: "acc_ctx \<Rightarrow> nat \<Rightarrow> u64 \<times> u64 \<times> packer \<Rightarrow> u64 \<times> u64 \<times> packer" where
  "mask_step ctx i s = (case s of (rng, body, k) \<Rightarrow>
     let mask_word = next_random rng
     in (mask_word, (if secret_key_bit ctx (of_nat i) then body + mask_word else body), write_output_word mask_word False k))"

definition encrypt_encoded_lwe ::
    "acc_ctx \<Rightarrow> u32 \<Rightarrow> u32 \<Rightarrow> u32 \<Rightarrow> u64 \<Rightarrow> u64 \<Rightarrow> u64 \<Rightarrow> u64 \<Rightarrow> u32 \<Rightarrow> acc_pkt list \<Rightarrow> acc_pkt list" where
  "encrypt_encoded_lwe ctx mask_dimension noise_mode noise_bound_log2 encoded input_noise base_seed nonce ciphertext_index out =
     (let rng0 = base_seed XOR nonce XOR (ucast ciphertext_index + 1);
          (rng, body, k) = fold (mask_step ctx) (takeWhile (\<lambda>i. \<not> i \<ge> unat mask_dimension) [0..<MAX_LWE_DIMENSION])
             (rng0, 0, \<lparr>pk_out = out, pk_data = 0, pk_count = 0\<rparr>);
          noise = (if noise_mode = NOISE_INPUT then input_noise
                   else if noise_mode = NOISE_TUNIFORM then fst (sample_tuniform_like_noise rng noise_bound_log2) else 0)
      in pk_out (write_output_word (body + encoded + noise) True k))"

definition encrypt_one_lwe ::
    "acc_pkt \<Rightarrow> acc_ctx \<Rightarrow> u32 \<Rightarrow> u32 \<Rightarrow> u32 \<Rightarrow> u32 \<Rightarrow> u64 \<Rightarrow> u64 \<Rightarrow> u64 \<Rightarrow> u32 \<Rightarrow> acc_pkt list \<Rightarrow> acc_pkt list" where
  "encrypt_one_lwe input_pkt ctx mask_dimension input_mode noise_mode noise_bound_log2 delta base_seed nonce request_index out =
     (let input_word = get_range 0 (pdata input_pkt);
          input_noise = get_range 64 (pdata input_pkt);
          encoded = (if input_mode = INPUT_CLEAR then input_word * delta else input_word)
      in encrypt_encoded_lwe ctx mask_dimension noise_mode noise_bound_log2 encoded input_noise base_seed nonce request_index out)"

section \<open>Bytes\<close>

definition radix_block :: "u8 \<Rightarrow> nat \<Rightarrow> u64" where
  "radix_block clear_u8 block_index = ucast (drop_bit (block_index * MESSAGE_WIDTH) clear_u8) AND (push_bit MESSAGE_WIDTH 1 - 1)"

definition encrypt_block ::
    "u64 list \<Rightarrow> u64 list \<Rightarrow> u8 \<Rightarrow> acc_ctx \<Rightarrow> u32 \<Rightarrow> u32 \<Rightarrow> u32 \<Rightarrow> u32 \<Rightarrow> u64 \<Rightarrow> u64 \<Rightarrow> u32 \<Rightarrow> nat \<Rightarrow> acc_pkt list \<Rightarrow> acc_pkt list" where
  "encrypt_block u0 u1 clear_u8 ctx mask_dimension noise_mode noise_bound_log2 output_layout base_seed nonce request_index block_index out =
     (let encoded = radix_block clear_u8 block_index * DELTA;
          ciphertext_index = request_index * of_nat RADIX_BLOCK_COUNT + of_nat block_index
      in if output_layout = OUTPUT_HPU_NATIVE
         then encrypt_encoded_lwe_hpu_native u0 u1 ctx noise_mode noise_bound_log2 encoded base_seed nonce ciphertext_index out
         else encrypt_encoded_lwe ctx mask_dimension noise_mode noise_bound_log2 encoded 0 base_seed nonce ciphertext_index out)"

definition encrypt_u8_radix ::
    "u64 list \<Rightarrow> u64 list \<Rightarrow> u8 \<Rightarrow> acc_ctx \<Rightarrow> u32 \<Rightarrow> u32 \<Rightarrow> u32 \<Rightarrow> u32 \<Rightarrow> u64 \<Rightarrow> u64 \<Rightarrow> u32 \<Rightarrow> acc_pkt list \<Rightarrow> acc_pkt list" where
  "encrypt_u8_radix u0 u1 clear_u8 ctx mask_dimension noise_mode noise_bound_log2 output_layout base_seed nonce request_index out =
     fold (encrypt_block u0 u1 clear_u8 ctx mask_dimension noise_mode noise_bound_log2 output_layout base_seed nonce request_index)
       [0..<RADIX_BLOCK_COUNT] out"

section \<open>The operator\<close>

text \<open>The configuration word, decoded.\<close>

record enc_cfg =
  mask_dimension :: u32
  input_count :: u32
  input_mode :: u32
  noise_mode :: u32
  noise_bound_log2 :: u32
  output_layout :: u32
  delta :: u64
  base_seed :: u64
  nonce :: u64

definition read_enc_cfg :: "512 word \<Rightarrow> enc_cfg" where
  "read_enc_cfg cfg =
     (let im = get_range 64 cfg; nm = get_range 96 cfg
      in \<lparr>mask_dimension = get_range 0 cfg, input_count = get_range 32 cfg, input_mode = im, noise_mode = nm,
          noise_bound_log2 = (if im = INPUT_U8_RADIX \<and> nm = NOISE_TUNIFORM then GLWE_NOISE_BOUND_LOG2 else get_range 128 cfg),
          output_layout = get_range 160 cfg,
          delta = (if im = INPUT_U8_RADIX then DELTA else get_range 256 cfg),
          base_seed = get_range 320 cfg, nonce = get_range 384 cfg\<rparr>)"

text \<open>The loop over the 64 byte lanes of a packet.\<close>

fun packed_u8_loop ::
    "nat \<Rightarrow> u64 list \<Rightarrow> u64 list \<Rightarrow> acc_ctx \<Rightarrow> enc_cfg \<Rightarrow> 512 word \<Rightarrow> u64 \<Rightarrow> u32 \<Rightarrow> acc_pkt list \<Rightarrow> u32 \<times> acc_pkt list" where
  "packed_u8_loop 0 u0 u1 ctx c packed_data packed_keep processed_count out = (processed_count, out)"
| "packed_u8_loop (Suc n) u0 u1 ctx c packed_data packed_keep processed_count out =
     (if input_count c \<noteq> 0 \<and> processed_count \<ge> input_count c then (processed_count, out)
      else if \<not> bit packed_keep 0 then
        packed_u8_loop n u0 u1 ctx c (drop_bit 8 packed_data) (drop_bit 1 packed_keep) processed_count out
      else
        packed_u8_loop n u0 u1 ctx c (drop_bit 8 packed_data) (drop_bit 1 packed_keep) (processed_count + 1)
          (encrypt_u8_radix u0 u1 (get_range 0 packed_data) ctx (mask_dimension c) (noise_mode c) (noise_bound_log2 c)
             (output_layout c) (base_seed c) (nonce c) processed_count out))"

definition encrypt_packet ::
    "u64 list \<Rightarrow> u64 list \<Rightarrow> acc_ctx \<Rightarrow> enc_cfg \<Rightarrow> acc_pkt \<Rightarrow> u32 \<Rightarrow> acc_pkt list \<Rightarrow> u32 \<times> acc_pkt list" where
  "encrypt_packet u0 u1 ctx c p processed_count out =
     (if input_mode c = INPUT_U8_RADIX then packed_u8_loop 64 u0 u1 ctx c (pdata p) (pkeep p) processed_count out
      else (processed_count + 1, encrypt_one_lwe p ctx (mask_dimension c) (input_mode c) (noise_mode c) (noise_bound_log2 c)
              (delta c) (base_seed c) (nonce c) processed_count out))"

text \<open>\<open>i\<close> counts the packets read; the loop stops after \<^verbatim>\<open>0xffffffff\<close> of them.\<close>

fun encrypt_stream_loop ::
    "u64 list \<Rightarrow> u64 list \<Rightarrow> acc_ctx \<Rightarrow> enc_cfg \<Rightarrow> nat \<Rightarrow> u32 \<Rightarrow> acc_pkt list \<Rightarrow> acc_pkt list \<Rightarrow> (acc_pkt list \<times> acc_pkt list) res" where
  "encrypt_stream_loop u0 u1 ctx c i processed_count out [] = (if i \<ge> 0xffffffff then Inr (out, []) else Inl Hang)"
| "encrypt_stream_loop u0 u1 ctx c i processed_count out (p # ps) =
     (if i \<ge> 0xffffffff then Inr (out, p # ps)
      else if is_suda_done_packet p then
        if input_count c \<noteq> 0 \<and> processed_count < input_count c then Inr (write_error_packet 4 out, ps)
        else Inr (forward_done_packet p out, ps)
      else if input_count c \<noteq> 0 \<and> processed_count \<ge> input_count c then
        encrypt_stream_loop u0 u1 ctx c (Suc i) processed_count out ps
      else
        let (processed', out') = encrypt_packet u0 u1 ctx c p processed_count out in
        if input_count c = 0 \<and> plast p then Inr (write_synthetic_done_packet out', ps)
        else encrypt_stream_loop u0 u1 ctx c (Suc i) processed' out' ps)"

definition lwe_encrypt :: "u64 list \<Rightarrow> u64 list \<Rightarrow> acc_ctx \<Rightarrow> acc_pkt list \<Rightarrow> (acc_pkt list \<times> acc_pkt list) res" where
  "lwe_encrypt u0 u1 ctx data_in =
     (let c = read_enc_cfg (ctx ! STATIC_CONTEXT_BASE) in
      if mask_dimension c = 0 \<or> mask_dimension c > of_nat MAX_LWE_DIMENSION then Inr (write_error_packet 1 [], data_in)
      else if input_mode c = INPUT_U8_RADIX \<and> mask_dimension c \<noteq> of_nat BIG_LWE_DIMENSION then Inr (write_error_packet 2 [], data_in)
      else if input_mode c = INPUT_U8_RADIX \<and> noise_mode c = NOISE_INPUT then Inr (write_error_packet 3 [], data_in)
      else if output_layout c > OUTPUT_HPU_NATIVE then Inr (write_error_packet 5 [], data_in)
      else if output_layout c = OUTPUT_HPU_NATIVE \<and> input_mode c \<noteq> INPUT_U8_RADIX then Inr (write_error_packet 6 [], data_in)
      else encrypt_stream_loop u0 u1 ctx c 0 0 [] data_in)"

end
