(* ===== verification/Lwe_Decrypt.thy ===== *)
theory Lwe_Decrypt
  imports Lwe_Encrypt
begin

unbundle bit_operations_syntax

text \<open>
  The decryption operator of the device (\<^verbatim>\<open>operators/hls/lwe_decrypt/lwe_decrypt.cpp\<close>): it reads
  ciphertexts in the slot layout of the HPU, packet by packet, accumulates the inner product of mask
  and key as the words arrive, and writes the clear bytes packed 64 to a packet.

  Packets, streams and context memory are those of \<open>Lwe_Encrypt\<close>, as are the functions whose text the
  two operators share (\<open>is_suda_done_packet\<close>, \<open>reverse_psi64_mask_index\<close>, \<open>forward_done_packet\<close>) and the
  constants of equal value.
\<close>

definition dec_secret_key_bit :: "acc_ctx \<Rightarrow> 11 word \<Rightarrow> bool" where
  "dec_secret_key_bit ctx natural_index =
     (let context_word = KEY_CONTEXT_BASE + unat (drop_bit 9 natural_index); bit_index = get_range 0 natural_index :: 9 word
      in bit (ctx ! context_word) (unat bit_index))"

definition natural_index_from_pc_offset :: "1 word \<Rightarrow> 10 word \<Rightarrow> 11 word" where
  "natural_index_from_pc_offset pc_index pc_offset =
     (let group_in_pc = ucast (drop_bit 4 pc_offset) :: 7 word;
          lane = get_range 0 pc_offset :: 4 word;
          interleaved_group = push_bit 1 group_in_pc OR ucast pc_index;
          hpu_index = push_bit 4 (ucast interleaved_group) OR ucast lane
      in reverse_psi64_mask_index hpu_index)"

definition dec_write_error_packet :: "u32 \<Rightarrow> acc_pkt list \<Rightarrow> acc_pkt list" where
  "dec_write_error_packet code out = out @ [error_pkt 0x4c57454445435252 code]"

section \<open>Clear bytes\<close>

text \<open>The output stream with the packet of clear bytes that is being filled.\<close>

record byte_packer =
  bk_out :: "acc_pkt list"
  bk_data :: "512 word"
  bk_count :: "7 word"

text \<open>The loop over the byte lanes sets the first \<open>n\<close> bits of \<^verbatim>\<open>keep\<close> and \<^verbatim>\<open>strb\<close>.\<close>

fun output_keep_loop :: "nat list \<Rightarrow> 7 word \<Rightarrow> u64 \<Rightarrow> u64" where
  "output_keep_loop [] n keep = keep"
| "output_keep_loop (l # ls) n keep = output_keep_loop ls n (if l < unat n then set_bit l keep else keep)"

definition clear_pkt :: "7 word \<Rightarrow> 512 word \<Rightarrow> acc_pkt" where
  "clear_pkt n x = \<lparr>pdata = x, pkeep = output_keep_loop [0..<64] n 0, pstrb = output_keep_loop [0..<64] n 0,
     puser = 0, plast = False, pid = 0, pdest = 0\<rparr>"

definition flush_clear_packet :: "byte_packer \<Rightarrow> byte_packer" where
  "flush_clear_packet k =
     (if bk_count k = 0 then k
      else k\<lparr>bk_out := bk_out k @ [clear_pkt (bk_count k) (bk_data k)], bk_data := 0, bk_count := 0\<rparr>)"

definition write_clear_byte :: "u8 \<Rightarrow> byte_packer \<Rightarrow> byte_packer" where
  "write_clear_byte clear_u8 k =
     (let byte_index = unat (bk_count k);
          k1 = k\<lparr>bk_data := set_range (byte_index * 8) clear_u8 (bk_data k), bk_count := bk_count k + 1\<rparr>
      in if bk_count k1 = 64 then flush_clear_packet k1 else k1)"

definition decode_radix_block :: "u64 \<Rightarrow> u64 \<Rightarrow> 2 word" where
  "decode_radix_block body dot =
     (let phase = body - dot;
          rounded_phase = (ucast phase :: 65 word) + ucast (drop_bit 1 DELTA);
          rounded = ucast (drop_bit DELTA_LOG2 rounded_phase) :: u64
      in get_range 0 rounded)"

section \<open>The operator\<close>

record dec_cfg =
  d_input_count :: u32
  d_mask_dimension :: u32
  d_delta :: u64
  d_message_width :: u32
  d_radix_blocks :: u32
  d_input_layout :: u32

definition read_dec_cfg :: "512 word \<Rightarrow> dec_cfg" where
  "read_dec_cfg cfg =
     (let de = get_range 64 cfg; mw = get_range 128 cfg; rb = get_range 160 cfg
      in \<lparr>d_input_count = get_range 0 cfg, d_mask_dimension = get_range 32 cfg,
          d_delta = (if de = 0 then DELTA else de),
          d_message_width = (if mw = 0 then of_nat MESSAGE_WIDTH else mw),
          d_radix_blocks = (if rb = 0 then of_nat RADIX_BLOCK_COUNT else rb),
          d_input_layout = get_range 192 cfg\<rparr>)"

record dec_state =
  processed_count :: u32
  block_index :: "3 word"
  pc_index :: "1 word"
  packet_index_in_pc :: u8
  dot :: u64
  dbody :: u64
  reconstructed_u8 :: u8
  packed :: byte_packer

definition mask_word_step :: "acc_ctx \<Rightarrow> 1 word \<Rightarrow> 10 word \<Rightarrow> 512 word \<Rightarrow> nat \<Rightarrow> u64 \<Rightarrow> u64" where
  "mask_word_step ctx pc packet_base x word_lane acc =
     (let pc_offset = packet_base + of_nat word_lane;
          natural_index = natural_index_from_pc_offset pc pc_offset;
          mask_word = get_range (word_lane * 64) x
      in if dec_secret_key_bit ctx natural_index then acc + mask_word else acc)"

definition absorb_packet :: "acc_ctx \<Rightarrow> 512 word \<Rightarrow> dec_state \<Rightarrow> dec_state" where
  "absorb_packet ctx x s =
     (if packet_index_in_pc s < of_nat (PC_DATA_WORDS div WORDS_PER_PKT) then
        s\<lparr>dot := fold (mask_word_step ctx (pc_index s) (push_bit 3 (ucast (packet_index_in_pc s))) x) [0..<8] (dot s)\<rparr>
      else if pc_index s = 0 \<and> packet_index_in_pc s = of_nat (PC_DATA_WORDS div WORDS_PER_PKT) then s\<lparr>dbody := get_range 0 x\<rparr>
      else s)"

definition end_byte :: "dec_state \<Rightarrow> dec_state" where
  "end_byte s =
     (if block_index s = of_nat RADIX_BLOCK_COUNT then
        s\<lparr>packed := write_clear_byte (reconstructed_u8 s) (packed s), reconstructed_u8 := 0, block_index := 0,
          processed_count := processed_count s + 1\<rparr>
      else s)"

definition end_block :: "dec_state \<Rightarrow> dec_state" where
  "end_block s =
     (let clear_block = decode_radix_block (dbody s) (dot s);
          shift = ucast (block_index s) * 2 :: 4 word
      in end_byte (s\<lparr>pc_index := 0, reconstructed_u8 := reconstructed_u8 s OR push_bit (unat shift) (ucast clear_block),
           dot := 0, dbody := 0, block_index := block_index s + 1\<rparr>))"

definition PC_SLOT_PACKETS :: nat where "PC_SLOT_PACKETS = 192"

definition decrypt_step :: "acc_ctx \<Rightarrow> acc_pkt \<Rightarrow> dec_state \<Rightarrow> dec_state" where
  "decrypt_step ctx p s =
     (let s1 = absorb_packet ctx (pdata p) s;
          s2 = s1\<lparr>packet_index_in_pc := packet_index_in_pc s1 + 1\<rparr>
      in if packet_index_in_pc s2 = of_nat PC_SLOT_PACKETS then
           let s3 = s2\<lparr>packet_index_in_pc := 0\<rparr>
           in if pc_index s3 = 0 then s3\<lparr>pc_index := 1\<rparr> else end_block s3
         else s2)"

fun decrypt_stream_loop :: "acc_ctx \<Rightarrow> dec_cfg \<Rightarrow> nat \<Rightarrow> dec_state \<Rightarrow> acc_pkt list \<Rightarrow> (acc_pkt list \<times> acc_pkt list) res" where
  "decrypt_stream_loop ctx c i s [] = (if i \<ge> 0xffffffff then Inr (bk_out (packed s), []) else Inl Hang)"
| "decrypt_stream_loop ctx c i s (p # ps) =
     (if i \<ge> 0xffffffff then Inr (bk_out (packed s), p # ps)
      else if is_suda_done_packet p then
        if d_input_count c \<noteq> 0 \<and> processed_count s \<noteq> d_input_count c \<or> block_index s \<noteq> 0 \<or> pc_index s \<noteq> 0
           \<or> packet_index_in_pc s \<noteq> 0
        then Inr (dec_write_error_packet 5 (bk_out (packed s)), ps)
        else Inr (forward_done_packet p (bk_out (flush_clear_packet (packed s))), ps)
      else if d_input_count c \<noteq> 0 \<and> processed_count s \<ge> d_input_count c then
        Inr (dec_write_error_packet 6 (bk_out (packed s)), ps)
      else decrypt_stream_loop ctx c (Suc i) (decrypt_step ctx p s) ps)"

definition dec_start :: dec_state where
  "dec_start = \<lparr>processed_count = 0, block_index = 0, pc_index = 0, packet_index_in_pc = 0, dot = 0, dbody = 0,
     reconstructed_u8 = 0, packed = \<lparr>bk_out = [], bk_data = 0, bk_count = 0\<rparr>\<rparr>"

definition lwe_decrypt :: "acc_ctx \<Rightarrow> acc_pkt list \<Rightarrow> (acc_pkt list \<times> acc_pkt list) res" where
  "lwe_decrypt ctx data_in =
     (let c = read_dec_cfg (ctx ! STATIC_CONTEXT_BASE) in
      if d_mask_dimension c \<noteq> of_nat BIG_LWE_DIMENSION then Inr (dec_write_error_packet 1 [], data_in)
      else if d_delta c \<noteq> DELTA then Inr (dec_write_error_packet 2 [], data_in)
      else if d_message_width c \<noteq> of_nat MESSAGE_WIDTH \<or> d_radix_blocks c \<noteq> of_nat RADIX_BLOCK_COUNT then
        Inr (dec_write_error_packet 3 [], data_in)
      else if d_input_layout c \<noteq> 1 then Inr (dec_write_error_packet 4 [], data_in)
      else decrypt_stream_loop ctx c 0 dec_start data_in)"

end
