(* ===== verification/Lwe_Laws.thy ===== *)
theory Lwe_Laws
  imports Lwe_Decrypt
begin

unbundle bit_operations_syntax

text \<open>
  Properties of the two LWE operators taken by themselves: how words are packed into packets, the
  layout of the HPU as a permutation of the mask, the relation of body, mask and key in a ciphertext,
  and the rounding of the decryption.
\<close>

section \<open>Ranges of a word\<close>

lemma bit_get_range: "bit (get_range lo w :: 'b::len word) n \<longleftrightarrow> n < LENGTH('b) \<and> bit w (lo + n)"
  by (simp add: get_range_def bit_ucast_iff bit_drop_bit_eq)

lemma bit_set_range:
  "bit (set_range lo (v :: 'b::len word) (w :: 'a::len word)) n
     \<longleftrightarrow> (if lo \<le> n \<and> n < lo + LENGTH('b) then n < LENGTH('a) \<and> bit v (n - lo) else bit w n)"
  by (auto simp: set_range_def bit_or_iff bit_and_iff bit_not_iff bit_push_bit_iff bit_mask_iff bit_ucast_iff
      dest: bit_imp_le_length)

lemma get_set_range:
  "lo + LENGTH('b) \<le> LENGTH('a) \<Longrightarrow> get_range lo (set_range lo (v :: 'b::len word) (w :: 'a::len word)) = v"
  by (rule bit_word_eqI) (auto simp: bit_get_range bit_set_range)

lemma get_set_range_other:
  "hi + LENGTH('c) \<le> lo \<or> lo + LENGTH('b) \<le> hi \<Longrightarrow>
     (get_range hi (set_range lo (v :: 'b::len word) w) :: 'c::len word) = get_range hi w"
  by (rule bit_word_eqI) (auto simp: bit_get_range bit_set_range)

lemma get_range_0 [simp]: "get_range lo 0 = 0"
  by (simp add: get_range_def)

section \<open>Packing words into packets\<close>

text \<open>The \<open>i\<close>th word of a packet, and the packet made of a list of words.\<close>

definition word_at :: "512 word \<Rightarrow> nat \<Rightarrow> u64" where
  "word_at x i = get_range (i * 64) x"

definition join_words :: "u64 list \<Rightarrow> 512 word" where
  "join_words ws = fold (\<lambda>i. set_range (i * 64) (ws ! i)) [0..<length ws] 0"

lemma join_words_Nil [simp]: "join_words [] = 0"
  by (simp add: join_words_def)

lemma join_words_snoc: "join_words (ws @ [w]) = set_range (length ws * 64) w (join_words ws)"
proof -
  have "fold (\<lambda>i. set_range (i * 64) ((ws @ [w]) ! i)) [0..<length ws] 0 = join_words ws"
    unfolding join_words_def by (rule List.fold_cong) (auto simp: nth_append)
  then show ?thesis by (simp add: join_words_def)
qed

lemma word_at_join: "length ws \<le> 8 \<Longrightarrow> i < 8 \<Longrightarrow> word_at (join_words ws) i = (if i < length ws then ws ! i else 0)"
proof (induction ws arbitrary: i rule: rev_induct)
  case Nil
  then show ?case by (simp add: word_at_def)
next
  case (snoc w ws)
  show ?case
  proof (cases "i = length ws")
    case True
    then show ?thesis using snoc.prems by (simp add: word_at_def join_words_snoc get_set_range)
  next
    case False
    then have "i * 64 + 64 \<le> length ws * 64 \<or> length ws * 64 + 64 \<le> i * 64" by linarith
    then have "word_at (join_words (ws @ [w])) i = word_at (join_words ws) i"
      by (simp add: word_at_def join_words_snoc get_set_range_other)
    then show ?thesis using snoc False by (auto simp: nth_append)
  qed
qed

definition fresh :: "acc_pkt list \<Rightarrow> packer" where
  "fresh out = \<lparr>pk_out = out, pk_data = 0, pk_count = 0\<rparr>"

definition filling :: "acc_pkt list \<Rightarrow> u64 list \<Rightarrow> packer" where
  "filling out ws = \<lparr>pk_out = out, pk_data = join_words ws, pk_count = of_nat (length ws)\<rparr>"

lemma unat_4: "n < 16 \<Longrightarrow> unat (of_nat n :: 4 word) = n"
  by (simp add: unsigned_of_nat take_bit_nat_eq_self)

lemma write_output_word_filling:
  assumes "length ws < 8"
  shows "write_output_word w force (filling out ws)
     = (if length ws = 7 \<or> force then fresh (out @ [payload_pkt (join_words (ws @ [w]))]) else filling out (ws @ [w]))"
proof -
  have c: "unat (of_nat (length ws) :: 4 word) = length ws" using assms by (intro unat_4) simp
  have "of_nat (length ws) + 1 = (of_nat (Suc (length ws)) :: 4 word)" by simp
  moreover have "(of_nat (Suc (length ws)) :: 4 word) = 8 \<longleftrightarrow> length ws = 7"
    using assms unat_4 [of "Suc (length ws)"] by (auto simp: word_unat_eq_iff simp del: of_nat_Suc)
  moreover have "(of_nat (Suc (length ws)) :: 4 word) \<noteq> 0"
    using assms unat_4 [of "Suc (length ws)"] by (auto simp: word_unat_eq_iff simp del: of_nat_Suc)
  ultimately show ?thesis
    by (simp add: write_output_word_def filling_def fresh_def Let_def c flush_output_packet_def WORDS_PER_PKT_def
        join_words_snoc del: of_nat_Suc)
qed

definition write_words :: "u64 list \<Rightarrow> packer \<Rightarrow> packer" where
  "write_words ws k = fold (\<lambda>w. write_output_word w False) ws k"

lemma write_words_simps [simp]:
  "write_words [] k = k"
  "write_words (w # ws) k = write_words ws (write_output_word w False k)"
  "write_words (ws @ vs) k = write_words vs (write_words ws k)"
  by (simp_all add: write_words_def)

text \<open>The packets of a list of words, without the words that do not fill one.\<close>

definition pack_words :: "u64 list \<Rightarrow> acc_pkt list" where
  "pack_words ws = map (\<lambda>j. payload_pkt (join_words (take 8 (drop (8 * j) ws)))) [0..<length ws div 8]"

lemma pack_words_short: "length ws < 8 \<Longrightarrow> pack_words ws = []"
  by (simp add: pack_words_def)

lemma pack_words_append: "length ws = 8 \<Longrightarrow> pack_words (ws @ vs) = payload_pkt (join_words ws) # pack_words vs"
proof -
  assume len: "length ws = 8"
  then have d: "length (ws @ vs) div 8 = Suc (length vs div 8)" by simp
  have "[0..<Suc (length vs div 8)] = 0 # map Suc [0..<length vs div 8]" by (simp add: upt_conv_Cons map_Suc_upt del: upt_Suc)
  then show ?thesis unfolding pack_words_def d by (simp add: len comp_def)
qed

lemma length_pack_words [simp]: "length (pack_words ws) = length ws div 8"
  by (simp add: pack_words_def)

lemma word_at_pack_words:
  assumes "j < length ws div 8" and "i < 8"
  shows "word_at (pdata (pack_words ws ! j)) i = ws ! (8 * j + i)"
proof -
  have "8 * j + 8 \<le> length ws" using assms(1) by linarith
  then show ?thesis using assms by (simp add: pack_words_def payload_pkt_def word_at_join)
qed

lemma pack_words_payload: "p \<in> set (pack_words ws) \<Longrightarrow> \<exists>x. p = payload_pkt x"
  by (auto simp: pack_words_def)

lemma write_words_filling: "length ws + length vs < 8 \<Longrightarrow> write_words vs (filling out ws) = filling out (ws @ vs)"
  by (induction vs arbitrary: ws) (simp_all add: write_output_word_filling)

lemma fresh_filling: "fresh out = filling out []"
  by (simp add: fresh_def filling_def)

lemma write_words_packet:
  assumes "length ws = 8"
  shows "write_words ws (fresh out) = fresh (out @ [payload_pkt (join_words ws)])"
proof -
  from assms obtain vs w where ws: "ws = vs @ [w]" "length vs = 7" by (cases ws rule: rev_cases) auto
  then have "write_words vs (fresh out) = filling out vs" using write_words_filling [of "[]" vs out] by (simp add: fresh_filling)
  then show ?thesis using ws by (simp add: write_output_word_filling)
qed

lemma write_words_pack:
  "write_words ws (fresh out) = filling (out @ pack_words ws) (drop (8 * (length ws div 8)) ws)"
proof (induction "length ws div 8" arbitrary: ws out)
  case 0
  then have "length ws < 8" by (simp add: div_eq_0_iff)
  then show ?case using write_words_filling [of "[]" ws out] by (simp add: fresh_filling pack_words_short)
next
  case (Suc m)
  define vs us where "vs = take 8 ws" and "us = drop 8 ws"
  have len: "length vs = 8" "ws = vs @ us" "length ws = 8 + length us" using Suc(2) by (auto simp: vs_def us_def)
  then have m: "m = length us div 8" using Suc(2) by simp
  have "write_words ws (fresh out) = write_words us (fresh (out @ [payload_pkt (join_words vs)]))"
    using len(1) by (simp add: len(2) write_words_packet)
  also have "\<dots> = filling ((out @ [payload_pkt (join_words vs)]) @ pack_words us) (drop (8 * (length us div 8)) us)"
    by (rule Suc(1) [OF m])
  finally have "write_words ws (fresh out) = filling (out @ pack_words ws) (drop (8 * (length us div 8)) us)"
    using len(1) by (simp add: len(2) pack_words_append)
  moreover have "drop (8 * (length ws div 8)) ws = drop (8 * (length us div 8)) us"
    unfolding Suc(2) [symmetric] m by (simp add: len(1,2))
  ultimately show ?case by simp
qed

lemma write_words_whole:
  assumes "length ws = 8 * m"
  shows "write_words ws (fresh out) = fresh (out @ pack_words ws)"
  using write_words_pack [of ws out] assms by (simp add: fresh_filling)

lemma fold_write_words: "fold (\<lambda>i. write_output_word (f i) False) xs k = write_words (map f xs) k"
  by (simp add: write_words_def fold_map comp_def)

text \<open>The contents of a slot.\<close>

definition slot_words :: "u64 list \<Rightarrow> u64 list \<Rightarrow> u64 list" where
  "slot_words pc extra = pc @ extra @ replicate (512 - length extra) 0"

lemma takeWhile_upt: "m \<le> n \<Longrightarrow> takeWhile (\<lambda>i. i < m) [0..<n] = [0..<m]"
proof -
  assume "m \<le> n"
  then have "[0..<n] = [0..<m] @ [m..<n]" by (metis le0 le_add_diff_inverse upt_add_eq_append)
  then show ?thesis by (simp add: takeWhile_append takeWhile_eq_Nil_iff) (auto simp: upt_conv_Cons)
qed

lemma write_hpu_native_pc_slot_words:
  assumes "length pc = 1024"
  shows "write_hpu_native_pc_slot pc body include_body out = out @ pack_words (slot_words pc (if include_body then [body] else []))"
proof -
  let ?e = "if include_body then [body] else []"
  have pc: "map ((!) pc) [0..<1024] = pc" using assms by (metis map_nth)
  have pad: "map (\<lambda>i :: nat. 0 :: u64) [0..<n] = replicate n 0" for n by (simp add: map_replicate_const)
  have "pk_out (write_words (slot_words pc ?e) (fresh out)) = out @ pack_words (slot_words pc ?e)"
    using assms by (subst write_words_whole [where m = 192]) (auto simp: slot_words_def fresh_def)
  then show ?thesis unfolding slot_words_def
    by (simp add: write_hpu_native_pc_slot_def Let_def fold_write_words PC_DATA_WORDS_def PC_SLOT_WORDS_def pc pad
        takeWhile_upt not_le fresh_def split: if_split_asm del: upt_rec_numeral)
qed

section \<open>The layout of the HPU as a permutation\<close>

lemma bit_reverse_index_loop:
  "\<forall>b \<in> set bs. b < 11 \<Longrightarrow> n < 11 \<Longrightarrow>
     bit (reverse_index_loop bs index r) n = (if 10 - n \<in> set bs then bit index (10 - n) else bit r n)"
  by (induction bs arbitrary: r) (auto simp: bit_set_bit_iff bit_unset_bit_iff)

lemma bit_reverse: "bit (reverse_psi64_mask_index w) n \<longleftrightarrow> n < 11 \<and> bit w (10 - n)"
proof (cases "n < 11")
  case True
  then show ?thesis unfolding reverse_psi64_mask_index_def by (subst bit_reverse_index_loop) auto
next
  case False
  then show ?thesis by (auto dest: bit_imp_le_length)
qed

lemma reverse_psi64_mask_index_involution: "reverse_psi64_mask_index (reverse_psi64_mask_index w) = w"
  by (rule bit_word_eqI) (auto simp: bit_reverse)

text \<open>Both directions of the layout, bit by bit.\<close>

lemmas word_bits = bit_or_iff bit_push_bit_iff bit_ucast_iff bit_drop_bit_eq bit_get_range comp_def

lemma bit_offset:
  fixes r :: "11 word"
  shows "bit (push_bit 4 (ucast (drop_bit 1 (get_range 4 r :: 7 word)) :: 10 word) OR ucast (get_range 0 r :: 4 word)) i
     \<longleftrightarrow> i < 4 \<and> bit r i \<or> 4 \<le> i \<and> i < 10 \<and> bit r (i + 1)"
proof -
  have "4 \<le> i \<Longrightarrow> 4 + (1 + (i - 4)) = i + 1" by simp
  then show ?thesis by (simp only: word_bits) auto
qed

lemma bit_interleaved:
  fixes off :: "10 word" and pc :: "1 word"
  shows "bit (push_bit 4 (ucast (push_bit 1 (ucast (drop_bit 4 off) :: 7 word) OR ucast pc) :: 11 word) OR ucast (get_range 0 off :: 4 word)) j
     \<longleftrightarrow> j < 4 \<and> bit off j \<or> j = 4 \<and> bit pc 0 \<or> 5 \<le> j \<and> j < 11 \<and> bit off (j - 1)"
proof -
  have "5 \<le> j \<Longrightarrow> 4 + (j - 4 - 1) = j - 1" "4 \<le> j \<Longrightarrow> j - 4 < 1 \<longleftrightarrow> j = 4" "4 \<le> j \<Longrightarrow> 1 \<le> j - 4 \<longleftrightarrow> 5 \<le> j" by auto
  moreover have "\<not> bit pc m" if "1 \<le> m" for m using that by (auto dest: bit_imp_le_length)
  ultimately show ?thesis by (simp only: word_bits) auto
qed

lemma hpu_position_bits:
  assumes "hpu_position n = (second, off)"
  shows "second = bit n 6" and "bit off i \<longleftrightarrow> i < 4 \<and> bit n (10 - i) \<or> 4 \<le> i \<and> i < 10 \<and> bit n (9 - i)"
proof -
  let ?r = "reverse_psi64_mask_index (get_range 0 n)"
  have s: "second = bit (get_range 4 ?r :: 7 word) 0"
    and o: "off = push_bit 4 (ucast (drop_bit 1 (get_range 4 ?r :: 7 word))) OR ucast (get_range 0 ?r :: 4 word)"
    using assms unfolding hpu_position_def Let_def by simp_all
  show "second = bit n 6" unfolding s by (simp add: bit_get_range bit_reverse)
  show "bit off i \<longleftrightarrow> i < 4 \<and> bit n (10 - i) \<or> 4 \<le> i \<and> i < 10 \<and> bit n (9 - i)"
    unfolding o bit_offset by (auto simp: bit_reverse bit_get_range)
qed

lemma bit_natural_index:
  "bit (natural_index_from_pc_offset pc off) j \<longleftrightarrow>
     j < 11 \<and> (6 < j \<and> bit off (10 - j) \<or> j = 6 \<and> bit pc 0 \<or> j < 6 \<and> bit off (9 - j))"
proof (cases "j < 11")
  case True
  then have "10 - j - 1 = 9 - j" "10 - j < 4 \<longleftrightarrow> 6 < j" "10 - j = 4 \<longleftrightarrow> j = 6" "5 \<le> 10 - j \<longleftrightarrow> j < 6" "10 - j < 11" by auto
  then show ?thesis unfolding natural_index_from_pc_offset_def Let_def bit_reverse bit_interleaved by simp
next
  case False
  then show ?thesis by (auto dest: bit_imp_le_length)
qed

lemma natural_index_position:
  assumes "hpu_position n = (second, off)"
  shows "natural_index_from_pc_offset (of_bool second) off = get_range 0 n"
proof (rule bit_word_eqI)
  fix k
  assume "k < LENGTH(11)"
  then have k: "k < 11" by simp
  note b = hpu_position_bits [OF assms] bit_natural_index bit_get_range
  consider "k < 6" | "k = 6" | "6 < k" by linarith
  then show "bit (natural_index_from_pc_offset (of_bool second) off) k = bit (get_range 0 n :: 11 word) k"
  proof cases
    case 1
    then have "9 - (9 - k) = k" "\<not> 9 - k < 4" "4 \<le> 9 - k" "9 - k < 10" by auto
    with 1 show ?thesis by (simp add: b)
  next
    case 2
    then show ?thesis by (simp add: b)
  next
    case 3
    then have "10 - (10 - k) = k" "10 - k < 4" using k by auto
    with 3 k show ?thesis by (simp add: b)
  qed
qed

lemma position_natural_index:
  "hpu_position (ucast (natural_index_from_pc_offset pc off)) = (bit pc 0, off)"
proof -
  obtain s o' where p: "hpu_position (ucast (natural_index_from_pc_offset pc off)) = (s, o')" by (cases "hpu_position (ucast (natural_index_from_pc_offset pc off))")
  have "bit o' i = bit off i" if i: "i < 10" for i
  proof (cases "i < 4")
    case True
    then have "10 - (10 - i) = i" "6 < 10 - i" "10 - i < 11" by auto
    with True show ?thesis unfolding hpu_position_bits(2) [OF p] bit_ucast_iff bit_natural_index by simp
  next
    case False
    then have "9 - (9 - i) = i" "9 - i < 6" "\<not> 6 < 9 - i" "9 - i < 11" "9 - i \<noteq> 6" using i by auto
    with False i show ?thesis unfolding hpu_position_bits(2) [OF p] bit_ucast_iff bit_natural_index by simp
  qed
  then have "o' = off" by (intro bit_word_eqI) simp
  moreover have "s = bit pc 0" unfolding hpu_position_bits(1) [OF p] by (simp add: bit_ucast_iff bit_natural_index)
  ultimately show ?thesis using p by simp
qed

section \<open>The key\<close>

text \<open>Coefficient \<open>n\<close> of the key.\<close>

definition key_at :: "acc_ctx \<Rightarrow> nat \<Rightarrow> bool" where
  "key_at ctx n = bit (ctx ! (4 + n div 512)) (n mod 512)"

lemma secret_key_bit_at:
  assumes "n \<le> 4096"
  shows "secret_key_bit ctx (of_nat n) = key_at ctx n"
proof -
  have n: "unat (of_nat n :: u32) = n" using assms by (simp add: unsigned_of_nat take_bit_nat_eq_self)
  have d: "unat (drop_bit 9 (of_nat n :: u32)) = n div 512" by (subst unat_drop_bit_eq) (simp add: n drop_bit_eq_div)
  have "n div 512 \<le> 8" using assms by (simp add: div_le_mono [of n 4096 512, simplified])
  then have w: "unat (4 + drop_bit 9 (of_nat n :: u32)) = 4 + n div 512" by (simp add: unat_word_ariths d)
  have "(of_nat n :: u32) AND 511 = take_bit 9 (of_nat n)" by (simp add: take_bit_eq_mask mask_numeral)
  moreover have "unat (take_bit 9 (of_nat n :: u32)) = n mod 512" by (subst unsigned_take_bit_eq) (simp add: n take_bit_eq_mod)
  ultimately have b: "unat ((of_nat n :: u32) AND 511) = n mod 512" by (simp only:)
  have "\<not> 256 \<le> 4 + drop_bit 9 (of_nat n :: u32)" using \<open>n div 512 \<le> 8\<close> by (simp add: word_le_nat_alt w)
  then show ?thesis by (simp add: secret_key_bit_def KEY_CONTEXT_BASE_def Let_def w b key_at_def)
qed

lemma dec_secret_key_bit_at: "dec_secret_key_bit ctx w = key_at ctx (unat w)"
proof -
  have "unat (get_range 0 w :: 9 word) = unat w mod 512"
    by (simp add: get_range_def unsigned_ucast_eq take_bit_eq_mod)
  moreover have "unat (drop_bit 9 w) = unat w div 512" by (subst unat_drop_bit_eq) (simp add: drop_bit_eq_div)
  ultimately show ?thesis by (simp only: dec_secret_key_bit_def KEY_CONTEXT_BASE_def key_at_def Let_def)
qed

section \<open>The mask\<close>

definition mask_at :: "u64 \<Rightarrow> nat \<Rightarrow> u64" where
  "mask_at s i = (next_random ^^ Suc i) s"

definition inner :: "acc_ctx \<Rightarrow> u64 \<Rightarrow> nat \<Rightarrow> u64" where
  "inner ctx s n = (\<Sum>i < n. if key_at ctx i then mask_at s i else 0)"

lemma inner_Suc: "inner ctx s (Suc n) = (if key_at ctx n then inner ctx s n + mask_at s n else inner ctx s n)"
  by (simp add: inner_def)

definition pc_of :: "native_state \<Rightarrow> bool \<Rightarrow> u64 list" where
  "pc_of s second = (if second then ns_pc1 s else ns_pc0 s)"

lemma hpu_position_inj:
  assumes "hpu_position (of_nat i) = hpu_position (of_nat j)" and "i < 2048" and "j < 2048"
  shows "i = j"
proof -
  obtain b off where "hpu_position (of_nat i) = (b, off)" by fastforce
  then have "(get_range 0 (of_nat i :: u32) :: 11 word) = get_range 0 (of_nat j :: u32)"
    using natural_index_position assms(1) by metis
  then have "unat (get_range 0 (of_nat i :: u32) :: 11 word) = unat (get_range 0 (of_nat j :: u32) :: 11 word)" by simp
  then show ?thesis using assms(2,3)
    by (simp add: get_range_def unsigned_ucast_eq unsigned_of_nat take_bit_nat_eq_self)
qed

lemma native_mask_run:
  assumes "n \<le> 2048" and "length u0 = 1024" and "length u1 = 1024"
    and "s = fold (native_mask_step ctx) [0..<n] \<lparr>ns_rng = rng, ns_body = 0, ns_pc0 = u0, ns_pc1 = u1\<rparr>"
  shows "ns_rng s = (next_random ^^ n) rng \<and> ns_body s = inner ctx rng n \<and> length (ns_pc0 s) = 1024 \<and> length (ns_pc1 s) = 1024
     \<and> (\<forall>i < n. \<forall>b off. hpu_position (of_nat i) = (b, off) \<longrightarrow> pc_of s b ! unat off = mask_at rng i)"
  using assms(1,4)
proof (induction n arbitrary: s)
  case 0
  then show ?case using assms(2,3) by (simp add: inner_def)
next
  case (Suc n)
  define t where "t = fold (native_mask_step ctx) [0..<n] \<lparr>ns_rng = rng, ns_body = 0, ns_pc0 = u0, ns_pc1 = u1\<rparr>"
  have IH: "ns_rng t = (next_random ^^ n) rng" "ns_body t = inner ctx rng n" "length (ns_pc0 t) = 1024" "length (ns_pc1 t) = 1024"
     "\<forall>i < n. \<forall>b off. hpu_position (of_nat i) = (b, off) \<longrightarrow> pc_of t b ! unat off = mask_at rng i"
    using Suc.IH [OF _ t_def] Suc.prems(1) by auto
  obtain b off where p: "hpu_position (of_nat n) = (b, off)" by fastforce
  have off: "unat off < 1024" using unsigned_less [of off, where ?'a = nat] by simp
  have m: "next_random (ns_rng t) = mask_at rng n" by (simp add: IH(1) mask_at_def)
  have k: "secret_key_bit ctx (of_nat n) = key_at ctx n" using Suc.prems(1) by (intro secret_key_bit_at) simp
  have s: "s = native_mask_step ctx n t" using Suc.prems(2) by (simp add: t_def)
  have arr: "pc_of s b' = (if b' = b then (pc_of t b)[unat off := mask_at rng n] else pc_of t b')" for b'
    unfolding s using p m by (cases b; cases b') (simp_all add: native_mask_step_def Let_def pc_of_def)
  have "ns_rng s = (next_random ^^ Suc n) rng" "ns_body s = inner ctx rng (Suc n)" "length (ns_pc0 s) = 1024" "length (ns_pc1 s) = 1024"
    unfolding s using p m k IH by (auto simp: native_mask_step_def Let_def inner_Suc mask_at_def)
  moreover have "pc_of s b' ! unat off' = mask_at rng i" if "i < Suc n" "hpu_position (of_nat i) = (b', off')" for i b' off'
  proof (cases "i = n")
    case True
    then show ?thesis using that p off arr IH(3,4) by (auto simp: pc_of_def)
  next
    case False
    then have i: "i < n" using that by simp
    have "(b', off') \<noteq> (b, off)" using hpu_position_inj [of i n] that p i Suc.prems(1) by auto
    then have "pc_of s b' ! unat off' = pc_of t b' ! unat off'" by (auto simp: arr word_unat_eq_iff)
    then show ?thesis using IH(5) i that(2) by simp
  qed
  ultimately show ?case by blast
qed

text \<open>The words of a ciphertext in the native layout: the mask words in the slot and at the offset of their
  index.\<close>

definition native_pc :: "u64 \<Rightarrow> bool \<Rightarrow> u64 list" where
  "native_pc rng second = map (\<lambda>off. mask_at rng (unat (natural_index_from_pc_offset (of_bool second) (of_nat off)))) [0..<1024]"

definition noise_of :: "u32 \<Rightarrow> u32 \<Rightarrow> u64 \<Rightarrow> u64" where
  "noise_of nm bound s = (if nm = NOISE_TUNIFORM then fst (sample_tuniform_like_noise s bound) else 0)"

definition start_state :: "u64 \<Rightarrow> u64 \<Rightarrow> u32 \<Rightarrow> u64" where
  "start_state seed nc idx = seed XOR nc XOR (ucast idx + 1)"

definition native_packets :: "acc_ctx \<Rightarrow> u64 \<Rightarrow> u64 \<Rightarrow> acc_pkt list" where
  "native_packets ctx rng m =
     pack_words (slot_words (native_pc rng False) [inner ctx rng 2048 + m]) @ pack_words (slot_words (native_pc rng True) [])"

lemma length_native_pc [simp]: "length (native_pc rng b) = 1024"
  by (simp add: native_pc_def)

lemma native_pc_run:
  assumes "length u0 = 1024" and "length u1 = 1024"
    and "s = fold (native_mask_step ctx) [0..<2048] \<lparr>ns_rng = rng, ns_body = 0, ns_pc0 = u0, ns_pc1 = u1\<rparr>"
  shows "pc_of s b = native_pc rng b"
proof (rule nth_equalityI)
  note run = native_mask_run [OF order_refl assms]
  then show "length (pc_of s b) = length (native_pc rng b)" by (simp add: pc_of_def)
  fix off
  assume "off < length (pc_of s b)"
  then have off: "off < 1024" using run by (auto simp: pc_of_def split: if_splits)
  let ?n = "natural_index_from_pc_offset (of_bool b) (of_nat off)"
  have o: "unat (of_nat off :: 10 word) = off" using off by (simp add: unsigned_of_nat take_bit_nat_eq_self)
  have n: "unat ?n < 2048" using unsigned_less [of ?n, where ?'a = nat] by simp
  have "(of_nat (unat ?n) :: u32) = ucast ?n" by simp
  then have "hpu_position (of_nat (unat ?n)) = (b, of_nat off)" using position_natural_index [of "of_bool b" "of_nat off"] by (simp add: bit_of_bool_iff)
  then have "pc_of s b ! unat (of_nat off :: 10 word) = mask_at rng (unat ?n)" using run n by blast
  then show "pc_of s b ! off = native_pc rng b ! off" using off by (simp add: o native_pc_def)
qed

lemma encrypt_encoded_lwe_hpu_native_packets:
  assumes "length u0 = 1024" and "length u1 = 1024"
  shows "encrypt_encoded_lwe_hpu_native u0 u1 ctx nm bound encoded seed nc idx out
     = out @ native_packets ctx (start_state seed nc idx)
         (encoded + noise_of nm bound ((next_random ^^ 2048) (start_state seed nc idx)))"
proof -
  define s where "s = fold (native_mask_step ctx) [0..<2048] \<lparr>ns_rng = start_state seed nc idx, ns_body = 0, ns_pc0 = u0, ns_pc1 = u1\<rparr>"
  note run = native_mask_run [OF order_refl assms s_def] and pcs = native_pc_run [OF assms s_def]
  have "ns_pc0 s = native_pc (start_state seed nc idx) False" "ns_pc1 s = native_pc (start_state seed nc idx) True"
    using pcs [of False] pcs [of True] by (simp_all add: pc_of_def)
  then show ?thesis using run
    by (simp add: encrypt_encoded_lwe_hpu_native_def Let_def BIG_LWE_DIMENSION_def s_def [symmetric] start_state_def [symmetric]
        write_hpu_native_pc_slot_words native_packets_def noise_of_def add.assoc del: upt_rec_numeral)
qed

section \<open>Reading a slot\<close>

text \<open>The word at position \<open>k\<close> of a slot given as packets.\<close>

definition slot_word :: "acc_pkt list \<Rightarrow> nat \<Rightarrow> u64" where
  "slot_word ps k = word_at (pdata (ps ! (k div 8))) (k mod 8)"

lemma slot_word_pack: "k < length ws \<Longrightarrow> 8 dvd length ws \<Longrightarrow> slot_word (pack_words ws) k = ws ! k"
  unfolding slot_word_def by (subst word_at_pack_words) (auto simp: div_less_iff_less_mult elim!: dvdE)

definition slot_dot :: "acc_ctx \<Rightarrow> 1 word \<Rightarrow> acc_pkt list \<Rightarrow> nat \<Rightarrow> u64" where
  "slot_dot ctx pc ps n = (\<Sum>k < n. if key_at ctx (unat (natural_index_from_pc_offset pc (of_nat k))) then slot_word ps k else 0)"

lemma mask_words_run:
  assumes "j < 128"
  shows "fold (mask_word_step ctx pc (push_bit 3 (ucast (of_nat j :: u8))) (pdata (ps ! j))) [0..<8] (slot_dot ctx pc ps (8 * j))
     = slot_dot ctx pc ps (8 * j + 8)"
proof -
  have "(ucast (of_nat j :: u8) :: 10 word) = of_nat j"
    using assms by (simp add: word_unat_eq_iff unsigned_ucast_eq unsigned_of_nat take_bit_nat_eq_self)
  then have b: "push_bit 3 (ucast (of_nat j :: u8)) = (of_nat (8 * j) :: 10 word)" by (simp add: push_bit_eq_mult)
  have "fold (mask_word_step ctx pc (of_nat (8 * j)) (pdata (ps ! j))) [0..<m] (slot_dot ctx pc ps (8 * j)) = slot_dot ctx pc ps (8 * j + m)"
    if "m \<le> 8" for m using that
  proof (induction m)
    case (Suc m)
    then have "(8 * j + m) div 8 = j" "(8 * j + m) mod 8 = m" by auto
    then have "slot_word ps (8 * j + m) = get_range (m * 64) (pdata (ps ! j))" by (simp add: slot_word_def word_at_def)
    with Suc show ?case by (simp add: mask_word_step_def Let_def dec_secret_key_bit_at slot_dot_def)
  qed simp
  from this [of 8] show ?thesis unfolding b by simp
qed

section \<open>Noise and rounding\<close>

lemma decode_radix_block_value:
  "uint (decode_radix_block body x) = (uint (body - x) + 2 ^ 58) div 2 ^ 59 mod 4"
proof -
  have d: "(ucast (drop_bit 1 DELTA) :: 65 word) = 2 ^ 58" by (simp add: DELTA_def DELTA_LOG2_def)
  have lt: "uint (body - x) < 2 ^ 64" using unsigned_less [of "body - x", where ?'a = int] by simp
  define W :: "65 word" where "W = ucast (body - x) + 2 ^ 58"
  have "uint W = uint (body - x) + 2 ^ 58"
    using lt by (simp add: W_def uint_word_ariths unsigned_ucast_eq take_bit_int_eq_self)
  moreover have "uint (drop_bit 59 W) = drop_bit 59 (uint W)" 
    using unsigned_less [of W, where ?'a = int] by (simp add: unsigned_drop_bit_eq take_bit_int_eq_self)
  ultimately have "uint (drop_bit 59 W) = (uint (body - x) + 2 ^ 58) div 2 ^ 59" by (simp only: drop_bit_eq_div)
  moreover have "(uint (body - x) + 2 ^ 58) div 2 ^ 59 < 2 ^ 64"
  proof -
    have "(uint (body - x) + 2 ^ 58) div 2 ^ 59 \<le> (2 ^ 64 + 2 ^ 58) div 2 ^ 59" using lt by (intro zdiv_mono1) simp_all
    then show ?thesis by simp
  qed
  moreover have "0 \<le> (uint (body - x) + 2 ^ 58) div 2 ^ 59" by (simp add: pos_imp_zdiv_nonneg_iff)
  ultimately have X: "uint (ucast (drop_bit 59 W) :: u64) = (uint (body - x) + 2 ^ 58) div 2 ^ 59"
    by (simp only: unsigned_ucast_eq take_bit_int_eq_self) (simp add: take_bit_int_eq_self)
  define R :: u64 where "R = ucast (drop_bit 59 W)"
  have "decode_radix_block body x = ucast R"
    unfolding decode_radix_block_def Let_def d DELTA_LOG2_def get_range_def W_def R_def by simp
  moreover have "uint (ucast R :: 2 word) = uint R mod 4" by (simp add: unsigned_ucast_eq take_bit_eq_mod)
  ultimately show ?thesis using X by (simp only: R_def)
qed

lemma decode_radix_block_shift:
  "decode_radix_block (x + (word_of_int v * DELTA + e)) x = word_of_int (v + (sint e + 2 ^ 58) div 2 ^ 59)"
proof -
  let ?A = "v * 2 ^ 59 + sint e"
  have "x + (word_of_int v * DELTA + e) - x = (word_of_int ?A :: u64)"
    by (simp add: DELTA_def DELTA_LOG2_def push_bit_eq_mult)
  then have p: "uint (x + (word_of_int v * DELTA + e) - x) = ?A mod 2 ^ 64"
    by (simp only: uint_word_of_int_eq take_bit_eq_mod) simp
  define k where "k = ?A div 2 ^ 64"
  have shift: "(v - 32 * k + z) mod 4 = (v + z) mod 4" for z by presburger
  have "?A mod 2 ^ 64 = ?A - 2 ^ 64 * k" by (simp add: k_def minus_mult_div_eq_mod)
  then have "(?A mod 2 ^ 64 + 2 ^ 58) div 2 ^ 59 = (sint e + 2 ^ 58 + (v - 32 * k) * 2 ^ 59) div 2 ^ 59"
    by (simp add: algebra_simps)
  also have "\<dots> = (v - 32 * k) + (sint e + 2 ^ 58) div 2 ^ 59" by (subst div_mult_self1) simp_all
  finally have "(?A mod 2 ^ 64 + 2 ^ 58) div 2 ^ 59 mod 4 = (v + (sint e + 2 ^ 58) div 2 ^ 59) mod 4"
    using shift [of "(sint e + 2 ^ 58) div 2 ^ 59"] by (simp only:)
  then have "uint (decode_radix_block (x + (word_of_int v * DELTA + e)) x) = (v + (sint e + 2 ^ 58) div 2 ^ 59) mod 4"
    unfolding decode_radix_block_value p .
  then show ?thesis by (simp only: word_uint_eq_iff uint_word_of_int_eq take_bit_eq_mod) simp
qed

text \<open>The noise of the generator is smaller than \<open>2 ^ bound\<close>.\<close>

lemma sample_noise_bound:
  assumes "unat bound \<le> 58"
  shows "- (2 ^ unat bound) < sint (fst (sample_tuniform_like_noise s bound)) \<and> sint (fst (sample_tuniform_like_noise s bound)) < 2 ^ unat bound"
proof (cases "bound = 0")
  case False
  let ?r = "next_random s" and ?n = "unat bound"
  have lt: "bound < 64" using assms by (simp add: word_less_nat_alt)
  have "push_bit ?n 1 - 1 = (mask ?n :: u64)" by (simp add: mask_eq_exp_minus_1 push_bit_eq_mult)
  then have m: "?r AND (push_bit ?n 1 - 1) = take_bit ?n ?r" by (simp add: take_bit_eq_mask)
  have u: "uint (take_bit ?n ?r) < 2 ^ ?n" by (subst unsigned_take_bit_eq) simp_all
  have "(2 :: int) ^ ?n \<le> 2 ^ 58" using assms by (intro power_increasing) simp_all
  with u have "uint (take_bit ?n ?r) < 2 ^ 63" by simp
  then have s: "sint (take_bit ?n ?r) = uint (take_bit ?n ?r)"
    unfolding sint_uint by (intro signed_take_bit_int_eq_self) (auto intro: order_trans [of _ 0])
  have "sint (- take_bit ?n ?r) = - sint (take_bit ?n ?r)"
    using \<open>uint (take_bit ?n ?r) < 2 ^ 63\<close> unfolding sint_word_minus s
    by (intro signed_take_bit_int_eq_self) (auto intro: order_trans [of _ 0] le_less_trans [of _ 0])
  moreover have "fst (sample_tuniform_like_noise s bound) = (if bit ?r 63 then - take_bit ?n ?r else take_bit ?n ?r)"
    using False lt m by (simp add: sample_tuniform_like_noise_def Let_def)
  moreover have "- uint (take_bit ?n ?r) < 2 ^ ?n" "- (2 ^ ?n) < uint (take_bit ?n ?r)"
    using le_less_trans [of "- uint (take_bit ?n ?r)" 0 "2 ^ ?n"] less_le_trans [of "- (2 ^ ?n)" 0 "uint (take_bit ?n ?r)"] by simp_all
  ultimately show ?thesis using u s by auto
qed (simp add: sample_tuniform_like_noise_def)

end
