(* ===== verification/Lwe_Roundtrip.thy ===== *)
theory Lwe_Roundtrip
  imports Lwe_Laws
begin

unbundle bit_operations_syntax

text \<open>
  The two LWE operators together: what the encryption writes in the layout of the HPU, the decryption
  reads back.  The proof follows the stream from the inside out: a slot, a ciphertext, a byte, the
  whole stream.
\<close>

section \<open>A slot\<close>

text \<open>The state after \<open>j\<close> packets of a slot, before its last.\<close>

definition in_slot :: "acc_ctx \<Rightarrow> acc_pkt list \<Rightarrow> dec_state \<Rightarrow> nat \<Rightarrow> dec_state" where
  "in_slot ctx ps s j = s\<lparr>packet_index_in_pc := of_nat j, dot := dot s + slot_dot ctx (pc_index s) ps (8 * min j 128),
     dbody := (if pc_index s = 0 \<and> 128 < j then slot_word ps 1024 else dbody s)\<rparr>"

lemma mask_word_fold: "fold (mask_word_step ctx pc base x) ls (a + b) = a + fold (mask_word_step ctx pc base x) ls b"
  by (induction ls arbitrary: b) (simp_all add: mask_word_step_def Let_def add.assoc)

lemma byte_eq: "i < 256 \<Longrightarrow> j < 256 \<Longrightarrow> (of_nat i :: u8) = of_nat j \<longleftrightarrow> i = j"
  by (simp add: word_unat_eq_iff unsigned_of_nat take_bit_nat_eq_self)

lemma byte_less: "i < 256 \<Longrightarrow> j < 256 \<Longrightarrow> (of_nat i :: u8) < of_nat j \<longleftrightarrow> i < j"
  by (simp add: word_less_nat_alt unsigned_of_nat take_bit_nat_eq_self)

lemma absorb_in_slot:
  assumes "j < 192"
  shows "absorb_packet ctx (pdata (ps ! j)) (in_slot ctx ps s j) = (in_slot ctx ps s (Suc j))\<lparr>packet_index_in_pc := of_nat j\<rparr>"
proof -
  have lt: "(of_nat j :: u8) < 128 \<longleftrightarrow> j < 128" using byte_less [of j 128] assms by simp
  have eq: "(of_nat j :: u8) = 128 \<longleftrightarrow> j = 128" using byte_eq [of j 128] assms by simp
  consider "j < 128" | "j = 128" | "128 < j" by linarith
  then show ?thesis
  proof cases
    case 1
    then show ?thesis using mask_words_run [OF 1, of ctx "pc_index s" ps] lt
      by (simp add: absorb_packet_def in_slot_def PC_DATA_WORDS_def WORDS_PER_PKT_def mask_word_fold min_def add.commute)
  next
    case 2
    then have "slot_word ps 1024 = get_range 0 (pdata (ps ! 128))" by (simp add: slot_word_def word_at_def)
    with 2 show ?thesis using lt eq
      by (simp add: absorb_packet_def in_slot_def PC_DATA_WORDS_def WORDS_PER_PKT_def)
  next
    case 3
    then show ?thesis using lt eq
      by (simp add: absorb_packet_def in_slot_def PC_DATA_WORDS_def WORDS_PER_PKT_def)
  qed
qed

lemma decrypt_step_in_slot:
  assumes "j < 191"
  shows "decrypt_step ctx (ps ! j) (in_slot ctx ps s j) = in_slot ctx ps s (Suc j)"
proof -
  have "(of_nat j :: u8) + 1 = of_nat (Suc j)" by simp
  moreover have "(of_nat (Suc j) :: u8) \<noteq> 192" using byte_eq [of "Suc j" 192] assms by simp
  ultimately show ?thesis using absorb_in_slot [of j ctx ps s] assms
    by (simp add: decrypt_step_def Let_def PC_SLOT_PACKETS_def) (simp add: in_slot_def)
qed

text \<open>A whole slot.\<close>

definition after_slot :: "acc_ctx \<Rightarrow> acc_pkt list \<Rightarrow> dec_state \<Rightarrow> dec_state" where
  "after_slot ctx ps s =
     (if pc_index s = 0
      then s\<lparr>pc_index := 1, dot := dot s + slot_dot ctx 0 ps 1024, dbody := slot_word ps 1024\<rparr>
      else end_block (s\<lparr>dot := dot s + slot_dot ctx (pc_index s) ps 1024\<rparr>))"

lemma decrypt_step_last:
  assumes "packet_index_in_pc s = 0"
  shows "decrypt_step ctx (ps ! 191) (in_slot ctx ps s 191) = after_slot ctx ps s"
proof -
  have "s\<lparr>packet_index_in_pc := 0\<rparr> = s" using assms by (cases s) simp
  moreover have "(in_slot ctx ps s 192)\<lparr>packet_index_in_pc := 0\<rparr> = (s\<lparr>packet_index_in_pc := 0\<rparr>)\<lparr>dot := dot s + slot_dot ctx (pc_index s) ps 1024,
     dbody := (if pc_index s = 0 then slot_word ps 1024 else dbody s)\<rparr>" by (simp add: in_slot_def)
  ultimately have z: "(in_slot ctx ps s 192)\<lparr>packet_index_in_pc := 0\<rparr> = s\<lparr>dot := dot s + slot_dot ctx (pc_index s) ps 1024,
     dbody := (if pc_index s = 0 then slot_word ps 1024 else dbody s)\<rparr>" by simp
  have "absorb_packet ctx (pdata (ps ! 191)) (in_slot ctx ps s 191) = (in_slot ctx ps s 192)\<lparr>packet_index_in_pc := 191\<rparr>"
    using absorb_in_slot [of 191 ctx ps s] by simp
  then have "decrypt_step ctx (ps ! 191) (in_slot ctx ps s 191)
      = (let s3 = (in_slot ctx ps s 192)\<lparr>packet_index_in_pc := 0\<rparr> in if pc_index s3 = 0 then s3\<lparr>pc_index := 1\<rparr> else end_block s3)"
    by (simp add: decrypt_step_def PC_SLOT_PACKETS_def Let_def)
  then show ?thesis unfolding z by (simp add: Let_def after_slot_def)
qed

definition open_count :: "dec_cfg \<Rightarrow> dec_state \<Rightarrow> bool" where
  "open_count c s \<longleftrightarrow> d_input_count c = 0 \<or> processed_count s < d_input_count c"

lemma stream_slot:
  assumes "length ps = 192" and "\<forall>p \<in> set ps. \<not> is_suda_done_packet p" and "packet_index_in_pc s = 0" and "open_count c s"
    and "i + 192 \<le> 0xffffffff"
  shows "decrypt_stream_loop ctx c i s (ps @ rest) = decrypt_stream_loop ctx c (i + 192) (after_slot ctx ps s) rest"
proof -
  have step: "decrypt_stream_loop ctx c (i + j) (in_slot ctx ps s j) (ps ! j # qs)
      = decrypt_stream_loop ctx c (Suc (i + j)) (decrypt_step ctx (ps ! j) (in_slot ctx ps s j)) qs" if "j < 192" for j qs
  proof -
    have "\<not> is_suda_done_packet (ps ! j)" using assms(1,2) that by simp
    moreover have "\<not> (d_input_count c \<noteq> 0 \<and> processed_count (in_slot ctx ps s j) \<ge> d_input_count c)"
      using assms(4) by (auto simp: open_count_def in_slot_def)
    ultimately show ?thesis using assms(5) that by auto
  qed
  have start: "in_slot ctx ps s 0 = s" using assms(3) by (cases s) (simp add: in_slot_def slot_dot_def)
  have upto: "decrypt_stream_loop ctx c i s (ps @ rest) = decrypt_stream_loop ctx c (i + j) (in_slot ctx ps s j) (drop j ps @ rest)"
    if "j \<le> 191" for j using that
  proof (induction j)
    case 0
    then show ?case by (simp add: start)
  next
    case (Suc j)
    have "drop j ps = ps ! j # drop (Suc j) ps" using Suc.prems assms(1) by (simp add: Cons_nth_drop_Suc)
    with Suc show ?case using step [of j] decrypt_step_in_slot [of j ctx ps s] by simp
  qed
  have "drop 191 ps = [ps ! 191]" using assms(1) Cons_nth_drop_Suc [of 191 ps] by simp
  then have "decrypt_stream_loop ctx c i s (ps @ rest) = decrypt_stream_loop ctx c (i + 191) (in_slot ctx ps s 191) (ps ! 191 # rest)"
    using upto [of 191] by (simp only: append_Cons append_Nil)
  also have "\<dots> = decrypt_stream_loop ctx c (Suc (i + 191)) (after_slot ctx ps s) rest"
    using step [of 191 rest] by (simp only: decrypt_step_last [OF assms(3)])
  moreover have "Suc (i + 191) = i + 192" by simp
  ultimately show ?thesis by (simp only:)
qed

section \<open>A ciphertext\<close>

definition natural_of :: "bool \<Rightarrow> nat \<Rightarrow> nat" where
  "natural_of second off = unat (natural_index_from_pc_offset (of_bool second) (of_nat off))"

lemma natural_of_bij: "bij_betw (\<lambda>(b, k). natural_of b k) (UNIV \<times> {..<1024}) {..<2048}"
proof (rule bij_betw_byWitness [where f' = "\<lambda>n. (fst (hpu_position (of_nat n)), unat (snd (hpu_position (of_nat n))))"])
  have pos: "hpu_position (of_nat (natural_of b k)) = (b, of_nat k)" for b k
    using position_natural_index [of "of_bool b" "of_nat k"] by (simp add: natural_of_def bit_of_bool_iff)
  show "\<forall>x \<in> UNIV \<times> {..<1024}. (fst (hpu_position (of_nat (case x of (b, k) \<Rightarrow> natural_of b k))),
      unat (snd (hpu_position (of_nat (case x of (b, k) \<Rightarrow> natural_of b k))))) = x"
    by (auto simp: pos unsigned_of_nat take_bit_nat_eq_self)
  show "\<forall>n \<in> {..<2048}. (case (fst (hpu_position (of_nat n)), unat (snd (hpu_position (of_nat n)))) of (b, k) \<Rightarrow> natural_of b k) = n"
  proof
    fix n :: nat
    assume "n \<in> {..<2048}"
    moreover have "natural_index_from_pc_offset (of_bool (fst (hpu_position (of_nat n)))) (snd (hpu_position (of_nat n))) = get_range 0 (of_nat n :: u32)"
      by (rule natural_index_position) simp
    ultimately show "(case (fst (hpu_position (of_nat n)), unat (snd (hpu_position (of_nat n)))) of (b, k) \<Rightarrow> natural_of b k) = n"
      by (simp add: natural_of_def get_range_def unsigned_ucast_eq unsigned_of_nat take_bit_nat_eq_self)
  qed
  show "(\<lambda>(b, k). natural_of b k) ` (UNIV \<times> {..<1024}) \<subseteq> {..<2048}"
    using unsigned_less [where ?'a = nat and ?'b = 11] by (auto simp: natural_of_def)
  show "(\<lambda>n. (fst (hpu_position (of_nat n)), unat (snd (hpu_position (of_nat n))))) ` {..<2048} \<subseteq> UNIV \<times> {..<1024}"
    using unsigned_less [where ?'a = nat and ?'b = 10] by auto
qed

lemma sum_natural:
  fixes f :: "nat \<Rightarrow> u64"
  shows "(\<Sum>k < 1024. f (natural_of False k)) + (\<Sum>k < 1024. f (natural_of True k)) = (\<Sum>n < 2048. f n)"
proof -
  have "(\<Sum>n < 2048. f n) = (\<Sum>(b, k) \<in> UNIV \<times> {..<1024}. f (natural_of b k))"
    using sum.reindex_bij_betw [OF natural_of_bij, of f] by (simp add: case_prod_unfold)
  also have "\<dots> = (\<Sum>b \<in> UNIV. \<Sum>k < 1024. f (natural_of b k))" by (simp only: sum.cartesian_product)
  finally show ?thesis by (simp add: UNIV_bool add.commute)
qed

definition same_key :: "acc_ctx \<Rightarrow> acc_ctx \<Rightarrow> bool" where
  "same_key ctx ctx' \<longleftrightarrow> (\<forall>k < 4. ctx ! (4 + k) = ctx' ! (4 + k))"

lemma same_key_at: "same_key ctx ctx' \<Longrightarrow> n < 2048 \<Longrightarrow> key_at ctx n = key_at ctx' n"
  by (simp add: same_key_def key_at_def div_less_iff_less_mult)

lemma slot_dot_native:
  assumes "same_key ctx ctx'" and "length extra \<le> 512"
  shows "slot_dot ctx' (of_bool b) (pack_words (slot_words (native_pc rng b) extra)) 1024
     = (\<Sum>k < 1024. if key_at ctx (natural_of b k) then mask_at rng (natural_of b k) else 0)"
  unfolding slot_dot_def
proof (rule sum.cong [OF refl])
  fix k :: nat
  assume k: "k \<in> {..<1024}"
  have len: "length (slot_words (native_pc rng b) extra) = 1536" using assms(2) by (simp add: slot_words_def)
  have "slot_word (pack_words (slot_words (native_pc rng b) extra)) k = slot_words (native_pc rng b) extra ! k"
    using k by (intro slot_word_pack) (simp_all add: len)
  also have "\<dots> = mask_at rng (natural_of b k)" using k by (simp add: slot_words_def nth_append native_pc_def natural_of_def)
  finally have w: "slot_word (pack_words (slot_words (native_pc rng b) extra)) k = mask_at rng (natural_of b k)" .
  have "natural_of b k < 2048" using unsigned_less [where ?'a = nat and ?'b = 11] by (auto simp: natural_of_def)
  then show "(if key_at ctx' (unat (natural_index_from_pc_offset (of_bool b) (of_nat k)))
       then slot_word (pack_words (slot_words (native_pc rng b) extra)) k else 0)
     = (if key_at ctx (natural_of b k) then mask_at rng (natural_of b k) else 0)"
    using same_key_at [OF assms(1)] by (simp add: w flip: natural_of_def)
qed

text \<open>The state between two ciphertexts.\<close>

definition at_block :: "dec_state \<Rightarrow> bool" where
  "at_block s \<longleftrightarrow> pc_index s = 0 \<and> packet_index_in_pc s = 0 \<and> dot s = 0 \<and> dbody s = 0"

lemma payload_not_done: "\<not> is_suda_done_packet (payload_pkt x)"
  by (simp add: is_suda_done_packet_def payload_pkt_def)

lemma pack_words_not_done: "\<forall>p \<in> set (pack_words ws). \<not> is_suda_done_packet p"
  using pack_words_payload payload_not_done by metis

lemma stream_ciphertext:
  assumes "same_key ctx ctx'" and "at_block s" and "open_count c s" and "i + 384 \<le> 0xffffffff"
  shows "decrypt_stream_loop ctx' c i s (native_packets ctx rng m @ rest)
     = decrypt_stream_loop ctx' c (i + 384)
         (end_block (s\<lparr>pc_index := 1, dbody := inner ctx rng 2048 + m, dot := inner ctx rng 2048\<rparr>)) rest"
proof -
  let ?A = "pack_words (slot_words (native_pc rng False) [inner ctx rng 2048 + m])" and ?B = "pack_words (slot_words (native_pc rng True) [])"
  have len: "length (slot_words (native_pc rng b) e) = 1536" if "length e \<le> 512" for b e using that by (simp add: slot_words_def)
  have body: "slot_word ?A 1024 = inner ctx rng 2048 + m"
    using slot_word_pack [of 1024 "slot_words (native_pc rng False) [inner ctx rng 2048 + m]"] len [of "[inner ctx rng 2048 + m]" False]
    by (simp add: slot_words_def nth_append)
  have pc1: "(of_bool True :: 1 word) = 1" "(of_bool False :: 1 word) = 0" by simp_all
  define s1 where "s1 = s\<lparr>pc_index := 1, dot := slot_dot ctx' 0 ?A 1024, dbody := inner ctx rng 2048 + m\<rparr>"
  have 1: "after_slot ctx' ?A s = s1" using assms(2) body by (simp add: after_slot_def at_block_def s1_def)
  have "slot_dot ctx' 0 ?A 1024 + slot_dot ctx' 1 ?B 1024 = inner ctx rng 2048"
    using slot_dot_native [OF assms(1), of "[inner ctx rng 2048 + m]" False rng] slot_dot_native [OF assms(1), of "[]" True rng]
      sum_natural [of "\<lambda>n. if key_at ctx n then mask_at rng n else 0"] by (simp add: inner_def)
  then have 2: "after_slot ctx' ?B s1 = end_block (s\<lparr>pc_index := 1, dbody := inner ctx rng 2048 + m, dot := inner ctx rng 2048\<rparr>)"
    by (simp add: after_slot_def s1_def)
  have "decrypt_stream_loop ctx' c i s (?A @ ?B @ rest) = decrypt_stream_loop ctx' c (i + 192) s1 (?B @ rest)"
    using stream_slot [of ?A s c i ctx' "?B @ rest"] assms(2-4) 1 len [of "[inner ctx rng 2048 + m]" False]
    by (simp add: pack_words_not_done at_block_def)
  also have "\<dots> = decrypt_stream_loop ctx' c (i + 192 + 192) (after_slot ctx' ?B s1) rest"
    using stream_slot [of ?B s1 c "i + 192" ctx' rest] assms(2-4) len [of "[]" True]
    by (simp add: pack_words_not_done at_block_def s1_def open_count_def)
  finally have "decrypt_stream_loop ctx' c i s (?A @ ?B @ rest) = decrypt_stream_loop ctx' c (i + 384) (after_slot ctx' ?B s1) rest"
    by (simp add: add.assoc)
  then show ?thesis by (simp only: native_packets_def 2 append_assoc)
qed

section \<open>A byte\<close>

definition small_noise :: "u64 \<Rightarrow> bool" where
  "small_noise e \<longleftrightarrow> - (2 ^ 58) \<le> sint e \<and> sint e < 2 ^ 58"

lemma radix_block_word: "(word_of_int (uint (radix_block v b)) :: 2 word) = get_range (2 * b) v"
proof (rule bit_word_eqI)
  fix n
  assume "n < LENGTH(2)"
  then have n: "n < 2" by simp
  have "bit (word_of_int (uint (radix_block v b)) :: 2 word) n = bit (radix_block v b) n"
    using n by (simp add: bit_ucast_iff)
  also have "\<dots> = bit v (2 * b + n)"
  proof -
    have "bit (3 :: u64) n" using n by (auto simp: less_2_cases_iff)
    then show ?thesis using n
      by (simp only: radix_block_def MESSAGE_WIDTH_def) (auto simp: bit_and_iff bit_ucast_iff bit_drop_bit_eq ac_simps)
  qed
  finally show "bit (word_of_int (uint (radix_block v b)) :: 2 word) n = bit (get_range (2 * b) v :: 2 word) n"
    using n by (simp add: bit_get_range)
qed

lemma decode_block:
  assumes "small_noise e"
  shows "decode_radix_block (x + (radix_block v b * DELTA + e)) x = get_range (2 * b) v"
proof -
  have "(sint e + 2 ^ 58) div 2 ^ 59 = 0" using assms by (simp add: small_noise_def div_pos_pos_trivial)
  then show ?thesis using decode_radix_block_shift [of x "uint (radix_block v b)" e] radix_block_word [of v b] by simp
qed

definition at_byte :: "dec_state \<Rightarrow> bool" where
  "at_byte s \<longleftrightarrow> at_block s \<and> block_index s = 0 \<and> reconstructed_u8 s = 0"

text \<open>The state after \<open>b\<close> blocks of the byte \<open>v\<close>, and after the byte.\<close>

definition partial :: "dec_state \<Rightarrow> u8 \<Rightarrow> nat \<Rightarrow> dec_state" where
  "partial s v b = s\<lparr>block_index := of_nat b, reconstructed_u8 := take_bit (2 * b) v\<rparr>"

definition after_byte :: "u8 \<Rightarrow> dec_state \<Rightarrow> dec_state" where
  "after_byte v s = s\<lparr>processed_count := processed_count s + 1, packed := write_clear_byte v (packed s)\<rparr>"

lemma reconstruct_block: "take_bit (2 * b) v OR push_bit (2 * b) (ucast (get_range (2 * b) v :: 2 word)) = take_bit (2 * b + 2) (v :: u8)"
proof (rule bit_word_eqI)
  fix n
  assume "n < LENGTH(8)"
  then have n: "n < 8" by simp
  have "2 * b \<le> n \<Longrightarrow> 2 * b + (n - 2 * b) = n" "2 * b \<le> n \<Longrightarrow> n - 2 * b < 2 \<longleftrightarrow> n < 2 * b + 2" by auto
  with n show "bit (take_bit (2 * b) v OR push_bit (2 * b) (ucast (get_range (2 * b) v :: 2 word))) n = bit (take_bit (2 * b + 2) v) n"
    by (auto simp: bit_or_iff bit_take_bit_iff bit_push_bit_iff bit_ucast_iff bit_get_range)
qed

lemma end_block_partial:
  assumes "at_byte s" and "b < 4" and "small_noise e"
  shows "end_block ((partial s v b)\<lparr>pc_index := 1, dbody := x + (radix_block v b * DELTA + e), dot := x\<rparr>)
     = (if b < 3 then partial s v (Suc b) else after_byte v s)"
proof -
  have b: "b = 0 \<or> b = 1 \<or> b = 2 \<or> b = 3" using assms(2) by auto
  then have sh: "unat (ucast (of_nat b :: 3 word) * 2 :: 4 word) = 2 * b" by auto
  have nx: "(of_nat b :: 3 word) + 1 = of_nat (Suc b)" "(of_nat (Suc b) :: 3 word) = 4 \<longleftrightarrow> b = 3" using b by auto
  have s: "pc_index s = 0" "dot s = 0" "dbody s = 0" "block_index s = 0" "reconstructed_u8 s = 0"
    using assms(1) by (auto simp: at_byte_def at_block_def)
  have full: "take_bit 8 v = v" by (simp add: take_bit_word_eq_self)
  define T where "T = (partial s v b)\<lparr>pc_index := 0, reconstructed_u8 := take_bit (2 * b + 2) v, dot := 0, dbody := 0, block_index := of_nat (Suc b)\<rparr>"
  have "end_block ((partial s v b)\<lparr>pc_index := 1, dbody := x + (radix_block v b * DELTA + e), dot := x\<rparr>) = end_byte T"
    using decode_block [OF assms(3), of x v b] sh nx(1) reconstruct_block [of b v]
    by (simp add: end_block_def Let_def T_def partial_def del: of_nat_Suc)
  also have "\<dots> = (if b < 3 then partial s v (Suc b) else after_byte v s)"
  proof (cases "b = 3")
    case True
    then show ?thesis using s full by (cases s) (simp add: end_byte_def T_def partial_def after_byte_def RADIX_BLOCK_COUNT_def)
  next
    case False
    then have "b < 3" using assms(2) by simp
    then show ?thesis using s nx(2) False
      by (cases s) (simp add: end_byte_def T_def partial_def RADIX_BLOCK_COUNT_def del: of_nat_Suc)
  qed
  finally show ?thesis .
qed

lemma stream_block:
  assumes "same_key ctx ctx'" and "at_byte s" and "open_count c s" and "i + 384 \<le> 0xffffffff" and "b < 4" and "small_noise e"
  shows "decrypt_stream_loop ctx' c i (partial s v b) (native_packets ctx rng (radix_block v b * DELTA + e) @ rest)
     = decrypt_stream_loop ctx' c (i + 384) (if b < 3 then partial s v (Suc b) else after_byte v s) rest"
proof -
  have "at_block (partial s v b)" "open_count c (partial s v b)"
    using assms(2,3) by (auto simp: at_byte_def at_block_def partial_def open_count_def)
  from stream_ciphertext [OF assms(1) this assms(4)] show ?thesis by (simp only: end_block_partial [OF assms(2,5,6)])
qed

text \<open>The packets of a byte; \<open>rng\<close> and \<open>e\<close> give the generator state and the noise of each block.\<close>

definition byte_packets :: "acc_ctx \<Rightarrow> (nat \<Rightarrow> u64) \<Rightarrow> (nat \<Rightarrow> u64) \<Rightarrow> u8 \<Rightarrow> acc_pkt list" where
  "byte_packets ctx rng e v = concat (map (\<lambda>b. native_packets ctx (rng b) (radix_block v b * DELTA + e b)) [0..<4])"

lemma stream_byte:
  assumes "same_key ctx ctx'" and "at_byte s" and "open_count c s" and "i + 1536 \<le> 0xffffffff" and "\<forall>b < 4. small_noise (e b)"
  shows "decrypt_stream_loop ctx' c i s (byte_packets ctx rng e v @ rest) = decrypt_stream_loop ctx' c (i + 1536) (after_byte v s) rest"
proof -
  have start: "partial s v 0 = s" using assms(2) by (cases s) (simp add: partial_def at_byte_def)
  let ?P = "\<lambda>b. native_packets ctx (rng b) (radix_block v b * DELTA + e b)"
  have run: "decrypt_stream_loop ctx' c j (partial s v b) (?P b @ qs)
      = decrypt_stream_loop ctx' c (j + 384) (if b < 3 then partial s v (Suc b) else after_byte v s) qs"
    if "b < 4" "j \<le> i + 1152" for j b qs
    using stream_block [OF assms(1-3) _ that(1), of j "e b"] assms(4,5) that by simp
  have "decrypt_stream_loop ctx' c i (partial s v 0) (?P 0 @ ?P 1 @ ?P 2 @ ?P 3 @ rest)
      = decrypt_stream_loop ctx' c (i + 384) (partial s v 1) (?P 1 @ ?P 2 @ ?P 3 @ rest)"
    using run [of 0 i] by simp
  also have "\<dots> = decrypt_stream_loop ctx' c (i + 384 + 384) (partial s v 2) (?P 2 @ ?P 3 @ rest)"
    using run [of 1 "i + 384"] by (simp add: numeral_2_eq_2)
  also have "\<dots> = decrypt_stream_loop ctx' c (i + 384 + 384 + 384) (partial s v 3) (?P 3 @ rest)"
    using run [of 2 "i + 384 + 384"] by (simp add: numeral_3_eq_3)
  also have "\<dots> = decrypt_stream_loop ctx' c (i + 384 + 384 + 384 + 384) (after_byte v s) rest"
    using run [of 3 "i + 384 + 384 + 384"] by simp
  finally have "decrypt_stream_loop ctx' c i s (?P 0 @ ?P 1 @ ?P 2 @ ?P 3 @ rest) = decrypt_stream_loop ctx' c (i + 1536) (after_byte v s) rest"
    by (simp add: start add.assoc)
  moreover have "byte_packets ctx rng e v @ rest = ?P 0 @ ?P 1 @ ?P 2 @ ?P 3 @ rest"
    by (simp add: byte_packets_def numeral_3_eq_3 numeral_2_eq_2 upt_rec)
  ultimately show ?thesis by (simp only:)
qed

section \<open>Bytes of a stream\<close>

text \<open>The bytes in the valid lanes of a packet and of a stream.\<close>

definition lane_bytes :: "nat \<Rightarrow> 512 word \<Rightarrow> u64 \<Rightarrow> u8 list" where
  "lane_bytes n x k = map (\<lambda>l. get_range (8 * l) x) (filter (bit k) [0..<n])"

definition stream_bytes :: "acc_pkt list \<Rightarrow> u8 list" where
  "stream_bytes ps = concat (map (\<lambda>p. lane_bytes 64 (pdata p) (pkeep p)) ps)"

lemma stream_bytes_simps [simp]:
  "stream_bytes [] = []"
  "stream_bytes (p # ps) = lane_bytes 64 (pdata p) (pkeep p) @ stream_bytes ps"
  "stream_bytes (ps @ qs) = stream_bytes ps @ stream_bytes qs"
  by (simp_all add: stream_bytes_def)

lemma lane_bytes_Suc:
  "lane_bytes (Suc n) x k = (if bit k 0 then [get_range 0 x] else []) @ lane_bytes n (drop_bit 8 x) (drop_bit 1 k)"
proof -
  have "[0..<Suc n] = 0 # map Suc [0..<n]" by (simp add: upt_conv_Cons map_Suc_upt del: upt_Suc)
  moreover have "(get_range (8 * Suc l) x :: u8) = get_range (8 * l) (drop_bit 8 x)" for l
    by (simp add: get_range_def drop_bit_drop_bit ac_simps)
  moreover have "bit k (Suc l) = bit (drop_bit 1 k) l" for l by (simp only: bit_drop_bit_eq comp_def) simp
  ultimately show ?thesis by (simp add: lane_bytes_def filter_map comp_def del: upt_Suc)
qed

lemma bit_output_keep_loop: "l < 64 \<Longrightarrow> bit (output_keep_loop ls n k) l \<longleftrightarrow> bit k l \<or> l \<in> set ls \<and> l < unat n"
  by (induction ls arbitrary: k) (auto simp: bit_set_bit_iff)

lemma clear_pkt_bytes:
  assumes "length ws \<le> 64" and "\<forall>l < length ws. get_range (8 * l) x = ws ! l"
  shows "lane_bytes 64 (pdata (clear_pkt (of_nat (length ws)) x)) (pkeep (clear_pkt (of_nat (length ws)) x)) = ws"
proof -
  have n: "unat (of_nat (length ws) :: 7 word) = length ws" using assms(1) by (simp add: unsigned_of_nat take_bit_nat_eq_self)
  have "filter (bit (output_keep_loop [0..<64] (of_nat (length ws)) 0)) [0..<64] = filter (\<lambda>l. l < length ws) [0..<64]"
    by (rule filter_cong) (auto simp: bit_output_keep_loop n)
  also have "filter (\<lambda>l. l < length ws) [0..<64] = [0..<length ws]"
  proof -
    have "[0..<64] = [0..<length ws] @ [length ws..<64]" using assms(1) by (metis le0 le_add_diff_inverse upt_add_eq_append)
    then show ?thesis by (simp del: upt_rec_numeral)
  qed
  finally have "filter (bit (output_keep_loop [0..<64] (of_nat (length ws)) 0)) [0..<64] = [0..<length ws]" .
  then have "lane_bytes 64 (pdata (clear_pkt (of_nat (length ws)) x)) (pkeep (clear_pkt (of_nat (length ws)) x)) = map (\<lambda>l. ws ! l) [0..<length ws]"
    using assms(2) by (simp add: lane_bytes_def clear_pkt_def del: upt_rec_numeral)
  then show ?thesis by (simp add: map_nth)
qed

text \<open>\<open>packs k vs\<close>: the packets written and the packet being filled hold the bytes \<open>vs\<close>.\<close>

definition packs :: "byte_packer \<Rightarrow> u8 list \<Rightarrow> bool" where
  "packs k vs \<longleftrightarrow> (\<exists>ws. length ws < 64 \<and> bk_count k = of_nat (length ws) \<and> (\<forall>l < length ws. get_range (8 * l) (bk_data k) = ws ! l)
     \<and> vs = stream_bytes (bk_out k) @ ws \<and> (\<forall>p \<in> set (bk_out k). \<not> is_suda_done_packet p))"

lemma clear_not_done: "\<not> is_suda_done_packet (clear_pkt n x)"
  by (simp add: is_suda_done_packet_def clear_pkt_def)

lemma packs_write:
  assumes "packs k vs"
  shows "packs (write_clear_byte v k) (vs @ [v])"
proof -
  from assms obtain ws where ws: "length ws < 64" "bk_count k = of_nat (length ws)" "\<forall>l < length ws. get_range (8 * l) (bk_data k) = ws ! l"
      "vs = stream_bytes (bk_out k) @ ws" "\<forall>p \<in> set (bk_out k). \<not> is_suda_done_packet p" by (auto simp: packs_def)
  have n: "unat (of_nat (length ws) :: 7 word) = length ws" using ws(1) by (simp add: unsigned_of_nat take_bit_nat_eq_self)
  define x where "x = set_range (length ws * 8) v (bk_data k)"
  have lanes: "get_range (8 * l) x = (ws @ [v]) ! l" if "l < length (ws @ [v])" for l
  proof (cases "l = length ws")
    case True
    then show ?thesis using ws(1) by (simp add: x_def get_set_range ac_simps)
  next
    case False
    then have "l < length ws" "8 * l + 8 \<le> length ws * 8" using that by auto
    then show ?thesis using ws(3) by (simp add: x_def get_set_range_other nth_append)
  qed
  have c: "bk_count k + 1 = of_nat (length (ws @ [v]))" using ws(2) by simp
  have full: "(of_nat (length (ws @ [v])) :: 7 word) = 64 \<longleftrightarrow> length (ws @ [v]) = 64"
    using ws(1) by (simp add: word_unat_eq_iff unsigned_of_nat take_bit_nat_eq_self del: of_nat_Suc)
  have nz: "(of_nat (length (ws @ [v])) :: 7 word) \<noteq> 0"
    using ws(1) by (simp add: word_unat_eq_iff unsigned_of_nat take_bit_nat_eq_self del: of_nat_Suc)
  have w: "write_clear_byte v k = (if length (ws @ [v]) = 64 then k\<lparr>bk_out := bk_out k @ [clear_pkt (of_nat (length (ws @ [v]))) x], bk_data := 0, bk_count := 0\<rparr>
      else k\<lparr>bk_data := x, bk_count := of_nat (length (ws @ [v]))\<rparr>)"
    unfolding write_clear_byte_def Let_def using c full nz n ws(2) by (simp add: flush_clear_packet_def x_def del: of_nat_Suc length_append)
  show ?thesis
  proof (cases "length (ws @ [v]) = 64")
    case True
    have "lane_bytes 64 (pdata (clear_pkt (of_nat (length (ws @ [v]))) x)) (pkeep (clear_pkt (of_nat (length (ws @ [v]))) x)) = ws @ [v]"
      using lanes True by (intro clear_pkt_bytes) auto
    then show ?thesis unfolding w packs_def using True ws(4,5) clear_not_done
      by (intro exI [of _ "[]"]) (simp del: of_nat_Suc length_append)
  next
    case False
    then show ?thesis unfolding w packs_def using lanes ws by (intro exI [of _ "ws @ [v]"]) auto
  qed
qed

lemma packs_flush:
  assumes "packs k vs"
  shows "stream_bytes (bk_out (flush_clear_packet k)) = vs \<and> (\<forall>p \<in> set (bk_out (flush_clear_packet k)). \<not> is_suda_done_packet p)"
proof -
  from assms obtain ws where ws: "length ws < 64" "bk_count k = of_nat (length ws)" "\<forall>l < length ws. get_range (8 * l) (bk_data k) = ws ! l"
      "vs = stream_bytes (bk_out k) @ ws" "\<forall>p \<in> set (bk_out k). \<not> is_suda_done_packet p" by (auto simp: packs_def)
  have "(of_nat (length ws) :: 7 word) = 0 \<longleftrightarrow> ws = []"
    using ws(1) by (simp add: word_unat_eq_iff unsigned_of_nat take_bit_nat_eq_self)
  moreover have "lane_bytes 64 (pdata (clear_pkt (of_nat (length ws)) (bk_data k))) (pkeep (clear_pkt (of_nat (length ws)) (bk_data k))) = ws"
    using ws(1,3) by (intro clear_pkt_bytes) auto
  ultimately show ?thesis using ws(2,4,5) clear_not_done by (simp add: flush_clear_packet_def)
qed

section \<open>The encrypted stream\<close>

definition enc_rng :: "enc_cfg \<Rightarrow> u32 \<Rightarrow> nat \<Rightarrow> u64" where
  "enc_rng c idx b = start_state (base_seed c) (nonce c) (idx * 4 + of_nat b)"

definition enc_noise :: "enc_cfg \<Rightarrow> u32 \<Rightarrow> nat \<Rightarrow> u64" where
  "enc_noise c idx b = noise_of (noise_mode c) (noise_bound_log2 c) ((next_random ^^ 2048) (enc_rng c idx b))"

fun enc_bytes :: "acc_ctx \<Rightarrow> enc_cfg \<Rightarrow> u32 \<Rightarrow> u8 list \<Rightarrow> acc_pkt list" where
  "enc_bytes ctx c idx [] = []"
| "enc_bytes ctx c idx (v # vs) = byte_packets ctx (enc_rng c idx) (enc_noise c idx) v @ enc_bytes ctx c (idx + 1) vs"

lemma enc_bytes_append: "enc_bytes ctx c idx (vs @ ws) = enc_bytes ctx c idx vs @ enc_bytes ctx c (idx + of_nat (length vs)) ws"
  by (induction vs arbitrary: idx) (simp_all add: ac_simps)

lemma length_byte_packets [simp]: "length (byte_packets ctx rng e v) = 1536"
  by (simp add: byte_packets_def native_packets_def slot_words_def length_concat comp_def sum_list_triv)

lemma encrypt_u8_radix_packets:
  assumes "length u0 = 1024" and "length u1 = 1024" and "output_layout c = OUTPUT_HPU_NATIVE"
  shows "encrypt_u8_radix u0 u1 v ctx (mask_dimension c) (noise_mode c) (noise_bound_log2 c) (output_layout c) (base_seed c) (nonce c) idx out
     = out @ byte_packets ctx (enc_rng c idx) (enc_noise c idx) v"
proof -
  have block: "encrypt_block u0 u1 v ctx (mask_dimension c) (noise_mode c) (noise_bound_log2 c) (output_layout c) (base_seed c) (nonce c) idx b out
      = out @ native_packets ctx (enc_rng c idx b) (radix_block v b * DELTA + enc_noise c idx b)" for b out
    using assms by (simp add: encrypt_block_def Let_def encrypt_encoded_lwe_hpu_native_packets enc_rng_def enc_noise_def RADIX_BLOCK_COUNT_def)
  have "fold (encrypt_block u0 u1 v ctx (mask_dimension c) (noise_mode c) (noise_bound_log2 c) (output_layout c) (base_seed c) (nonce c) idx) bs out
      = out @ concat (map (\<lambda>b. native_packets ctx (enc_rng c idx b) (radix_block v b * DELTA + enc_noise c idx b)) bs)" for bs
    by (induction bs arbitrary: out) (simp_all add: block)
  then show ?thesis by (simp add: encrypt_u8_radix_def byte_packets_def RADIX_BLOCK_COUNT_def del: upt_rec_numeral)
qed

text \<open>The bytes the operator still wants.\<close>

definition wanted :: "enc_cfg \<Rightarrow> u32 \<Rightarrow> u8 list \<Rightarrow> u8 list" where
  "wanted c n vs = (if input_count c = 0 then vs else take (unat (input_count c) - unat n) vs)"

lemma wanted_append:
  assumes "input_count c = 0 \<or> n \<le> input_count c"
  shows "wanted c n (vs @ ws) = wanted c n vs @ wanted c (n + of_nat (length (wanted c n vs))) ws"
    and "input_count c = 0 \<or> n + of_nat (length (wanted c n vs)) \<le> input_count c"
    and "input_count c \<noteq> 0 \<Longrightarrow> unat (n + of_nat (length (wanted c n vs))) = unat n + length (wanted c n vs)"
proof -
  have u: "unat (n + of_nat (length (wanted c n vs))) = unat n + length (wanted c n vs)" if "input_count c \<noteq> 0"
  proof -
    have "unat n \<le> unat (input_count c)" using assms that by (simp add: word_le_nat_alt)
    then have l: "unat n + length (wanted c n vs) \<le> unat (input_count c)" using that by (auto simp: wanted_def)
    then have "unat n + length (wanted c n vs) < 2 ^ 32" using unsigned_less [of "input_count c", where ?'a = nat] by simp
    then show ?thesis by (simp add: unat_word_ariths unsigned_of_nat take_bit_nat_eq_self)
  qed
  then show "input_count c \<noteq> 0 \<Longrightarrow> unat (n + of_nat (length (wanted c n vs))) = unat n + length (wanted c n vs)" .
  show "input_count c = 0 \<or> n + of_nat (length (wanted c n vs)) \<le> input_count c"
    using assms u by (auto simp: word_le_nat_alt wanted_def)
  show "wanted c n (vs @ ws) = wanted c n vs @ wanted c (n + of_nat (length (wanted c n vs))) ws"
  proof (cases "input_count c = 0")
    case True
    then show ?thesis by (simp add: wanted_def)
  next
    case False
    have "unat (input_count c) - (unat n + length (wanted c n vs)) = unat (input_count c) - unat n - length vs"
      using False by (simp add: wanted_def min_def)
    then show ?thesis using False u by (simp add: wanted_def)
  qed
qed

lemma packed_u8_loop_bytes:
  assumes "length u0 = 1024" and "length u1 = 1024" and "output_layout c = OUTPUT_HPU_NATIVE" and "input_count c = 0 \<or> n \<le> input_count c"
  shows "packed_u8_loop m u0 u1 ctx c x k n out = (let vs = wanted c n (lane_bytes m x k) in (n + of_nat (length vs), out @ enc_bytes ctx c n vs))"
  using assms(4)
proof (induction m arbitrary: x k n out)
  case 0
  then show ?case by (simp add: lane_bytes_def wanted_def)
next
  case (Suc m)
  let ?x = "drop_bit 8 x" and ?k = "drop_bit 1 k" and ?v = "get_range 0 x :: u8"
  show ?case
  proof (cases "input_count c \<noteq> 0 \<and> n \<ge> input_count c")
    case True
    then have "wanted c n vs = []" for vs by (auto simp: wanted_def word_le_nat_alt)
    with True show ?thesis by simp
  next
    case False
    show ?thesis
    proof (cases "bit k 0")
      case b: False
      then show ?thesis using Suc.IH [OF Suc.prems, of ?x ?k out] False by (auto simp: lane_bytes_Suc)
    next
      case True
      have w1: "wanted c n [?v] = [?v]" using False by (auto simp: wanted_def word_le_nat_alt not_le)
      note w = wanted_append [OF Suc.prems, of "[?v]", unfolded w1]
      have le: "input_count c = 0 \<or> n + 1 \<le> input_count c" using w(2) by simp
      have "packed_u8_loop (Suc m) u0 u1 ctx c x k n out
          = packed_u8_loop m u0 u1 ctx c ?x ?k (n + 1) (out @ byte_packets ctx (enc_rng c n) (enc_noise c n) ?v)"
        using False True encrypt_u8_radix_packets [OF assms(1-3), of ?v ctx n out] by auto
      also have "\<dots> = (let vs = wanted c (n + 1) (lane_bytes m ?x ?k) in
          (n + 1 + of_nat (length vs), out @ byte_packets ctx (enc_rng c n) (enc_noise c n) ?v @ enc_bytes ctx c (n + 1) vs))"
        using Suc.IH [OF le] by (simp add: Let_def)
      finally show ?thesis using True w(1) [of "lane_bytes m ?x ?k"] by (simp add: lane_bytes_Suc Let_def ac_simps)
    qed
  qed
qed

lemma encrypt_stream_bytes:
  assumes "length u0 = 1024" and "length u1 = 1024" and "output_layout c = OUTPUT_HPU_NATIVE" and "input_mode c = INPUT_U8_RADIX"
    and "is_suda_done_packet fin"
    and "\<forall>p \<in> set ps. \<not> is_suda_done_packet p \<and> (input_count c = 0 \<longrightarrow> \<not> plast p)"
    and "input_count c = 0 \<or> n \<le> input_count c" and "i + length ps < 0xffffffff"
    and "input_count c = 0 \<or> unat (input_count c) \<le> unat n + length (stream_bytes ps)"
  shows "encrypt_stream_loop u0 u1 ctx c i n out (ps @ fin # rest) = Inr (out @ enc_bytes ctx c n (wanted c n (stream_bytes ps)) @ [fin], rest)"
  using assms(6-9)
proof (induction ps arbitrary: i n out)
  case Nil
  then have "\<not> (input_count c \<noteq> 0 \<and> n < input_count c)" by (auto simp: word_less_nat_alt)
  with Nil assms(5) show ?case by (auto simp: forward_done_packet_def wanted_def)
next
  case (Cons p ps)
  let ?L = "lane_bytes 64 (pdata p) (pkeep p)"
  show ?case
  proof (cases "input_count c \<noteq> 0 \<and> n \<ge> input_count c")
    case True
    then have "wanted c n vs = []" for vs by (auto simp: wanted_def word_le_nat_alt)
    moreover have "input_count c = 0 \<or> unat (input_count c) \<le> unat n + length (stream_bytes ps)" using True by (auto simp: word_le_nat_alt)
    ultimately show ?thesis using Cons.IH [of n "Suc i" out] Cons.prems True by auto
  next
    case False
    define n' out' where "n' = n + of_nat (length (wanted c n ?L))" and "out' = out @ enc_bytes ctx c n (wanted c n ?L)"
    note w = wanted_append [OF Cons.prems(2), of ?L]
    have pk: "encrypt_packet u0 u1 ctx c p n out = (n', out')"
      using packed_u8_loop_bytes [OF assms(1-3) Cons.prems(2)] assms(4) by (simp add: encrypt_packet_def Let_def n'_def out'_def)
    have room: "input_count c = 0 \<or> unat (input_count c) \<le> unat n' + length (stream_bytes ps)"
    proof (cases "input_count c = 0")
      case nz: False
      have "unat n' = unat n + length (wanted c n ?L)" using w(3) nz by (simp add: n'_def)
      moreover have "length (wanted c n ?L) = min (length ?L) (unat (input_count c) - unat n)" using nz by (simp add: wanted_def)
      ultimately show ?thesis using Cons.prems(4) nz by auto
    qed simp
    have "encrypt_stream_loop u0 u1 ctx c i n out ((p # ps) @ fin # rest) = encrypt_stream_loop u0 u1 ctx c (Suc i) n' out' (ps @ fin # rest)"
      using False Cons.prems(1,3) pk by auto
    also have "\<dots> = Inr (out' @ enc_bytes ctx c n' (wanted c n' (stream_bytes ps)) @ [fin], rest)"
      using Cons.IH [of n' "Suc i" out'] Cons.prems(1,3) w(2) room by (simp add: n'_def)
    finally show ?thesis using w(1) [of "stream_bytes ps"] by (simp add: out'_def n'_def enc_bytes_append)
  qed
qed

section \<open>Decrypting the stream\<close>

lemma at_byte_after: "at_byte s \<Longrightarrow> at_byte (after_byte v s)"
  by (simp add: at_byte_def at_block_def after_byte_def)

lemma count_after_byte:
  assumes "d_input_count cd = 0 \<or> unat (processed_count s) + Suc n \<le> unat (d_input_count cd)"
  shows "d_input_count cd = 0 \<or> unat (processed_count (after_byte v s)) + n \<le> unat (d_input_count cd)"
proof (cases "d_input_count cd = 0")
  case False
  have "unat (d_input_count cd) < 2 ^ 32" using unsigned_less [of "d_input_count cd", where ?'a = nat] by simp
  then have "unat (processed_count s + 1) = unat (processed_count s) + 1" using assms False by (simp add: unat_word_ariths)
  then show ?thesis using assms False by (simp add: after_byte_def)
qed simp

lemma decrypt_stream_bytes:
  assumes "same_key ctx ctx'" and "\<forall>idx b. small_noise (enc_noise c idx b)"
    and "at_byte s" and "i + 1536 * length vs \<le> 0xffffffff"
    and "d_input_count cd = 0 \<or> unat (processed_count s) + length vs \<le> unat (d_input_count cd)"
  shows "decrypt_stream_loop ctx' cd i s (enc_bytes ctx c idx vs @ rest)
     = decrypt_stream_loop ctx' cd (i + 1536 * length vs) (fold after_byte vs s) rest"
  using assms(3-5)
proof (induction vs arbitrary: i s idx)
  case (Cons v vs)
  have oc: "open_count cd s" using Cons.prems(3) by (auto simp: open_count_def word_less_nat_alt)
  have cnt: "d_input_count cd = 0 \<or> unat (processed_count (after_byte v s)) + length vs \<le> unat (d_input_count cd)"
    using Cons.prems(3) by (intro count_after_byte) simp
  have "decrypt_stream_loop ctx' cd i s (enc_bytes ctx c idx (v # vs) @ rest)
      = decrypt_stream_loop ctx' cd (i + 1536) (after_byte v s) (enc_bytes ctx c (idx + 1) vs @ rest)"
    using stream_byte [OF assms(1) Cons.prems(1) oc _ _, of i "enc_noise c idx" "enc_rng c idx" v "enc_bytes ctx c (idx + 1) vs @ rest"] assms(2) Cons.prems(2)
    by simp
  also have "\<dots> = decrypt_stream_loop ctx' cd (i + 1536 + 1536 * length vs) (fold after_byte vs (after_byte v s)) rest"
    using Cons.IH [OF at_byte_after [OF Cons.prems(1)] _ cnt, of "i + 1536" "idx + 1"] Cons.prems(2) by simp
  finally show ?case by (simp add: ac_simps)
qed simp

lemma fold_after_byte:
  "packs (packed s) us \<Longrightarrow> at_byte s \<Longrightarrow>
     packs (packed (fold after_byte vs s)) (us @ vs) \<and> at_byte (fold after_byte vs s)
     \<and> processed_count (fold after_byte vs s) = processed_count s + of_nat (length vs)"
proof (induction vs arbitrary: s us)
  case (Cons v vs)
  have "packs (packed (after_byte v s)) (us @ [v])" using Cons.prems(1) by (simp add: after_byte_def packs_write)
  from Cons.IH [OF this at_byte_after [OF Cons.prems(2)]] show ?case by (simp add: after_byte_def ac_simps)
qed simp

section \<open>The round trip\<close>

text \<open>The configurations the two operators need for bytes in the layout of the HPU.\<close>

definition enc_native :: "enc_cfg \<Rightarrow> bool" where
  "enc_native c \<longleftrightarrow> input_mode c = INPUT_U8_RADIX \<and> mask_dimension c = 2048 \<and> noise_mode c \<noteq> NOISE_INPUT \<and> output_layout c = OUTPUT_HPU_NATIVE"

definition dec_native :: "dec_cfg \<Rightarrow> bool" where
  "dec_native c \<longleftrightarrow> d_mask_dimension c = 2048 \<and> d_delta c = DELTA \<and> d_message_width c = 2 \<and> d_radix_blocks c = 4 \<and> d_input_layout c = 1"

lemma enc_noise_small:
  assumes "c = read_enc_cfg w" and "enc_native c"
  shows "small_noise (enc_noise c idx b)"
proof (cases "noise_mode c = NOISE_TUNIFORM")
  case True
  then have "noise_bound_log2 c = 17" using assms by (simp add: enc_native_def read_enc_cfg_def Let_def GLWE_NOISE_BOUND_LOG2_def)
  then show ?thesis using True sample_noise_bound [of 17 "(next_random ^^ 2048) (enc_rng c idx b)"]
    by (simp add: enc_noise_def noise_of_def small_noise_def)
next
  case False
  then show ?thesis by (simp add: enc_noise_def noise_of_def small_noise_def)
qed

lemma lwe_encrypt_native:
  assumes "c = read_enc_cfg (ctx ! 3)" and "enc_native c"
  shows "lwe_encrypt u0 u1 ctx ps = encrypt_stream_loop u0 u1 ctx c 0 0 [] ps"
  using assms by (simp add: lwe_encrypt_def Let_def enc_native_def STATIC_CONTEXT_BASE_def MAX_LWE_DIMENSION_def BIG_LWE_DIMENSION_def
      OUTPUT_HPU_NATIVE_def)

lemma lwe_decrypt_native:
  assumes "c = read_dec_cfg (ctx ! 3)" and "dec_native c"
  shows "lwe_decrypt ctx ps = decrypt_stream_loop ctx c 0 dec_start ps"
  using assms by (simp add: lwe_decrypt_def Let_def dec_native_def STATIC_CONTEXT_BASE_def BIG_LWE_DIMENSION_def MESSAGE_WIDTH_def RADIX_BLOCK_COUNT_def)

lemma dec_start_ok: "at_byte dec_start" "packs (packed dec_start) []"
  by (simp_all add: at_byte_def at_block_def dec_start_def packs_def)

lemma lwe_decrypt_bytes:
  assumes "cd = read_dec_cfg (ctx' ! 3)" and "dec_native cd" and "same_key ctx ctx'" and "\<forall>idx b. small_noise (enc_noise c idx b)"
    and "is_suda_done_packet fin" and "d_input_count cd = 0 \<or> unat (d_input_count cd) = length vs" and "1536 * length vs < 0xffffffff"
  shows "\<exists>out. lwe_decrypt ctx' (enc_bytes ctx c idx vs @ fin # rest) = Inr (out @ [fin], rest) \<and> stream_bytes out = vs
     \<and> (\<forall>p \<in> set out. \<not> is_suda_done_packet p)"
proof -
  define s where "s = fold after_byte vs dec_start"
  have s: "packs (packed s) vs" "at_byte s" "processed_count s = of_nat (length vs)"
    using fold_after_byte [OF dec_start_ok(2,1), of vs] by (simp_all add: s_def dec_start_def)
  have "length vs < 2 ^ 32" using assms(7) by simp
  then have cnt: "d_input_count cd = 0 \<or> processed_count s = d_input_count cd"
    using s(3) assms(6) by (auto simp: word_unat_eq_iff unsigned_of_nat take_bit_nat_eq_self)
  have "d_input_count cd = 0 \<or> unat (processed_count dec_start) + length vs \<le> unat (d_input_count cd)"
    using assms(6) by (auto simp: dec_start_def)
  then have "lwe_decrypt ctx' (enc_bytes ctx c idx vs @ fin # rest) = decrypt_stream_loop ctx' cd (1536 * length vs) s (fin # rest)"
    unfolding lwe_decrypt_native [OF assms(1,2)]
    using decrypt_stream_bytes [OF assms(3,4) dec_start_ok(1), of 0 vs cd idx "fin # rest"] assms(7) by (simp add: s_def)
  also have "\<dots> = Inr (bk_out (flush_clear_packet (packed s)) @ [fin], rest)"
    using assms(5,7) cnt s(2) by (auto simp: at_byte_def at_block_def forward_done_packet_def)
  finally show ?thesis using packs_flush [OF s(1)] by blast
qed

text \<open>C2. Decryption inverts encryption.  For any configuration of the encryption for bytes in the layout of
  the HPU (any seed, nonce and key, generated noise or none), any stream of packets followed by the
  finish marker that holds at least the requested number of bytes, and a decryption configured for
  this layout with the same key: what the encryption writes, given to the decryption, comes out as
  packets that hold exactly the requested bytes in their order, followed by the finish marker, and
  neither operator blocks or reports an error.\<close>

theorem lwe_roundtrip:
  assumes "c = read_enc_cfg (ctx ! 3)" and "enc_native c" and "cd = read_dec_cfg (ctx' ! 3)" and "dec_native cd" and "same_key ctx ctx'"
    and "length u0 = 1024" and "length u1 = 1024" and "is_suda_done_packet fin"
    and "\<forall>p \<in> set ps. \<not> is_suda_done_packet p \<and> (input_count c = 0 \<longrightarrow> \<not> plast p)" and "length ps < 0xffffffff"
    and "unat (input_count c) \<le> length (stream_bytes ps)"
    and "vs = (if input_count c = 0 then stream_bytes ps else take (unat (input_count c)) (stream_bytes ps))"
    and "d_input_count cd = 0 \<or> unat (d_input_count cd) = length vs" and "1536 * length vs < 0xffffffff"
  shows "\<exists>mid out. lwe_encrypt u0 u1 ctx (ps @ fin # rest) = Inr (mid, rest) \<and> lwe_decrypt ctx' mid = Inr (out @ [fin], [])
     \<and> stream_bytes out = vs \<and> (\<forall>p \<in> set out. \<not> is_suda_done_packet p)"
proof -
  have native: "output_layout c = OUTPUT_HPU_NATIVE" "input_mode c = INPUT_U8_RADIX" using assms(2) by (simp_all add: enc_native_def)
  have vs: "wanted c 0 (stream_bytes ps) = vs" using assms(12) by (simp add: wanted_def)
  have enc: "lwe_encrypt u0 u1 ctx (ps @ fin # rest) = Inr (enc_bytes ctx c 0 vs @ [fin], rest)"
    unfolding lwe_encrypt_native [OF assms(1,2)]
    using encrypt_stream_bytes [OF assms(6,7) native assms(8,9), of 0 0 ctx "[]" rest] assms(10,11) vs by simp
  have noise: "\<forall>idx b. small_noise (enc_noise c idx b)" using enc_noise_small [OF assms(1,2)] by blast
  from lwe_decrypt_bytes [OF assms(3-5) noise assms(8,13,14), of 0 "[]"] enc show ?thesis by auto
qed

text \<open>Contexts with an alternating key, three requested bytes, and a packet with these bytes.\<close>

definition sample_key :: "512 word" where "sample_key = 0xAAAAAAAAAAAAAAAA5555555555555555"

definition sample_enc_ctx :: acc_ctx where
  "sample_enc_ctx = [0, 0, 0, 0x9000000000000000500000000000000000000000000000000000000010000000000000000000000020000000300000800, sample_key, sample_key, 0, sample_key] @ replicate 248 0"

definition sample_dec_ctx :: acc_ctx where
  "sample_dec_ctx = [0, 0, 0, 0x1000000000000000000000000000000000000080000000003, sample_key, sample_key, 0, sample_key] @ replicate 248 0"

definition sample_input :: acc_pkt where
  "sample_input = (payload_pkt 0x2A0711)\<lparr>pkeep := 7\<rparr>"

lemma sample_cfgs:
  "read_enc_cfg (sample_enc_ctx ! 3) = \<lparr>mask_dimension = 2048, input_count = 3, input_mode = 2, noise_mode = 0, noise_bound_log2 = 17,
     output_layout = 1, delta = DELTA, base_seed = 5, nonce = 9\<rparr>"
  "read_dec_cfg (sample_dec_ctx ! 3) = \<lparr>d_input_count = 3, d_mask_dimension = 2048, d_delta = DELTA, d_message_width = 2, d_radix_blocks = 4, d_input_layout = 1\<rparr>"
  by (simp_all add: sample_enc_ctx_def sample_dec_ctx_def read_enc_cfg_def read_dec_cfg_def Let_def get_range_def INPUT_U8_RADIX_def
      NOISE_TUNIFORM_def GLWE_NOISE_BOUND_LOG2_def MESSAGE_WIDTH_def RADIX_BLOCK_COUNT_def)

lemma sample_input_bytes: "stream_bytes [sample_input] = [0x11, 0x07, 0x2A]"
proof -
  have "lane_bytes 64 (pdata sample_input) (pkeep sample_input) = [0x11, 0x07, 0x2A]"
    by (simp add: lane_bytes_def sample_input_def payload_pkt_def get_range_def upt_rec)
  then show ?thesis by simp
qed

theorem lwe_roundtrip_witness:
  "\<exists>mid out. lwe_encrypt (replicate 1024 0) (replicate 1024 0) sample_enc_ctx [sample_input, finish_pkt 0] = Inr (mid, [])
     \<and> lwe_decrypt sample_dec_ctx mid = Inr (out @ [finish_pkt 0], []) \<and> stream_bytes out = [0x11, 0x07, 0x2A]"
proof -
  let ?c = "read_enc_cfg (sample_enc_ctx ! 3)" and ?cd = "read_dec_cfg (sample_dec_ctx ! 3)"
  have e: "enc_native ?c" by (simp add: sample_cfgs enc_native_def INPUT_U8_RADIX_def NOISE_INPUT_def OUTPUT_HPU_NATIVE_def)
  have d: "dec_native ?cd" by (simp add: sample_cfgs dec_native_def)
  have k: "same_key sample_enc_ctx sample_dec_ctx"
    by (auto simp: same_key_def sample_enc_ctx_def sample_dec_ctx_def less_Suc_eq numeral_eq_Suc)
  have f: "is_suda_done_packet (finish_pkt 0)" by (simp add: is_suda_done_packet_def finish_pkt_def get_range_def)
  have p: "\<forall>p \<in> set [sample_input]. \<not> is_suda_done_packet p \<and> (input_count ?c = 0 \<longrightarrow> \<not> plast p)"
    by (simp add: is_suda_done_packet_def sample_input_def payload_pkt_def)
  have n: "unat (input_count ?c) \<le> length (stream_bytes [sample_input])" unfolding sample_input_bytes by (simp add: sample_cfgs)
  have v: "[0x11, 0x07, 0x2A] = (if input_count ?c = 0 then stream_bytes [sample_input] else take (unat (input_count ?c)) (stream_bytes [sample_input]))"
    unfolding sample_input_bytes by (simp add: sample_cfgs)
  have dc: "d_input_count ?cd = 0 \<or> unat (d_input_count ?cd) = length [0x11, 0x07, 0x2A :: u8]" by (simp add: sample_cfgs)
  from lwe_roundtrip [OF refl e refl d k _ _ f p _ n v dc, of "replicate 1024 0" "replicate 1024 0" "[]"] show ?thesis by auto
qed

end
