(* ===== verification/Lwe_Ciphertext.thy ===== *)
theory Lwe_Ciphertext
  imports Lwe_Roundtrip
begin

unbundle bit_operations_syntax

text \<open>
  What a ciphertext stream contains: the words of a plain LWE ciphertext, the layout of the HPU as a
  rearrangement of it, how much noise the decryption tolerates, what happens to a stream that ends
  early, and when two ciphertexts share their mask.
\<close>

section \<open>Words of a stream\<close>

definition pkt_words :: "acc_pkt \<Rightarrow> u64 list" where
  "pkt_words p = map (word_at (pdata p)) [0..<8]"

definition stream_words :: "acc_pkt list \<Rightarrow> u64 list" where
  "stream_words ps = concat (map pkt_words ps)"

lemma stream_words_simps [simp]:
  "stream_words [] = []"
  "stream_words (p # ps) = pkt_words p @ stream_words ps"
  "stream_words (ps @ qs) = stream_words ps @ stream_words qs"
  by (simp_all add: stream_words_def)

lemma pkt_words_join:
  assumes "length ws \<le> 8"
  shows "pkt_words (payload_pkt (join_words ws)) = ws @ replicate (8 - length ws) 0"
  using assms by (intro nth_equalityI) (auto simp: pkt_words_def payload_pkt_def word_at_join nth_append simp del: upt_rec_numeral)

lemma stream_words_pack: "stream_words (pack_words ws) = take (8 * (length ws div 8)) ws"
proof (induction "length ws div 8" arbitrary: ws)
  case 0
  then show ?case by (simp add: pack_words_short div_eq_0_iff)
next
  case (Suc m)
  define vs us where "vs = take 8 ws" and "us = drop 8 ws"
  have len: "length vs = 8" "ws = vs @ us" using Suc(2) by (auto simp: vs_def us_def)
  then have m: "m = length us div 8" using Suc(2) by simp
  have "stream_words (pack_words ws) = vs @ take (8 * m) us"
    using Suc(1) [OF m] len(1) by (simp add: len(2) pack_words_append pkt_words_join m)
  also have "\<dots> = take (8 * Suc m) ws" by (simp add: len)
  finally show ?case by (simp add: Suc(2))
qed

section \<open>Plain ciphertexts\<close>

definition cpu_noise :: "u32 \<Rightarrow> u32 \<Rightarrow> u64 \<Rightarrow> u64 \<Rightarrow> u64" where
  "cpu_noise nm bound given s = (if nm = NOISE_INPUT then given else noise_of nm bound s)"

text \<open>A plain LWE ciphertext of the phase \<open>m\<close>: the mask and the body.\<close>

definition cpu_words :: "acc_ctx \<Rightarrow> u64 \<Rightarrow> nat \<Rightarrow> u64 \<Rightarrow> u64 list" where
  "cpu_words ctx s n m = map (mask_at s) [0..<n] @ [inner ctx s n + m]"

lemma mask_fold:
  assumes "n \<le> 4096"
  shows "fold (mask_step ctx) [0..<n] (s, 0, k) = ((next_random ^^ n) s, inner ctx s n, write_words (map (mask_at s) [0..<n]) k)"
  using assms
proof (induction n)
  case 0
  then show ?case by (simp add: inner_def)
next
  case (Suc n)
  have "secret_key_bit ctx (of_nat n) = key_at ctx n" using Suc.prems by (intro secret_key_bit_at) simp
  with Suc show ?case by (simp add: mask_step_def Let_def inner_Suc mask_at_def)
qed

lemma encrypt_encoded_lwe_packets:
  assumes "n = unat md" and "n \<le> 4096" and "s = start_state seed nc idx"
    and "m = encoded + cpu_noise nm bound given ((next_random ^^ n) s)"
  shows "\<exists>pkts. encrypt_encoded_lwe ctx md nm bound encoded given seed nc idx out = out @ pkts
     \<and> stream_words pkts = cpu_words ctx s n m @ replicate (7 - n mod 8) 0 \<and> (\<forall>p \<in> set pkts. \<exists>x. p = payload_pkt x)"
proof -
  let ?m = "map (mask_at s) [0..<n]" and ?b = "inner ctx s n + m"
  let ?r = "drop (8 * (n div 8)) ?m"
  have idx: "takeWhile (\<lambda>i. \<not> i \<ge> unat md) [0..<MAX_LWE_DIMENSION] = [0..<n]"
    using assms(1,2) takeWhile_upt [of n 4096] by (simp add: MAX_LWE_DIMENSION_def not_le)
  have r: "length ?r = n mod 8" by (simp add: minus_mult_div_eq_mod)
  have lt: "n mod 8 < 8" by simp
  have "encrypt_encoded_lwe ctx md nm bound encoded given seed nc idx out = pk_out (write_output_word ?b True (write_words ?m (fresh out)))"
    unfolding encrypt_encoded_lwe_def idx
    by (simp add: Let_def mask_fold [OF assms(2)] flip: start_state_def assms(3) fresh_def) (simp add: cpu_noise_def noise_of_def assms(4) add.assoc)
  also have "\<dots> = out @ pack_words ?m @ [payload_pkt (join_words (?r @ [?b]))]"
    using write_words_pack [of ?m out] write_output_word_filling [of ?r ?b True "out @ pack_words ?m"] r lt by (simp add: fresh_def)
  finally have e: "encrypt_encoded_lwe ctx md nm bound encoded given seed nc idx out = out @ pack_words ?m @ [payload_pkt (join_words (?r @ [?b]))]" .
  have "pkt_words (payload_pkt (join_words (?r @ [?b]))) = (?r @ [?b]) @ replicate (8 - length (?r @ [?b])) 0"
    using r lt by (intro pkt_words_join) simp
  moreover have "8 - length (?r @ [?b]) = 7 - n mod 8" using r by simp
  moreover have "take (8 * (n div 8)) ?m @ ?r = ?m" by (rule append_take_drop_id)
  ultimately have "stream_words (pack_words ?m @ [payload_pkt (join_words (?r @ [?b]))]) = cpu_words ctx s n m @ replicate (7 - n mod 8) 0"
    unfolding cpu_words_def by (simp add: stream_words_pack)
  with e pack_words_payload [of _ ?m] show ?thesis by (intro exI [of _ "pack_words ?m @ [payload_pkt (join_words (?r @ [?b]))]"]) auto
qed

text \<open>C19. A plain ciphertext is a correct LWE encryption.  For every dimension up to 4096, every noise mode and
  every encoded value, the operator appends packets without the finish marker whose words are the
  mask, then the body, then zeros to the end of the packet; the body is the inner product of the
  mask with the key bits of the context plus the encoded value plus the noise.\<close>

theorem encrypt_encoded_lwe_correct:
  assumes "n = unat md" and "n \<le> 4096" and "s = start_state seed nc idx"
    and "body = (\<Sum>i < n. if secret_key_bit ctx (of_nat i) then mask_at s i else 0) + encoded + cpu_noise nm bound given ((next_random ^^ n) s)"
  shows "\<exists>pkts. encrypt_encoded_lwe ctx md nm bound encoded given seed nc idx out = out @ pkts
     \<and> stream_words pkts = map (mask_at s) [0..<n] @ [body] @ replicate (7 - n mod 8) 0
     \<and> (\<forall>p \<in> set pkts. \<not> is_suda_done_packet p \<and> \<not> plast p)"
proof -
  have "(\<Sum>i < n. if secret_key_bit ctx (of_nat i) then mask_at s i else 0) = inner ctx s n"
    unfolding inner_def using assms(2) by (intro sum.cong) (auto simp: secret_key_bit_at)
  then have "body = inner ctx s n + (encoded + cpu_noise nm bound given ((next_random ^^ n) s))" using assms(4) by (simp add: add.assoc)
  moreover obtain pkts where "encrypt_encoded_lwe ctx md nm bound encoded given seed nc idx out = out @ pkts"
    "stream_words pkts = cpu_words ctx s n (encoded + cpu_noise nm bound given ((next_random ^^ n) s)) @ replicate (7 - n mod 8) 0"
    "\<forall>p \<in> set pkts. \<exists>x. p = payload_pkt x"
    using encrypt_encoded_lwe_packets [OF assms(1-3) refl] by blast
  moreover have "\<not> plast (payload_pkt x)" for x by (simp add: payload_pkt_def)
  ultimately show ?thesis using payload_not_done by (intro exI [of _ pkts]) (auto simp: cpu_words_def)
qed

theorem encrypt_encoded_lwe_correct_witness:
  "\<exists>pkts. encrypt_encoded_lwe sample_enc_ctx 10 NOISE_INPUT 0 0x42 7 5 9 0 [] = pkts \<and> length (stream_words pkts) = 16
     \<and> (\<forall>p \<in> set pkts. \<not> is_suda_done_packet p)"
proof -
  let ?s = "start_state 5 9 0"
  obtain pkts where "encrypt_encoded_lwe sample_enc_ctx 10 NOISE_INPUT 0 0x42 7 5 9 0 [] = [] @ pkts"
    "stream_words pkts = map (mask_at ?s) [0..<10] @ [(\<Sum>i < 10. if secret_key_bit sample_enc_ctx (of_nat i) then mask_at ?s i else 0)
       + 0x42 + cpu_noise NOISE_INPUT 0 7 ((next_random ^^ 10) ?s)] @ replicate (7 - 10 mod 8) 0"
    "\<forall>p \<in> set pkts. \<not> is_suda_done_packet p \<and> \<not> plast p"
    using encrypt_encoded_lwe_correct [of 10 10 ?s 5 9 0 _ sample_enc_ctx "0x42" NOISE_INPUT 0 7 "[]"] by auto
  then show ?thesis by (intro exI [of _ pkts]) (simp del: upt_rec_numeral)
qed

section \<open>The layout of the HPU\<close>

lemma native_stream_words:
  "stream_words (native_packets ctx s m)
     = native_pc s False @ [inner ctx s 2048 + m] @ replicate 511 0 @ native_pc s True @ replicate 512 0"
  by (simp add: native_packets_def stream_words_pack slot_words_def)

text \<open>C8. The layout of the HPU is a rearrangement of the plain ciphertext.  For the same context, seed, nonce,
  index and encoded value, the words written for the HPU are those of the plain ciphertext of
  dimension 2048: mask word \<open>n\<close> stands in the slot and at the offset that the bit-reversed index
  gives, the body follows the first 1024 mask words, and every other word of the two slots is
  zero.\<close>

theorem native_layout_equals_plain:
  assumes "length u0 = 1024" and "length u1 = 1024" and "nm \<noteq> NOISE_INPUT"
  shows "\<exists>plain native. encrypt_encoded_lwe ctx 2048 nm bound encoded given seed nc idx out = out @ plain
     \<and> encrypt_encoded_lwe_hpu_native u0 u1 ctx nm bound encoded seed nc idx out = out @ native
     \<and> length (stream_words native) = 3072
     \<and> (\<forall>n < 2048. \<forall>second off. hpu_position (of_nat n) = (second, off)
          \<longrightarrow> stream_words native ! ((if second then 1536 else 0) + unat off) = stream_words plain ! n)
     \<and> stream_words native ! 1024 = stream_words plain ! 2048
     \<and> (\<forall>k < 3072. 1024 < k \<and> k < 1536 \<or> 2560 \<le> k \<longrightarrow> stream_words native ! k = 0)"
proof -
  define s where "s = start_state seed nc idx"
  define m where "m = encoded + noise_of nm bound ((next_random ^^ 2048) s)"
  have cn: "encoded + cpu_noise nm bound given ((next_random ^^ 2048) s) = m" using assms(3) by (simp add: cpu_noise_def m_def)
  obtain plain where plain: "encrypt_encoded_lwe ctx 2048 nm bound encoded given seed nc idx out = out @ plain"
    "stream_words plain = cpu_words ctx s 2048 m @ replicate 7 0"
    using encrypt_encoded_lwe_packets [of 2048 2048 s seed nc idx m encoded nm bound given ctx out] cn by (auto simp: s_def)
  define native where "native = native_packets ctx s m"
  have nat: "encrypt_encoded_lwe_hpu_native u0 u1 ctx nm bound encoded seed nc idx out = out @ native"
    by (simp add: encrypt_encoded_lwe_hpu_native_packets [OF assms(1,2)] native_def s_def m_def)
  have W: "stream_words native = native_pc s False @ [inner ctx s 2048 + m] @ replicate 511 0 @ native_pc s True @ replicate 512 0"
    by (simp add: native_def native_stream_words)
  have mask: "stream_words plain ! n = mask_at s n" if "n < 2048" for n using that by (simp add: plain(2) cpu_words_def nth_append)
  have body: "stream_words plain ! 2048 = inner ctx s 2048 + m" by (simp add: plain(2) cpu_words_def nth_append)
  have at: "stream_words native ! ((if second then 1536 else 0) + unat off) = stream_words plain ! n"
    if n: "n < 2048" and p: "hpu_position (of_nat n) = (second, off)" for n second off
  proof -
    have off: "unat off < 1024" using unsigned_less [of off, where ?'a = nat] by simp
    have "native_pc s second ! unat off = mask_at s (unat (natural_index_from_pc_offset (of_bool second) off))"
      using off by (simp add: native_pc_def)
    also have "natural_index_from_pc_offset (of_bool second) off = get_range 0 (of_nat n :: u32)" by (rule natural_index_position [OF p])
    also have "unat (get_range 0 (of_nat n :: u32) :: 11 word) = n"
      using n by (simp add: get_range_def unsigned_ucast_eq unsigned_of_nat take_bit_nat_eq_self)
    finally have "native_pc s second ! unat off = mask_at s n" .
    then show ?thesis using off mask [OF n] by (cases second) (simp_all add: W nth_append)
  qed
  have "stream_words native ! 1024 = stream_words plain ! 2048" by (simp add: W body nth_append)
  moreover have "stream_words native ! k = 0" if "k < 3072" "1024 < k \<and> k < 1536 \<or> 2560 \<le> k" for k
    using that by (auto simp: W nth_append)
  moreover have "length (stream_words native) = 3072" by (simp add: W)
  ultimately show ?thesis using plain(1) nat at by blast
qed

theorem native_layout_equals_plain_witness:
  "\<exists>plain native. encrypt_encoded_lwe sample_enc_ctx 2048 NOISE_TUNIFORM 17 DELTA 0 5 9 3 [] = plain
     \<and> encrypt_encoded_lwe_hpu_native (replicate 1024 0) (replicate 1024 0) sample_enc_ctx NOISE_TUNIFORM 17 DELTA 5 9 3 [] = native
     \<and> stream_words native ! 1024 = stream_words plain ! 2048"
  using native_layout_equals_plain [of "replicate 1024 0" "replicate 1024 0" NOISE_TUNIFORM sample_enc_ctx 17 DELTA 0 5 9 3 "[]"]
  by (auto simp: NOISE_TUNIFORM_def NOISE_INPUT_def)

end
