(* ===== verification/Lwe_Limits.thy ===== *)
theory Lwe_Limits
  imports Lwe_Ciphertext
begin

unbundle bit_operations_syntax

text \<open>
  The limits of the two LWE operators: how much noise the decryption tolerates, how it classifies a
  stream by its length, and when two ciphertexts share their mask.
\<close>

section \<open>Noise\<close>

lemma word2_shift: "(word_of_int (u + d) :: 2 word) = word_of_int u \<longleftrightarrow> d mod 4 = 0"
proof -
  have "(word_of_int (u + d) :: 2 word) = word_of_int u \<longleftrightarrow> (u + d) mod 4 = u mod 4"
    by (simp only: word_of_int_eq_iff take_bit_eq_mod) simp
  also have "\<dots> \<longleftrightarrow> d mod 4 = 0" by presburger
  finally show ?thesis .
qed

text \<open>C24. The noise a block tolerates.  As long as the noise on a block stays within seven halves of the
  scaling factor \<open>2 ^ 59\<close> in absolute value, the block decrypts to the two bits that were
  encrypted exactly when the noise, read as a signed number, lies in the half-open interval of half
  the scaling factor around zero: the rounding of the decryption loses none of the noise budget.\<close>

theorem decode_radix_block_tolerance:
  assumes "- 7 * 2 ^ 58 \<le> sint e" and "sint e < 7 * 2 ^ 58"
  shows "decode_radix_block (x + (radix_block v b * DELTA + e)) x = get_range (2 * b) v
     \<longleftrightarrow> - (2 ^ 58) \<le> sint e \<and> sint e < 2 ^ 58"
proof -
  define d where "d = (sint e + 2 ^ 58) div 2 ^ 59"
  define r where "r = (sint e + 2 ^ 58) mod 2 ^ 59"
  have r: "sint e + 2 ^ 58 = 2 ^ 59 * d + r" "0 \<le> r" "r < 2 ^ 59" by (simp_all add: d_def r_def)
  have "decode_radix_block (x + (radix_block v b * DELTA + e)) x = word_of_int (uint (radix_block v b) + d)"
    using decode_radix_block_shift [of x "uint (radix_block v b)" e] by (simp add: d_def)
  then have "decode_radix_block (x + (radix_block v b * DELTA + e)) x = get_range (2 * b) v \<longleftrightarrow> d mod 4 = 0"
    using word2_shift [of "uint (radix_block v b)" d] radix_block_word [of v b] by simp
  also have "\<dots> \<longleftrightarrow> d = 0"
  proof -
    have "- 4 < d" "d < 4" using r assms by simp_all
    then show ?thesis by presburger
  qed
  also have "\<dots> \<longleftrightarrow> - (2 ^ 58) \<le> sint e \<and> sint e < 2 ^ 58" using r by auto
  finally show ?thesis .
qed

theorem decode_radix_block_tolerance_witness:
  "decode_radix_block (100 + (radix_block 0x2A 1 * DELTA + (2 ^ 58 - 1))) 100 = 2
   \<and> decode_radix_block (100 + (radix_block 0x2A 1 * DELTA + 2 ^ 58)) 100 \<noteq> 2"
proof -
  have g: "get_range (2 * 1) (0x2A :: u8) = (2 :: 2 word)" by (simp add: get_range_def)
  have e: "sint (2 ^ 58 - 1 :: u64) = 2 ^ 58 - 1" "sint (2 ^ 58 :: u64) = 2 ^ 58" by simp_all
  show ?thesis
    using decode_radix_block_tolerance [of "2 ^ 58 - 1" 100 "0x2A" 1] decode_radix_block_tolerance [of "2 ^ 58" 100 "0x2A" 1]
    unfolding g e by simp
qed

section \<open>The length of a stream\<close>

text \<open>How many packets the state of the decryption has taken in: 192 to a slot, two slots to a
  ciphertext, four ciphertexts to a byte.\<close>

definition taken :: "dec_state \<Rightarrow> nat" where
  "taken s = 1536 * unat (processed_count s) + 384 * unat (block_index s) + 192 * unat (pc_index s) + unat (packet_index_in_pc s)"

definition counting :: "dec_state \<Rightarrow> bool" where
  "counting s \<longleftrightarrow> unat (block_index s) < 4 \<and> unat (packet_index_in_pc s) < 192"

lemma unat_inc:
  fixes w :: "'a::len word"
  assumes "unat w < m" and "m < 2 ^ LENGTH('a)"
  shows "unat (w + 1) = Suc (unat w)"
  using assms by (simp add: unat_word_ariths)

lemma pc_cases: "(w :: 1 word) = 0 \<and> unat w = 0 \<or> w = 1 \<and> unat w = 1"
proof -
  have "unat w < 2" using unsigned_less [of w, where ?'a = nat] by simp
  then show ?thesis by (auto simp: word_unat_eq_iff)
qed

lemma absorb_counters:
  "processed_count (absorb_packet ctx x s) = processed_count s" "block_index (absorb_packet ctx x s) = block_index s"
  "pc_index (absorb_packet ctx x s) = pc_index s" "packet_index_in_pc (absorb_packet ctx x s) = packet_index_in_pc s"
  by (simp_all add: absorb_packet_def)

lemma end_block_counters:
  assumes "unat (block_index s) < 4" and "unat (processed_count s) < 2 ^ 32 - 1" and "packet_index_in_pc s = 0"
  shows "counting (end_block s)" and "taken (end_block s) = 1536 * unat (processed_count s) + 384 * unat (block_index s) + 384"
proof -
  have b: "unat (block_index s + 1) = Suc (unat (block_index s))" using assms(1) by (intro unat_inc [of _ 4]) simp_all
  have p: "unat (processed_count s + 1) = Suc (unat (processed_count s))" using assms(2) by (intro unat_inc [of _ "2 ^ 32 - 1"]) simp_all
  have four: "block_index s + 1 = 4 \<longleftrightarrow> unat (block_index s) = 3" using b by (simp add: word_unat_eq_iff)
  show "counting (end_block s)" using assms b four by (simp add: end_block_def end_byte_def Let_def counting_def RADIX_BLOCK_COUNT_def)
  show "taken (end_block s) = 1536 * unat (processed_count s) + 384 * unat (block_index s) + 384"
    using assms b p four by (simp add: end_block_def end_byte_def Let_def taken_def RADIX_BLOCK_COUNT_def)
qed

lemma decrypt_step_taken:
  assumes "counting s" and "unat (processed_count s) < 2 ^ 32 - 1"
  shows "counting (decrypt_step ctx p s)" and "taken (decrypt_step ctx p s) = Suc (taken s)"
proof -
  let ?a = "absorb_packet ctx (pdata p) s"
  have i: "unat (packet_index_in_pc s + 1) = Suc (unat (packet_index_in_pc s))"
    using assms(1) by (intro unat_inc [of _ 192]) (simp_all add: counting_def)
  have last: "packet_index_in_pc s + 1 = 192 \<longleftrightarrow> unat (packet_index_in_pc s) = 191" using i by (simp add: word_unat_eq_iff)
  define e where "e = ?a\<lparr>packet_index_in_pc := 0\<rparr>"
  have e: "unat (block_index e) < 4" "unat (processed_count e) < 2 ^ 32 - 1" "packet_index_in_pc e = 0"
    "processed_count e = processed_count s" "block_index e = block_index s"
    using assms by (simp_all add: e_def absorb_counters counting_def)
  note eb = end_block_counters [OF e(1-3)]
  have "counting (decrypt_step ctx p s) \<and> taken (decrypt_step ctx p s) = Suc (taken s)"
  proof (cases "unat (packet_index_in_pc s) = 191")
    case False
    then show ?thesis using last i assms(1)
      by (simp add: decrypt_step_def Let_def absorb_counters PC_SLOT_PACKETS_def counting_def taken_def)
  next
    case True
    then have "decrypt_step ctx p s = (if pc_index s = 0 then e\<lparr>pc_index := 1\<rparr> else end_block e)"
      using last by (simp add: decrypt_step_def Let_def absorb_counters PC_SLOT_PACKETS_def e_def)
    then show ?thesis using pc_cases [of "pc_index s"] True eb e by (auto simp: counting_def taken_def)
  qed
  then show "counting (decrypt_step ctx p s)" "taken (decrypt_step ctx p s) = Suc (taken s)" by simp_all
qed

lemma stream_taken:
  assumes "counting s" and "\<forall>p \<in> set ps. \<not> is_suda_done_packet p" and "i + length ps < 0xffffffff" and "taken s + length ps < 2 ^ 32"
    and "d_input_count c = 0 \<or> taken s + length ps \<le> 1536 * unat (d_input_count c)"
  shows "\<exists>s'. decrypt_stream_loop ctx c i s (ps @ qs) = decrypt_stream_loop ctx c (i + length ps) s' qs
     \<and> counting s' \<and> taken s' = taken s + length ps"
  using assms
proof (induction ps arbitrary: s i)
  case (Cons p ps)
  have "unat (processed_count s) < 2 ^ 32 - 1" using Cons.prems(4) by (simp add: taken_def)
  note st = decrypt_step_taken [OF Cons.prems(1) this, of ctx p]
  have "\<not> (d_input_count c \<noteq> 0 \<and> processed_count s \<ge> d_input_count c)"
    using Cons.prems(5) by (auto simp: taken_def word_le_nat_alt)
  then have "(d_input_count c \<noteq> 0 \<and> processed_count s \<ge> d_input_count c) = False" by blast
  then have "decrypt_stream_loop ctx c i s ((p # ps) @ qs) = decrypt_stream_loop ctx c (Suc i) (decrypt_step ctx p s) (ps @ qs)"
    using Cons.prems(2,3) by (simp del: de_Morgan_conj)
  then show ?case using Cons.IH [OF st(1), of "Suc i"] Cons.prems st(2) by simp
qed auto

lemma taken_split:
  assumes "counting s"
  shows "unat (processed_count s) = taken s div 1536"
    and "block_index s \<noteq> 0 \<or> pc_index s \<noteq> 0 \<or> packet_index_in_pc s \<noteq> 0 \<longleftrightarrow> taken s mod 1536 \<noteq> 0"
proof -
  let ?r = "384 * unat (block_index s) + 192 * unat (pc_index s) + unat (packet_index_in_pc s)"
  have r: "?r < 1536" using assms pc_cases [of "pc_index s"] unfolding counting_def by linarith
  have t: "taken s = ?r + unat (processed_count s) * 1536" by (simp add: taken_def)
  show "unat (processed_count s) = taken s div 1536" using r unfolding t by (subst div_mult_self1) simp_all
  have "taken s mod 1536 = ?r" using r unfolding t mod_mult_self1 by (rule mod_less)
  then show "block_index s \<noteq> 0 \<or> pc_index s \<noteq> 0 \<or> packet_index_in_pc s \<noteq> 0 \<longleftrightarrow> taken s mod 1536 \<noteq> 0"
    by (auto simp: unat_eq_0)
qed

lemma finish_stream:
  assumes "counting s" and "is_suda_done_packet fin" and "i < 0xffffffff" and "taken s < 2 ^ 32"
  shows "\<exists>out. decrypt_stream_loop ctx c i s (fin # rest) =
     Inr (out @ [if d_input_count c \<noteq> 0 \<and> taken s div 1536 \<noteq> unat (d_input_count c) \<or> taken s mod 1536 \<noteq> 0
                 then error_pkt 0x4c57454445435252 5 else fin], rest)"
proof -
  have "processed_count s \<noteq> d_input_count c \<longleftrightarrow> taken s div 1536 \<noteq> unat (d_input_count c)"
    by (simp add: word_unat_eq_iff taken_split [OF assms(1)])
  then show ?thesis using assms(2,3) taken_split(2) [OF assms(1)]
    by (auto simp: dec_write_error_packet_def forward_done_packet_def)
qed

lemma short_stream:
  fixes n m k :: nat
  assumes "m = 1536 * k" and "\<not> (m \<noteq> 0 \<and> m < n)"
  shows "k \<noteq> 0 \<and> n div 1536 \<noteq> k \<or> n mod 1536 \<noteq> 0 \<longleftrightarrow> m \<noteq> 0 \<and> n < m \<or> n mod 1536 \<noteq> 0"
proof -
  have "n = 1536 * (n div 1536) + n mod 1536" by simp
  then show ?thesis using assms by (cases "n mod 1536 = 0") auto
qed

lemma dec_start_counting: "counting dec_start" "taken dec_start = 0"
  by (simp_all add: counting_def taken_def dec_start_def)

lemma stream_excess:
  assumes "\<forall>q \<in> set as. \<not> is_suda_done_packet q" and "\<not> is_suda_done_packet p" and "length as = 1536 * unat (d_input_count c)"
    and "length as < 0xffffffff" and "d_input_count c \<noteq> 0"
  shows "\<exists>out. decrypt_stream_loop ctx c 0 dec_start (as @ p # qs) = Inr (out @ [error_pkt 0x4c57454445435252 6], qs)"
proof -
  have "d_input_count c = 0 \<or> taken dec_start + length as \<le> 1536 * unat (d_input_count c)" using assms(3) by (simp add: dec_start_counting)
  moreover have "taken dec_start + length as < 2 ^ 32" using assms(4) by (simp add: dec_start_counting)
  moreover have "0 + length as < 0xffffffff" using assms(4) by simp
  ultimately obtain s where s: "decrypt_stream_loop ctx c 0 dec_start (as @ p # qs) = decrypt_stream_loop ctx c (0 + length as) s (p # qs)"
    "counting s" "taken s = taken dec_start + length as"
    using stream_taken [OF dec_start_counting(1) assms(1), of 0 c ctx "p # qs"] by blast
  have "unat (processed_count s) = unat (d_input_count c)" using taken_split(1) [OF s(2)] s(3) assms(3) by (simp add: dec_start_counting)
  then have "processed_count s = d_input_count c" by (simp add: word_unat_eq_iff)
  then show ?thesis unfolding s(1) using assms(2,4,5) by (auto simp: dec_write_error_packet_def)
qed

lemma stream_no_excess:
  assumes "\<forall>q \<in> set ps. \<not> is_suda_done_packet q" and "is_suda_done_packet fin" and "length ps < 0xffffffff"
    and "d_input_count c = 0 \<or> length ps \<le> 1536 * unat (d_input_count c)"
  shows "\<exists>out. decrypt_stream_loop ctx c 0 dec_start (ps @ fin # rest) =
     Inr (out @ [if d_input_count c \<noteq> 0 \<and> length ps div 1536 \<noteq> unat (d_input_count c) \<or> length ps mod 1536 \<noteq> 0
                 then error_pkt 0x4c57454445435252 5 else fin], rest)"
proof -
  have "d_input_count c = 0 \<or> taken dec_start + length ps \<le> 1536 * unat (d_input_count c)" using assms(4) by (simp add: dec_start_counting)
  moreover have lt: "taken dec_start + length ps < 2 ^ 32" using assms(3) by (simp add: dec_start_counting)
  moreover have i: "0 + length ps < 0xffffffff" using assms(3) by simp
  ultimately obtain s where s: "decrypt_stream_loop ctx c 0 dec_start (ps @ fin # rest) = decrypt_stream_loop ctx c (0 + length ps) s (fin # rest)"
    "counting s" "taken s = taken dec_start + length ps"
    using stream_taken [OF dec_start_counting(1) assms(1), of 0 c ctx "fin # rest"] by blast
  have n: "taken s = length ps" using s(3) by (simp add: dec_start_counting)
  have "taken s < 2 ^ 32" using lt s(3) by simp
  from finish_stream [OF s(2) assms(2) i this, of ctx c rest] show ?thesis unfolding s(1) n .
qed

text \<open>C20. The decryption accepts a stream by its length.  Under a configuration for the layout of the HPU, a
  stream of payload packets and the finish marker (shorter than \<open>2 ^ 32 - 1\<close> packets) always produces a
  result.  A byte is 1536 packets.  If a count is requested and more packets arrive, the operator stops
  at the first packet past the requested bytes with error 6; if the stream ends inside a byte, or
  with fewer bytes than requested, it ends with error 5; otherwise it ends with the finish marker
  itself, and everything up to the marker has been read.\<close>

theorem lwe_decrypt_framing:
  assumes "c = read_dec_cfg (ctx ! 3)" and "dec_native c" and "\<forall>p \<in> set ps. \<not> is_suda_done_packet p" and "is_suda_done_packet fin"
    and "length ps < 0xffffffff" and "m = 1536 * unat (d_input_count c)"
  shows "\<exists>out. lwe_decrypt ctx (ps @ fin # rest) =
    Inr (if m \<noteq> 0 \<and> m < length ps then (out @ [error_pkt 0x4c57454445435252 6], drop (Suc m) ps @ fin # rest)
         else if m \<noteq> 0 \<and> length ps < m \<or> length ps mod 1536 \<noteq> 0 then (out @ [error_pkt 0x4c57454445435252 5], rest)
         else (out @ [fin], rest))"
proof (cases "m \<noteq> 0 \<and> m < length ps")
  case True
  have m: "d_input_count c \<noteq> 0" "length (take m ps) = 1536 * unat (d_input_count c)" "length (take m ps) < 0xffffffff"
    using True assms(5,6) by auto
  have n: "\<forall>q \<in> set (take m ps). \<not> is_suda_done_packet q" "\<not> is_suda_done_packet (ps ! m)"
    using assms(3) True by (auto dest: in_set_takeD)
  define qs where "qs = drop (Suc m) ps @ fin # rest"
  have ps: "ps @ fin # rest = take m ps @ ps ! m # qs"
    using True by (simp add: qs_def flip: append_Cons append_assoc id_take_nth_drop)
  from stream_excess [OF n m(2,3,1), of ctx qs] show ?thesis
    unfolding lwe_decrypt_native [OF assms(1,2)] ps qs_def [symmetric] if_P [OF True] .
next
  case False
  have m0: "d_input_count c \<noteq> 0 \<longleftrightarrow> unat (d_input_count c) \<noteq> 0" by (simp add: unat_eq_0)
  have "d_input_count c = 0 \<or> length ps \<le> 1536 * unat (d_input_count c)" using False assms(6) m0 by auto
  from stream_no_excess [OF assms(3-5) this, of ctx rest] show ?thesis
    unfolding lwe_decrypt_native [OF assms(1,2)] m0 short_stream [OF assms(6) False] using False by auto
qed

theorem lwe_decrypt_framing_witness:
  "\<exists>out. lwe_decrypt sample_dec_ctx [finish_pkt 0] = Inr (out @ [error_pkt 0x4c57454445435252 5], [])"
proof -
  let ?c = "read_dec_cfg (sample_dec_ctx ! 3)"
  have d: "dec_native ?c" by (simp add: sample_cfgs dec_native_def)
  have f: "is_suda_done_packet (finish_pkt 0)" by (simp add: is_suda_done_packet_def finish_pkt_def get_range_def)
  have m: "4608 = 1536 * unat (d_input_count ?c)" by (simp add: sample_cfgs)
  from lwe_decrypt_framing [OF refl d _ f _ m, of "[]" "[]"] show ?thesis by auto
qed

section \<open>Two ciphertexts with the same mask\<close>

text \<open>C35. When two ciphertexts share their randomness.  The generator of a ciphertext starts from the seed, the
  nonce and the index combined by exclusive or.  If two pairs of nonce and index combine to the
  same value, then under one seed the two ciphertexts in the layout of the HPU agree in every word but the
  body, and the bodies differ by exactly the difference of the encoded values: mask and noise are
  the same, and the difference of the two clear values can be read off without the key.\<close>

theorem lwe_mask_reuse:
  assumes "length u0 = 1024" and "length u1 = 1024" and "nc XOR (ucast i + 1) = nc' XOR (ucast j + (1 :: u64))"
  shows "\<exists>xs ys. encrypt_encoded_lwe_hpu_native u0 u1 ctx nm bound m seed nc i out = out @ xs
     \<and> encrypt_encoded_lwe_hpu_native u0 u1 ctx nm bound m' seed nc' j out = out @ ys
     \<and> length (stream_words xs) = 3072 \<and> length (stream_words ys) = 3072
     \<and> (\<forall>k < 3072. k \<noteq> 1024 \<longrightarrow> stream_words xs ! k = stream_words ys ! k)
     \<and> stream_words ys ! 1024 - stream_words xs ! 1024 = m' - m"
proof -
  define s where "s = start_state seed nc i"
  define e where "e = noise_of nm bound ((next_random ^^ 2048) s)"
  have s': "start_state seed nc' j = s" using assms(3) by (simp add: s_def start_state_def xor.assoc)
  let ?W = "\<lambda>m. stream_words (native_packets ctx s (m + e))"
  have len: "length (?W m) = 3072" for m by (simp add: native_stream_words)
  have eq: "?W m ! k = ?W m' ! k" if "k < 3072" "k \<noteq> 1024" for k using that by (auto simp: native_stream_words nth_append nth_Cons')
  have body: "?W m' ! 1024 - ?W m ! 1024 = m' - m" by (simp add: native_stream_words nth_append)
  show ?thesis
    using len eq body encrypt_encoded_lwe_hpu_native_packets [OF assms(1,2), of ctx nm bound m seed nc i out]
      encrypt_encoded_lwe_hpu_native_packets [OF assms(1,2), of ctx nm bound m' seed nc' j out]
    unfolding s' by (intro exI [of _ "native_packets ctx s (m + e)"] exI [of _ "native_packets ctx s (m' + e)"]) (simp add: s_def e_def)
qed

text \<open>The second block of the request with nonce 1 and the first block of the request with nonce 2.\<close>

theorem lwe_mask_reuse_witness:
  "\<exists>xs ys. encrypt_encoded_lwe_hpu_native (replicate 1024 0) (replicate 1024 0) sample_enc_ctx NOISE_TUNIFORM 17 DELTA 5 1 1 [] = xs
     \<and> encrypt_encoded_lwe_hpu_native (replicate 1024 0) (replicate 1024 0) sample_enc_ctx NOISE_TUNIFORM 17 (3 * DELTA) 5 2 0 [] = ys
     \<and> stream_words ys ! 1024 - stream_words xs ! 1024 = 2 * DELTA"
  using lwe_mask_reuse [of "replicate 1024 0" "replicate 1024 0" 1 1 2 0 sample_enc_ctx NOISE_TUNIFORM 17 DELTA 5 "[]" "3 * DELTA"] by auto

end
