(* ===== verification/Remote_Client.thy ===== *)
theory Remote_Client
  imports Nest_Prelude
begin

unbundle bit_operations_syntax

text \<open>
  The client of the remote HPU server (\<^verbatim>\<open>vscode-lwe-encrypt-remote-offload/lwe_remote_protocol.cpp\<close>): one
  request with its ciphertext words out, one response with words and a timing trailer back, over TCP.

  The kernel is an argument.  What it does at each \<^verbatim>\<open>send\<close> or \<^verbatim>\<open>recv\<close> is the next entry of a list: it
  moves up to so many bytes, it interrupts the call, or it fails it; past the end of the list a call
  moves all it can.  The bytes the peer sends before it closes the connection are a list.  The open
  descriptors are a set, so that a missing \<^verbatim>\<open>close\<close> shows.  Times measured by the client itself are
  left out; the conversion of the nanoseconds of the server to floating point is an argument.
\<close>

section \<open>Data\<close>

definition kFrameRequest :: u64 where "kFrameRequest = 1"
definition kFrameResponse :: u64 where "kFrameResponse = 2"
definition kFrameError :: u64 where "kFrameError = 3"
definition kOperationEchoU8 :: u64 where "kOperationEchoU8 = 0"
definition kOperationAddScalarU8 :: u64 where "kOperationAddScalarU8 = 1"
definition kOperationAddScalarU8HpuNative :: u64 where "kOperationAddScalarU8HpuNative = 2"
definition kOperationAddScalarU8HpuNativeRoundTrip :: u64 where "kOperationAddScalarU8HpuNativeRoundTrip = 3"

text \<open>The characters of ``LWERPC01'' and ``LWEBEN01''.\<close>

definition kMagic :: "u8 list" where "kMagic = [0x4c, 0x57, 0x45, 0x52, 0x50, 0x43, 0x30, 0x31]"
definition kTimingMagic :: "u8 list" where "kTimingMagic = [0x4c, 0x57, 0x45, 0x42, 0x45, 0x4e, 0x30, 0x31]"
definition kVersion :: u64 where "kVersion = 2"
definition kTimingVersion :: u64 where "kTimingVersion = 1"
definition kHeaderFields :: nat where "kHeaderFields = 14"
definition kHeaderBytes :: nat where "kHeaderBytes = 8 + (kHeaderFields + 1) * 8"
definition kTimingFields :: nat where "kTimingFields = 15"
definition kTimingBytes :: nat where "kTimingBytes = 8 + kTimingFields * 8"
definition kWireChunkBytes :: nat where "kWireChunkBytes = 64 * 1024"
definition kHpuNativeWordsPerLwe :: u64 where "kHpuNativeWordsPerLwe = 2 * 1536"

record batch_metadata =
  bm_mask_dimension :: u64
  bm_item_count :: u64
  bm_radix_blocks :: u64
  bm_message_width :: u64
  bm_carry_width :: u64
  bm_padding_bit_width :: u64
  bm_delta_log2 :: u64
  bm_word_count :: u64

record 'd rpc_result =
  rr_metadata :: batch_metadata
  rr_words :: "u64 list"
  rr_request_id :: u64
  rr_operation :: u64
  rr_scalar :: u64
  rr_request_receive :: 'd
  rr_request_validate :: 'd
  rr_request_decode :: 'd
  rr_hpu_prepare :: 'd
  rr_hpu_enqueue :: 'd
  rr_hpu_wait_sync :: 'd
  rr_hpu_output_convert :: 'd
  rr_result_encode :: 'd
  rr_mem_sanitizer :: 'd
  rr_process :: 'd
  rr_response_send :: 'd
  rr_total :: 'd
  rr_payload_bytes :: u64

text \<open>One constructor per message the source reports.\<close>

datatype rpc_error = NullResult | ZeroSized | ShapeOverflow | WordCountOverflow | NativeOverflow | WordCountMismatch
  | UnsupportedOperation | PayloadOverflow | Unresolved | Unconnected | Unconfigured | SendFailed | ClosedEarly | ReceiveFailed
  | BadMagic | BadVersion | TooLarge | RemoteHpuError "u8 list" | BadKind | RequestMismatch | MetadataChanged
  | PayloadMismatch | BadTimingMagic | TimingMismatch | TimingPayloadMismatch

text \<open>\<^verbatim>\<open>true\<close>, \<^verbatim>\<open>false\<close> with a message, or an exception of the allocator.\<close>

datatype rpc_outcome = Success | Failure rpc_error | Throws

datatype io_step = Moves nat | Interrupts | Fails

record net =
  open_fds :: "int set"
  incoming :: "u8 list"
  outgoing :: "u8 list"
  kernel :: "io_step list"

section \<open>Bytes\<close>

definition store_le64 :: "nat \<Rightarrow> u64 \<Rightarrow> u8 list \<Rightarrow> u8 list" where
  "store_le64 off value bytes = fold (\<lambda>i bs. bs[off + i := ucast (drop_bit (i * 8) value)]) [0..<8] bytes"

definition load_le64 :: "nat \<Rightarrow> u8 list \<Rightarrow> u64" where
  "load_le64 off bytes = fold (\<lambda>i value. value OR push_bit (i * 8) (ucast (bytes ! (off + i)))) [0..<8] 0"

definition next_io :: "nat \<Rightarrow> net \<Rightarrow> io_step \<times> net" where
  "next_io n s = (case kernel s of [] \<Rightarrow> (Moves n, s) | k # ks \<Rightarrow> (k, s\<lparr>kernel := ks\<rparr>))"

lemma next_io_kernel:
  "(k, s') = next_io n s \<Longrightarrow> length (kernel s') \<le> length (kernel s)"
  "(Interrupts, s') = next_io n s \<Longrightarrow> length (kernel s') < length (kernel s)"
  by (auto simp: next_io_def split: list.splits)

function send_all :: "u8 list \<Rightarrow> net \<Rightarrow> rpc_error option \<times> net" where
  "send_all data s =
     (if data = [] then (None, s)
      else case next_io (length data) s of
        (Moves n, s1) \<Rightarrow>
          if 0 < n then send_all (drop n data) (s1\<lparr>outgoing := outgoing s1 @ take n data\<rparr>) else (Some SendFailed, s1)
      | (Interrupts, s1) \<Rightarrow> send_all data s1
      | (Fails, s1) \<Rightarrow> (Some SendFailed, s1))"
  by pat_completeness auto
termination
proof (relation "measure (\<lambda>(data, s). length data + length (kernel s))", goal_cases)
  case (2 data s k s1 n)
  then show ?case using next_io_kernel(1) [of k s1 "length data" s] by (cases data) auto
next
  case (3 data s k s1)
  then show ?case using next_io_kernel(2) [of s1 "length data" s] by auto
qed simp

text \<open>\<^verbatim>\<open>recv\<close> returns zero when the peer has closed the connection.\<close>

function receive_all :: "nat \<Rightarrow> net \<Rightarrow> (rpc_error + u8 list) \<times> net" where
  "receive_all bytes s =
     (if bytes = 0 then (Inr [], s)
      else case next_io bytes s of
        (Moves n, s1) \<Rightarrow>
          (let got = take (min n bytes) (incoming s1) in
           if got = [] then (Inl ClosedEarly, s1)
           else case receive_all (bytes - length got) (s1\<lparr>incoming := drop (length got) (incoming s1)\<rparr>) of
             (Inl e, s2) \<Rightarrow> (Inl e, s2)
           | (Inr rest, s2) \<Rightarrow> (Inr (got @ rest), s2))
      | (Interrupts, s1) \<Rightarrow> receive_all bytes s1
      | (Fails, s1) \<Rightarrow> (Inl ReceiveFailed, s1))"
  by pat_completeness auto
termination
proof (relation "measure (\<lambda>(bytes, s). bytes + length (kernel s))", goal_cases)
  case (2 bytes s k s1 n got)
  then have "0 < length got" "length got \<le> bytes" "length (kernel s1) \<le> length (kernel s)"
    using next_io_kernel(1) [of k s1 bytes s] by auto
  then show ?case by (simp del: length_greater_0_conv)
next
  case (3 bytes s k s1)
  then show ?case using next_io_kernel(2) [of s1 bytes s] by auto
qed simp

declare send_all.simps [simp del] receive_all.simps [simp del]

section \<open>Connecting\<close>

text \<open>What the system calls answer for one address: the descriptor (negative on failure), the flags
  (negative on failure), whether they can be set, the result of \<^verbatim>\<open>connect\<close>, those of \<^verbatim>\<open>poll\<close> (a list that ends
  without an answer is a timeout), the pending error of the socket and whether the flags can be set
  back.\<close>

datatype connect_ret = ConnectOk | InProgress | ConnectFails
datatype poll_ret = Ready | TimedOut | PollInterrupted | PollFails

record attempt =
  at_socket :: int
  at_flags :: int
  at_nonblock :: bool
  at_connect :: connect_ret
  at_polls :: "poll_ret list"
  at_getsockopt :: bool
  at_socket_error :: int
  at_restore :: bool

definition close_fd :: "int \<Rightarrow> net \<Rightarrow> net" where
  "close_fd fd s = s\<lparr>open_fds := open_fds s - {fd}\<rparr>"

fun poll_retry :: "poll_ret list \<Rightarrow> poll_ret" where
  "poll_retry [] = TimedOut"
| "poll_retry (r # rs) = (if r = PollInterrupted then poll_retry rs else r)"

definition connect_ok :: "attempt \<Rightarrow> bool" where
  "connect_ok a = (case at_connect a of
      ConnectOk \<Rightarrow> True
    | InProgress \<Rightarrow> poll_retry (at_polls a) = Ready \<and> at_getsockopt a \<and> at_socket_error a = 0
    | ConnectFails \<Rightarrow> False)"

fun connect_loop :: "attempt list \<Rightarrow> net \<Rightarrow> int \<times> net" where
  "connect_loop [] s = (-1, s)"
| "connect_loop (a # as) s =
     (if at_socket a < 0 then connect_loop as s
      else let s1 = s\<lparr>open_fds := insert (at_socket a) (open_fds s)\<rparr> in
        if at_flags a < 0 \<or> \<not> at_nonblock a then connect_loop as (close_fd (at_socket a) s1)
        else if connect_ok a \<and> at_restore a then (at_socket a, s1)
        else connect_loop as (close_fd (at_socket a) s1))"

text \<open>\<open>None\<close> is a failed name resolution.\<close>

definition connect_with_timeout :: "attempt list option \<Rightarrow> net \<Rightarrow> (rpc_error + int) \<times> net" where
  "connect_with_timeout addresses s = (case addresses of
      None \<Rightarrow> (Inl Unresolved, s)
    | Some as \<Rightarrow> (case connect_loop as s of (fd, s1) \<Rightarrow> if fd < 0 then (Inl Unconnected, s1) else (Inr fd, s1)))"

text \<open>The three options are set in this order; the first failure ends the evaluation.\<close>

definition configure_socket :: "bool \<Rightarrow> bool \<Rightarrow> bool \<Rightarrow> rpc_error option" where
  "configure_socket rcvtimeo sndtimeo nodelay = (if \<not> rcvtimeo \<or> \<not> sndtimeo \<or> \<not> nodelay then Some Unconfigured else None)"

section \<open>Checking a request\<close>

definition validate_metadata :: "batch_metadata \<Rightarrow> nat \<Rightarrow> u64 \<Rightarrow> rpc_error option" where
  "validate_metadata md payload_words operation =
     (if bm_mask_dimension md = 0 \<or> bm_item_count md = 0 \<or> bm_radix_blocks md = 0 then Some ZeroSized
      else if bm_item_count md > (- 1) div bm_radix_blocks md then Some ShapeOverflow
      else let block_count = bm_item_count md * bm_radix_blocks md in
        if bm_mask_dimension md = - 1 \<or> block_count > (- 1) div (bm_mask_dimension md + 1) then Some WordCountOverflow
        else let expected_cpu_words = block_count * (bm_mask_dimension md + 1) in
          if block_count > (- 1) div kHpuNativeWordsPerLwe then Some NativeOverflow
          else let expected_native_words = block_count * kHpuNativeWordsPerLwe;
                   expected_words =
                     (if operation = kOperationAddScalarU8HpuNative \<or> operation = kOperationAddScalarU8HpuNativeRoundTrip
                      then expected_native_words
                      else if operation = kOperationEchoU8 \<and> bm_word_count md = expected_native_words then expected_native_words
                      else expected_cpu_words)
               in if bm_word_count md \<noteq> expected_words \<or> unat (bm_word_count md) \<noteq> payload_words then Some WordCountMismatch
                  else None)"

section \<open>Words\<close>

definition words_per_chunk :: nat where "words_per_chunk = kWireChunkBytes div 8"

definition store_words :: "u64 list \<Rightarrow> u8 list \<Rightarrow> u8 list" where
  "store_words ws bytes = fold (\<lambda>i. store_le64 (i * 8) (ws ! i)) [0..<length ws] bytes"

text \<open>The chunk buffer is reused from one round to the next.\<close>

function send_words_loop :: "u64 list \<Rightarrow> nat \<Rightarrow> u8 list \<Rightarrow> net \<Rightarrow> rpc_error option \<times> net" where
  "send_words_loop words offset bytes s =
     (if offset < length words then
        let n = min words_per_chunk (length words - offset);
            bytes1 = store_words (take n (drop offset words)) bytes
        in case send_all (take (n * 8) bytes1) s of
             (Some e, s1) \<Rightarrow> (Some e, s1)
           | (None, s1) \<Rightarrow> send_words_loop words (offset + n) bytes1 s1
      else (None, s))"
  by pat_completeness auto
termination
  by (relation "measure (\<lambda>(words, offset, _). length words - offset)") (auto simp: words_per_chunk_def kWireChunkBytes_def)

definition send_words :: "u64 list \<Rightarrow> net \<Rightarrow> rpc_error option \<times> net" where
  "send_words words s = send_words_loop words 0 (replicate kWireChunkBytes 0) s"

definition load_words :: "nat \<Rightarrow> nat \<Rightarrow> u8 list \<Rightarrow> u64 list \<Rightarrow> u64 list" where
  "load_words offset n bytes words = fold (\<lambda>i ws. ws[offset + i := load_le64 (i * 8) bytes]) [0..<n] words"

function receive_words_loop :: "nat \<Rightarrow> nat \<Rightarrow> u64 list \<Rightarrow> net \<Rightarrow> rpc_error option \<times> u64 list \<times> net" where
  "receive_words_loop word_count offset words s =
     (if offset < word_count then
        let n = min words_per_chunk (word_count - offset)
        in case receive_all (n * 8) s of
             (Inl e, s1) \<Rightarrow> (Some e, words, s1)
           | (Inr bytes, s1) \<Rightarrow> receive_words_loop word_count (offset + n) (load_words offset n bytes words) s1
      else (None, words, s))"
  by pat_completeness auto
termination
  by (relation "measure (\<lambda>(word_count, offset, _). word_count - offset)") (auto simp: words_per_chunk_def kWireChunkBytes_def)

declare send_words_loop.simps [simp del] receive_words_loop.simps [simp del]

text \<open>\<open>None\<close> when the vector cannot be allocated.\<close>

definition receive_words :: "(nat \<Rightarrow> bool) \<Rightarrow> nat \<Rightarrow> net \<Rightarrow> (rpc_error option \<times> u64 list \<times> net) option" where
  "receive_words alloc word_count s =
     (if alloc (word_count * 8) then Some (receive_words_loop word_count 0 (replicate word_count 0) s) else None)"

section \<open>A remote call\<close>

definition store_fields :: "u64 list \<Rightarrow> u8 list \<Rightarrow> u8 list" where
  "store_fields hfields bytes = fold (\<lambda>i. store_le64 (8 + i * 8) (hfields ! i)) [0..<length hfields] bytes"

definition load_fields :: "nat \<Rightarrow> u8 list \<Rightarrow> u64 list" where
  "load_fields n bytes = map (\<lambda>i. load_le64 (8 + i * 8) bytes) [0..<n]"

definition request_header :: "u64 \<Rightarrow> u64 \<Rightarrow> u8 \<Rightarrow> batch_metadata \<Rightarrow> nat \<Rightarrow> u8 list" where
  "request_header request_id operation scalar md word_count =
     (let header = kMagic @ replicate (kHeaderBytes - 8) 0;
          hfields = [kVersion, kFrameRequest, request_id, operation, 0, ucast scalar, bm_mask_dimension md, bm_item_count md,
            bm_radix_blocks md, bm_message_width md, bm_carry_width md, bm_padding_bit_width md, bm_delta_log2 md, bm_word_count md]
      in store_le64 (8 + kHeaderFields * 8) (of_nat (word_count * 8)) (store_fields hfields header))"

text \<open>The checks of the response header up to the frame kind.\<close>

definition check_frame :: "u64 list \<Rightarrow> u64 \<Rightarrow> u64 \<Rightarrow> rpc_error option" where
  "check_frame hfields payload_bytes max_response_bytes =
     (if hfields ! 0 \<noteq> kVersion then Some BadVersion
      else if payload_bytes > max_response_bytes then Some TooLarge else None)"

definition response_metadata :: "u64 list \<Rightarrow> batch_metadata" where
  "response_metadata hfields = \<lparr>bm_mask_dimension = hfields ! 6, bm_item_count = hfields ! 7, bm_radix_blocks = hfields ! 8,
     bm_message_width = hfields ! 9, bm_carry_width = hfields ! 10, bm_padding_bit_width = hfields ! 11, bm_delta_log2 = hfields ! 12,
     bm_word_count = hfields ! 13\<rparr>"

definition expected_response_metadata :: "u64 \<Rightarrow> batch_metadata \<Rightarrow> batch_metadata" where
  "expected_response_metadata operation md =
     (if operation = kOperationAddScalarU8HpuNative
      then md\<lparr>bm_word_count := bm_item_count md * bm_radix_blocks md * (bm_mask_dimension md + 1)\<rparr> else md)"

text \<open>The checks of a response frame.\<close>

definition check_response :: "u64 \<Rightarrow> u64 \<Rightarrow> u8 \<Rightarrow> batch_metadata \<Rightarrow> u64 list \<Rightarrow> u64 \<Rightarrow> rpc_error option" where
  "check_response request_id operation scalar md hfields payload_bytes =
     (if hfields ! 1 \<noteq> kFrameResponse then Some BadKind
      else if hfields ! 2 \<noteq> request_id \<or> hfields ! 3 \<noteq> operation \<or> hfields ! 4 \<noteq> 0 \<or> hfields ! 5 \<noteq> ucast scalar then Some RequestMismatch
      else if response_metadata hfields \<noteq> expected_response_metadata operation md then Some MetadataChanged
      else if payload_bytes \<noteq> bm_word_count (response_metadata hfields) * 8 then Some PayloadMismatch
      else None)"

definition set_timing :: "(u64 \<Rightarrow> 'd) \<Rightarrow> u64 list \<Rightarrow> 'd rpc_result \<Rightarrow> 'd rpc_result" where
  "set_timing ns_to_ms t r = r\<lparr>rr_request_receive := ns_to_ms (t ! 2), rr_request_validate := ns_to_ms (t ! 3),
     rr_request_decode := ns_to_ms (t ! 4), rr_hpu_prepare := ns_to_ms (t ! 5), rr_hpu_enqueue := ns_to_ms (t ! 6),
     rr_hpu_wait_sync := ns_to_ms (t ! 7), rr_hpu_output_convert := ns_to_ms (t ! 8), rr_result_encode := ns_to_ms (t ! 9),
     rr_mem_sanitizer := ns_to_ms (t ! 10), rr_process := ns_to_ms (t ! 11), rr_response_send := ns_to_ms (t ! 12),
     rr_total := ns_to_ms (t ! 13), rr_payload_bytes := t ! 14\<rparr>"

text \<open>Each error path closes the connection.\<close>

definition give_up :: "int \<Rightarrow> rpc_error \<Rightarrow> 'd rpc_result \<Rightarrow> net \<Rightarrow> rpc_outcome \<times> 'd rpc_result \<times> net" where
  "give_up fd e r s = (Failure e, r, close_fd fd s)"

definition receive_trailer ::
    "(u64 \<Rightarrow> 'd) \<Rightarrow> int \<Rightarrow> u64 \<Rightarrow> u64 list \<Rightarrow> u64 \<Rightarrow> 'd rpc_result \<Rightarrow> net \<Rightarrow> rpc_outcome \<times> 'd rpc_result \<times> net" where
  "receive_trailer ns_to_ms fd request_id hfields payload_bytes r s =
     (case receive_all kTimingBytes s of
        (Inl e, s1) \<Rightarrow> give_up fd e r s1
      | (Inr timing, s1) \<Rightarrow>
          if take 8 timing \<noteq> kTimingMagic then give_up fd BadTimingMagic r s1
          else let t = load_fields kTimingFields timing in
            if t ! 0 \<noteq> kTimingVersion \<or> t ! 1 \<noteq> request_id then give_up fd TimingMismatch r s1
            else let r1 = set_timing ns_to_ms t r in
              if rr_payload_bytes r1 \<noteq> payload_bytes then give_up fd TimingPayloadMismatch r1 s1
              else (Success, r1\<lparr>rr_metadata := response_metadata hfields, rr_request_id := hfields ! 2, rr_operation := hfields ! 3,
                      rr_scalar := hfields ! 5\<rparr>, close_fd fd s1))"

definition receive_response ::
    "(nat \<Rightarrow> bool) \<Rightarrow> (u64 \<Rightarrow> 'd) \<Rightarrow> int \<Rightarrow> u64 \<Rightarrow> u64 \<Rightarrow> u8 \<Rightarrow> batch_metadata \<Rightarrow> u64 \<Rightarrow> 'd rpc_result \<Rightarrow> net
      \<Rightarrow> rpc_outcome \<times> 'd rpc_result \<times> net" where
  "receive_response alloc ns_to_ms fd request_id operation scalar md max_response_bytes r s =
     (case receive_all kHeaderBytes s of
        (Inl e, s1) \<Rightarrow> give_up fd e r s1
      | (Inr header, s1) \<Rightarrow>
          if take 8 header \<noteq> kMagic then give_up fd BadMagic r s1
          else let hfields = load_fields kHeaderFields header; payload_bytes = load_le64 (8 + kHeaderFields * 8) header in
            case check_frame hfields payload_bytes max_response_bytes of
              Some e \<Rightarrow> give_up fd e r s1
            | None \<Rightarrow>
                if hfields ! 1 = kFrameError then
                  if \<not> alloc (unat payload_bytes) then (Throws, r, s1)
                  else case receive_all (unat payload_bytes) s1 of
                    (Inl e, s2) \<Rightarrow> give_up fd e r s2
                  | (Inr message, s2) \<Rightarrow> give_up fd (RemoteHpuError message) r s2
                else case check_response request_id operation scalar md hfields payload_bytes of
                  Some e \<Rightarrow> give_up fd e r s1
                | None \<Rightarrow>
                    (case receive_words alloc (unat (bm_word_count (response_metadata hfields))) s1 of
                       None \<Rightarrow> (Throws, r, s1)
                     | Some (Some e, ws, s2) \<Rightarrow> give_up fd e (r\<lparr>rr_words := ws\<rparr>) s2
                     | Some (None, ws, s2) \<Rightarrow> receive_trailer ns_to_ms fd request_id hfields payload_bytes (r\<lparr>rr_words := ws\<rparr>) s2))"

definition supported :: "u64 \<Rightarrow> bool" where
  "supported operation \<longleftrightarrow> operation = kOperationEchoU8 \<or> operation = kOperationAddScalarU8
     \<or> operation = kOperationAddScalarU8HpuNative \<or> operation = kOperationAddScalarU8HpuNativeRoundTrip"

text \<open>The settings of one call: what the network answers and the limits the caller gives.\<close>

record 'd call_env =
  ce_addresses :: "attempt list option"
  ce_rcvtimeo :: bool
  ce_sndtimeo :: bool
  ce_nodelay :: bool
  ce_alloc :: "nat \<Rightarrow> bool"
  ce_ns_to_ms :: "u64 \<Rightarrow> 'd"
  ce_max_response_bytes :: u64

definition compute_u8 ::
    "'d call_env \<Rightarrow> u64 \<Rightarrow> u64 \<Rightarrow> u8 \<Rightarrow> batch_metadata \<Rightarrow> u64 list \<Rightarrow> 'd rpc_result option \<Rightarrow> net
      \<Rightarrow> rpc_outcome \<times> 'd rpc_result option \<times> net" where
  "compute_u8 env request_id operation scalar md words result s =
     (case result of None \<Rightarrow> (Failure NullResult, None, s)
      | Some r \<Rightarrow>
        case validate_metadata md (length words) operation of Some e \<Rightarrow> (Failure e, result, s)
        | None \<Rightarrow>
          if \<not> supported operation then (Failure UnsupportedOperation, result, s)
          else if length words > (2 ^ 64 - 1) div 8 then (Failure PayloadOverflow, result, s)
          else case connect_with_timeout (ce_addresses env) s of
            (Inl e, s1) \<Rightarrow> (Failure e, result, s1)
          | (Inr fd, s1) \<Rightarrow>
              let (out, r1, s3) =
                (case configure_socket (ce_rcvtimeo env) (ce_sndtimeo env) (ce_nodelay env) of
                   Some e \<Rightarrow> give_up fd e r s1
                 | None \<Rightarrow>
                   (case send_all (request_header request_id operation scalar md (length words)) s1 of
                      (Some e, s2) \<Rightarrow> give_up fd e r s2
                    | (None, s2) \<Rightarrow>
                      (case send_words words s2 of
                         (Some e, s3) \<Rightarrow> give_up fd e r s3
                       | (None, s3) \<Rightarrow>
                           receive_response (ce_alloc env) (ce_ns_to_ms env) fd request_id operation scalar md
                             (ce_max_response_bytes env) r s3)))
              in (out, Some r1, s3))"

end
