(* ===== verification/Remote_Server.thy ===== *)
theory Remote_Server
  imports Remote_Client
begin

unbundle bit_operations_syntax

text \<open>
  The server side of the remote protocol (\<^verbatim>\<open>tfhe/examples/hpu/lwe_remote/protocol.rs\<close> and \<^verbatim>\<open>bridge.rs\<close>, and
  \<^verbatim>\<open>handle_connection\<close> and \<^verbatim>\<open>process_request\<close> of \<^verbatim>\<open>lwe_remote_server.rs\<close>), written in Rust.  A \<^verbatim>\<open>usize\<close> has 64
  bits, so the metadata of the server has the type of that of the client.  The tfhe-rs library and the
  HPU behind it are arguments: the parameters of the device, and what an addition of a scalar makes
  of the ciphertexts.  A connection is the bytes that arrive, the bytes written, and how many
  more the peer accepts.  The durations of the timing trailer and the wording of the messages are
  arguments.
\<close>

section \<open>Connections\<close>

datatype srv_error = ShortRead | WriteFailed | BadProtocolMagic | BadProtocolVersion | PayloadTooLarge | NotUtf8 | UnsupportedKind
  | EmptyBatch | ZeroShape | CountOverflow | NativeCountOverflow | CpuCountMismatch | NativeCountMismatch | NeitherLayout
  | PayloadWordMismatch | ByteCountOverflow | ByteCountMismatch | NotARequest | BadStatus | BadOperation | ScalarRange
  | DimensionMismatch | WidthMismatch | BlockCountMismatch | DeltaMismatch | NativeDimensionMismatch | BadPcGeometry
  | BadCoefficientFormat | NonZeroPadding nat nat | ResultItemMismatch | ResultRadixMismatch nat | ResultGeometry nat nat | ResultWordMismatch

record conn =
  c_in :: "u8 list"
  c_out :: "u8 list"
  c_room :: "nat option"

type_synonym 'a srv = "conn \<Rightarrow> (srv_error + 'a) \<times> conn"

definition cbind :: "'a srv \<Rightarrow> ('a \<Rightarrow> 'b srv) \<Rightarrow> 'b srv" where
  "cbind m f s = (case m s of (Inl e, s') \<Rightarrow> (Inl e, s') | (Inr x, s') \<Rightarrow> f x s')"

definition sok :: "'a \<Rightarrow> 'a srv" where "sok x s = (Inr x, s)"
definition serr :: "srv_error \<Rightarrow> 'a srv" where "serr e s = (Inl e, s)"

text \<open>A computation that touches no stream, inside one that does.\<close>

definition lift_result :: "srv_error + 'a \<Rightarrow> 'a srv" where "lift_result r s = (r, s)"

definition ebind :: "'e + 'a \<Rightarrow> ('a \<Rightarrow> 'e + 'b) \<Rightarrow> 'e + 'b" where
  "ebind m f = (case m of Inl e \<Rightarrow> Inl e | Inr x \<Rightarrow> f x)"

definition read_exact :: "nat \<Rightarrow> u8 list srv" where
  "read_exact n s = (if length (c_in s) < n then (Inl ShortRead, s\<lparr>c_in := []\<rparr>)
     else (Inr (take n (c_in s)), s\<lparr>c_in := drop n (c_in s)\<rparr>))"

definition write_all :: "u8 list \<Rightarrow> unit srv" where
  "write_all bs s = (case c_room s of None \<Rightarrow> (Inr (), s\<lparr>c_out := c_out s @ bs\<rparr>)
     | Some k \<Rightarrow> if length bs \<le> k then (Inr (), s\<lparr>c_out := c_out s @ bs, c_room := Some (k - length bs)\<rparr>)
                 else (Inl WriteFailed, s\<lparr>c_out := c_out s @ take k bs, c_room := Some 0\<rparr>))"

definition to_le_bytes :: "u64 \<Rightarrow> u8 list" where
  "to_le_bytes v = map (\<lambda>i. ucast (drop_bit (i * 8) v)) [0..<8]"

definition from_le_bytes :: "u8 list \<Rightarrow> u64" where
  "from_le_bytes bs = foldr (\<lambda>b v. ucast b OR push_bit 8 v) bs 0"

definition read_u64 :: "u64 srv" where
  "read_u64 = cbind (read_exact 8) (\<lambda>bs. sok (from_le_bytes bs))"

definition write_u64 :: "u64 \<Rightarrow> unit srv" where
  "write_u64 v = write_all (to_le_bytes v)"

fun read_u64s :: "nat \<Rightarrow> u64 list srv" where
  "read_u64s 0 = sok []"
| "read_u64s (Suc n) = cbind read_u64 (\<lambda>v. cbind (read_u64s n) (\<lambda>vs. sok (v # vs)))"

fun write_u64s :: "u64 list \<Rightarrow> unit srv" where
  "write_u64s [] = sok ()"
| "write_u64s (v # vs) = cbind (write_u64 v) (\<lambda>_. write_u64s vs)"

section \<open>Metadata\<close>

definition checked_mul :: "u64 \<Rightarrow> u64 \<Rightarrow> u64 option" where
  "checked_mul a b = (if unat a * unat b < 2 ^ 64 then Some (a * b) else None)"

definition checked_add :: "u64 \<Rightarrow> u64 \<Rightarrow> u64 option" where
  "checked_add a b = (if unat a + unat b < 2 ^ 64 then Some (a + b) else None)"

definition expected_cpu_word_count :: "batch_metadata \<Rightarrow> srv_error + u64" where
  "expected_cpu_word_count md =
     (case Option.bind (checked_mul (bm_item_count md) (bm_radix_blocks md))
        (\<lambda>n. Option.bind (checked_add (bm_mask_dimension md) 1) (\<lambda>d. checked_mul n d)) of
        None \<Rightarrow> Inl CountOverflow | Some n \<Rightarrow> Inr n)"

definition expected_hpu_native_word_count :: "batch_metadata \<Rightarrow> srv_error + u64" where
  "expected_hpu_native_word_count md =
     (case Option.bind (checked_mul (bm_item_count md) (bm_radix_blocks md)) (\<lambda>n. checked_mul n (2 * 1536)) of
        None \<Rightarrow> Inl NativeCountOverflow | Some n \<Rightarrow> Inr n)"

definition validate_cpu_payload :: "batch_metadata \<Rightarrow> srv_error + unit" where
  "validate_cpu_payload md = ebind (expected_cpu_word_count md)
     (\<lambda>n. if bm_word_count md \<noteq> n then Inl CpuCountMismatch else Inr ())"

definition validate_hpu_native_payload :: "batch_metadata \<Rightarrow> srv_error + unit" where
  "validate_hpu_native_payload md = ebind (expected_hpu_native_word_count md)
     (\<lambda>n. if bm_word_count md \<noteq> n then Inl NativeCountMismatch else Inr ())"

definition validate :: "batch_metadata \<Rightarrow> srv_error + unit" where
  "validate md =
     (if bm_item_count md = 0 then Inl EmptyBatch
      else if bm_radix_blocks md = 0 \<or> bm_mask_dimension md = 0 then Inl ZeroShape
      else if validate_cpu_payload md \<noteq> Inr () \<and> validate_hpu_native_payload md \<noteq> Inr () then Inl NeitherLayout
      else Inr ())"

section \<open>Frames\<close>

record ct_frame =
  f_version :: u64
  f_kind :: u64
  f_request_id :: u64
  f_operation :: u64
  f_status :: u64
  f_scalar :: u64
  f_metadata :: batch_metadata
  f_words :: "u64 list"
  f_error :: "u8 list option"

definition VERSION_V1 :: u64 where "VERSION_V1 = 1"
definition VERSION_TIMING :: u64 where "VERSION_TIMING = 2"

definition validate_version :: "u64 \<Rightarrow> srv_error + unit" where
  "validate_version v = (if v = VERSION_V1 \<or> v = VERSION_TIMING then Inr () else Inl BadProtocolVersion)"

definition metadata_fields :: "batch_metadata \<Rightarrow> u64 list" where
  "metadata_fields md = [bm_mask_dimension md, bm_item_count md, bm_radix_blocks md, bm_message_width md, bm_carry_width md,
     bm_padding_bit_width md, bm_delta_log2 md, bm_word_count md]"

definition write_ciphertext_frame_version ::
    "u64 \<Rightarrow> u64 \<Rightarrow> u64 \<Rightarrow> u64 \<Rightarrow> u64 \<Rightarrow> batch_metadata \<Rightarrow> u64 list \<Rightarrow> unit srv" where
  "write_ciphertext_frame_version version kind request_id operation scalar md words =
     cbind (lift_result (validate_version version)) (\<lambda>_.
     cbind (lift_result (validate md)) (\<lambda>_.
     if length words \<noteq> unat (bm_word_count md) then serr PayloadWordMismatch
     else if length words * 8 \<ge> 2 ^ 64 then serr ByteCountOverflow
     else cbind (write_all kMagic) (\<lambda>_.
          cbind (write_u64s ([version, kind, request_id, operation, 0, scalar] @ metadata_fields md)) (\<lambda>_.
          cbind (write_u64 (of_nat (length words * 8))) (\<lambda>_.
          write_u64s words)))))"

definition write_error_frame_version :: "u64 \<Rightarrow> u64 \<Rightarrow> u64 \<Rightarrow> u8 list \<Rightarrow> unit srv" where
  "write_error_frame_version version request_id operation message =
     cbind (lift_result (validate_version version)) (\<lambda>_.
     cbind (write_all kMagic) (\<lambda>_.
     cbind (write_u64s [version, kFrameError, request_id, operation, 1, 0, 0, 0, 0, 0, 0, 0, 0, 0]) (\<lambda>_.
     cbind (write_u64 (of_nat (length message))) (\<lambda>_.
     write_all message))))"

text \<open>The well-formed sequences of UTF-8, which \<^verbatim>\<open>String::from_utf8\<close> accepts.\<close>

definition tail_byte :: "u8 \<Rightarrow> bool" where "tail_byte b \<longleftrightarrow> 0x80 \<le> b \<and> b \<le> 0xBF"

fun utf8 :: "u8 list \<Rightarrow> bool" where
  "utf8 [] \<longleftrightarrow> True"
| "utf8 (a # bs) \<longleftrightarrow>
     (if a \<le> 0x7F then utf8 bs
      else if 0xC2 \<le> a \<and> a \<le> 0xDF then (case bs of b # r \<Rightarrow> tail_byte b \<and> utf8 r | _ \<Rightarrow> False)
      else if 0xE0 \<le> a \<and> a \<le> 0xEF then
        (case bs of b # c # r \<Rightarrow> tail_byte b \<and> (a = 0xE0 \<longrightarrow> 0xA0 \<le> b) \<and> (a = 0xED \<longrightarrow> b \<le> 0x9F) \<and> tail_byte c \<and> utf8 r | _ \<Rightarrow> False)
      else if 0xF0 \<le> a \<and> a \<le> 0xF4 then
        (case bs of b # c # d # r \<Rightarrow> tail_byte b \<and> (a = 0xF0 \<longrightarrow> 0x90 \<le> b) \<and> (a = 0xF4 \<longrightarrow> b \<le> 0x8F) \<and> tail_byte c \<and> tail_byte d \<and> utf8 r
         | _ \<Rightarrow> False)
      else False)"

definition read_frame :: "nat \<Rightarrow> ct_frame srv" where
  "read_frame max_payload_bytes =
     cbind (read_exact 8) (\<lambda>magic.
     if magic \<noteq> kMagic then serr BadProtocolMagic
     else cbind (read_u64s 14) (\<lambda>fs.
     cbind read_u64 (\<lambda>payload_bytes.
     cbind (lift_result (validate_version (fs ! 0))) (\<lambda>_.
     if unat payload_bytes > max_payload_bytes then serr PayloadTooLarge
     else let md = response_metadata fs;
              fr = \<lparr>f_version = fs ! 0, f_kind = fs ! 1, f_request_id = fs ! 2, f_operation = fs ! 3, f_status = fs ! 4,
                    f_scalar = fs ! 5, f_metadata = md, f_words = [], f_error = None\<rparr> in
       if fs ! 1 = kFrameError then
         cbind (read_exact (unat payload_bytes)) (\<lambda>payload.
           if utf8 payload then sok (fr\<lparr>f_error := Some payload\<rparr>) else serr NotUtf8)
       else if fs ! 1 \<noteq> kFrameRequest \<and> fs ! 1 \<noteq> kFrameResponse then serr UnsupportedKind
       else cbind (lift_result (validate md)) (\<lambda>_.
         case checked_mul (bm_word_count md) 8 of None \<Rightarrow> serr ByteCountOverflow
         | Some expected \<Rightarrow>
           if payload_bytes \<noteq> expected then serr ByteCountMismatch
           else cbind (read_exact (unat payload_bytes)) (\<lambda>payload.
             sok (fr\<lparr>f_words := map (\<lambda>i. from_le_bytes (take 8 (drop (i * 8) payload))) [0..<length payload div 8]\<rparr>)))))))"

definition TIMING_VERSION :: u64 where "TIMING_VERSION = 1"

definition write_server_timing :: "u64 \<Rightarrow> u64 list \<Rightarrow> u64 \<Rightarrow> unit srv" where
  "write_server_timing request_id durations response_payload_bytes =
     cbind (write_all kTimingMagic) (\<lambda>_.
     write_u64s ([TIMING_VERSION, request_id] @ durations @ [response_payload_bytes]))"

section \<open>Ciphertexts of the library\<close>

text \<open>
  A radix ciphertext is the list of the containers of its blocks, a native ciphertext the list of
  its cuts, one per memory channel.  The parameters of the device and its additions are fields of a
  record: \<open>run_cpu\<close> uploads a radix ciphertext, adds the scalar and reads the sum back, \<open>run_native\<close> does
  so for native ciphertexts and \<open>run_native_cpu\<close> reads the sum of native ones back as a radix
  ciphertext.
\<close>

type_synonym lwe = "u64 list"
type_synonym radix = "lwe list"
type_synonym native = "u64 list list"

record hpu =
  hp_lwe_dimension :: u64
  hp_message_width :: u64
  hp_carry_width :: u64
  hp_big_dimension :: u64
  hp_pem_pc :: u64
  hp_coef_nb :: u64
  hp_ntt_radix :: u64
  hp_ntt_stages :: u64
  hp_ntt_ct_width :: u64
  hp_pbs_ct_width :: u64
  run_cpu :: "u8 \<Rightarrow> radix \<Rightarrow> radix"
  run_native :: "u8 \<Rightarrow> native list \<Rightarrow> native list"
  run_native_cpu :: "u8 \<Rightarrow> native list \<Rightarrow> radix"

text \<open>The subtractions of the last check are on \<^verbatim>\<open>usize\<close> and wrap around as in a release build; a debug build panics
  there.\<close>

definition bridge_validate_metadata :: "hpu \<Rightarrow> batch_metadata \<Rightarrow> srv_error + unit" where
  "bridge_validate_metadata h md = ebind (validate md) (\<lambda>_.
     if bm_mask_dimension md \<noteq> hp_lwe_dimension h then Inl DimensionMismatch
     else if bm_message_width md \<noteq> hp_message_width h \<or> bm_carry_width md \<noteq> hp_carry_width h then Inl WidthMismatch
     else if bm_radix_blocks md \<noteq> 8 div hp_message_width h then Inl BlockCountMismatch
     else if bm_delta_log2 md \<noteq> 64 - hp_message_width h - hp_carry_width h - bm_padding_bit_width md then Inl DeltaMismatch
     else Inr ())"

definition words_to_radix_ciphertexts :: "hpu \<Rightarrow> batch_metadata \<Rightarrow> u64 list \<Rightarrow> srv_error + radix list" where
  "words_to_radix_ciphertexts h md words = ebind (bridge_validate_metadata h md) (\<lambda>_. ebind (validate_cpu_payload md) (\<lambda>_.
     if length words \<noteq> unat (bm_word_count md) then Inl PayloadWordMismatch
     else let words_per_lwe = unat (bm_mask_dimension md) + 1; blocks = unat (bm_radix_blocks md) in
       Inr (map (\<lambda>item_index. map (\<lambda>block_index. take words_per_lwe (drop ((item_index * blocks + block_index) * words_per_lwe) words))
              [0..<blocks]) [0..<unat (bm_item_count md)])))"

definition HPU_NATIVE_PC_COUNT :: nat where "HPU_NATIVE_PC_COUNT = 2"
definition HPU_NATIVE_PC_SLOT_WORDS :: nat where "HPU_NATIVE_PC_SLOT_WORDS = 1536"
definition HPU_NATIVE_PC0_DATA_WORDS :: nat where "HPU_NATIVE_PC0_DATA_WORDS = 1025"
definition HPU_NATIVE_PC1_DATA_WORDS :: nat where "HPU_NATIVE_PC1_DATA_WORDS = 1024"

text \<open>Apply a fallible function to each element, up to the first failure.\<close>

fun traverse :: "('a \<Rightarrow> 'e + 'b) \<Rightarrow> 'a list \<Rightarrow> 'e + 'b list" where
  "traverse f [] = Inr []"
| "traverse f (x # xs) = ebind (f x) (\<lambda>y. ebind (traverse f xs) (\<lambda>ys. Inr (y # ys)))"

definition import_block :: "u64 list \<Rightarrow> nat \<Rightarrow> nat \<Rightarrow> nat \<Rightarrow> srv_error + native" where
  "import_block words blocks item_index block_index =
     (let words_per_lwe = HPU_NATIVE_PC_COUNT * HPU_NATIVE_PC_SLOT_WORDS;
          base = (item_index * blocks + block_index) * words_per_lwe;
          pc0 = take HPU_NATIVE_PC_SLOT_WORDS (drop base words);
          pc1 = take HPU_NATIVE_PC_SLOT_WORDS (drop (base + HPU_NATIVE_PC_SLOT_WORDS) words)
      in if \<exists>w \<in> set (drop HPU_NATIVE_PC0_DATA_WORDS pc0 @ drop HPU_NATIVE_PC1_DATA_WORDS pc1). w \<noteq> 0
         then Inl (NonZeroPadding item_index block_index)
         else Inr [take HPU_NATIVE_PC0_DATA_WORDS pc0, take HPU_NATIVE_PC1_DATA_WORDS pc1])"

definition hpu_native_words_to_lwe_ciphertexts :: "hpu \<Rightarrow> batch_metadata \<Rightarrow> u64 list \<Rightarrow> srv_error + native list list" where
  "hpu_native_words_to_lwe_ciphertexts h md words = ebind (validate_hpu_native_payload md) (\<lambda>_.
     if bm_mask_dimension md \<noteq> hp_big_dimension h then Inl NativeDimensionMismatch
     else if hp_pem_pc h \<noteq> of_nat HPU_NATIVE_PC_COUNT \<or> hp_coef_nb h div hp_pem_pc h \<noteq> 16 then Inl BadPcGeometry
     else if hp_ntt_radix h \<noteq> 2 \<or> hp_ntt_stages h \<noteq> 11 \<or> hp_ntt_ct_width h \<noteq> 64 \<or> hp_pbs_ct_width h \<noteq> 64 then Inl BadCoefficientFormat
     else if length words \<noteq> unat (bm_word_count md) then Inl PayloadWordMismatch
     else traverse (\<lambda>item_index. traverse (import_block words (unat (bm_radix_blocks md)) item_index) [0..<unat (bm_radix_blocks md)])
            [0..<unat (bm_item_count md)])"

definition export_block :: "nat \<Rightarrow> nat \<Rightarrow> native \<Rightarrow> srv_error + u64 list" where
  "export_block item_index block_index cuts =
     (if length cuts \<noteq> HPU_NATIVE_PC_COUNT \<or> length (cuts ! 0) \<noteq> HPU_NATIVE_PC0_DATA_WORDS \<or> length (cuts ! 1) \<noteq> HPU_NATIVE_PC1_DATA_WORDS
      then Inl (ResultGeometry item_index block_index)
      else Inr (cuts ! 0 @ replicate (HPU_NATIVE_PC_SLOT_WORDS - length (cuts ! 0)) 0
        @ cuts ! 1 @ replicate (HPU_NATIVE_PC_SLOT_WORDS - length (cuts ! 1)) 0))"

definition export_item :: "nat \<Rightarrow> nat \<times> native list \<Rightarrow> srv_error + u64 list" where
  "export_item blocks p = (case p of (item_index, item) \<Rightarrow>
     if length item \<noteq> blocks then Inl (ResultRadixMismatch item_index)
     else ebind (traverse (\<lambda>(block_index, block). export_block item_index block_index block) (enumerate 0 item)) (\<lambda>ws. Inr (concat ws)))"

definition hpu_lwe_ciphertexts_to_native_words :: "batch_metadata \<Rightarrow> native list list \<Rightarrow> srv_error + u64 list" where
  "hpu_lwe_ciphertexts_to_native_words md cts = ebind (validate_hpu_native_payload md) (\<lambda>_.
     if length cts \<noteq> unat (bm_item_count md) then Inl ResultItemMismatch
     else ebind (traverse (export_item (unat (bm_radix_blocks md))) (enumerate 0 cts)) (\<lambda>ws.
       if length (concat ws) \<noteq> unat (bm_word_count md) then Inl ResultWordMismatch else Inr (concat ws)))"

definition radix_ciphertexts_to_words :: "radix list \<Rightarrow> u64 list" where
  "radix_ciphertexts_to_words cts = concat (map concat cts)"

section \<open>Requests\<close>

definition check_request :: "hpu \<Rightarrow> ct_frame \<Rightarrow> srv_error + u8" where
  "check_request h fr =
     (if f_kind fr \<noteq> kFrameRequest then Inl NotARequest
      else if f_status fr \<noteq> 0 then Inl BadStatus
      else if \<not> supported (f_operation fr) then Inl BadOperation
      else if unat (f_scalar fr) \<ge> 256 then Inl ScalarRange
      else ebind (bridge_validate_metadata h (f_metadata fr)) (\<lambda>_. Inr (ucast (f_scalar fr))))"

definition process_request :: "hpu \<Rightarrow> ct_frame \<Rightarrow> srv_error + batch_metadata \<times> u64 list" where
  "process_request h fr = ebind (check_request h fr) (\<lambda>scalar.
     let md = f_metadata fr; words = f_words fr; operation = f_operation fr in
     if operation = kOperationEchoU8 then Inr (md, words)
     else ebind
       (if operation = kOperationAddScalarU8HpuNativeRoundTrip then
          ebind (hpu_native_words_to_lwe_ciphertexts h md words) (\<lambda>cts.
          ebind (expected_hpu_native_word_count md) (\<lambda>n.
          let md1 = md\<lparr>bm_word_count := n\<rparr> in
          ebind (hpu_lwe_ciphertexts_to_native_words md1 (map (run_native h scalar) cts)) (\<lambda>ws. Inr (md1, ws))))
        else
          ebind (if operation = kOperationAddScalarU8HpuNative
                 then ebind (hpu_native_words_to_lwe_ciphertexts h md words) (\<lambda>cts. Inr (map (run_native_cpu h scalar) cts))
                 else ebind (words_to_radix_ciphertexts h md words) (\<lambda>cts. Inr (map (run_cpu h scalar) cts))) (\<lambda>outs.
          ebind (expected_cpu_word_count md) (\<lambda>n. Inr (md\<lparr>bm_word_count := n\<rparr>, radix_ciphertexts_to_words outs))))
       (\<lambda>(md1, ws). if length ws \<noteq> unat (bm_word_count md1) then Inl ResultWordMismatch else Inr (md1, ws)))"

text \<open>\<open>durations\<close> are the twelve measured times, \<open>message\<close> the text of an error.\<close>

definition handle_connection :: "hpu \<Rightarrow> nat \<Rightarrow> u64 list \<Rightarrow> (srv_error \<Rightarrow> u8 list) \<Rightarrow> unit srv" where
  "handle_connection h max_request_bytes durations message =
     cbind (read_frame max_request_bytes) (\<lambda>request.
       case process_request h request of
         Inr (md, words) \<Rightarrow>
           cbind (write_ciphertext_frame_version (f_version request) kFrameResponse (f_request_id request) (f_operation request)
                    (f_scalar request) md words) (\<lambda>_.
             if f_version request = VERSION_TIMING then write_server_timing (f_request_id request) durations (of_nat (length words * 8))
             else sok ())
       | Inl e \<Rightarrow>
           cbind (write_error_frame_version (f_version request) (f_request_id request) (f_operation request) (message e)) (\<lambda>_. serr e))"

end
