(* ===== verification/Remote_Laws.thy ===== *)
theory Remote_Laws
  imports Remote_Server
begin

unbundle bit_operations_syntax

text \<open>
  What client and server of the remote protocol make of each other's bytes: words and their eight
  bytes, transfers that the kernel cuts into pieces, the header, and the two roles of a call.
\<close>

section \<open>Eight bytes\<close>

lemma length_to_le_bytes [simp]: "length (to_le_bytes v) = 8"
  by (simp add: to_le_bytes_def)

lemma fold_update_upt:
  "off + n \<le> length bs \<Longrightarrow> fold (\<lambda>i xs. xs[off + i := f i]) [0..<n] bs = take off bs @ map f [0..<n] @ drop (off + n) bs"
proof (induction n)
  case (Suc n)
  have "drop (off + n) bs = bs ! (off + n) # drop (off + Suc n) bs" using Suc.prems by (simp add: Cons_nth_drop_Suc)
  with Suc show ?case by (simp add: list_update_append)
qed simp

lemma store_le64_splice:
  "off + 8 \<le> length bs \<Longrightarrow> store_le64 off v bs = take off bs @ to_le_bytes v @ drop (off + 8) bs"
  by (simp only: store_le64_def to_le_bytes_def fold_update_upt)

lemma load_bytes_fold:
  fixes bs :: "u8 list"
  assumes "n \<le> 8" and "\<And>i. i < n \<Longrightarrow> bs ! (off + i) = ucast (drop_bit (i * 8) v)"
  shows "fold (\<lambda>i w. w OR push_bit (i * 8) (ucast (bs ! (off + i)))) [0..<n] 0 = take_bit (n * 8) (v :: u64)"
  using assms
proof (induction n)
  case (Suc n)
  have "take_bit (n * 8) v OR push_bit (n * 8) (ucast (ucast (drop_bit (n * 8) v) :: u8)) = take_bit (Suc n * 8) v"
  proof (rule bit_word_eqI)
    fix k
    assume "k < LENGTH(64)"
    moreover have "n * 8 + (k - n * 8) = k" if "n * 8 \<le> k" using that by simp
    ultimately show "bit (take_bit (n * 8) v OR push_bit (n * 8) (ucast (ucast (drop_bit (n * 8) v) :: u8))) k = bit (take_bit (Suc n * 8) v) k"
      by (auto simp: bit_or_iff bit_take_bit_iff bit_push_bit_iff bit_ucast_iff bit_drop_bit_eq)
  qed
  moreover have "fold (\<lambda>i w. w OR push_bit (i * 8) (ucast (bs ! (off + i)))) [0..<n] 0 = take_bit (n * 8) v"
    using Suc.prems by (intro Suc.IH) simp_all
  ultimately show ?case using Suc.prems(2) [of n] by simp
qed simp

lemma load_le64_bytes:
  assumes "length xs = off"
  shows "load_le64 off (xs @ to_le_bytes v @ ys) = v"
proof -
  have "load_le64 off (xs @ to_le_bytes v @ ys) = take_bit (8 * 8) v"
    unfolding load_le64_def using assms by (intro load_bytes_fold) (auto simp: to_le_bytes_def nth_append simp del: upt_rec_numeral)
  then show ?thesis by (simp add: take_bit_word_eq_self)
qed

lemma from_le_bytes_fold:
  "foldr (\<lambda>b w. ucast b OR push_bit 8 w) (map (\<lambda>i. ucast (drop_bit (i * 8) v) :: u8) [m..<m + n]) 0
     = take_bit (n * 8) (drop_bit (m * 8) (v :: u64))"
proof (induction n arbitrary: m)
  case (Suc n)
  let ?w = "drop_bit (m * 8) v"
  have eq: "ucast (ucast ?w :: u8) OR push_bit 8 (take_bit (n * 8) (drop_bit (Suc m * 8) v)) = take_bit (Suc n * 8) ?w"
  proof (rule bit_word_eqI)
    fix k
    assume "k < LENGTH(64)"
    then show "bit (ucast (ucast ?w :: u8) OR push_bit 8 (take_bit (n * 8) (drop_bit (Suc m * 8) v))) k = bit (take_bit (Suc n * 8) ?w) k"
      by (cases "k < 8") (auto simp: bit_or_iff bit_take_bit_iff bit_push_bit_iff bit_ucast_iff bit_drop_bit_eq ac_simps)
  qed
  have "[m..<m + Suc n] = m # [Suc m..<Suc m + n]" by (simp add: upt_conv_Cons)
  then show ?case using Suc [of "Suc m"] eq by simp
qed simp

lemma from_to_le_bytes [simp]: "from_le_bytes (to_le_bytes v) = v"
  using from_le_bytes_fold [of v 0 8] by (simp add: from_le_bytes_def to_le_bytes_def take_bit_word_eq_self del: upt_rec_numeral)

text \<open>Words as the bytes of all of them.\<close>

definition le_words :: "u64 list \<Rightarrow> u8 list" where
  "le_words vs = concat (map to_le_bytes vs)"

lemma le_words_simps [simp]:
  "le_words [] = []" "le_words (v # vs) = to_le_bytes v @ le_words vs" "le_words (vs @ us) = le_words vs @ le_words us"
  by (simp_all add: le_words_def)

lemma length_le_words [simp]: "length (le_words vs) = 8 * length vs"
  by (induction vs) simp_all

lemma le_words_split: "i < length vs \<Longrightarrow> le_words vs = le_words (take i vs) @ to_le_bytes (vs ! i) @ le_words (drop (Suc i) vs)"
  by (subst id_take_nth_drop [of i vs]) simp_all

lemma store_words_splice:
  assumes "n \<le> length vs" and "b + 8 * n \<le> length bs"
  shows "fold (\<lambda>i. store_le64 (b + i * 8) (vs ! i)) [0..<n] bs = take b bs @ le_words (take n vs) @ drop (b + 8 * n) bs"
  using assms
proof (induction n)
  case (Suc n)
  let ?x = "take b bs @ le_words (take n vs) @ drop (b + 8 * n) bs"
  have "b + n * 8 + 8 \<le> length ?x" using Suc.prems by simp
  note sp = store_le64_splice [OF this, of "vs ! n"]
  have t: "take (b + n * 8) ?x = take b bs @ le_words (take n vs)" using Suc.prems by simp
  have d: "drop (b + n * 8 + 8) ?x = drop (b + 8 * Suc n) bs" using Suc.prems by (simp add: ac_simps)
  have "le_words (take (Suc n) vs) = le_words (take n vs) @ to_le_bytes (vs ! n)" using Suc.prems by (simp add: take_Suc_conv_app_nth)
  then show ?case using Suc sp unfolding t d by simp
qed simp

lemma load_le64_words:
  assumes "length xs = b" and "i < length vs"
  shows "load_le64 (b + i * 8) (xs @ le_words vs @ ys) = vs ! i"
  using load_le64_bytes [of "xs @ le_words (take i vs)" "b + i * 8" "vs ! i" "le_words (drop (Suc i) vs) @ ys"] le_words_split [OF assms(2)] assms
  by simp

section \<open>Transfers\<close>

text \<open>A kernel that interrupts calls and moves fewer bytes than asked, but moves some and fails none.\<close>

fun patient :: "io_step list \<Rightarrow> bool" where
  "patient [] \<longleftrightarrow> True"
| "patient (Moves n # ks) \<longleftrightarrow> 0 < n \<and> patient ks"
| "patient (Interrupts # ks) \<longleftrightarrow> patient ks"
| "patient (Fails # ks) \<longleftrightarrow> False"

lemma next_io_patient:
  assumes "patient (kernel s)" and "0 < n"
  shows "(\<exists>m ks. next_io n s = (Moves m, s\<lparr>kernel := ks\<rparr>) \<and> 0 < m \<and> patient ks)
     \<or> (\<exists>ks. next_io n s = (Interrupts, s\<lparr>kernel := ks\<rparr>) \<and> patient ks)"
proof (cases "kernel s")
  case Nil
  then have "next_io n s = (Moves n, s\<lparr>kernel := []\<rparr>)" by (simp add: next_io_def)
  with assms(2) show ?thesis by auto
next
  case (Cons k ks)
  with assms(1) show ?thesis by (cases k) (auto simp: next_io_def)
qed

lemma send_all_patient:
  "patient (kernel s) \<Longrightarrow> \<exists>ks. send_all data s = (None, s\<lparr>outgoing := outgoing s @ data, kernel := ks\<rparr>) \<and> patient ks"
proof (induction data s rule: send_all.induct)
  case (1 data s)
  show ?case
  proof (cases "data = []")
    case True
    then have "send_all data s = (None, s\<lparr>outgoing := outgoing s @ data, kernel := kernel s\<rparr>)" by (simp add: send_all.simps)
    with 1(3) show ?thesis by blast
  next
    case False
    then have pos: "0 < length data" by simp
    from next_io_patient [OF 1(3) pos] show ?thesis
    proof (elim disjE exE conjE)
      fix m ks
      assume k: "next_io (length data) s = (Moves m, s\<lparr>kernel := ks\<rparr>)" "0 < m" "patient ks"
      then have e: "send_all data s = send_all (drop m data) (s\<lparr>kernel := ks, outgoing := outgoing s @ take m data\<rparr>)"
        using False by (subst send_all.simps) simp
      from 1(1) [OF False k(1) [symmetric] refl k(2)] k(3) obtain ks' where
        "send_all (drop m data) (s\<lparr>kernel := ks, outgoing := outgoing s @ take m data\<rparr>)
          = (None, s\<lparr>kernel := ks, outgoing := outgoing s @ take m data, outgoing := (outgoing s @ take m data) @ drop m data, kernel := ks'\<rparr>)"
        "patient ks'" by auto
      then show ?thesis unfolding e by (intro exI [of _ ks']) simp
    next
      fix ks
      assume k: "next_io (length data) s = (Interrupts, s\<lparr>kernel := ks\<rparr>)" "patient ks"
      then have e: "send_all data s = send_all data (s\<lparr>kernel := ks\<rparr>)" using False by (subst send_all.simps) simp
      from 1(2) [OF False k(1) [symmetric] refl] k(2) obtain ks' where
        "send_all data (s\<lparr>kernel := ks\<rparr>) = (None, s\<lparr>kernel := ks, outgoing := outgoing s @ data, kernel := ks'\<rparr>)" "patient ks'" by auto
      then show ?thesis unfolding e by (intro exI [of _ ks']) simp
    qed
  qed
qed

lemma receive_all_patient:
  "patient (kernel s) \<Longrightarrow> incoming s = bs @ rest \<Longrightarrow> length bs = n
    \<Longrightarrow> \<exists>ks. receive_all n s = (Inr bs, s\<lparr>incoming := rest, kernel := ks\<rparr>) \<and> patient ks"
proof (induction n s arbitrary: bs rule: receive_all.induct)
  case (1 n s)
  show ?case
  proof (cases "n = 0")
    case True
    then have "receive_all n s = (Inr bs, s\<lparr>incoming := rest, kernel := kernel s\<rparr>)" using 1(4,5) by (simp add: receive_all.simps)
    with 1(3) show ?thesis by blast
  next
    case False
    then have pos: "0 < n" by simp
    from next_io_patient [OF 1(3) pos] show ?thesis
    proof (elim disjE exE conjE)
      fix m ks
      assume k: "next_io n s = (Moves m, s\<lparr>kernel := ks\<rparr>)" "0 < m" "patient ks"
      let ?s = "s\<lparr>kernel := ks\<rparr>"
      define got where "got = take (min m n) (incoming ?s)"
      define later where "later = drop (min m n) bs"
      have got: "got = take (min m n) bs" "got @ later = bs" "length got = min m n" using 1(4,5) by (simp_all add: got_def later_def)
      then have ne: "got \<noteq> []" using k(2) pos by auto
      have inc: "incoming (?s\<lparr>incoming := drop (length got) (incoming ?s)\<rparr>) = later @ rest" using 1(4,5) got by (simp add: later_def)
      have len: "length later = n - length got" using 1(5) got by (simp add: later_def)
      have ks: "patient (kernel (?s\<lparr>incoming := drop (length got) (incoming ?s)\<rparr>))" using k(3) by simp
      from 1(1) [OF False k(1) [symmetric] refl got_def ne ks inc len] obtain ks' where
        r: "receive_all (n - length got) (?s\<lparr>incoming := drop (length got) (incoming ?s)\<rparr>) = (Inr later, s\<lparr>kernel := ks, incoming := rest, kernel := ks'\<rparr>)"
        "patient ks'" by auto
      have "receive_all n s = (Inr (got @ later), s\<lparr>kernel := ks, incoming := rest, kernel := ks'\<rparr>)"
        unfolding receive_all.simps [of n s] k(1) prod.case io_step.case Let_def got_def [symmetric] using False ne r(1) by simp
      then show ?thesis using r(2) got(2) by (intro exI [of _ ks']) simp
    next
      fix ks
      assume k: "next_io n s = (Interrupts, s\<lparr>kernel := ks\<rparr>)" "patient ks"
      then have e: "receive_all n s = receive_all n (s\<lparr>kernel := ks\<rparr>)" using False by (subst receive_all.simps) simp
      from 1(2) [OF False k(1) [symmetric] refl _ _ 1(5)] k(2) 1(4) obtain ks' where
        "receive_all n (s\<lparr>kernel := ks\<rparr>) = (Inr bs, s\<lparr>kernel := ks, incoming := rest, kernel := ks'\<rparr>)" "patient ks'" by auto
      then show ?thesis unfolding e by (intro exI [of _ ks']) simp
    qed
  qed
qed

text \<open>Words in chunks of the wire buffer.\<close>

lemma send_words_loop_patient:
  "patient (kernel s) \<Longrightarrow> length bytes = kWireChunkBytes \<Longrightarrow> offset \<le> length words
    \<Longrightarrow> \<exists>ks. send_words_loop words offset bytes s = (None, s\<lparr>outgoing := outgoing s @ le_words (drop offset words), kernel := ks\<rparr>) \<and> patient ks"
proof (induction words offset bytes s rule: send_words_loop.induct)
  case (1 words offset bytes s)
  show ?case
  proof (cases "offset < length words")
    case False
    then have "send_words_loop words offset bytes s = (None, s\<lparr>outgoing := outgoing s @ le_words (drop offset words), kernel := kernel s\<rparr>)"
      by (simp add: send_words_loop.simps)
    with 1(2) show ?thesis by blast
  next
    case True
    define n where "n = min words_per_chunk (length words - offset)"
    define ws where "ws = take n (drop offset words)"
    define bytes1 where "bytes1 = store_words ws bytes"
    have n: "n \<le> words_per_chunk" "offset + n \<le> length words" using True by (simp_all add: n_def)
    have len: "length ws = n" "8 * n \<le> length bytes" using n 1(3) by (simp_all add: ws_def words_per_chunk_def kWireChunkBytes_def)
    have b1: "bytes1 = le_words ws @ drop (8 * n) bytes"
      using store_words_splice [of n ws 0 bytes] len by (simp add: bytes1_def store_words_def)
    then have t: "take (n * 8) bytes1 = le_words ws" "length bytes1 = kWireChunkBytes" using len 1(3) by simp_all
    obtain ks where ks: "send_all (take (n * 8) bytes1) s = (None, s\<lparr>outgoing := outgoing s @ le_words ws, kernel := ks\<rparr>)" "patient ks"
      using send_all_patient [OF 1(2), of "le_words ws"] unfolding t by blast
    have p: "patient (kernel (s\<lparr>outgoing := outgoing s @ le_words ws, kernel := ks\<rparr>))" using ks(2) by simp
    from 1(1) [OF True n_def bytes1_def [unfolded ws_def] ks(1) [symmetric] refl p t(2) n(2)] obtain ks' where
      r: "send_words_loop words (offset + n) bytes1 (s\<lparr>outgoing := outgoing s @ le_words ws, kernel := ks\<rparr>)
        = (None, s\<lparr>outgoing := (outgoing s @ le_words ws) @ le_words (drop (offset + n) words), kernel := ks'\<rparr>)" "patient ks'" by auto
    have "drop offset words = ws @ drop (offset + n) words" by (simp add: ws_def add.commute flip: drop_drop)
    then show ?thesis
      unfolding send_words_loop.simps [of words offset bytes s] Let_def n_def [symmetric] ws_def [symmetric] bytes1_def [symmetric] ks(1)
      using True r by (intro exI [of _ ks']) simp
  qed
qed

lemma send_words_patient:
  "patient (kernel s) \<Longrightarrow> \<exists>ks. send_words words s = (None, s\<lparr>outgoing := outgoing s @ le_words words, kernel := ks\<rparr>) \<and> patient ks"
  using send_words_loop_patient [of s "replicate kWireChunkBytes 0" 0 words] by (simp add: send_words_def)

lemma load_words_splice:
  assumes "offset + n \<le> length ws" and "length vs = n" and "bs = le_words vs"
  shows "load_words offset n bs ws = take offset ws @ vs @ drop (offset + n) ws"
proof -
  have "map (\<lambda>i. load_le64 (i * 8) bs) [0..<n] = vs"
    using load_le64_words [of "[]" 0 _ vs "[]"] assms(2,3) by (intro nth_equalityI) simp_all
  then show ?thesis using fold_update_upt [OF assms(1), of "\<lambda>i. load_le64 (i * 8) bs"] by (simp add: load_words_def)
qed

lemma receive_words_loop_patient:
  "patient (kernel s) \<Longrightarrow> length ws = word_count \<Longrightarrow> offset \<le> word_count \<Longrightarrow> incoming s = le_words vs @ rest \<Longrightarrow> length vs = word_count - offset
    \<Longrightarrow> \<exists>ks. receive_words_loop word_count offset ws s = (None, take offset ws @ vs, s\<lparr>incoming := rest, kernel := ks\<rparr>) \<and> patient ks"
proof (induction word_count offset ws s arbitrary: vs rule: receive_words_loop.induct)
  case (1 word_count offset ws s)
  show ?case
  proof (cases "offset < word_count")
    case False
    then have "receive_words_loop word_count offset ws s = (None, take offset ws @ vs, s\<lparr>incoming := rest, kernel := kernel s\<rparr>)"
      using 1(3,5,6) by (simp add: receive_words_loop.simps)
    with 1(2) show ?thesis by blast
  next
    case True
    define n where "n = min words_per_chunk (word_count - offset)"
    define as bs where "as = take n vs" and "bs = drop n vs"
    have n: "offset + n \<le> word_count" using True by (simp add: n_def)
    have vs: "vs = as @ bs" "length as = n" "length bs = word_count - (offset + n)" using n 1(6) by (simp_all add: as_def bs_def)
    obtain ks where ks: "receive_all (n * 8) s = (Inr (le_words as), s\<lparr>incoming := le_words bs @ rest, kernel := ks\<rparr>)" "patient ks"
      using receive_all_patient [OF 1(2), of "le_words as" "le_words bs @ rest" "n * 8"] 1(5) vs by auto
    define ws1 where "ws1 = load_words offset n (le_words as) ws"
    have ws1: "ws1 = take offset ws @ as @ drop (offset + n) ws"
      unfolding ws1_def using n 1(3) vs(2) by (intro load_words_splice) simp_all
    then have len: "length ws1 = word_count" and tk: "take (offset + n) ws1 = take offset ws @ as" using n 1(3) vs(2) by simp_all
    have p: "patient (kernel (s\<lparr>incoming := le_words bs @ rest, kernel := ks\<rparr>))" using ks(2) by simp
    have i: "incoming (s\<lparr>incoming := le_words bs @ rest, kernel := ks\<rparr>) = le_words bs @ rest" by simp
    from 1(1) [OF True n_def ks(1) [symmetric] refl p len [unfolded ws1_def] n i vs(3)] obtain ks' where
      "receive_words_loop word_count (offset + n) ws1 (s\<lparr>incoming := le_words bs @ rest, kernel := ks\<rparr>)
        = (None, take (offset + n) ws1 @ bs, s\<lparr>incoming := rest, kernel := ks'\<rparr>)" "patient ks'" by (auto simp: ws1_def)
    then show ?thesis
      unfolding receive_words_loop.simps [of word_count offset ws s] Let_def n_def [symmetric] ks(1)
      using True vs(1) tk by (intro exI [of _ ks']) (simp flip: ws1_def)
  qed
qed

lemma receive_words_patient:
  assumes "patient (kernel s)" and "incoming s = le_words vs @ rest" and "alloc (length vs * 8)"
  shows "\<exists>ks. receive_words alloc (length vs) s = Some (None, vs, s\<lparr>incoming := rest, kernel := ks\<rparr>) \<and> patient ks"
  using receive_words_loop_patient [OF assms(1) _ _ assms(2), of "replicate (length vs) 0" "length vs" 0] assms(3) by (simp add: receive_words_def)

end
