(* ===== verification/Remote_Call.thy ===== *)
theory Remote_Call
  imports Remote_Laws
begin

unbundle bit_operations_syntax

text \<open>
  A remote call from end to end: the C++ client and the Rust server over one connection.
\<close>

section \<open>Metadata the client accepts\<close>

lemma mult_le_max:
  fixes a b :: u64
  assumes "b \<noteq> 0" and "a \<le> (- 1) div b"
  shows "unat a * unat b < 2 ^ 64"
proof -
  have "unat ((- 1) div b) = (2 ^ 64 - 1) div unat b" by (simp add: unat_div unsigned_minus_1_eq_mask mask_eq_exp_minus_1)
  then have "unat a \<le> (2 ^ 64 - 1) div unat b" using assms(2) by (simp add: word_le_nat_alt)
  then have "unat a * unat b \<le> (2 ^ 64 - 1) div unat b * unat b" by (rule mult_le_mono1)
  also have "\<dots> \<le> 2 ^ 64 - 1" by (rule div_times_less_eq_dividend)
  finally show ?thesis by simp
qed

lemma checked_mul_ok: "b \<noteq> 0 \<Longrightarrow> a \<le> (- 1) div b \<Longrightarrow> checked_mul a b = Some (a * b)"
  using mult_le_max [of b a] by (simp add: checked_mul_def)

lemma checked_add_one:
  assumes "d \<noteq> - 1"
  shows "checked_add d 1 = Some (d + 1)" and "d + 1 \<noteq> 0"
proof -
  have "unat d \<noteq> unat (- 1 :: u64)" using assms by (simp add: word_unat_eq_iff)
  then have "unat d \<noteq> 2 ^ 64 - 1" by (simp add: unsigned_minus_1_eq_mask mask_eq_exp_minus_1)
  moreover have "unat d < 2 ^ 64" using unsigned_less [of d, where ?'a = nat] by simp
  ultimately show "checked_add d 1 = Some (d + 1)" by (simp add: checked_add_def)
  show "d + 1 \<noteq> 0" using assms by (simp add: add_eq_0_iff2)
qed

definition blocks_of :: "batch_metadata \<Rightarrow> u64" where
  "blocks_of md = bm_item_count md * bm_radix_blocks md"

lemma validate_metadata_None:
  assumes "validate_metadata md n operation = None"
  shows "bm_mask_dimension md \<noteq> 0" and "bm_item_count md \<noteq> 0" and "bm_radix_blocks md \<noteq> 0"
    and "expected_cpu_word_count md = Inr (blocks_of md * (bm_mask_dimension md + 1))"
    and "expected_hpu_native_word_count md = Inr (blocks_of md * 3072)"
    and "unat (bm_word_count md) = n"
    and "bm_word_count md = blocks_of md * 3072 \<or> bm_word_count md = blocks_of md * (bm_mask_dimension md + 1)"
    and "operation = 2 \<or> operation = 3 \<Longrightarrow> bm_word_count md = blocks_of md * 3072"
    and "operation = 1 \<Longrightarrow> bm_word_count md = blocks_of md * (bm_mask_dimension md + 1)"
proof -
  note a = assms [unfolded validate_metadata_def Let_def, folded blocks_of_def]
  note defs = kHpuNativeWordsPerLwe_def kOperationAddScalarU8HpuNative_def kOperationAddScalarU8HpuNativeRoundTrip_def kOperationEchoU8_def
  show nz: "bm_mask_dimension md \<noteq> 0" "bm_item_count md \<noteq> 0" "bm_radix_blocks md \<noteq> 0" using a by (auto split: if_splits)
  have s: "bm_item_count md \<le> (- 1) div bm_radix_blocks md" using a by (auto split: if_splits)
  have c: "bm_mask_dimension md \<noteq> - 1" "blocks_of md \<le> (- 1) div (bm_mask_dimension md + 1)" using a by (auto split: if_splits)
  have v: "blocks_of md \<le> (- 1) div 3072" using a by (auto simp: defs split: if_splits)
  note add = checked_add_one [OF c(1)]
  have m: "checked_mul (bm_item_count md) (bm_radix_blocks md) = Some (blocks_of md)"
    unfolding blocks_of_def by (rule checked_mul_ok [OF nz(3) s])
  show "expected_cpu_word_count md = Inr (blocks_of md * (bm_mask_dimension md + 1))"
    using m add checked_mul_ok [OF add(2) c(2)] by (simp add: expected_cpu_word_count_def)
  show "expected_hpu_native_word_count md = Inr (blocks_of md * 3072)"
    using m checked_mul_ok [OF _ v] by (simp add: expected_hpu_native_word_count_def)
  show "unat (bm_word_count md) = n" using a by (auto split: if_splits)
  show "bm_word_count md = blocks_of md * 3072 \<or> bm_word_count md = blocks_of md * (bm_mask_dimension md + 1)"
    using a by (auto simp: defs split: if_splits)
  show "operation = 2 \<or> operation = 3 \<Longrightarrow> bm_word_count md = blocks_of md * 3072" using a by (auto simp: defs split: if_splits)
  show "operation = 1 \<Longrightarrow> bm_word_count md = blocks_of md * (bm_mask_dimension md + 1)" using a by (auto simp: defs split: if_splits)
qed

lemma ebind_simps [simp]: "ebind (Inl e) f = Inl e" "ebind (Inr x) f = f x"
  by (simp_all add: ebind_def)

text \<open>What the client accepts, with either word count, passes the validation of the server.\<close>

lemma validate_accepts:
  assumes "validate_metadata md n operation = None"
    and "c = blocks_of md * 3072 \<or> c = blocks_of md * (bm_mask_dimension md + 1)"
  shows "validate (md\<lparr>bm_word_count := c\<rparr>) = Inr ()"
proof -
  note f = validate_metadata_None [OF assms(1)]
  have e: "expected_cpu_word_count (md\<lparr>bm_word_count := c\<rparr>) = expected_cpu_word_count md"
    "expected_hpu_native_word_count (md\<lparr>bm_word_count := c\<rparr>) = expected_hpu_native_word_count md"
    by (simp_all add: expected_cpu_word_count_def expected_hpu_native_word_count_def)
  show ?thesis using f(1-5) assms(2) by (auto simp: validate_def validate_cpu_payload_def validate_hpu_native_payload_def e)
qed

section \<open>The bytes of the client\<close>

definition request_fields :: "u64 \<Rightarrow> u64 \<Rightarrow> u8 \<Rightarrow> batch_metadata \<Rightarrow> u64 list" where
  "request_fields request_id operation scalar md = [kVersion, kFrameRequest, request_id, operation, 0, ucast scalar] @ metadata_fields md"

lemma length_request_fields [simp]: "length (request_fields i p sc md) = 14"
  by (simp add: request_fields_def metadata_fields_def)

lemma request_header_bytes:
  "request_header request_id operation scalar md n = kMagic @ le_words (request_fields request_id operation scalar md @ [of_nat (n * 8)])"
proof -
  let ?h = "kMagic @ replicate (kHeaderBytes - 8) 0" and ?f = "request_fields request_id operation scalar md"
  have k: "length kMagic = 8" "kHeaderBytes = 128" by (simp_all add: kMagic_def kHeaderBytes_def kHeaderFields_def)
  have "store_fields ?f ?h = kMagic @ le_words ?f @ replicate 8 0"
    using store_words_splice [of 14 ?f 8 ?h] k by (simp add: store_fields_def)
  then have "store_le64 120 (of_nat (n * 8)) (store_fields ?f ?h) = kMagic @ le_words ?f @ to_le_bytes (of_nat (n * 8))"
    using store_le64_splice [of 120 "kMagic @ le_words ?f @ replicate 8 0" "of_nat (n * 8)"] k by simp
  then show ?thesis by (simp add: request_header_def Let_def request_fields_def metadata_fields_def kHeaderFields_def)
qed

definition request_bytes :: "u64 \<Rightarrow> u64 \<Rightarrow> u8 \<Rightarrow> batch_metadata \<Rightarrow> u64 list \<Rightarrow> u8 list" where
  "request_bytes request_id operation scalar md words = request_header request_id operation scalar md (length words) @ le_words words"

section \<open>The server reads and writes\<close>

lemma cbind_simps:
  "cbind (lift_result (Inr x)) f s = f x s" "cbind (lift_result (Inl e)) f s = (Inl e, s)" "cbind (sok x) f s = f x s"
  by (simp_all add: cbind_def lift_result_def sok_def)

lemma cbind_read_exact:
  "c_in s = bs @ rest \<Longrightarrow> length bs = n \<Longrightarrow> cbind (read_exact n) f s = f bs (s\<lparr>c_in := rest\<rparr>)"
  by (simp add: cbind_def read_exact_def)

lemma cbind_read_u64:
  "c_in s = to_le_bytes v @ rest \<Longrightarrow> cbind read_u64 f s = f v (s\<lparr>c_in := rest\<rparr>)"
  by (simp add: read_u64_def cbind_def read_exact_def sok_def)

lemma cbind_read_u64s:
  "c_in s = le_words vs @ rest \<Longrightarrow> length vs = n \<Longrightarrow> cbind (read_u64s n) f s = f vs (s\<lparr>c_in := rest\<rparr>)"
proof (induction n arbitrary: vs s f)
  case 0
  then show ?case by (cases s) (simp add: cbind_def sok_def)
next
  case (Suc n)
  then obtain v us where vs: "vs = v # us" "length us = n" by (auto simp: length_Suc_conv)
  have "cbind (read_u64s (Suc n)) f s = cbind read_u64 (\<lambda>v. cbind (read_u64s n) (\<lambda>us. f (v # us))) s"
    by (auto simp: cbind_def sok_def split: prod.splits sum.splits)
  also have "\<dots> = cbind (read_u64s n) (\<lambda>us. f (v # us)) (s\<lparr>c_in := le_words us @ rest\<rparr>)"
    using Suc.prems(1) vs by (intro cbind_read_u64) simp
  also have "\<dots> = f (v # us) (s\<lparr>c_in := rest\<rparr>)" using Suc.IH [OF _ vs(2), of "s\<lparr>c_in := le_words us @ rest\<rparr>"] by simp
  finally show ?case by (simp add: vs)
qed

lemma write_all_room: "c_room s = None \<Longrightarrow> write_all bs s = (Inr (), s\<lparr>c_out := c_out s @ bs\<rparr>)"
  by (simp add: write_all_def)

lemma write_u64s_room: "c_room s = None \<Longrightarrow> write_u64s vs s = (Inr (), s\<lparr>c_out := c_out s @ le_words vs\<rparr>)"
  by (induction vs arbitrary: s) (simp_all add: sok_def cbind_def write_u64_def write_all_room)

lemma cbind_write:
  assumes "c_room s = None"
  shows "cbind (write_all bs) f s = f () (s\<lparr>c_out := c_out s @ bs\<rparr>)"
    and "cbind (write_u64s vs) f s = f () (s\<lparr>c_out := c_out s @ le_words vs\<rparr>)"
    and "cbind (write_u64 v) f s = f () (s\<lparr>c_out := c_out s @ to_le_bytes v\<rparr>)"
  using assms by (simp_all add: cbind_def write_all_room write_u64s_room write_u64_def)

section \<open>The server reads the request\<close>

definition request_frame :: "u64 \<Rightarrow> u64 \<Rightarrow> u8 \<Rightarrow> batch_metadata \<Rightarrow> u64 list \<Rightarrow> ct_frame" where
  "request_frame request_id operation scalar md words = \<lparr>f_version = kVersion, f_kind = kFrameRequest, f_request_id = request_id,
     f_operation = operation, f_status = 0, f_scalar = ucast scalar, f_metadata = md, f_words = words, f_error = None\<rparr>"

lemma payload_words: "map (\<lambda>i. from_le_bytes (take 8 (drop (i * 8) (le_words vs)))) [0..<length (le_words vs) div 8] = vs"
proof (rule nth_equalityI)
  fix i
  assume "i < length (map (\<lambda>i. from_le_bytes (take 8 (drop (i * 8) (le_words vs)))) [0..<length (le_words vs) div 8])"
  then have i: "i < length vs" by simp
  then have "take 8 (drop (i * 8) (le_words vs)) = to_le_bytes (vs ! i)" by (subst le_words_split [OF i]) simp
  then show "map (\<lambda>i. from_le_bytes (take 8 (drop (i * 8) (le_words vs)))) [0..<length (le_words vs) div 8] ! i = vs ! i" using i by simp
qed simp

lemma metadata_fields_read:
  "length as = 6 \<Longrightarrow> response_metadata (as @ metadata_fields md) = md"
  by (cases md) (simp add: response_metadata_def metadata_fields_def nth_append)

lemma frame_fields_nth:
  assumes "hf = [a, b, c, d, e, g] @ metadata_fields md"
  shows "hf ! 0 = a" "hf ! 1 = b" "hf ! 2 = c" "hf ! 3 = d" "hf ! 4 = e" "hf ! 5 = g" "length hf = 14" "response_metadata hf = md"
  using metadata_fields_read [of "[a, b, c, d, e, g]" md] by (simp_all add: assms metadata_fields_def)

lemma unat_bytes: "n * 8 < 2 ^ 64 \<Longrightarrow> unat (of_nat (n * 8) :: u64) = n * 8"
  by (simp only: unsigned_of_nat take_bit_nat_eq_self) (simp add: take_bit_nat_eq_self)

lemma read_frame_request:
  assumes "validate_metadata md (length words) operation = None" and "length words * 8 < 2 ^ 64" and "length words * 8 \<le> limit"
    and "c_in s = request_bytes request_id operation scalar md words @ rest"
  shows "read_frame limit s = (Inr (request_frame request_id operation scalar md words), s\<lparr>c_in := rest\<rparr>)"
proof -
  let ?f = "request_fields request_id operation scalar md"
  define P :: u64 where "P = of_nat (length words * 8)"
  note valid = validate_metadata_None [OF assms(1)]
  note f = frame_fields_nth [OF request_fields_def [of request_id operation scalar md]]
  have inp: "c_in s = kMagic @ le_words ?f @ to_le_bytes P @ le_words words @ rest"
    by (simp only: assms(4) request_bytes_def request_header_bytes P_def) simp
  have p: "unat P = length words * 8" unfolding P_def by (rule unat_bytes [OF assms(2)])
  have v: "validate md = Inr ()" using validate_accepts [OF assms(1) valid(7)] by simp
  have m: "checked_mul (bm_word_count md) 8 = Some P"
  proof -
    have "bm_word_count md = of_nat (length words)" by (simp flip: valid(6))
    then show ?thesis using valid(6) assms(2) by (simp add: checked_mul_def P_def)
  qed
  have mag: "length kMagic = 8" by (simp add: kMagic_def)
  have ver: "validate_version kVersion = Inr ()" by (simp add: validate_version_def VERSION_TIMING_def kVersion_def)
  have kinds: "kFrameRequest \<noteq> kFrameError" by (simp add: kFrameRequest_def kFrameError_def)
  have "read_frame limit s = cbind (read_exact (unat P)) (\<lambda>payload.
             sok ((request_frame request_id operation scalar md [])\<lparr>f_words := map (\<lambda>i. from_le_bytes (take 8 (drop (i * 8) payload))) [0..<length payload div 8]\<rparr>))
       (s\<lparr>c_in := le_words words @ rest\<rparr>)"
    unfolding read_frame_def
    apply (subst cbind_read_exact [OF inp mag])
    apply (simp only: if_False simp_thms)
    apply (subst cbind_read_u64s [of _ ?f "to_le_bytes P @ le_words words @ rest"], simp, simp)
    apply (subst cbind_read_u64 [of _ P "le_words words @ rest"], simp)
    using kinds assms(3) by (simp add: f ver v m p cbind_simps Let_def request_frame_def del: One_nat_def)
  also have "\<dots> = (Inr (request_frame request_id operation scalar md words), s\<lparr>c_in := rest\<rparr>)"
    by (subst cbind_read_exact [of _ "le_words words" rest]) (simp_all only: payload_words p, simp_all add: sok_def request_frame_def)
  finally show ?thesis .
qed

section \<open>The server answers\<close>

lemma ebind_Inr: "ebind m f = Inr y \<longleftrightarrow> (\<exists>x. m = Inr x \<and> f x = Inr y)"
  by (cases m) simp_all

lemma supported_cases:
  "supported p \<Longrightarrow> p = kOperationEchoU8 \<or> p = kOperationAddScalarU8 \<or> p = kOperationAddScalarU8HpuNative \<or> p = kOperationAddScalarU8HpuNativeRoundTrip"
  by (simp add: supported_def)

lemmas operations = kOperationEchoU8_def kOperationAddScalarU8_def kOperationAddScalarU8HpuNative_def kOperationAddScalarU8HpuNativeRoundTrip_def

lemma process_request_result:
  assumes "process_request h fr = Inr (md', ws)" and "md = f_metadata fr" and "expected_cpu_word_count md = Inr n" and "expected_hpu_native_word_count md = Inr m"
  shows "supported (f_operation fr)"
    and "f_operation fr = 0 \<Longrightarrow> md' = md \<and> ws = f_words fr"
    and "f_operation fr = 1 \<Longrightarrow> md' = md\<lparr>bm_word_count := n\<rparr> \<and> length ws = unat n"
    and "f_operation fr = 2 \<Longrightarrow> md' = md\<lparr>bm_word_count := n\<rparr> \<and> length ws = unat n"
    and "f_operation fr = 3 \<Longrightarrow> md' = md\<lparr>bm_word_count := m\<rparr> \<and> length ws = unat m"
proof -
  obtain sc where sc: "check_request h fr = Inr sc" using assms(1) by (auto simp: process_request_def ebind_Inr)
  then show "supported (f_operation fr)" by (auto simp: check_request_def split: if_splits)
  note u = assms(1) [unfolded process_request_def sc ebind_simps Let_def, folded assms(2)]
  show "f_operation fr = 0 \<Longrightarrow> md' = md \<and> ws = f_words fr" using u by (simp add: operations)
  show "f_operation fr = 1 \<Longrightarrow> md' = md\<lparr>bm_word_count := n\<rparr> \<and> length ws = unat n"
    using u assms(3) by (auto simp: operations ebind_Inr split: if_splits)
  show "f_operation fr = 2 \<Longrightarrow> md' = md\<lparr>bm_word_count := n\<rparr> \<and> length ws = unat n"
    using u assms(3) by (auto simp: operations ebind_Inr split: if_splits)
  show "f_operation fr = 3 \<Longrightarrow> md' = md\<lparr>bm_word_count := m\<rparr> \<and> length ws = unat m"
    using u assms(4) by (auto simp: operations ebind_Inr split: if_splits)
qed

lemma process_request_shape:
  assumes "validate_metadata md (length words) operation = None"
    and "process_request h (request_frame request_id operation scalar md words) = Inr (md', ws)"
  shows "md' = expected_response_metadata operation md" and "length ws = unat (bm_word_count md')"
proof -
  note f = validate_metadata_None [OF assms(1)]
  have fr: "md = f_metadata (request_frame request_id operation scalar md words)" "f_operation (request_frame request_id operation scalar md words) = operation"
    "f_words (request_frame request_id operation scalar md words) = words"
    by (simp_all add: request_frame_def)
  note r = process_request_result [OF assms(2) fr(1) f(4,5), unfolded fr(2,3)]
  have "operation = 0 \<or> operation = 1 \<or> operation = 2 \<or> operation = 3" using supported_cases [OF r(1)] by (simp add: operations)
  moreover have self: "md\<lparr>bm_word_count := bm_word_count md\<rparr> = md" by simp
  moreover have "md' = md \<and> length ws = unat (bm_word_count md)" if "operation = 3" using r(5) [OF that] f(8) that self by metis
  moreover have "md' = md \<and> length ws = unat (bm_word_count md)" if "operation = 1" using r(3) [OF that] f(9) that self by metis
  ultimately have "md' = expected_response_metadata operation md \<and> length ws = unat (bm_word_count md')"
    using r(2,4) f(6) by (auto simp: expected_response_metadata_def operations blocks_of_def)
  then show "md' = expected_response_metadata operation md" "length ws = unat (bm_word_count md')" by simp_all
qed

definition response_fields :: "u64 \<Rightarrow> u64 \<Rightarrow> u8 \<Rightarrow> batch_metadata \<Rightarrow> u64 list" where
  "response_fields request_id operation scalar md = [kVersion, kFrameResponse, request_id, operation, 0, ucast scalar] @ metadata_fields md"

definition timing_fields :: "u64 \<Rightarrow> u64 list \<Rightarrow> nat \<Rightarrow> u64 list" where
  "timing_fields request_id durations n = [kTimingVersion, request_id] @ durations @ [of_nat (n * 8)]"

definition response_bytes :: "u64 \<Rightarrow> u64 \<Rightarrow> u8 \<Rightarrow> batch_metadata \<Rightarrow> u64 list \<Rightarrow> u64 list \<Rightarrow> u8 list" where
  "response_bytes request_id operation scalar md ws durations =
     kMagic @ le_words (response_fields request_id operation scalar md) @ to_le_bytes (of_nat (length ws * 8)) @ le_words ws
     @ kTimingMagic @ le_words (timing_fields request_id durations (length ws))"

definition error_bytes :: "u64 \<Rightarrow> u64 \<Rightarrow> u8 list \<Rightarrow> u8 list" where
  "error_bytes request_id operation message = kMagic @ le_words [kVersion, kFrameError, request_id, operation, 1, 0, 0, 0, 0, 0, 0, 0, 0, 0]
     @ to_le_bytes (of_nat (length message)) @ message"

lemma version_ok: "validate_version kVersion = Inr ()"
  by (simp add: validate_version_def VERSION_TIMING_def kVersion_def)

lemma write_frame_bytes:
  assumes "validate_version version = Inr ()" and "validate md = Inr ()" and "length ws = unat (bm_word_count md)" and "length ws * 8 < 2 ^ 64"
    and "c_room s = None"
  shows "write_ciphertext_frame_version version kind request_id operation scalar md ws s = (Inr (), s\<lparr>c_out := c_out s @ kMagic
     @ le_words ([version, kind, request_id, operation, 0, scalar] @ metadata_fields md) @ to_le_bytes (of_nat (length ws * 8)) @ le_words ws\<rparr>)"
proof -
  have b: "\<not> length ws \<noteq> unat (bm_word_count md)" "\<not> 2 ^ 64 \<le> length ws * 8" using assms(3,4) by simp_all
  show ?thesis unfolding write_ciphertext_frame_version_def assms(1,2) cbind_simps if_not_P [OF b(1)] if_not_P [OF b(2)]
    using assms(5) by (simp add: cbind_write write_u64s_room del: write_u64s.simps append.simps of_nat_mult)
qed

lemma write_error_bytes:
  assumes "c_room s = None"
  shows "write_error_frame_version kVersion request_id operation message s = (Inr (), s\<lparr>c_out := c_out s @ error_bytes request_id operation message\<rparr>)"
  unfolding write_error_frame_version_def version_ok cbind_simps error_bytes_def
  using assms by (simp add: cbind_write write_all_room del: write_u64s.simps le_words_simps)

lemma write_timing_bytes:
  assumes "c_room s = None"
  shows "write_server_timing request_id durations (of_nat (n * 8)) s = (Inr (), s\<lparr>c_out := c_out s @ kTimingMagic @ le_words (timing_fields request_id durations n)\<rparr>)"
  unfolding write_server_timing_def timing_fields_def TIMING_VERSION_def kTimingVersion_def
  using assms by (simp add: cbind_write write_u64s_room del: write_u64s.simps append.simps le_words_simps of_nat_mult)

lemma handle_connection_bytes:
  assumes "validate_metadata md (length words) operation = None" and "length words * 8 < 2 ^ 64" and "length words * 8 \<le> limit"
    and "s = \<lparr>c_in = request_bytes request_id operation scalar md words, c_out = [], c_room = None\<rparr>"
    and "process_request h (request_frame request_id operation scalar md words) = Inr (md', ws)" and "length ws * 8 < 2 ^ 64"
  shows "handle_connection h limit durations message s
     = (Inr (), \<lparr>c_in = [], c_out = response_bytes request_id operation scalar md' ws durations, c_room = None\<rparr>)"
proof -
  let ?fr = "request_frame request_id operation scalar md words"
  have c: "c_in s = request_bytes request_id operation scalar md words @ []" by (simp add: assms(4))
  note sh = process_request_shape [OF assms(1,5)] and f = validate_metadata_None [OF assms(1)]
  have v: "validate md' = Inr ()"
  proof (cases "operation = kOperationAddScalarU8HpuNative")
    case True
    then show ?thesis unfolding sh(1) using validate_accepts [OF assms(1), of "blocks_of md * (bm_mask_dimension md + 1)"]
      by (simp add: expected_response_metadata_def blocks_of_def)
  next
    case False
    then show ?thesis unfolding sh(1) using validate_accepts [OF assms(1) f(7)] by (simp add: expected_response_metadata_def)
  qed
  have r: "cbind (read_frame limit) g s = g ?fr (s\<lparr>c_in := []\<rparr>)" for g
    using read_frame_request [OF assms(1-3) c] by (simp add: cbind_def)
  have fr: "f_version ?fr = kVersion" "f_request_id ?fr = request_id" "f_operation ?fr = operation" "f_scalar ?fr = ucast scalar"
    "VERSION_TIMING = kVersion"
    by (simp_all add: request_frame_def VERSION_TIMING_def kVersion_def)
  show ?thesis unfolding handle_connection_def r assms(5) sum.case prod.case fr(1-4)
    using fr(5) by (simp add: cbind_def write_frame_bytes [OF version_ok v sh(2) assms(6)] write_timing_bytes assms(4) response_bytes_def response_fields_def
        del: write_u64s.simps append_Cons le_words_simps of_nat_mult)
qed

lemma handle_connection_error:
  assumes "validate_metadata md (length words) operation = None" and "length words * 8 < 2 ^ 64" and "length words * 8 \<le> limit"
    and "s = \<lparr>c_in = request_bytes request_id operation scalar md words, c_out = [], c_room = None\<rparr>"
    and "process_request h (request_frame request_id operation scalar md words) = Inl e"
  shows "handle_connection h limit durations message s
     = (Inl e, \<lparr>c_in = [], c_out = error_bytes request_id operation (message e), c_room = None\<rparr>)"
proof -
  let ?fr = "request_frame request_id operation scalar md words"
  have c: "c_in s = request_bytes request_id operation scalar md words @ []" by (simp add: assms(4))
  have r: "cbind (read_frame limit) g s = g ?fr (s\<lparr>c_in := []\<rparr>)" for g
    using read_frame_request [OF assms(1-3) c] by (simp add: cbind_def)
  have fr: "f_version ?fr = kVersion" "f_request_id ?fr = request_id" "f_operation ?fr = operation" by (simp_all add: request_frame_def)
  show ?thesis unfolding handle_connection_def r assms(5) sum.case fr
    by (simp add: cbind_def write_error_bytes assms(4) serr_def)
qed

section \<open>The client reads the answer\<close>

lemma load_fields_words:
  assumes "length xs = 8" and "n = length vs"
  shows "load_fields n (xs @ le_words vs @ ys) = vs"
  using load_le64_words [OF assms(1), of _ vs ys] assms(2) by (intro nth_equalityI) (simp_all add: load_fields_def)

definition server_times :: "'d rpc_result \<Rightarrow> 'd list" where
  "server_times r = [rr_request_receive r, rr_request_validate r, rr_request_decode r, rr_hpu_prepare r, rr_hpu_enqueue r, rr_hpu_wait_sync r,
     rr_hpu_output_convert r, rr_result_encode r, rr_mem_sanitizer r, rr_process r, rr_response_send r, rr_total r]"

lemma length_12: "length xs = 12 \<Longrightarrow> \<exists>a b c d e f g h i j k l. xs = [a, b, c, d, e, f, g, h, i, j, k, l]"
  by (auto simp: numeral_eq_Suc length_Suc_conv)

lemma set_timing_times:
  assumes "length durations = 12"
  shows "server_times (set_timing ms (timing_fields request_id durations n) r) = map ms durations"
    and "rr_payload_bytes (set_timing ms (timing_fields request_id durations n) r) = of_nat (n * 8)"
    and "rr_words (set_timing ms (timing_fields request_id durations n) r) = rr_words r"
  using length_12 [OF assms] by (auto simp: server_times_def set_timing_def timing_fields_def)

lemma receive_trailer_ok:
  assumes "patient (kernel s)" and "incoming s = kTimingMagic @ le_words (timing_fields request_id durations (length ws)) @ rest"
    and "length durations = 12" and "r = r0\<lparr>rr_words := ws\<rparr>" and "hf = response_fields request_id operation scalar md"
  shows "\<exists>r' ks. receive_trailer ms fd request_id hf (of_nat (length ws * 8)) r s = (Success, r', close_fd fd (s\<lparr>incoming := rest, kernel := ks\<rparr>)) \<and> patient ks
     \<and> rr_words r' = ws \<and> rr_metadata r' = md \<and> rr_request_id r' = request_id \<and> rr_operation r' = operation \<and> rr_scalar r' = ucast scalar
     \<and> server_times r' = map ms durations"
proof -
  let ?t = "timing_fields request_id durations (length ws)" and ?m = "kTimingMagic @ le_words (timing_fields request_id durations (length ws))"
  have mag: "length kTimingMagic = 8" by (simp add: kTimingMagic_def)
  have lt: "length ?t = 15" using assms(3) by (simp add: timing_fields_def)
  obtain ks where ks: "receive_all kTimingBytes s = (Inr ?m, s\<lparr>incoming := rest, kernel := ks\<rparr>)" "patient ks"
    using receive_all_patient [OF assms(1), of ?m rest kTimingBytes] assms(2) mag lt by (auto simp: kTimingBytes_def kTimingFields_def)
  have t: "load_fields kTimingFields ?m = ?t" using load_fields_words [OF mag, of 15 ?t "[]"] lt by (simp add: kTimingFields_def)
  have tn: "?t ! 0 = kTimingVersion" "?t ! 1 = request_id" by (simp_all add: timing_fields_def)
  have mm: "take 8 ?m = kTimingMagic" using mag by simp
  note h = frame_fields_nth [OF assms(5) [unfolded response_fields_def]]
  define r1 where "r1 = set_timing ms ?t r"
  have r1: "server_times r1 = map ms durations" "rr_payload_bytes r1 = of_nat (length ws * 8)" "rr_words r1 = ws"
    using set_timing_times [OF assms(3), of ms request_id "length ws" r] by (simp_all add: r1_def assms(4))
  have "receive_trailer ms fd request_id hf (of_nat (length ws * 8)) r s
      = (Success, r1\<lparr>rr_metadata := md, rr_request_id := request_id, rr_operation := operation, rr_scalar := ucast scalar\<rparr>,
           close_fd fd (s\<lparr>incoming := rest, kernel := ks\<rparr>))"
    unfolding receive_trailer_def ks(1) prod.case sum.case t Let_def mm tn r1_def [symmetric] h r1(2) by simp
  then show ?thesis using ks(2) r1 by (intro exI conjI) (assumption | simp add: server_times_def)+
qed

lemma receive_header:
  assumes "patient (kernel s)" and "incoming s = kMagic @ le_words hf @ to_le_bytes P @ rest" and "length hf = 14"
  shows "\<exists>ks. receive_all kHeaderBytes s = (Inr (kMagic @ le_words hf @ to_le_bytes P), s\<lparr>incoming := rest, kernel := ks\<rparr>) \<and> patient ks
     \<and> take 8 (kMagic @ le_words hf @ to_le_bytes P) = kMagic \<and> load_fields kHeaderFields (kMagic @ le_words hf @ to_le_bytes P) = hf
     \<and> load_le64 (8 + kHeaderFields * 8) (kMagic @ le_words hf @ to_le_bytes P) = P"
proof -
  have mag: "length kMagic = 8" by (simp add: kMagic_def)
  have "load_fields kHeaderFields (kMagic @ le_words hf @ to_le_bytes P) = hf"
    using load_fields_words [OF mag, of 14 hf] assms(3) by (simp add: kHeaderFields_def)
  moreover have "load_le64 (8 + kHeaderFields * 8) (kMagic @ le_words hf @ to_le_bytes P) = P"
    using load_le64_bytes [of "kMagic @ le_words hf" 120 P "[]"] assms(3) mag by (simp add: kHeaderFields_def)
  ultimately show ?thesis
    using receive_all_patient [OF assms(1), of "kMagic @ le_words hf @ to_le_bytes P" rest kHeaderBytes] assms(2,3) mag
    by (simp add: kHeaderBytes_def kHeaderFields_def)
qed

lemma frame_kinds: "kFrameResponse \<noteq> kFrameError" "kFrameError \<noteq> kFrameResponse"
  by (simp_all add: kFrameResponse_def kFrameError_def)

lemma receive_response_ok:
  assumes "patient (kernel s)" and "incoming s = response_bytes request_id operation scalar md' ws durations @ rest"
    and "md' = expected_response_metadata operation md" and "length ws = unat (bm_word_count md')" and "length ws * 8 \<le> unat limit"
    and "length durations = 12" and "alloc (length ws * 8)"
  shows "\<exists>r' ks. receive_response alloc ms fd request_id operation scalar md limit r s = (Success, r', close_fd fd (s\<lparr>incoming := rest, kernel := ks\<rparr>))
     \<and> rr_words r' = ws \<and> rr_metadata r' = md' \<and> rr_request_id r' = request_id \<and> rr_operation r' = operation \<and> rr_scalar r' = ucast scalar
     \<and> server_times r' = map ms durations"
proof -
  let ?h = "response_fields request_id operation scalar md'"
  define P :: u64 where "P = of_nat (length ws * 8)"
  define tail where "tail = kTimingMagic @ le_words (timing_fields request_id durations (length ws)) @ rest"
  have "unat limit < 2 ^ 64" using unsigned_less [of limit, where ?'a = nat] by simp
  then have b: "length ws * 8 < 2 ^ 64" using assms(5) by linarith
  have P: "unat P = length ws * 8" unfolding P_def by (rule unat_bytes [OF b])
  note h = frame_fields_nth [OF response_fields_def [of request_id operation scalar md']]
  have inc: "incoming s = kMagic @ le_words ?h @ to_le_bytes P @ le_words ws @ tail" using assms(2) by (simp add: response_bytes_def P_def tail_def)
  obtain ks where ks: "receive_all kHeaderBytes s = (Inr (kMagic @ le_words ?h @ to_le_bytes P), s\<lparr>incoming := le_words ws @ tail, kernel := ks\<rparr>)" "patient ks"
    and hd: "take 8 (kMagic @ le_words ?h @ to_le_bytes P) = kMagic" "load_fields kHeaderFields (kMagic @ le_words ?h @ to_le_bytes P) = ?h"
      "load_le64 (8 + kHeaderFields * 8) (kMagic @ le_words ?h @ to_le_bytes P) = P"
    using receive_header [OF assms(1) inc h(7)] by blast
  have cf: "check_frame ?h P limit = None" using P assms(5) by (simp add: check_frame_def h word_less_nat_alt)
  have "bm_word_count md' * 8 = P" unfolding P_def assms(4) by simp
  then have cr: "check_response request_id operation scalar md ?h P = None" by (simp add: check_response_def h(2-6,8) assms(3) [symmetric] del: One_nat_def)
  let ?s = "s\<lparr>incoming := le_words ws @ tail, kernel := ks\<rparr>"
  obtain ks2 where k2: "receive_words alloc (unat (bm_word_count md')) ?s = Some (None, ws, s\<lparr>incoming := tail, kernel := ks2\<rparr>)" "patient ks2"
    using receive_words_patient [of ?s ws tail alloc] ks(2) assms(4,7) by auto
  have e: "receive_response alloc ms fd request_id operation scalar md limit r s = receive_trailer ms fd request_id ?h P (r\<lparr>rr_words := ws\<rparr>) (s\<lparr>incoming := tail, kernel := ks2\<rparr>)"
    unfolding receive_response_def ks(1) prod.case sum.case hd Let_def cf option.case h(2,8) cr k2(1) using frame_kinds by simp
  have "patient (kernel (s\<lparr>incoming := tail, kernel := ks2\<rparr>))" using k2(2) by simp
  from receive_trailer_ok [OF this _ assms(6) refl refl, of request_id ws rest ms fd operation scalar md' r] show ?thesis
    unfolding e P_def by (fastforce simp: tail_def)
qed

lemma receive_response_error:
  assumes "patient (kernel s)" and "incoming s = error_bytes request_id operation message @ rest"
    and "length message \<le> unat limit" and "alloc (length message)"
  shows "\<exists>ks. receive_response alloc ms fd request_id operation scalar md limit r s
     = (Failure (RemoteHpuError message), r, close_fd fd (s\<lparr>incoming := rest, kernel := ks\<rparr>))"
proof -
  let ?h = "[kVersion, kFrameError, request_id, operation, 1, 0, 0, 0, 0, 0, 0, 0, 0, 0]"
  define P :: u64 where "P = of_nat (length message)"
  have "unat limit < 2 ^ 64" using unsigned_less [of limit, where ?'a = nat] by simp
  then have P: "unat P = length message" using assms(3) unfolding P_def by (simp add: unsigned_of_nat take_bit_nat_eq_self)
  have inc: "incoming s = kMagic @ le_words ?h @ to_le_bytes P @ message @ rest" using assms(2) by (simp add: error_bytes_def P_def)
  obtain ks where ks: "receive_all kHeaderBytes s = (Inr (kMagic @ le_words ?h @ to_le_bytes P), s\<lparr>incoming := message @ rest, kernel := ks\<rparr>)" "patient ks"
    and hd: "take 8 (kMagic @ le_words ?h @ to_le_bytes P) = kMagic" "load_fields kHeaderFields (kMagic @ le_words ?h @ to_le_bytes P) = ?h"
      "load_le64 (8 + kHeaderFields * 8) (kMagic @ le_words ?h @ to_le_bytes P) = P"
    using receive_header [OF assms(1) inc] by auto
  have cf: "check_frame ?h P limit = None" using P assms(3) by (simp add: check_frame_def word_less_nat_alt)
  let ?s = "s\<lparr>incoming := message @ rest, kernel := ks\<rparr>"
  obtain ks2 where k2: "receive_all (unat P) ?s = (Inr message, s\<lparr>incoming := rest, kernel := ks2\<rparr>)"
    using receive_all_patient [of ?s message rest "unat P"] ks(2) P by auto
  have kind: "?h ! 1 = kFrameError" by simp
  show ?thesis unfolding receive_response_def ks(1) prod.case sum.case hd Let_def cf option.case kind k2
    using assms(4) P by (simp add: give_up_def) blast
qed

section \<open>Connections\<close>

text \<open>The kernel gives out descriptors that are not in use.\<close>

definition fresh_fds :: "attempt list \<Rightarrow> net \<Rightarrow> bool" where
  "fresh_fds as s \<longleftrightarrow> (\<forall>a \<in> set as. at_socket a \<notin> open_fds s)"

definition usable :: "attempt \<Rightarrow> bool" where
  "usable a \<longleftrightarrow> 0 \<le> at_socket a \<and> 0 \<le> at_flags a \<and> at_nonblock a \<and> connect_ok a \<and> at_restore a"

lemma connect_loop_fresh:
  assumes "fresh_fds as s"
  shows "\<exists>fd. connect_loop as s = (fd, if fd < 0 then s else s\<lparr>open_fds := insert fd (open_fds s)\<rparr>)
     \<and> (0 \<le> fd \<longrightarrow> fd \<notin> open_fds s) \<and> (0 \<le> fd \<longleftrightarrow> (\<exists>a \<in> set as. usable a))"
  using assms
proof (induction as)
  case (Cons a as)
  have f: "fresh_fds as s" "at_socket a \<notin> open_fds s" using Cons.prems by (simp_all add: fresh_fds_def)
  have cl: "close_fd (at_socket a) (s\<lparr>open_fds := insert (at_socket a) (open_fds s)\<rparr>) = s" using f(2) by (cases s) (simp add: close_fd_def)
  show ?case
  proof (cases "usable a")
    case True
    then have "connect_loop (a # as) s = (at_socket a, s\<lparr>open_fds := insert (at_socket a) (open_fds s)\<rparr>)" by (simp add: usable_def)
    with True f(2) show ?thesis by (intro exI [of _ "at_socket a"]) (simp add: usable_def)
  next
    case False
    then have "connect_loop (a # as) s = connect_loop as s" by (auto simp: usable_def Let_def cl)
    with False Cons.IH [OF f(1)] show ?thesis by simp
  qed
qed simp

text \<open>The network lets the call connect and takes its socket options.\<close>

definition ready :: "'d call_env \<Rightarrow> net \<Rightarrow> bool" where
  "ready env s \<longleftrightarrow> (\<exists>as. ce_addresses env = Some as \<and> fresh_fds as s \<and> (\<exists>a \<in> set as. usable a))
     \<and> ce_rcvtimeo env \<and> ce_sndtimeo env \<and> ce_nodelay env"

lemma connect_ready:
  assumes "ready env s"
  shows "\<exists>fd. connect_with_timeout (ce_addresses env) s = (Inr fd, s\<lparr>open_fds := insert fd (open_fds s)\<rparr>) \<and> fd \<notin> open_fds s"
proof -
  obtain as where as: "ce_addresses env = Some as" "fresh_fds as s" "\<exists>a \<in> set as. usable a" using assms by (auto simp: ready_def)
  with connect_loop_fresh [OF as(2)] show ?thesis by (auto simp: connect_with_timeout_def)
qed

lemma compute_u8_ready:
  assumes "ready env s" and "patient (kernel s)" and "validate_metadata md (length words) operation = None" and "supported operation"
    and "length words * 8 < 2 ^ 64"
  shows "\<exists>fd ks. compute_u8 env request_id operation scalar md words (Some r) s =
      (let (out, r1, s3) = receive_response (ce_alloc env) (ce_ns_to_ms env) fd request_id operation scalar md (ce_max_response_bytes env) r
         (s\<lparr>open_fds := insert fd (open_fds s), outgoing := outgoing s @ request_bytes request_id operation scalar md words, kernel := ks\<rparr>)
       in (out, Some r1, s3)) \<and> patient ks \<and> fd \<notin> open_fds s"
proof -
  obtain fd where fd: "connect_with_timeout (ce_addresses env) s = (Inr fd, s\<lparr>open_fds := insert fd (open_fds s)\<rparr>)" "fd \<notin> open_fds s"
    using connect_ready [OF assms(1)] by blast
  let ?s1 = "s\<lparr>open_fds := insert fd (open_fds s)\<rparr>" and ?h = "request_header request_id operation scalar md (length words)"
  obtain ks1 where k1: "send_all ?h ?s1 = (None, ?s1\<lparr>outgoing := outgoing s @ ?h, kernel := ks1\<rparr>)" "patient ks1"
    using send_all_patient [of ?s1 ?h] assms(2) by auto
  let ?s2 = "?s1\<lparr>outgoing := outgoing s @ ?h, kernel := ks1\<rparr>"
  obtain ks2 where k2: "send_words words ?s2 = (None, ?s1\<lparr>outgoing := outgoing s @ request_bytes request_id operation scalar md words, kernel := ks2\<rparr>)" "patient ks2"
    using send_words_patient [of ?s2 words] k1(2) by (auto simp: request_bytes_def)
  have conf: "configure_socket (ce_rcvtimeo env) (ce_sndtimeo env) (ce_nodelay env) = None" using assms(1) by (simp add: ready_def configure_socket_def)
  have len: "\<not> (2 ^ 64 - 1) div 8 < length words" using assms(5) by simp
  have "compute_u8 env request_id operation scalar md words (Some r) s =
      (let (out, r1, s3) = receive_response (ce_alloc env) (ce_ns_to_ms env) fd request_id operation scalar md (ce_max_response_bytes env) r
         (?s1\<lparr>outgoing := outgoing s @ request_bytes request_id operation scalar md words, kernel := ks2\<rparr>)
       in (out, Some r1, s3))"
    unfolding compute_u8_def option.case assms(3) fd(1) prod.case sum.case conf k1(1) k2(1) if_not_P [OF len] using assms(4) by simp
  then show ?thesis using k2(2) fd(2) by (intro exI conjI) simp_all
qed

lemma remote_call:
  assumes "ready env s" and "patient (kernel s)" and "validate_metadata md (length words) operation = None" and "supported operation"
    and "length words * 8 < 2 ^ 64" and "length words * 8 \<le> limit" and "length durations = 12"
    and "handle_connection h limit durations message \<lparr>c_in = request_bytes request_id operation scalar md words, c_out = [], c_room = None\<rparr> = (res, c)"
    and "incoming s = c_out c"
    and "n = (case process_request h (request_frame request_id operation scalar md words) of Inr (_, ws) \<Rightarrow> length ws * 8 | Inl e \<Rightarrow> length (message e))"
    and "n \<le> unat (ce_max_response_bytes env)" and "ce_alloc env n"
  shows "\<exists>out r' s'. compute_u8 env request_id operation scalar md words (Some r) s = (out, Some r', s')
     \<and> outgoing s' = outgoing s @ request_bytes request_id operation scalar md words \<and> open_fds s' = open_fds s \<and> incoming s' = [] \<and> c_in c = []
     \<and> (case process_request h (request_frame request_id operation scalar md words) of
          Inr (md', ws) \<Rightarrow> out = Success \<and> rr_words r' = ws \<and> rr_metadata r' = md' \<and> rr_request_id r' = request_id \<and> rr_operation r' = operation
            \<and> rr_scalar r' = ucast scalar \<and> server_times r' = map (ce_ns_to_ms env) durations
        | Inl e \<Rightarrow> out = Failure (RemoteHpuError (message e)) \<and> r' = r)"
proof -
  obtain fd ks where call: "compute_u8 env request_id operation scalar md words (Some r) s =
      (let (out, r1, s3) = receive_response (ce_alloc env) (ce_ns_to_ms env) fd request_id operation scalar md (ce_max_response_bytes env) r
         (s\<lparr>open_fds := insert fd (open_fds s), outgoing := outgoing s @ request_bytes request_id operation scalar md words, kernel := ks\<rparr>)
       in (out, Some r1, s3))" and ks: "patient ks" "fd \<notin> open_fds s"
    using compute_u8_ready [OF assms(1-5)] by blast
  let ?s = "s\<lparr>open_fds := insert fd (open_fds s), outgoing := outgoing s @ request_bytes request_id operation scalar md words, kernel := ks\<rparr>"
  have p: "patient (kernel ?s)" using ks(1) by simp
  show ?thesis
  proof (cases "process_request h (request_frame request_id operation scalar md words)")
    case (Inl e)
    have "c = \<lparr>c_in = [], c_out = error_bytes request_id operation (message e), c_room = None\<rparr>"
      using handle_connection_error [OF assms(3,5,6) refl Inl, of durations message] assms(8) by simp
    then have inc: "incoming ?s = error_bytes request_id operation (message e) @ []" "c_in c = []" using assms(9) by simp_all
    have "length (message e) \<le> unat (ce_max_response_bytes env)" "ce_alloc env (length (message e))" using assms(10-12) by (simp_all add: Inl)
    from receive_response_error [where alloc = "ce_alloc env", OF p inc(1) this, of "ce_ns_to_ms env" fd scalar md r] obtain ks' where
      "receive_response (ce_alloc env) (ce_ns_to_ms env) fd request_id operation scalar md (ce_max_response_bytes env) r ?s
        = (Failure (RemoteHpuError (message e)), r, close_fd fd (?s\<lparr>incoming := [], kernel := ks'\<rparr>))" by blast
    then show ?thesis unfolding call using ks(2) inc(2) by (simp add: Inl close_fd_def)
  next
    case (Inr mw)
    obtain md' ws where mw: "mw = (md', ws)" by (cases mw)
    note Inr' = Inr [unfolded mw] and sh = process_request_shape [OF assms(3) Inr [unfolded mw]]
    have fit: "length ws * 8 \<le> unat (ce_max_response_bytes env)" "ce_alloc env (length ws * 8)" using assms(10-12) by (simp_all add: Inr')
    have "unat (ce_max_response_bytes env) < 2 ^ 64" using unsigned_less [of "ce_max_response_bytes env", where ?'a = nat] by simp
    then have b: "length ws * 8 < 2 ^ 64" using fit(1) by linarith
    have "c = \<lparr>c_in = [], c_out = response_bytes request_id operation scalar md' ws durations, c_room = None\<rparr>"
      using handle_connection_bytes [OF assms(3,5,6) refl Inr' b, of durations message] assms(8) by simp
    then have inc: "incoming ?s = response_bytes request_id operation scalar md' ws durations @ []" "c_in c = []" using assms(9) by simp_all
    from receive_response_ok [where alloc = "ce_alloc env", OF p inc(1) sh fit(1) assms(7) fit(2), of "ce_ns_to_ms env" fd r] obtain r' ks' where
      "receive_response (ce_alloc env) (ce_ns_to_ms env) fd request_id operation scalar md (ce_max_response_bytes env) r ?s
        = (Success, r', close_fd fd (?s\<lparr>incoming := [], kernel := ks'\<rparr>))"
      "rr_words r' = ws" "rr_metadata r' = md'" "rr_request_id r' = request_id" "rr_operation r' = operation" "rr_scalar r' = ucast scalar"
      "server_times r' = map (ce_ns_to_ms env) durations" by blast
    then show ?thesis unfolding call using ks(2) inc(2) by (simp add: Inr' close_fd_def)
  qed
qed

text \<open>C3. A remote call is the computation of the server.  Take a request that the client accepts, a network
  that connects, interrupts and splits transfers at will but completes them, and a server that handles
  the bytes the client sends and whose answer is what the client receives.  The server reads exactly
  the request, and the client ends with its result: if the server computes words, the call succeeds
  and returns these words with their metadata, the identity of the request and the twelve server
  times; if the server reports an error, the call fails with its message and leaves the result as it
  was.  Either way the connection is closed and nothing of the answer is left unread.\<close>

theorem remote_call_correct:
  assumes "ready env s" and "patient (kernel s)" and "validate_metadata md (length words) operation = None" and "supported operation"
    and "length words * 8 < 2 ^ 64" and "length words * 8 \<le> limit" and "length durations = 12"
    and "handle_connection h limit durations message \<lparr>c_in = request_bytes request_id operation scalar md words, c_out = [], c_room = None\<rparr> = (res, c)"
    and "incoming s = c_out c"
    and "n = (case process_request h (request_frame request_id operation scalar md words) of Inr (_, ws) \<Rightarrow> length ws * 8 | Inl e \<Rightarrow> length (message e))"
    and "n \<le> unat (ce_max_response_bytes env)" and "ce_alloc env n"
  shows "\<exists>out r' s'. compute_u8 env request_id operation scalar md words (Some r) s = (out, Some r', s')
     \<and> outgoing s' = outgoing s @ request_bytes request_id operation scalar md words \<and> open_fds s' = open_fds s \<and> incoming s' = [] \<and> c_in c = []
     \<and> (case process_request h (request_frame request_id operation scalar md words) of
          Inr (md', ws) \<Rightarrow> out = Success \<and> rr_words r' = ws \<and> rr_metadata r' = md' \<and> rr_request_id r' = request_id \<and> rr_operation r' = operation
            \<and> rr_scalar r' = ucast scalar \<and> server_times r' = map (ce_ns_to_ms env) durations
        | Inl e \<Rightarrow> out = Failure (RemoteHpuError (message e)) \<and> r' = r)"
  by (rule remote_call [OF assms])

text \<open>An echo of two words through a connection that is interrupted and split.\<close>

definition sample_md :: batch_metadata where
  "sample_md = \<lparr>bm_mask_dimension = 1, bm_item_count = 1, bm_radix_blocks = 1, bm_message_width = 8, bm_carry_width = 0, bm_padding_bit_width = 1,
     bm_delta_log2 = 55, bm_word_count = 2\<rparr>"

definition sample_hpu :: hpu where
  "sample_hpu = \<lparr>hp_lwe_dimension = 1, hp_message_width = 8, hp_carry_width = 0, hp_big_dimension = 1, hp_pem_pc = 2, hp_coef_nb = 32,
     hp_ntt_radix = 2, hp_ntt_stages = 11, hp_ntt_ct_width = 64, hp_pbs_ct_width = 64, run_cpu = (\<lambda>_ x. x), run_native = (\<lambda>_ x. x),
     run_native_cpu = (\<lambda>_ x. map concat x)\<rparr>"

definition sample_address :: attempt where
  "sample_address = \<lparr>at_socket = 3, at_flags = 2, at_nonblock = True, at_connect = InProgress, at_polls = [PollInterrupted, Ready],
     at_getsockopt = True, at_socket_error = 0, at_restore = True\<rparr>"

definition sample_env :: "nat call_env" where
  "sample_env = \<lparr>ce_addresses = Some [sample_address], ce_rcvtimeo = True, ce_sndtimeo = True, ce_nodelay = True, ce_alloc = (\<lambda>_. True),
     ce_ns_to_ms = unat, ce_max_response_bytes = 1000\<rparr>"

definition sample_net :: "u8 list \<Rightarrow> net" where
  "sample_net bs = \<lparr>open_fds = {0, 1, 2}, incoming = bs, outgoing = [], kernel = [Interrupts, Moves 3, Moves 1, Interrupts]\<rparr>"

lemma sample_ready: "ready sample_env (sample_net bs)" "patient (kernel (sample_net bs))"
  by (simp_all add: ready_def fresh_fds_def sample_env_def sample_net_def usable_def sample_address_def connect_ok_def)

lemma sample_request:
  "validate_metadata sample_md (length [5, 6 :: u64]) 0 = None"
  "process_request sample_hpu (request_frame 9 0 7 sample_md [5, 6]) = Inr (sample_md, [5, 6])"
proof -
  show v: "validate_metadata sample_md (length [5, 6 :: u64]) 0 = None"
    by (simp add: validate_metadata_def sample_md_def kHpuNativeWordsPerLwe_def operations Let_def word_less_nat_alt unat_div unsigned_minus_1_eq_mask mask_eq_exp_minus_1)
  have "validate sample_md = Inr ()" using validate_accepts [OF v validate_metadata_None(7) [OF v]] by simp
  then show "process_request sample_hpu (request_frame 9 0 7 sample_md [5, 6]) = Inr (sample_md, [5, 6])"
    by (simp add: process_request_def check_request_def request_frame_def bridge_validate_metadata_def supported_def operations kFrameRequest_def)
      (simp add: sample_md_def sample_hpu_def)
qed

theorem remote_call_correct_witness:
  "\<forall>r. \<exists>bs r' s'. compute_u8 sample_env 9 0 7 sample_md [5, 6] (Some r) (sample_net bs) = (Success, Some r', s') \<and> rr_words r' = [5, 6]
     \<and> open_fds s' = {0, 1, 2} \<and> server_times r' = replicate 12 1"
proof
  fix r
  define bs where "bs = response_bytes 9 0 7 sample_md [5, 6] (replicate 12 1)"
  have h: "handle_connection sample_hpu 1000 (replicate 12 1) (\<lambda>_. []) \<lparr>c_in = request_bytes 9 0 7 sample_md [5, 6], c_out = [], c_room = None\<rparr>
      = (Inr (), \<lparr>c_in = [], c_out = bs, c_room = None\<rparr>)"
    unfolding bs_def by (rule handle_connection_bytes [OF sample_request(1) _ _ refl sample_request(2)]) simp_all
  have n: "16 = (case process_request sample_hpu (request_frame 9 0 7 sample_md [5, 6]) of Inr (_, ws) \<Rightarrow> length ws * 8 | Inl e \<Rightarrow> length [])"
    by (simp add: sample_request(2))
  have prem: "supported 0" "length [5, 6 :: u64] * 8 < 2 ^ 64" "length [5, 6 :: u64] * 8 \<le> (1000 :: nat)" "length (replicate 12 (1 :: u64)) = 12"
    "16 \<le> unat (ce_max_response_bytes sample_env)" "ce_alloc sample_env 16" "open_fds (sample_net bs) = {0, 1, 2}"
    "incoming (sample_net bs) = c_out \<lparr>c_in = [], c_out = bs, c_room = None\<rparr>" "map (ce_ns_to_ms sample_env) (replicate 12 1) = replicate 12 1"
    by (simp_all add: supported_def operations sample_env_def sample_net_def)
  from remote_call_correct [OF sample_ready [of bs] sample_request(1) prem(1-4) h prem(8) n prem(5,6), of r]
  show "\<exists>bs r' s'. compute_u8 sample_env 9 0 7 sample_md [5, 6] (Some r) (sample_net bs) = (Success, Some r', s') \<and> rr_words r' = [5, 6]
     \<and> open_fds s' = {0, 1, 2} \<and> server_times r' = replicate 12 1"
    unfolding sample_request(2) sum.case prod.case prem(7,9) by blast
qed

end
