(* ===== verification/Remote_Limits.thy ===== *)
theory Remote_Limits
  imports Remote_Call
begin

unbundle bit_operations_syntax

text \<open>
  What holds of a remote call whatever the network and the server do: its descriptors, and the
  allocation it makes for an answer.
\<close>

section \<open>Descriptors\<close>

lemma next_io_open: "next_io n s = (k, s') \<Longrightarrow> open_fds s' = open_fds s"
  by (auto simp: next_io_def split: list.splits)

lemma send_all_open: "open_fds (snd (send_all data s)) = open_fds s"
proof (induction data s rule: send_all.induct)
  case (1 data s)
  show ?case
  proof (cases "data = []")
    case False
    obtain k s1 where k: "next_io (length data) s = (k, s1)" by (cases "next_io (length data) s")
    with False show ?thesis using 1 [OF False k [symmetric]] next_io_open [OF k] by (cases k) (auto simp: send_all.simps [of data s])
  qed (simp add: send_all.simps)
qed

lemma receive_all_open: "open_fds (snd (receive_all n s)) = open_fds s"
proof (induction n s rule: receive_all.induct)
  case (1 n s)
  show ?case
  proof (cases "n = 0")
    case False
    obtain k s1 where k: "next_io n s = (k, s1)" by (cases "next_io n s")
    show ?thesis
    proof (cases k)
      case (Moves m)
      define got where "got = take (min m n) (incoming s1)"
      show ?thesis
      proof (cases "got = []")
        case True
        then show ?thesis unfolding receive_all.simps [of n s] k prod.case Moves io_step.case Let_def got_def [symmetric]
          using False next_io_open [OF k] by simp
      next
        case ne: False
        obtain q s2 where q: "receive_all (n - length got) (s1\<lparr>incoming := drop (length got) (incoming s1)\<rparr>) = (q, s2)"
          by (cases "receive_all (n - length got) (s1\<lparr>incoming := drop (length got) (incoming s1)\<rparr>)")
        have "open_fds s2 = open_fds s1" using 1(1) [OF False k [symmetric] Moves got_def ne] q by simp
        then show ?thesis unfolding receive_all.simps [of n s] k prod.case Moves io_step.case Let_def got_def [symmetric] q
          using False ne next_io_open [OF k] by (cases q) simp_all
      qed
    next
      case Interrupts
      then show ?thesis using 1(2) [OF False k [symmetric] Interrupts] next_io_open [OF k] False k by (simp add: receive_all.simps [of n s])
    next
      case Fails
      then show ?thesis using next_io_open [OF k] False k by (simp add: receive_all.simps [of n s])
    qed
  qed (simp add: receive_all.simps)
qed

lemma send_words_loop_open: "open_fds (snd (send_words_loop words offset bytes s)) = open_fds s"
proof (induction words offset bytes s rule: send_words_loop.induct)
  case (1 words offset bytes s)
  show ?case
  proof (cases "offset < length words")
    case True
    define n where "n = min words_per_chunk (length words - offset)"
    define bytes1 where "bytes1 = store_words (take n (drop offset words)) bytes"
    obtain q s1 where q: "send_all (take (n * 8) bytes1) s = (q, s1)" by (cases "send_all (take (n * 8) bytes1) s")
    then have e: "open_fds s1 = open_fds s" using send_all_open [of "take (n * 8) bytes1" s] by simp
    show ?thesis
      unfolding send_words_loop.simps [of words offset bytes s] Let_def n_def [symmetric] bytes1_def [symmetric] q prod.case
      using True e 1 [OF True n_def bytes1_def q [symmetric]] by (cases q) simp_all
  qed (simp add: send_words_loop.simps)
qed

lemma receive_words_loop_open: "receive_words_loop word_count offset ws s = (q, vs, s') \<Longrightarrow> open_fds s' = open_fds s"
proof (induction word_count offset ws s rule: receive_words_loop.induct)
  case (1 word_count offset ws s)
  show ?case
  proof (cases "offset < word_count")
    case True
    define n where "n = min words_per_chunk (word_count - offset)"
    obtain a s1 where a: "receive_all (n * 8) s = (a, s1)" by (cases "receive_all (n * 8) s")
    then have e: "open_fds s1 = open_fds s" using receive_all_open [of "n * 8" s] by simp
    show ?thesis
      using 1(2) [unfolded receive_words_loop.simps [of word_count offset ws s] Let_def n_def [symmetric] a prod.case] True e
        1(1) [OF True n_def a [symmetric]] by (cases a) simp_all
  next
    case False
    then show ?thesis using 1(2) by (simp add: receive_words_loop.simps)
  qed
qed

text \<open>The outcome of a phase of the call: unless it throws, the connection is closed.\<close>

definition closes :: "int \<Rightarrow> net \<Rightarrow> rpc_outcome \<times> 'd rpc_result \<times> net \<Rightarrow> bool" where
  "closes fd s x \<longleftrightarrow> open_fds (snd (snd x)) = (if fst x = Throws then open_fds s else open_fds s - {fd})"

lemma closes_give_up: "open_fds s1 = open_fds s \<Longrightarrow> closes fd s (give_up fd e r s1)"
  by (simp add: closes_def give_up_def close_fd_def)

lemma closes_if: "(b \<Longrightarrow> closes fd s x) \<Longrightarrow> (\<not> b \<Longrightarrow> closes fd s y) \<Longrightarrow> closes fd s (if b then x else y)"
  by simp

lemma receive_trailer_closes:
  assumes "open_fds s0 = open_fds s"
  shows "closes fd s (receive_trailer ms fd i hf P r s0)"
proof -
  obtain a s1 where a: "receive_all kTimingBytes s0 = (a, s1)" "open_fds s1 = open_fds s"
    using receive_all_open [of kTimingBytes s0] assms by (cases "receive_all kTimingBytes s0") simp
  show ?thesis
  proof (cases a)
    case (Inr timing)
    show ?thesis unfolding receive_trailer_def a(1) prod.case Inr sum.case Let_def
      by (intro closes_if closes_give_up) (simp_all add: a(2) closes_def close_fd_def)
  qed (simp add: receive_trailer_def a closes_give_up)
qed

lemma receive_response_closes: "closes fd s (receive_response alloc ms fd i p sc md limit r s)"
proof -
  obtain a s1 where a: "receive_all kHeaderBytes s = (a, s1)" "open_fds s1 = open_fds s"
    using receive_all_open [of kHeaderBytes s] by (cases "receive_all kHeaderBytes s") simp
  show ?thesis
  proof (cases a)
    case (Inr header)
    define hf P where "hf = load_fields kHeaderFields header" and "P = load_le64 (8 + kHeaderFields * 8) header"
    obtain q s2 where q: "receive_all (unat P) s1 = (q, s2)" "open_fds s2 = open_fds s"
      using receive_all_open [of "unat P" s1] a(2) by (cases "receive_all (unat P) s1") simp
    have error: "closes fd s (case q of Inl e \<Rightarrow> give_up fd e r s2 | Inr message \<Rightarrow> give_up fd (RemoteHpuError message) r s2)"
      using q(2) by (cases q) (simp_all add: closes_give_up)
    have throws: "closes fd s (Throws, r, s1)" by (simp add: closes_def a(2))
    have words: "closes fd s (case receive_words alloc (unat (bm_word_count (response_metadata hf))) s1 of None \<Rightarrow> (Throws, r, s1)
       | Some (Some e, ws, s2) \<Rightarrow> give_up fd e (r\<lparr>rr_words := ws\<rparr>) s2
       | Some (None, ws, s2) \<Rightarrow> receive_trailer ms fd i hf P (r\<lparr>rr_words := ws\<rparr>) s2)"
    proof (cases "receive_words alloc (unat (bm_word_count (response_metadata hf))) s1")
      case (Some x)
      obtain e vs s3 where x: "x = (e, vs, s3)" by (cases x)
      have "open_fds s3 = open_fds s" using Some x receive_words_loop_open a(2) by (auto simp: receive_words_def split: if_splits)
      then show ?thesis unfolding Some x by (cases e) (simp_all add: closes_give_up receive_trailer_closes)
    qed (simp add: throws)
    have resp: "closes fd s (case check_response i p sc md hf P of Some e \<Rightarrow> give_up fd e r s1
       | None \<Rightarrow> (case receive_words alloc (unat (bm_word_count (response_metadata hf))) s1 of None \<Rightarrow> (Throws, r, s1)
         | Some (Some e, ws, s2) \<Rightarrow> give_up fd e (r\<lparr>rr_words := ws\<rparr>) s2
         | Some (None, ws, s2) \<Rightarrow> receive_trailer ms fd i hf P (r\<lparr>rr_words := ws\<rparr>) s2))"
      using words by (cases "check_response i p sc md hf P") (simp_all add: closes_give_up a(2))
    show ?thesis unfolding receive_response_def a(1) prod.case Inr sum.case Let_def hf_def [symmetric] P_def [symmetric]
      by (cases "check_frame hf P limit") (simp_all add: closes_give_up a(2) closes_if q(1) error throws resp)
  qed (simp add: receive_response_def a closes_give_up)
qed

text \<open>C9. A call leaves no descriptor behind.  Whatever the addresses answer, however the transfers end and
  whatever bytes the server sends, when the call returns, successfully or with an error, the open
  descriptors of the process are the ones it had before, as long as the kernel gives out descriptors
  that are not in use.  Only an exception of the allocator can leave one open.\<close>

theorem compute_u8_closes:
  assumes "\<forall>as. ce_addresses env = Some as \<longrightarrow> fresh_fds as s"
    and "compute_u8 env request_id operation scalar md words result s = (out, result', s')" and "out \<noteq> Throws"
  shows "open_fds s' = open_fds s"
proof (cases result)
  case None
  then show ?thesis using assms(2) by (simp add: compute_u8_def)
next
  case (Some r)
  show ?thesis
  proof (cases "validate_metadata md (length words) operation = None \<and> supported operation \<and> \<not> length words > (2 ^ 64 - 1) div 8")
    case False
    then show ?thesis using assms(2) Some by (cases "validate_metadata md (length words) operation") (auto simp: compute_u8_def split: if_splits)
  next
    case True
    obtain c s1 where c: "connect_with_timeout (ce_addresses env) s = (c, s1)" by (cases "connect_with_timeout (ce_addresses env) s")
    have s1: "open_fds s1 = (case c of Inl _ \<Rightarrow> open_fds s | Inr fd \<Rightarrow> insert fd (open_fds s)) \<and> (\<forall>fd. c = Inr fd \<longrightarrow> fd \<notin> open_fds s)"
    proof (cases "ce_addresses env")
      case (Some as)
      with assms(1) connect_loop_fresh [of as s] c show ?thesis by (auto simp: connect_with_timeout_def split: if_splits)
    qed (use c in \<open>auto simp: connect_with_timeout_def\<close>)
    show ?thesis
    proof (cases c)
      case (Inl e)
      then show ?thesis using assms(2) Some True c s1 by (auto simp: compute_u8_def split: if_splits)
    next
      case (Inr fd)
      let ?h = "request_header request_id operation scalar md (length words)"
      define body where "body = (case configure_socket (ce_rcvtimeo env) (ce_sndtimeo env) (ce_nodelay env) of Some e \<Rightarrow> give_up fd e r s1
           | None \<Rightarrow> (case send_all ?h s1 of (Some e, s2) \<Rightarrow> give_up fd e r s2
             | (None, s2) \<Rightarrow> (case send_words words s2 of (Some e, s3) \<Rightarrow> give_up fd e r s3
               | (None, s3) \<Rightarrow> receive_response (ce_alloc env) (ce_ns_to_ms env) fd request_id operation scalar md (ce_max_response_bytes env) r s3)))"
      have e: "compute_u8 env request_id operation scalar md words result s = (let (out, r1, s3) = body in (out, Some r1, s3))"
        unfolding compute_u8_def Some option.case c prod.case Inr sum.case body_def using True by simp
      have "closes fd s1 body"
      proof (cases "configure_socket (ce_rcvtimeo env) (ce_sndtimeo env) (ce_nodelay env)")
        case None
        obtain a s2 where a: "send_all ?h s1 = (a, s2)" "open_fds s2 = open_fds s1" using send_all_open [of ?h s1] by (cases "send_all ?h s1") simp
        obtain b s3 where b: "send_words words s2 = (b, s3)" "open_fds s3 = open_fds s1"
          using send_words_loop_open [of words 0 _ s2] a(2) by (cases "send_words words s2") (simp add: send_words_def, metis snd_conv)
        have "closes fd s1 x" if "closes fd s3 x" for x :: "rpc_outcome \<times> 'a rpc_result \<times> net" using that b(2) by (simp add: closes_def)
        then show ?thesis unfolding body_def None option.case a(1)
          by (cases a; cases b) (simp_all add: b(1) closes_give_up a(2) b(2) receive_response_closes)
      qed (simp add: body_def closes_give_up)
      then show ?thesis using assms(2,3) s1 Inr unfolding e by (auto simp: closes_def split: prod.splits)
    qed
  qed
qed

text \<open>A connection that breaks when the request is sent.\<close>

theorem compute_u8_closes_witness:
  "\<forall>r. \<exists>s'. compute_u8 sample_env 9 0 7 sample_md [5, 6] (Some r) ((sample_net [])\<lparr>kernel := [Interrupts, Fails]\<rparr>) = (Failure SendFailed, Some r, s')
     \<and> open_fds s' = {0, 1, 2}"
proof
  fix r
  let ?s = "(sample_net [])\<lparr>kernel := [Interrupts, Fails]\<rparr>"
  have f: "\<forall>as. ce_addresses sample_env = Some as \<longrightarrow> fresh_fds as ?s"
    by (simp add: sample_env_def fresh_fds_def sample_address_def sample_net_def)
  have h: "request_header 9 0 7 sample_md (Suc (Suc 0)) \<noteq> []" by (simp add: request_header_bytes kMagic_def)
  have "\<exists>s'. compute_u8 sample_env 9 0 7 sample_md [5, 6] (Some r) ?s = (Failure SendFailed, Some r, s')"
    using sample_request(1) h
    by (simp add: compute_u8_def supported_def operations connect_with_timeout_def sample_env_def sample_address_def connect_ok_def configure_socket_def
        sample_net_def send_all.simps next_io_def give_up_def)
  then obtain s' where e: "compute_u8 sample_env 9 0 7 sample_md [5, 6] (Some r) ?s = (Failure SendFailed, Some r, s')" by blast
  have "open_fds ?s = {0, 1, 2}" by (simp add: sample_net_def)
  with compute_u8_closes [OF f e] e show "\<exists>s'. compute_u8 sample_env 9 0 7 sample_md [5, 6] (Some r) ?s = (Failure SendFailed, Some r, s') \<and> open_fds s' = {0, 1, 2}"
    by simp
qed

section \<open>Allocation\<close>

text \<open>C36. The limit on a response does not limit the allocation for it.  For the operation on native
  ciphertexts the client expects the word count of the plain layout and compares the announced bytes
  with eight times that count modulo \<open>2 ^ 64\<close>.  Any answer whose header passes these comparisons makes the
  client ask for the full count of words: when the allocator refuses, the call ends with an exception
  and the descriptor of the connection stays open.\<close>

theorem remote_response_allocation:
  assumes "ready env s" and "patient (kernel s)" and "validate_metadata md (length words) 2 = None" and "length words * 8 < 2 ^ 64"
    and "md' = md\<lparr>bm_word_count := blocks_of md * (bm_mask_dimension md + 1)\<rparr>"
    and "incoming s = kMagic @ le_words (response_fields request_id 2 scalar md') @ to_le_bytes (bm_word_count md' * 8) @ rest"
    and "bm_word_count md' * 8 \<le> ce_max_response_bytes env" and "\<not> ce_alloc env (unat (bm_word_count md') * 8)"
  shows "\<exists>fd s'. compute_u8 env request_id 2 scalar md words (Some r) s = (Throws, Some r, s') \<and> fd \<notin> open_fds s \<and> open_fds s' = insert fd (open_fds s)"
proof -
  have sup: "supported 2" by (simp add: supported_def operations)
  obtain fd ks where call: "compute_u8 env request_id 2 scalar md words (Some r) s =
      (let (out, r1, s3) = receive_response (ce_alloc env) (ce_ns_to_ms env) fd request_id 2 scalar md (ce_max_response_bytes env) r
         (s\<lparr>open_fds := insert fd (open_fds s), outgoing := outgoing s @ request_bytes request_id 2 scalar md words, kernel := ks\<rparr>)
       in (out, Some r1, s3))" and ks: "patient ks" "fd \<notin> open_fds s"
    using compute_u8_ready [OF assms(1-3) sup assms(4)] by blast
  let ?s = "s\<lparr>open_fds := insert fd (open_fds s), outgoing := outgoing s @ request_bytes request_id 2 scalar md words, kernel := ks\<rparr>"
  let ?h = "response_fields request_id 2 scalar md'" and ?P = "bm_word_count md' * 8"
  note h = frame_fields_nth [OF response_fields_def [of request_id 2 scalar md']]
  have "patient (kernel ?s)" "incoming ?s = kMagic @ le_words ?h @ to_le_bytes ?P @ rest" using ks(1) assms(6) by simp_all
  from receive_header [OF this h(7)] obtain ks1 where
    r: "receive_all kHeaderBytes ?s = (Inr (kMagic @ le_words ?h @ to_le_bytes ?P), ?s\<lparr>incoming := rest, kernel := ks1\<rparr>)"
    and hd: "take 8 (kMagic @ le_words ?h @ to_le_bytes ?P) = kMagic" "load_fields kHeaderFields (kMagic @ le_words ?h @ to_le_bytes ?P) = ?h"
      "load_le64 (8 + kHeaderFields * 8) (kMagic @ le_words ?h @ to_le_bytes ?P) = ?P" by blast
  have cf: "check_frame ?h ?P (ce_max_response_bytes env) = None" using assms(7) by (simp add: check_frame_def h)
  have "expected_response_metadata 2 md = md'" by (simp add: expected_response_metadata_def operations assms(5) blocks_of_def)
  then have cr: "check_response request_id 2 scalar md ?h ?P = None" by (simp add: check_response_def h(2-6,8) del: One_nat_def)
  have "receive_response (ce_alloc env) (ce_ns_to_ms env) fd request_id 2 scalar md (ce_max_response_bytes env) r ?s = (Throws, r, ?s\<lparr>incoming := rest, kernel := ks1\<rparr>)"
    unfolding receive_response_def r prod.case sum.case hd Let_def cf option.case h(2,8) cr using frame_kinds assms(8) by (simp add: receive_words_def)
  then show ?thesis unfolding call using ks(2) by (intro exI [of _ fd]) simp
qed

text \<open>One block of dimension \<open>2 ^ 61 - 1\<close> and an empty payload: the client asks for \<open>2 ^ 61\<close> words.\<close>

definition huge_md :: batch_metadata where
  "huge_md = \<lparr>bm_mask_dimension = 2 ^ 61 - 1, bm_item_count = 1, bm_radix_blocks = 1, bm_message_width = 8, bm_carry_width = 0, bm_padding_bit_width = 1,
     bm_delta_log2 = 55, bm_word_count = 3072\<rparr>"

theorem remote_response_allocation_witness:
  "\<forall>r. \<exists>bs fd s'. compute_u8 (sample_env\<lparr>ce_alloc := (\<lambda>n. n < 2 ^ 63)\<rparr>) 9 2 7 huge_md (replicate 3072 0) (Some r) (sample_net bs) = (Throws, Some r, s')
     \<and> open_fds s' = insert fd {0, 1, 2} \<and> fd \<notin> {0, 1, 2}"
proof
  fix r
  let ?e = "sample_env\<lparr>ce_alloc := (\<lambda>n. n < 2 ^ 63)\<rparr>"
  define md' where "md' = huge_md\<lparr>bm_word_count := blocks_of huge_md * (bm_mask_dimension huge_md + 1)\<rparr>"
  define bs where "bs = kMagic @ le_words (response_fields 9 2 7 md') @ to_le_bytes (bm_word_count md' * 8) @ []"
  have c: "bm_word_count md' = 2 ^ 61" by (simp add: md'_def huge_md_def blocks_of_def)
  have v: "validate_metadata huge_md (length (replicate 3072 (0 :: u64))) 2 = None"
    by (simp add: validate_metadata_def huge_md_def kHpuNativeWordsPerLwe_def operations Let_def word_less_nat_alt unat_div unsigned_minus_1_eq_mask mask_eq_exp_minus_1)
  have rd: "ready ?e (sample_net bs)" using sample_ready(1) [of bs] by (simp add: ready_def)
  have i: "incoming (sample_net bs) = kMagic @ le_words (response_fields 9 2 7 md') @ to_le_bytes (bm_word_count md' * 8) @ []" by (simp add: sample_net_def bs_def)
  have z: "2 ^ 61 * 8 = (0 :: u64)" using word_of_nat_eq_0_iff [of "2 ^ 64", where ?'a = 64] by simp
  have l: "bm_word_count md' * 8 \<le> ce_max_response_bytes ?e" "\<not> ce_alloc ?e (unat (bm_word_count md') * 8)" unfolding c z by simp_all
  have o: "open_fds (sample_net bs) = {0, 1, 2}" by (simp add: sample_net_def)
  from remote_response_allocation [OF rd sample_ready(2) v _ md'_def i l, of r]
  show "\<exists>bs fd s'. compute_u8 ?e 9 2 7 huge_md (replicate 3072 0) (Some r) (sample_net bs) = (Throws, Some r, s')
     \<and> open_fds s' = insert fd {0, 1, 2} \<and> fd \<notin> {0, 1, 2}" unfolding o by (auto simp del: insert_iff)
qed

end
