(* ===== verification/Remote_Native.thy ===== *)
theory Remote_Native
  imports Lwe_Limits Remote_Limits
begin

unbundle bit_operations_syntax

text \<open>
  Native ciphertexts between the operators of the device and the server: the words of a ciphertext in
  the layout of the HPU, their import and export by the server, and the decryption of any such
  ciphertext, whoever computed it.
\<close>

section \<open>Words of native ciphertexts\<close>

definition cuts_ok :: "native \<Rightarrow> bool" where
  "cuts_ok cuts \<longleftrightarrow> length cuts = 2 \<and> length (cuts ! 0) = 1025 \<and> length (cuts ! 1) = 1024"

definition cut_words :: "native \<Rightarrow> u64 list" where
  "cut_words cuts = cuts ! 0 @ replicate 511 0 @ cuts ! 1 @ replicate 512 0"

definition items_ok :: "nat \<Rightarrow> native list list \<Rightarrow> bool" where
  "items_ok blocks items \<longleftrightarrow> (\<forall>item \<in> set items. length item = blocks \<and> (\<forall>cuts \<in> set item. cuts_ok cuts))"

definition items_words :: "native list list \<Rightarrow> u64 list" where
  "items_words items = concat (map cut_words (concat items))"

lemma length_cut_words: "cuts_ok cuts \<Longrightarrow> length (cut_words cuts) = 3072"
  by (simp add: cuts_ok_def cut_words_def)

lemma cut_words_slots:
  assumes "cuts_ok cuts"
  shows "take 1025 (take 1536 (cut_words cuts)) = cuts ! 0" "drop 1025 (take 1536 (cut_words cuts)) = replicate 511 0"
    "take 1024 (take 1536 (drop 1536 (cut_words cuts))) = cuts ! 1" "drop 1024 (take 1536 (drop 1536 (cut_words cuts))) = replicate 512 0"
  using assms by (simp_all add: cuts_ok_def cut_words_def)

lemma concat_slice:
  assumes "\<forall>x \<in> set xs. length (f x) = n" and "k < length xs"
  shows "take n (drop (k * n) (concat (map f xs))) = f (xs ! k)"
  using assms
proof (induction xs arbitrary: k)
  case (Cons x xs)
  then show ?case by (cases k) simp_all
qed simp

lemma length_concat_same: "\<forall>x \<in> set xs. length (f x) = n \<Longrightarrow> length (concat (map f xs)) = length xs * n"
  by (induction xs) simp_all

lemma nth_concat_same:
  assumes "\<forall>x \<in> set xs. length x = n" and "i < length xs" and "j < n"
  shows "concat xs ! (i * n + j) = xs ! i ! j"
  using assms
proof (induction xs arbitrary: i)
  case (Cons x xs)
  then show ?case by (cases i) (simp_all add: nth_append)
qed simp

lemma items_blocks:
  assumes "items_ok blocks items"
  shows "length (concat items) = length items * blocks" and "\<forall>cuts \<in> set (concat items). length (cut_words cuts) = 3072"
    and "length (items_words items) = length items * blocks * 3072"
proof -
  show a: "length (concat items) = length items * blocks" using length_concat_same [of items id blocks] assms by (simp add: items_ok_def)
  show b: "\<forall>cuts \<in> set (concat items). length (cut_words cuts) = 3072" using assms length_cut_words by (auto simp: items_ok_def)
  show "length (items_words items) = length items * blocks * 3072" using length_concat_same [OF b] a by (simp add: items_words_def)
qed

lemma import_block_items:
  assumes "items_ok blocks items" and "i < length items" and "b < blocks"
  shows "import_block (items_words items) blocks i b = Inr (items ! i ! b)"
proof -
  let ?w = "items_words items" and ?k = "i * blocks + b" and ?c = "items ! i ! b"
  note bl = items_blocks [OF assms(1)]
  have k: "?k < length (concat items)"
  proof -
    have "?k < (i + 1) * blocks" using assms(3) by simp
    also have "\<dots> \<le> length items * blocks" using assms(2) by (intro mult_le_mono1) simp
    finally show ?thesis using bl(1) by simp
  qed
  have c: "concat items ! ?k = ?c" using assms by (intro nth_concat_same) (simp_all add: items_ok_def)
  have "items ! i \<in> set items" using assms(2) by simp
  then have ok: "cuts_ok ?c" using assms(1,3) nth_mem [of b "items ! i"] unfolding items_ok_def by metis
  have sl: "take 3072 (drop (?k * 3072) ?w) = cut_words ?c" unfolding items_words_def c [symmetric] by (rule concat_slice [OF bl(2) k])
  have "take 1536 (drop (?k * 3072) ?w) = take 1536 (cut_words ?c)" "take 1536 (drop (?k * 3072 + 1536) ?w) = take 1536 (drop 1536 (cut_words ?c))"
    unfolding sl [symmetric] by (simp_all add: drop_take ac_simps)
  then have "import_block ?w blocks i b = Inr [?c ! 0, ?c ! 1]"
    using cut_words_slots [OF ok] unfolding import_block_def Let_def HPU_NATIVE_PC_COUNT_def HPU_NATIVE_PC_SLOT_WORDS_def HPU_NATIVE_PC0_DATA_WORDS_def
      HPU_NATIVE_PC1_DATA_WORDS_def by simp
  moreover have "[?c ! 0, ?c ! 1] = ?c" using ok by (auto simp: cuts_ok_def numeral_2_eq_2 length_Suc_conv)
  ultimately show ?thesis by simp
qed

lemma traverse_Inr: "(\<And>x. x \<in> set xs \<Longrightarrow> f x = Inr (g x)) \<Longrightarrow> traverse f xs = Inr (map g xs)"
  by (induction xs) simp_all

lemma traverse_upt: "(\<And>i. i < length ys \<Longrightarrow> f i = Inr (ys ! i)) \<Longrightarrow> traverse f [0..<length ys] = Inr ys"
  using traverse_Inr [of "[0..<length ys]" f "\<lambda>i. ys ! i"] by (simp add: map_nth)

lemma import_items:
  assumes "items_ok blocks items"
  shows "traverse (\<lambda>i. traverse (import_block (items_words items) blocks i) [0..<blocks]) [0..<length items] = Inr items"
proof (rule traverse_upt)
  fix i
  assume i: "i < length items"
  then have "length (items ! i) = blocks" using assms by (simp add: items_ok_def)
  then show "traverse (import_block (items_words items) blocks i) [0..<blocks] = Inr (items ! i)"
    using traverse_upt [of "items ! i" "import_block (items_words items) blocks i"] import_block_items [OF assms i] by simp
qed

lemma export_block_ok: "cuts_ok cuts \<Longrightarrow> export_block i b cuts = Inr (cut_words cuts)"
  by (simp add: export_block_def cuts_ok_def cut_words_def HPU_NATIVE_PC_COUNT_def HPU_NATIVE_PC_SLOT_WORDS_def HPU_NATIVE_PC0_DATA_WORDS_def HPU_NATIVE_PC1_DATA_WORDS_def)

lemma traverse_enumerate:
  "(\<And>i x. x \<in> set xs \<Longrightarrow> f (i, x) = Inr (g x)) \<Longrightarrow> traverse f (enumerate n xs) = Inr (map g xs)"
  by (induction xs arbitrary: n) (simp_all)

lemma export_items:
  assumes "items_ok blocks items"
  shows "traverse (export_item blocks) (enumerate 0 items) = Inr (map (\<lambda>item. concat (map cut_words item)) items)"
proof (rule traverse_enumerate)
  fix i item
  assume "item \<in> set items"
  then have l: "length item = blocks" "\<forall>cuts \<in> set item. cuts_ok cuts" using assms by (auto simp: items_ok_def)
  have "traverse (\<lambda>(b, block). export_block i b block) (enumerate 0 item) = Inr (map cut_words item)"
    using l(2) by (intro traverse_enumerate) (simp add: export_block_ok)
  then show "export_item blocks (i, item) = Inr (concat (map cut_words item))" by (simp add: export_item_def l(1))
qed

lemma concat_items: "concat (map (\<lambda>item. concat (map cut_words item)) items) = items_words items"
  by (induction items) (simp_all add: items_words_def)

text \<open>The device of the psi64 parameter set.\<close>

definition psi64 :: "hpu \<Rightarrow> bool" where
  "psi64 h \<longleftrightarrow> hp_lwe_dimension h = 2048 \<and> hp_message_width h = 2 \<and> hp_carry_width h = 2 \<and> hp_big_dimension h = 2048 \<and> hp_pem_pc h = 2
     \<and> hp_coef_nb h = 32 \<and> hp_ntt_radix h = 2 \<and> hp_ntt_stages h = 11 \<and> hp_ntt_ct_width h = 64 \<and> hp_pbs_ct_width h = 64"

definition native_md :: "nat \<Rightarrow> batch_metadata" where
  "native_md n = \<lparr>bm_mask_dimension = 2048, bm_item_count = of_nat n, bm_radix_blocks = 4, bm_message_width = 2, bm_carry_width = 2,
     bm_padding_bit_width = 1, bm_delta_log2 = 59, bm_word_count = of_nat (n * 4 * 3072)\<rparr>"

lemma native_md_counts:
  assumes "n * 4 * 3072 < 2 ^ 64"
  shows "unat (bm_item_count (native_md n)) = n" "unat (bm_word_count (native_md n)) = n * 4 * 3072"
    "expected_hpu_native_word_count (native_md n) = Inr (bm_word_count (native_md n))" "validate_hpu_native_payload (native_md n) = Inr ()"
proof -
  have n: "n < 2 ^ 64" "n * 4 < 2 ^ 64" using assms by linarith+
  have u: "unat (of_nat k :: u64) = k" if "k < 2 ^ 64" for k using that by (simp only: unsigned_of_nat take_bit_nat_eq_self) (simp add: take_bit_nat_eq_self)
  show c: "unat (bm_item_count (native_md n)) = n" using u [OF n(1)] by (simp add: native_md_def)
  show w: "unat (bm_word_count (native_md n)) = n * 4 * 3072" unfolding native_md_def batch_metadata.select_convs by (rule u [OF assms])
  have "checked_mul (of_nat n) 4 = Some (of_nat (n * 4))" using u [OF n(1)] n(2) by (simp add: checked_mul_def)
  moreover have "checked_mul (of_nat (n * 4)) 3072 = Some (of_nat (n * 4 * 3072))" unfolding checked_mul_def u [OF n(2)] using assms by simp
  ultimately show e: "expected_hpu_native_word_count (native_md n) = Inr (bm_word_count (native_md n))"
    unfolding expected_hpu_native_word_count_def native_md_def batch_metadata.select_convs by simp
  show "validate_hpu_native_payload (native_md n) = Inr ()" by (simp add: validate_hpu_native_payload_def e)
qed

lemma native_words_export:
  assumes "items_ok 4 items" and "length items * 4 * 3072 < 2 ^ 64"
  shows "hpu_lwe_ciphertexts_to_native_words (native_md (length items)) items = Inr (items_words items)"
proof -
  note c = native_md_counts [OF assms(2)] and l = items_blocks(3) [OF assms(1)]
  have s: "bm_radix_blocks (native_md (length items)) = 4" by (simp add: native_md_def)
  show ?thesis
    unfolding hpu_lwe_ciphertexts_to_native_words_def c(4) ebind_simps c(1,2) s using export_items [OF assms(1)] l by (simp add: concat_items)
qed

lemma native_words_import:
  assumes "psi64 h" and "items_ok 4 items" and "length items * 4 * 3072 < 2 ^ 64"
  shows "hpu_native_words_to_lwe_ciphertexts h (native_md (length items)) (items_words items) = Inr items"
proof -
  note c = native_md_counts [OF assms(3)] and l = items_blocks(3) [OF assms(2)]
  have s: "bm_mask_dimension (native_md (length items)) = 2048" "bm_radix_blocks (native_md (length items)) = 4" by (simp_all add: native_md_def)
  show ?thesis
    unfolding hpu_native_words_to_lwe_ciphertexts_def c(4) ebind_simps c(1,2) s
    using import_items [OF assms(2)] l assms(1) by (simp add: psi64_def HPU_NATIVE_PC_COUNT_def del: upt_rec_numeral)
qed

text \<open>C10. Native ciphertexts survive the wire format.  For every batch of native ciphertexts with the shape of
  the psi64 device (four blocks to an item, cuts of 1025 and 1024 words), the server exports it to
  words, with each cut padded to its slot of 1536 words; importing these words for a device of this
  kind gives back exactly the batch.\<close>

theorem native_words_roundtrip:
  assumes "psi64 h" and "items_ok 4 items" and "length items * 4 * 3072 < 2 ^ 64"
  shows "hpu_lwe_ciphertexts_to_native_words (native_md (length items)) items = Inr (items_words items)
     \<and> hpu_native_words_to_lwe_ciphertexts h (native_md (length items)) (items_words items) = Inr items"
  using native_words_export [OF assms(2,3)] native_words_import [OF assms] ..

definition psi64_hpu :: hpu where
  "psi64_hpu = \<lparr>hp_lwe_dimension = 2048, hp_message_width = 2, hp_carry_width = 2, hp_big_dimension = 2048, hp_pem_pc = 2, hp_coef_nb = 32,
     hp_ntt_radix = 2, hp_ntt_stages = 11, hp_ntt_ct_width = 64, hp_pbs_ct_width = 64, run_cpu = (\<lambda>_ x. x), run_native = (\<lambda>_ x. x),
     run_native_cpu = (\<lambda>_ x. map concat x)\<rparr>"

lemma psi64_psi64_hpu: "psi64 psi64_hpu"
  by (simp add: psi64_def psi64_hpu_def)

theorem native_words_roundtrip_witness:
  "hpu_native_words_to_lwe_ciphertexts psi64_hpu (native_md 1) (items_words [replicate 4 [replicate 1025 7, replicate 1024 9]])
     = Inr [replicate 4 [replicate 1025 7, replicate 1024 9]]"
proof -
  have "items_ok 4 [replicate 4 [replicate 1025 7, replicate 1024 9 :: u64 list]]" by (simp add: items_ok_def cuts_ok_def)
  from native_words_roundtrip [OF psi64_psi64_hpu this] show ?thesis by simp
qed

section \<open>Decrypting any native ciphertext\<close>

text \<open>The layout of the HPU, as \<^verbatim>\<open>docs/history/hpu-native-layout.md\<close> gives it, in plain arithmetic and without reference
  to either operator: the index of a mask word with its 11 bits in reverse order is cut into groups of 16 lanes,
  and the groups go to the two cuts in turn.\<close>

primrec reverse_bits :: "nat \<Rightarrow> nat \<Rightarrow> nat" where
  "reverse_bits 0 n = 0"
| "reverse_bits (Suc w) n = 2 * reverse_bits w n + n div 2 ^ w mod 2"

definition hpu_cut :: "nat \<Rightarrow> nat" where
  "hpu_cut n = (let hpu_index = reverse_bits 11 n; group = hpu_index div 16 in group mod 2)"

definition hpu_offset :: "nat \<Rightarrow> nat" where
  "hpu_offset n = (let hpu_index = reverse_bits 11 n; group = hpu_index div 16; lane = hpu_index mod 16 in group div 2 * 16 + lane)"

text \<open>The phase of a ciphertext is its body less the inner product of the key with its mask words, each taken from
  its place in this layout.\<close>

definition cut_dot :: "acc_ctx \<Rightarrow> native \<Rightarrow> u64" where
  "cut_dot ctx cuts = (\<Sum>n < 2048. if key_at ctx n then cuts ! hpu_cut n ! hpu_offset n else 0)"

definition encrypts_block :: "acc_ctx \<Rightarrow> u8 \<Rightarrow> nat \<Rightarrow> native \<Rightarrow> bool" where
  "encrypts_block ctx v b cuts \<longleftrightarrow> cuts_ok cuts \<and> (\<exists>e. small_noise e \<and> cuts ! 0 ! 1024 = cut_dot ctx cuts + (radix_block v b * DELTA + e))"

definition encrypts_byte :: "acc_ctx \<Rightarrow> u8 \<Rightarrow> native list \<Rightarrow> bool" where
  "encrypts_byte ctx v item \<longleftrightarrow> length item = 4 \<and> (\<forall>b < 4. encrypts_block ctx v b (item ! b))"

text \<open>The index function of the operator reads this layout: it takes a place of a cut to the index of the mask word that
  the layout puts there.\<close>

lemma bit_reverse_bits: "bit (reverse_bits w n) i \<longleftrightarrow> i < w \<and> bit n (w - Suc i)"
proof (induction w arbitrary: i)
  case (Suc w)
  then show ?case by (cases i) (auto simp: bit_Suc bit_0 bit_iff_odd [of n w])
qed simp

lemma bit_offset_in_cut: "bit (r div 16 div 2 * 16 + r mod 16) i \<longleftrightarrow> bit r (if i < 4 then i else Suc i)" for r :: nat
proof -
  have "push_bit 4 (drop_bit 5 r) OR take_bit 4 r = push_bit 4 (drop_bit 5 r) + take_bit 4 r"
    by (rule disjunctive_add_eq_or [symmetric]) (auto simp: bit_eq_iff bit_and_iff bit_push_bit_iff bit_take_bit_iff)
  also have "\<dots> = r div 16 div 2 * 16 + r mod 16"
    by (simp add: push_bit_eq_mult drop_bit_eq_div take_bit_eq_mod div_mult2_eq [symmetric])
  finally have "r div 16 div 2 * 16 + r mod 16 = push_bit 4 (drop_bit 5 r) OR take_bit 4 r" ..
  then show ?thesis by (auto simp: bit_or_iff bit_push_bit_iff bit_take_bit_iff bit_drop_bit_eq)
qed

lemma layout_bits:
  fixes m :: nat
  assumes "k < 1024" and m: "\<And>j. bit m j \<longleftrightarrow>
     j < 11 \<and> (6 < j \<and> bit k (10 - j) \<or> j = 6 \<and> second \<or> j < 6 \<and> bit k (9 - j))"
  shows "hpu_cut m = of_bool second" "hpu_offset m = k"
proof -
  have top: "\<not> bit k i" if "10 \<le> i" for i
    using assms(1) that bit_take_bit_iff [of 10 k i] by (auto simp: take_bit_nat_eq_self)
  have off: "bit (hpu_offset m) i \<longleftrightarrow> bit (reverse_bits 11 m) (if i < 4 then i else Suc i)" for i
    by (simp add: hpu_offset_def Let_def bit_offset_in_cut)
  have "bit (hpu_offset m) i = bit k i" for i
  proof -
    consider "i < 4" | "4 \<le> i" "i < 10" | "10 \<le> i" by linarith
    then show ?thesis
    proof cases
      case 1
      then have "10 - (10 - i) = i" "6 < 10 - i" "10 - i < 11" by auto
      with 1 show ?thesis by (simp add: off bit_reverse_bits m)
    next
      case 2
      then have "9 - (9 - i) = i" "9 - i < 6" by auto
      with 2 show ?thesis by (simp add: off bit_reverse_bits m)
    next
      case 3
      then show ?thesis by (simp add: off bit_reverse_bits top)
    qed
  qed
  then show "hpu_offset m = k" by (simp add: bit_eq_iff)
  have "hpu_cut m = of_bool (bit (reverse_bits 11 m) 4)" by (simp add: hpu_cut_def Let_def bit_iff_odd mod_2_eq_odd)
  then show "hpu_cut m = of_bool second" by (simp add: bit_reverse_bits m)
qed

lemma natural_of_layout:
  assumes "k < 1024"
  shows "hpu_cut (natural_of second k) = of_bool second" "hpu_offset (natural_of second k) = k"
proof -
  have "unat (of_nat k :: 10 word) = k" using assms by (simp add: unsigned_of_nat take_bit_nat_eq_self)
  then have "bit (of_nat k :: 10 word) i = bit k i" for i
    using bit_unsigned_iff [where ?'a = nat, of "of_nat k :: 10 word" i] by simp
  then have "bit (natural_of second k) j \<longleftrightarrow> j < 11 \<and> (6 < j \<and> bit k (10 - j) \<or> j = 6 \<and> second \<or> j < 6 \<and> bit k (9 - j))" for j
    by (simp add: natural_of_def bit_unsigned_iff bit_natural_index bit_of_bool_iff)
  then show "hpu_cut (natural_of second k) = of_bool second" "hpu_offset (natural_of second k) = k"
    using layout_bits [OF assms] by blast+
qed

lemma cut_dot_slots:
  "cut_dot ctx cuts = (\<Sum>k < 1024. if key_at ctx (natural_of False k) then cuts ! 0 ! k else 0)
     + (\<Sum>k < 1024. if key_at ctx (natural_of True k) then cuts ! 1 ! k else 0)"
proof -
  have "(\<Sum>k < 1024. if key_at ctx (natural_of b k) then cuts ! hpu_cut (natural_of b k) ! hpu_offset (natural_of b k) else 0)
      = (\<Sum>k < 1024. if key_at ctx (natural_of b k) then cuts ! of_bool b ! k else 0)" for b
    by (intro sum.cong) (simp_all add: natural_of_layout)
  from this [of False] this [of True] show ?thesis unfolding cut_dot_def
    using sum_natural [of "\<lambda>n. if key_at ctx n then cuts ! hpu_cut n ! hpu_offset n else 0"] by (simp only: of_bool_eq)
qed

lemma pack_words_split: "length ws = 8 * n \<Longrightarrow> pack_words (ws @ vs) = pack_words ws @ pack_words vs"
proof (induction n arbitrary: ws)
  case 0
  then show ?case by (simp add: pack_words_short)
next
  case (Suc n)
  define as bs where "as = take 8 ws" and "bs = drop 8 ws"
  then have "ws = as @ bs" "length as = 8" "length bs = 8 * n" using Suc.prems by simp_all
  then show ?case using Suc.IH [of bs] by (simp add: pack_words_append)
qed

lemma slot_dot_words:
  assumes "length (ws @ pad) = 1536" and "1024 \<le> length ws"
  shows "slot_dot ctx (of_bool second) (pack_words (ws @ pad)) 1024 = (\<Sum>k < 1024. if key_at ctx (natural_of second k) then ws ! k else 0)"
  unfolding slot_dot_def natural_of_def
proof (rule sum.cong [OF refl])
  fix k :: nat
  assume "k \<in> {..<1024}"
  then have "slot_word (pack_words (ws @ pad)) k = ws ! k" using assms slot_word_pack [of k "ws @ pad"] by (simp add: nth_append)
  then show "(if key_at ctx (unat (natural_index_from_pc_offset (of_bool second) (of_nat k))) then slot_word (pack_words (ws @ pad)) k else 0)
     = (if key_at ctx (unat (natural_index_from_pc_offset (of_bool second) (of_nat k))) then ws ! k else 0)" by simp
qed

lemma stream_cuts:
  assumes "cuts_ok cuts" and "at_block s" and "open_count c s" and "i + 384 \<le> 0xffffffff"
  shows "decrypt_stream_loop ctx c i s (pack_words (cut_words cuts) @ rest)
     = decrypt_stream_loop ctx c (i + 384) (end_block (s\<lparr>pc_index := 1, dbody := cuts ! 0 ! 1024, dot := cut_dot ctx cuts\<rparr>)) rest"
proof -
  let ?a = "cuts ! 0 @ replicate 511 0" and ?b = "cuts ! 1 @ replicate 512 0"
  let ?A = "pack_words ?a" and ?B = "pack_words ?b"
  have len: "length ?a = 1536" "length ?b = 1536" using assms(1) by (simp_all add: cuts_ok_def)
  have split: "pack_words (cut_words cuts) = ?A @ ?B"
    using pack_words_split [of ?a 192 ?b] len by (simp add: cut_words_def)
  have pc: "(of_bool True :: 1 word) = 1" "(of_bool False :: 1 word) = 0" by simp_all
  have body: "slot_word ?A 1024 = cuts ! 0 ! 1024" using slot_word_pack [of 1024 ?a] len assms(1) by (simp add: cuts_ok_def nth_append)
  have d0: "slot_dot ctx 0 ?A 1024 = (\<Sum>k < 1024. if key_at ctx (natural_of False k) then cuts ! 0 ! k else 0)"
    using slot_dot_words [OF len(1), of ctx False] assms(1) by (simp add: cuts_ok_def)
  have d1: "slot_dot ctx 1 ?B 1024 = (\<Sum>k < 1024. if key_at ctx (natural_of True k) then cuts ! 1 ! k else 0)"
    using slot_dot_words [OF len(2), of ctx True] assms(1) by (simp add: cuts_ok_def)
  define s1 where "s1 = s\<lparr>pc_index := 1, dot := slot_dot ctx 0 ?A 1024, dbody := cuts ! 0 ! 1024\<rparr>"
  have 1: "after_slot ctx ?A s = s1" using assms(2) body by (simp add: after_slot_def at_block_def s1_def)
  have 2: "after_slot ctx ?B s1 = end_block (s\<lparr>pc_index := 1, dbody := cuts ! 0 ! 1024, dot := cut_dot ctx cuts\<rparr>)"
    by (simp add: after_slot_def s1_def d0 d1 cut_dot_slots del: One_nat_def)
  have "decrypt_stream_loop ctx c i s (?A @ ?B @ rest) = decrypt_stream_loop ctx c (i + 192) s1 (?B @ rest)"
    using stream_slot [of ?A s c i ctx "?B @ rest"] assms(2-4) 1 len by (simp add: pack_words_not_done at_block_def)
  also have "\<dots> = decrypt_stream_loop ctx c (i + 192 + 192) (after_slot ctx ?B s1) rest"
    using stream_slot [of ?B s1 c "i + 192" ctx rest] assms(2-4) len by (simp add: pack_words_not_done at_block_def s1_def open_count_def)
  finally have "decrypt_stream_loop ctx c i s (?A @ ?B @ rest) = decrypt_stream_loop ctx c (i + 384) (after_slot ctx ?B s1) rest"
    by (simp add: add.assoc)
  then show ?thesis by (simp only: split 2 append_assoc)
qed

lemma stream_encrypted_block:
  assumes "at_byte s" and "open_count c s" and "i + 384 \<le> 0xffffffff" and "b < 4" and "encrypts_block ctx v b cuts"
  shows "decrypt_stream_loop ctx c i (partial s v b) (pack_words (cut_words cuts) @ rest)
     = decrypt_stream_loop ctx c (i + 384) (if b < 3 then partial s v (Suc b) else after_byte v s) rest"
proof -
  obtain e where e: "cuts_ok cuts" "small_noise e" "cuts ! 0 ! 1024 = cut_dot ctx cuts + (radix_block v b * DELTA + e)"
    using assms(5) by (auto simp: encrypts_block_def)
  have "at_block (partial s v b)" "open_count c (partial s v b)"
    using assms(1,2) by (auto simp: at_byte_def at_block_def partial_def open_count_def)
  from stream_cuts [OF e(1) this assms(3)] show ?thesis by (simp only: e(3) end_block_partial [OF assms(1,4) e(2)])
qed

lemma pack_item:
  assumes "length item = 4" and "\<forall>b < 4. cuts_ok (item ! b)"
  shows "pack_words (concat (map cut_words item)) = pack_words (cut_words (item ! 0)) @ pack_words (cut_words (item ! 1))
     @ pack_words (cut_words (item ! 2)) @ pack_words (cut_words (item ! 3))"
proof -
  have i: "item = [item ! 0, item ! 1, item ! 2, item ! 3]" using assms(1) by (intro nth_equalityI) (auto simp: less_Suc_eq numeral_eq_Suc)
  have l: "length (cut_words (item ! b)) = 8 * 384" if "b < 4" for b using assms(2) that by (simp add: length_cut_words)
  have "concat (map cut_words item) = cut_words (item ! 0) @ cut_words (item ! 1) @ cut_words (item ! 2) @ cut_words (item ! 3)" by (subst i) simp
  then show ?thesis using pack_words_split [OF l [of 0]] pack_words_split [OF l [of 1]] pack_words_split [OF l [of 2]] by simp
qed

lemma stream_encrypted_byte:
  assumes "at_byte s" and "open_count c s" and "i + 1536 \<le> 0xffffffff" and "encrypts_byte ctx v item"
  shows "decrypt_stream_loop ctx c i s (pack_words (concat (map cut_words item)) @ rest) = decrypt_stream_loop ctx c (i + 1536) (after_byte v s) rest"
proof -
  have start: "partial s v 0 = s" using assms(1) by (cases s) (simp add: partial_def at_byte_def)
  let ?P = "\<lambda>b. pack_words (cut_words (item ! b))"
  have enc: "length item = 4" "\<forall>b < 4. encrypts_block ctx v b (item ! b)" using assms(4) by (simp_all add: encrypts_byte_def)
  have ok: "\<forall>b < 4. cuts_ok (item ! b)" using enc(2) by (auto simp: encrypts_block_def)
  have run: "decrypt_stream_loop ctx c j (partial s v b) (?P b @ qs)
      = decrypt_stream_loop ctx c (j + 384) (if b < 3 then partial s v (Suc b) else after_byte v s) qs"
    if "b < 4" "j \<le> i + 1152" for j b qs
    using stream_encrypted_block [OF assms(1,2) _ that(1), of j ctx v "item ! b"] assms(3) enc(2) that by simp
  have "decrypt_stream_loop ctx c i (partial s v 0) (?P 0 @ ?P 1 @ ?P 2 @ ?P 3 @ rest)
      = decrypt_stream_loop ctx c (i + 384) (partial s v 1) (?P 1 @ ?P 2 @ ?P 3 @ rest)"
    using run [of 0 i] by simp
  also have "\<dots> = decrypt_stream_loop ctx c (i + 384 + 384) (partial s v 2) (?P 2 @ ?P 3 @ rest)"
    using run [of 1 "i + 384"] by (simp add: numeral_2_eq_2)
  also have "\<dots> = decrypt_stream_loop ctx c (i + 384 + 384 + 384) (partial s v 3) (?P 3 @ rest)"
    using run [of 2 "i + 384 + 384"] by (simp add: numeral_3_eq_3)
  also have "\<dots> = decrypt_stream_loop ctx c (i + 384 + 384 + 384 + 384) (after_byte v s) rest"
    using run [of 3 "i + 384 + 384 + 384"] by simp
  finally have "decrypt_stream_loop ctx c i s (?P 0 @ ?P 1 @ ?P 2 @ ?P 3 @ rest) = decrypt_stream_loop ctx c (i + 1536) (after_byte v s) rest"
    by (simp add: start add.assoc)
  then show ?thesis by (simp only: pack_item [OF enc(1) ok] append_assoc)
qed

lemma pack_items:
  assumes "length item = 4" and "\<forall>b < 4. cuts_ok (item ! b)"
  shows "pack_words (items_words (item # items)) = pack_words (concat (map cut_words item)) @ pack_words (items_words items)"
proof -
  have "\<forall>cuts \<in> set item. length (cut_words cuts) = 3072" using assms by (auto simp: length_cut_words in_set_conv_nth)
  then have "length (concat (map cut_words item)) = 8 * 1536" using length_concat_same [of item cut_words 3072] assms(1) by simp
  then show ?thesis using pack_words_split [of "concat (map cut_words item)" 1536 "items_words items"] by (simp add: items_words_def)
qed

lemma stream_encrypted_bytes:
  assumes "list_all2 (encrypts_byte ctx) vs items" and "at_byte s" and "i + 1536 * length vs \<le> 0xffffffff"
    and "d_input_count cd = 0 \<or> unat (processed_count s) + length vs \<le> unat (d_input_count cd)"
  shows "decrypt_stream_loop ctx cd i s (pack_words (items_words items) @ rest)
     = decrypt_stream_loop ctx cd (i + 1536 * length vs) (fold after_byte vs s) rest"
  using assms
proof (induction vs items arbitrary: i s rule: list_all2_induct)
  case Nil
  then show ?case by (simp add: items_words_def pack_words_short)
next
  case (Cons v vs item items)
  have oc: "open_count cd s" using Cons.prems(3) by (auto simp: open_count_def word_less_nat_alt)
  have enc: "length item = 4" "\<forall>b < 4. cuts_ok (item ! b)" using Cons.hyps(1) by (auto simp: encrypts_byte_def encrypts_block_def)
  have "decrypt_stream_loop ctx cd i s (pack_words (items_words (item # items)) @ rest)
      = decrypt_stream_loop ctx cd (i + 1536) (after_byte v s) (pack_words (items_words items) @ rest)"
    unfolding pack_items [OF enc] append_assoc using stream_encrypted_byte [OF Cons.prems(1) oc _ Cons.hyps(1)] Cons.prems(2) by simp
  also have "\<dots> = decrypt_stream_loop ctx cd (i + 1536 + 1536 * length vs) (fold after_byte vs (after_byte v s)) rest"
    using Cons.IH [OF at_byte_after [OF Cons.prems(1)] _ count_after_byte [of cd s "length vs"], of "i + 1536" v] Cons.prems(2,3) by simp
  finally show ?case by (simp add: ac_simps)
qed

end
