(* ===== verification/Nest_Pipeline.thy ===== *)
theory Nest_Pipeline
  imports Remote_Native
begin

unbundle bit_operations_syntax

text \<open>
  The data path of the system from end to end: bytes are encrypted by the operator of the device, the
  host sends the ciphertext words to the HPU server, the server computes on them, the host gives the
  words that come back to the decryption operator.
\<close>

section \<open>Decrypting a batch\<close>

lemma lwe_decrypt_items:
  assumes "cd = read_dec_cfg (ctx ! 3)" and "dec_native cd" and "list_all2 (encrypts_byte ctx) vs items"
    and "is_suda_done_packet fin" and "d_input_count cd = 0 \<or> unat (d_input_count cd) = length vs" and "1536 * length vs < 0xffffffff"
  shows "\<exists>out. lwe_decrypt ctx (pack_words (items_words items) @ fin # rest) = Inr (out @ [fin], rest) \<and> stream_bytes out = vs
     \<and> (\<forall>p \<in> set out. \<not> is_suda_done_packet p)"
proof -
  define s where "s = fold after_byte vs dec_start"
  have s: "packs (packed s) vs" "at_byte s" "processed_count s = of_nat (length vs)"
    using fold_after_byte [OF dec_start_ok(2,1), of vs] by (simp_all add: s_def dec_start_def)
  have "length vs < 2 ^ 32" using assms(6) by simp
  then have cnt: "d_input_count cd = 0 \<or> processed_count s = d_input_count cd"
    using s(3) assms(5) by (auto simp: word_unat_eq_iff unsigned_of_nat take_bit_nat_eq_self)
  have "d_input_count cd = 0 \<or> unat (processed_count dec_start) + length vs \<le> unat (d_input_count cd)"
    using assms(5) by (auto simp: dec_start_def)
  then have "lwe_decrypt ctx (pack_words (items_words items) @ fin # rest) = decrypt_stream_loop ctx cd (1536 * length vs) s (fin # rest)"
    unfolding lwe_decrypt_native [OF assms(1,2)]
    using stream_encrypted_bytes [OF assms(3) dec_start_ok(1), of 0 cd "fin # rest"] assms(6) by (simp add: s_def)
  also have "\<dots> = Inr (bk_out (flush_clear_packet (packed s)) @ [fin], rest)"
    using assms(4,6) cnt s(2) by (auto simp: at_byte_def at_block_def forward_done_packet_def)
  finally show ?thesis using packs_flush [OF s(1)] by blast
qed

text \<open>C12. The decryption is correct for every ciphertext.  Take any batch of ciphertexts in the layout of the HPU,
  whoever computed them, such that for each block of two bits the body less the inner product of the
  mask with the key is the scaled value plus a noise below half the scaling factor; the inner product takes mask
  word \<open>n\<close> from the cut and the offset that the documented layout gives to index \<open>n\<close> (bit reversal, groups of 16
  lanes, the two cuts in turn), which is written down apart from the operator.  Its words, eight
  to a packet and followed by the finish marker, come out of the operator as packets that hold exactly
  the encrypted bytes, followed by the marker.\<close>

theorem lwe_decrypt_correct:
  assumes "cd = read_dec_cfg (ctx ! 3)" and "dec_native cd" and "list_all2 (encrypts_byte ctx) vs items"
    and "is_suda_done_packet fin" and "d_input_count cd = 0 \<or> unat (d_input_count cd) = length vs" and "1536 * length vs < 0xffffffff"
  shows "\<exists>out. lwe_decrypt ctx (pack_words (items_words items) @ fin # rest) = Inr (out @ [fin], rest) \<and> stream_bytes out = vs
     \<and> (\<forall>p \<in> set out. \<not> is_suda_done_packet p)"
  by (rule lwe_decrypt_items [OF assms])

text \<open>A ciphertext without mask and noise.\<close>

definition trivial_item :: "u8 \<Rightarrow> native list" where
  "trivial_item v = map (\<lambda>b. [replicate 1024 0 @ [radix_block v b * DELTA], replicate 1024 0]) [0..<4]"

lemma trivial_item_encrypts: "encrypts_byte ctx v (trivial_item v)"
proof -
  have "cut_dot ctx [replicate 1024 0 @ [x], replicate 1024 0] = 0" for x
  proof -
    have "(\<Sum>k < 1024. if key_at ctx (natural_of False k) then (replicate 1024 0 @ [x]) ! k else 0) = 0" by (intro sum.neutral) (simp add: nth_append)
    moreover have "(\<Sum>k < 1024. if key_at ctx (natural_of True k) then replicate 1024 (0 :: u64) ! k else 0) = 0" by (intro sum.neutral) simp
    ultimately show ?thesis unfolding cut_dot_slots One_nat_def nth_Cons_0 nth_Cons_Suc by simp
  qed
  then have "encrypts_block ctx v b [replicate 1024 0 @ [radix_block v b * DELTA], replicate 1024 0]" for b
    by (simp add: encrypts_block_def cuts_ok_def nth_append exI [of _ 0] small_noise_def)
  then show ?thesis by (simp add: encrypts_byte_def trivial_item_def del: upt_rec_numeral)
qed

definition sample_fin :: acc_pkt where "sample_fin = finish_pkt 0"

lemma sample_fin_done: "is_suda_done_packet sample_fin"
  by (simp add: sample_fin_def is_suda_done_packet_def finish_pkt_def get_range_def)

lemma sample_dec_native: "dec_native (read_dec_cfg (sample_dec_ctx ! 3))"
  by (simp add: sample_cfgs dec_native_def)

theorem lwe_decrypt_correct_witness:
  "\<exists>out. lwe_decrypt sample_dec_ctx (pack_words (items_words (map trivial_item [0x11, 0x07, 0x2A])) @ [sample_fin]) = Inr (out @ [sample_fin], [])
     \<and> stream_bytes out = [0x11, 0x07, 0x2A]"
proof -
  have "list_all2 (encrypts_byte sample_dec_ctx) [0x11, 0x07, 0x2A] (map trivial_item [0x11, 0x07, 0x2A])" by (simp add: trivial_item_encrypts)
  from lwe_decrypt_correct [OF refl sample_dec_native this sample_fin_done, of "[]"] show ?thesis by (auto simp: sample_cfgs)
qed

section \<open>What the encryption writes\<close>

definition native_cuts :: "acc_ctx \<Rightarrow> u64 \<Rightarrow> u64 \<Rightarrow> native" where
  "native_cuts ctx s m = [native_pc s False @ [inner ctx s 2048 + m], native_pc s True]"

definition enc_item :: "acc_ctx \<Rightarrow> enc_cfg \<Rightarrow> u32 \<Rightarrow> u8 \<Rightarrow> native list" where
  "enc_item ctx c idx v = map (\<lambda>b. native_cuts ctx (enc_rng c idx b) (radix_block v b * DELTA + enc_noise c idx b)) [0..<4]"

fun enc_items :: "acc_ctx \<Rightarrow> enc_cfg \<Rightarrow> u32 \<Rightarrow> u8 list \<Rightarrow> native list list" where
  "enc_items ctx c idx [] = []"
| "enc_items ctx c idx (v # vs) = enc_item ctx c idx v # enc_items ctx c (idx + 1) vs"

lemma length_enc_items [simp]: "length (enc_items ctx c idx vs) = length vs"
  by (induction vs arbitrary: idx) simp_all

lemma native_cuts_words: "stream_words (native_packets ctx s m) = cut_words (native_cuts ctx s m)"
  by (simp add: native_stream_words native_cuts_def cut_words_def)

lemma stream_words_concat: "stream_words (concat pss) = concat (map stream_words pss)"
  by (induction pss) simp_all

lemma enc_item_words: "stream_words (byte_packets ctx (enc_rng c idx) (enc_noise c idx) v) = concat (map cut_words (enc_item ctx c idx v))"
  by (simp add: byte_packets_def enc_item_def stream_words_concat comp_def native_cuts_words del: upt_rec_numeral)

lemma enc_items_words: "stream_words (enc_bytes ctx c idx vs) = items_words (enc_items ctx c idx vs)"
  by (induction vs arbitrary: idx) (simp_all add: enc_item_words items_words_def)

lemma native_cuts_dot: "cut_dot ctx (native_cuts ctx s m) = inner ctx s 2048"
proof -
  have f: "(\<Sum>k < 1024. if key_at ctx (natural_of False k) then (native_pc s False @ [x]) ! k else 0)
      = (\<Sum>k < 1024. if key_at ctx (natural_of False k) then mask_at s (natural_of False k) else 0)" for x
    by (intro sum.cong) (auto simp: nth_append native_pc_def natural_of_def)
  have t: "(\<Sum>k < 1024. if key_at ctx (natural_of True k) then native_pc s True ! k else 0)
      = (\<Sum>k < 1024. if key_at ctx (natural_of True k) then mask_at s (natural_of True k) else 0)"
    by (intro sum.cong) (auto simp: native_pc_def natural_of_def)
  show ?thesis unfolding cut_dot_slots native_cuts_def One_nat_def nth_Cons_0 nth_Cons_Suc f t
    using sum_natural [of "\<lambda>n. if key_at ctx n then mask_at s n else 0"] by (simp add: inner_def)
qed

lemma cut_dot_key:
  assumes "same_key ctx ctx'"
  shows "cut_dot ctx' cuts = cut_dot ctx cuts"
proof -
  have "key_at ctx' (natural_of b k) = key_at ctx (natural_of b k)" for b k
    using same_key_at [OF assms, of "natural_of b k"] unsigned_less [where ?'a = nat and ?'b = 11] by (auto simp: natural_of_def)
  then show ?thesis by (simp add: cut_dot_slots)
qed

lemma enc_item_encrypts:
  assumes "same_key ctx ctx'" and "\<forall>idx b. small_noise (enc_noise c idx b)"
  shows "encrypts_byte ctx' v (enc_item ctx c idx v)"
proof -
  have "encrypts_block ctx' v b (native_cuts ctx s (radix_block v b * DELTA + e))" if "small_noise e" for b s e
    using that cut_dot_key [OF assms(1)] native_cuts_dot [of ctx s "radix_block v b * DELTA + e"]
    by (auto simp: encrypts_block_def cuts_ok_def native_cuts_def nth_append)
  then show ?thesis using assms(2) by (simp add: encrypts_byte_def enc_item_def del: upt_rec_numeral)
qed

lemma enc_items_encrypt:
  assumes "same_key ctx ctx'" and "\<forall>idx b. small_noise (enc_noise c idx b)"
  shows "list_all2 (encrypts_byte ctx') vs (enc_items ctx c idx vs)"
  by (induction vs arbitrary: idx) (simp_all add: enc_item_encrypts [OF assms])

lemma encrypted_items_ok: "list_all2 (encrypts_byte ctx) vs items \<Longrightarrow> items_ok 4 items"
  by (induction rule: list_all2_induct) (auto simp: items_ok_def encrypts_byte_def encrypts_block_def in_set_conv_nth)

section \<open>The request of the host\<close>

lemma native_md_valid:
  assumes "0 < n" and "n < 2 ^ 32"
  shows "validate_metadata (native_md n) (n * 4 * 3072) 3 = None"
proof -
  have u: "unat (of_nat k :: u64) = k" if "k < 2 ^ 48" for k using that by (simp add: unsigned_of_nat take_bit_nat_eq_self)
  have i: "(of_nat n :: u64) \<noteq> 0" using u [of n] assms by (auto simp: word_unat_eq_iff)
  have mult: "(of_nat n :: u64) * 4 = of_nat (n * 4)" "(of_nat (n * 4) :: u64) * 3072 = of_nat (n * 4 * 3072)" by simp_all
  have un: "unat (of_nat n :: u64) = n" "unat (of_nat (n * 4) :: u64) = n * 4" "unat (of_nat (n * 4 * 3072) :: u64) = n * 4 * 3072"
    using u [of n] u [of "n * 4"] u [of "n * 4 * 3072"] assms(2) by auto
  have le: "\<not> (of_nat n :: u64) > (- 1) div 4" "\<not> (of_nat (n * 4) :: u64) > (- 1) div 2049" "\<not> (of_nat (n * 4) :: u64) > (- 1) div 3072"
    unfolding word_less_nat_alt unat_div un using assms(2) by (simp_all add: unsigned_minus_1_eq_mask mask_eq_exp_minus_1)
  show ?thesis
    unfolding validate_metadata_def native_md_def batch_metadata.select_convs Let_def mult kHpuNativeWordsPerLwe_def
    using i le un(3) by (simp add: operations mult del: of_nat_mult)
qed

lemma process_native:
  assumes "psi64 h" and "items_ok 4 items" and "items_ok 4 (map (run_native h scalar) items)" and "0 < length items" and "length items < 2 ^ 32"
  shows "process_request h (request_frame request_id 3 scalar (native_md (length items)) (items_words items))
     = Inr (native_md (length items), items_words (map (run_native h scalar) items))"
proof -
  let ?md = "native_md (length items)" and ?outs = "map (run_native h scalar) items"
  let ?fr = "request_frame request_id 3 scalar ?md (items_words items)"
  have n: "length items * 4 * 3072 < 2 ^ 64" using assms(5) by simp
  note v = native_md_valid [OF assms(4,5)] and c = native_md_counts [OF n]
  have valid: "validate ?md = Inr ()" using validate_accepts [OF v validate_metadata_None(7) [OF v]] by simp
  have br: "bridge_validate_metadata h ?md = Inr ()" using assms(1) valid by (simp add: bridge_validate_metadata_def psi64_def native_md_def)
  have "unat (ucast scalar :: u64) < 256" using unsigned_less [of scalar, where ?'a = nat] by (simp add: unsigned_ucast_eq take_bit_nat_eq_self)
  moreover have "ucast (ucast scalar :: u64) = scalar" by (rule bit_word_eqI) (simp add: bit_ucast_iff)
  ultimately have sc: "check_request h ?fr = Inr scalar"
    using br by (simp add: check_request_def request_frame_def supported_def operations not_le)
  have self: "?md\<lparr>bm_word_count := bm_word_count ?md\<rparr> = ?md" by simp
  have ex: "hpu_lwe_ciphertexts_to_native_words ?md ?outs = Inr (items_words ?outs)" using native_words_export [OF assms(3)] n by simp
  have len: "length (items_words ?outs) = unat (bm_word_count ?md)" using items_blocks(3) [OF assms(3)] c(2) by simp
  have f: "f_metadata ?fr = ?md" "f_words ?fr = items_words items" "f_operation ?fr = kOperationAddScalarU8HpuNativeRoundTrip"
    by (simp_all add: request_frame_def operations)
  have "kOperationAddScalarU8HpuNativeRoundTrip \<noteq> kOperationEchoU8" by (simp add: operations)
  then show ?thesis
    unfolding process_request_def sc ebind_simps Let_def f native_words_import [OF assms(1,2) n] c(3) self ex using len by simp
qed

text \<open>What the HPU promises: adding a scalar to ciphertexts of a byte gives ciphertexts of the sum.\<close>

definition hpu_adds :: "hpu \<Rightarrow> acc_ctx \<Rightarrow> u8 \<Rightarrow> bool" where
  "hpu_adds h ctx scalar \<longleftrightarrow> (\<forall>v item. encrypts_byte ctx v item \<longrightarrow> encrypts_byte ctx (v + scalar) (run_native h scalar item))"

lemma hpu_adds_all:
  "hpu_adds h ctx scalar \<Longrightarrow> list_all2 (encrypts_byte ctx) vs items
     \<Longrightarrow> list_all2 (encrypts_byte ctx) (map (\<lambda>v. v + scalar) vs) (map (run_native h scalar) items)"
  by (simp add: list_all2_map1 list_all2_map2 hpu_adds_def list.rel_mono_strong)

text \<open>C1. The whole data path computes on encrypted bytes.  A stream of clear bytes is encrypted by the device
  in the layout of the HPU; the host sends the ciphertext words with operation 3 to the server over a
  network that may interrupt and split transfers; the server, whose HPU adds a scalar to encrypted
  bytes, answers; the host gives the words it got back, eight to a packet, to the decryption operator
  with the same key.  Then every stage succeeds, and the bytes that come out are the clear bytes plus
  the scalar, modulo 256, in their order.\<close>

theorem nest_pipeline:
  assumes "c = read_enc_cfg (ctx ! 3)" and "enc_native c" and "cd = read_dec_cfg (ctx' ! 3)" and "dec_native cd" and "same_key ctx ctx'"
    and "length u0 = 1024" and "length u1 = 1024" and "is_suda_done_packet fin"
    and "\<forall>p \<in> set ps. \<not> is_suda_done_packet p \<and> (input_count c = 0 \<longrightarrow> \<not> plast p)" and "length ps < 0xffffffff"
    and "unat (input_count c) \<le> length (stream_bytes ps)"
    and "vs = (if input_count c = 0 then stream_bytes ps else take (unat (input_count c)) (stream_bytes ps))"
    and "vs \<noteq> []" and "d_input_count cd = 0 \<or> unat (d_input_count cd) = length vs" and "1536 * length vs < 0xffffffff"
    and "psi64 h" and "hpu_adds h ctx' scalar" and "n = length vs * 4 * 3072" and "n * 8 \<le> limit" and "length durations = 12"
    and "n * 8 \<le> unat (ce_max_response_bytes env)" and "ce_alloc env (n * 8)"
  shows "\<exists>mid. lwe_encrypt u0 u1 ctx (ps @ fin # rest) = Inr (mid @ [fin], rest) \<and> length (stream_words mid) = n
     \<and> (\<forall>s res conn. ready env s \<longrightarrow> patient (kernel s)
          \<longrightarrow> handle_connection h limit durations message
                \<lparr>c_in = request_bytes request_id 3 scalar (native_md (length vs)) (stream_words mid), c_out = [], c_room = None\<rparr> = (res, conn)
          \<longrightarrow> incoming s = c_out conn
          \<longrightarrow> (\<exists>r' s' out. compute_u8 env request_id 3 scalar (native_md (length vs)) (stream_words mid) (Some r) s = (Success, Some r', s')
               \<and> lwe_decrypt ctx' (pack_words (rr_words r') @ [fin]) = Inr (out @ [fin], [])
               \<and> stream_bytes out = map (\<lambda>v. v + scalar) vs))"
proof -
  define items mid where "items = enc_items ctx c 0 vs" and "mid = enc_bytes ctx c 0 vs"
  have native: "output_layout c = OUTPUT_HPU_NATIVE" "input_mode c = INPUT_U8_RADIX" using assms(2) by (simp_all add: enc_native_def)
  have vs: "wanted c 0 (stream_bytes ps) = vs" using assms(12) by (simp add: wanted_def)
  have enc: "lwe_encrypt u0 u1 ctx (ps @ fin # rest) = Inr (mid @ [fin], rest)"
    unfolding lwe_encrypt_native [OF assms(1,2)] mid_def
    using encrypt_stream_bytes [OF assms(6,7) native assms(8,9), of 0 0 ctx "[]" rest] assms(10,11) vs by simp
  have noise: "\<forall>idx b. small_noise (enc_noise c idx b)" using enc_noise_small [OF assms(1,2)] by blast
  have words: "stream_words mid = items_words items" by (simp add: mid_def items_def enc_items_words)
  have e: "list_all2 (encrypts_byte ctx') vs items" unfolding items_def by (rule enc_items_encrypt [OF assms(5) noise])
  note sum = hpu_adds_all [OF assms(17) e]
  note ok = encrypted_items_ok [OF e] encrypted_items_ok [OF sum]
  have len: "length items = length vs" "0 < length items" "length items < 2 ^ 32" using assms(13,15) by (simp_all add: items_def)
  have n: "length (stream_words mid) = n" "length (items_words (map (run_native h scalar) items)) = n"
    using items_blocks(3) [OF ok(1)] items_blocks(3) [OF ok(2)] assms(18) len(1) by (simp_all add: words)
  have proc: "process_request h (request_frame request_id 3 scalar (native_md (length vs)) (stream_words mid))
      = Inr (native_md (length vs), items_words (map (run_native h scalar) items))"
    using process_native [OF assms(16) ok len(2,3)] by (simp add: words len(1))
  have valid: "validate_metadata (native_md (length vs)) (length (stream_words mid)) 3 = None"
    using native_md_valid [of "length vs"] len n(1) assms(18) by simp
  have small: "length (stream_words mid) * 8 < 2 ^ 64" "length (stream_words mid) * 8 \<le> limit" using n(1) assms(18,19) len(1,3) by simp_all
  have sup: "supported 3" by (simp add: supported_def operations)
  have fits: "n * 8 = (case process_request h (request_frame request_id 3 scalar (native_md (length vs)) (stream_words mid)) of
      Inr (_, ws) \<Rightarrow> length ws * 8 | Inl e \<Rightarrow> length (message e))" by (simp add: proc n(2))
  obtain out where out: "lwe_decrypt ctx' (pack_words (items_words (map (run_native h scalar) items)) @ [fin]) = Inr (out @ [fin], [])"
    "stream_bytes out = map (\<lambda>v. v + scalar) vs"
    using lwe_decrypt_items [OF assms(3,4) sum assms(8), of "[]"] assms(14,15) by auto
  show ?thesis
  proof (intro exI [of _ mid] conjI allI impI)
    fix s res conn
    assume run: "ready env s" "patient (kernel s)" "handle_connection h limit durations message
         \<lparr>c_in = request_bytes request_id 3 scalar (native_md (length vs)) (stream_words mid), c_out = [], c_room = None\<rparr> = (res, conn)"
      "incoming s = c_out conn"
    from remote_call [OF run(1,2) valid sup small assms(20) run(3,4) fits assms(21,22), of r] obtain r' s' where
      "compute_u8 env request_id 3 scalar (native_md (length vs)) (stream_words mid) (Some r) s = (Success, Some r', s')"
      "rr_words r' = items_words (map (run_native h scalar) items)" unfolding proc by auto
    then show "\<exists>r' s' out. compute_u8 env request_id 3 scalar (native_md (length vs)) (stream_words mid) (Some r) s = (Success, Some r', s')
       \<and> lwe_decrypt ctx' (pack_words (rr_words r') @ [fin]) = Inr (out @ [fin], []) \<and> stream_bytes out = map (\<lambda>v. v + scalar) vs"
      using out by auto
  qed (use enc n in simp_all)
qed

text \<open>A device that adds by decrypting with the key and encrypting the sum anew.\<close>

definition read_item :: "acc_ctx \<Rightarrow> native list \<Rightarrow> u8" where
  "read_item ctx item = fold (\<lambda>b acc. acc OR push_bit (2 * b) (ucast (decode_radix_block (item ! b ! 0 ! 1024) (cut_dot ctx (item ! b))))) [0..<4] 0"

lemma read_item_encrypted:
  assumes "encrypts_byte ctx v item"
  shows "read_item ctx item = v"
proof -
  have d: "decode_radix_block (item ! b ! 0 ! 1024) (cut_dot ctx (item ! b)) = get_range (2 * b) v" if "b < 4" for b
  proof -
    have "encrypts_block ctx v b (item ! b)" using assms that by (simp add: encrypts_byte_def)
    then obtain e where "small_noise e" "item ! b ! 0 ! 1024 = cut_dot ctx (item ! b) + (radix_block v b * DELTA + e)"
      by (auto simp: encrypts_block_def)
    then show ?thesis using decode_block by simp
  qed
  have "fold (\<lambda>b acc. acc OR push_bit (2 * b) (ucast (decode_radix_block (item ! b ! 0 ! 1024) (cut_dot ctx (item ! b))))) [0..<k] 0 = take_bit (2 * k) v"
    if "k \<le> 4" for k using that
  proof (induction k)
    case (Suc k)
    then show ?case using reconstruct_block [of k v] d [of k] by simp
  qed simp
  from this [of 4] show ?thesis by (simp add: read_item_def take_bit_word_eq_self del: upt_rec_numeral)
qed

definition adding_hpu :: "acc_ctx \<Rightarrow> hpu" where
  "adding_hpu ctx = psi64_hpu\<lparr>run_native := (\<lambda>scalar item. trivial_item (read_item ctx item + scalar))\<rparr>"

lemma adding_hpu_ok: "psi64 (adding_hpu ctx)" "hpu_adds (adding_hpu ctx) ctx scalar"
  by (simp_all add: psi64_def psi64_hpu_def hpu_adds_def adding_hpu_def read_item_encrypted trivial_item_encrypts)

definition big_env :: "nat call_env" where
  "big_env = sample_env\<lparr>ce_max_response_bytes := 10000000\<rparr>"

lemma big_env_ready: "ready big_env (sample_net bs)"
  using sample_ready(1) [of bs] by (simp add: big_env_def ready_def)

theorem nest_pipeline_witness:
  "\<forall>r. \<exists>mid s r' s' out. lwe_encrypt (replicate 1024 0) (replicate 1024 0) sample_enc_ctx [sample_input, sample_fin] = Inr (mid @ [sample_fin], [])
     \<and> compute_u8 big_env 9 3 5 (native_md 3) (stream_words mid) (Some r) s = (Success, Some r', s')
     \<and> lwe_decrypt sample_dec_ctx (pack_words (rr_words r') @ [sample_fin]) = Inr (out @ [sample_fin], []) \<and> stream_bytes out = [0x16, 0x0C, 0x2F]"
proof
  fix r
  let ?c = "read_enc_cfg (sample_enc_ctx ! 3)" and ?cd = "read_dec_cfg (sample_dec_ctx ! 3)" and ?h = "adding_hpu sample_dec_ctx" and ?vs = "[0x11, 0x07, 0x2A :: u8]"
  have e: "enc_native ?c" by (simp add: sample_cfgs enc_native_def INPUT_U8_RADIX_def NOISE_INPUT_def OUTPUT_HPU_NATIVE_def)
  have k: "same_key sample_enc_ctx sample_dec_ctx"
    by (auto simp: same_key_def sample_enc_ctx_def sample_dec_ctx_def less_Suc_eq numeral_eq_Suc)
  have p: "\<forall>p \<in> set [sample_input]. \<not> is_suda_done_packet p \<and> (input_count ?c = 0 \<longrightarrow> \<not> plast p)"
    by (simp add: is_suda_done_packet_def sample_input_def payload_pkt_def)
  have n: "unat (input_count ?c) \<le> length (stream_bytes [sample_input])" unfolding sample_input_bytes by (simp add: sample_cfgs)
  have v: "?vs = (if input_count ?c = 0 then stream_bytes [sample_input] else take (unat (input_count ?c)) (stream_bytes [sample_input]))"
    unfolding sample_input_bytes by (simp add: sample_cfgs)
  have prem: "length (replicate 1024 (0 :: u64)) = 1024" "length [sample_input] < 0xffffffff" "?vs \<noteq> []" "d_input_count ?cd = 0 \<or> unat (d_input_count ?cd) = length ?vs"
    "1536 * length ?vs < 0xffffffff" "length ?vs * 4 * 3072 = length ?vs * 4 * 3072" "length ?vs * 4 * 3072 * 8 \<le> (10000000 :: nat)" "length (replicate 12 (1 :: u64)) = 12"
    "length ?vs * 4 * 3072 * 8 \<le> unat (ce_max_response_bytes big_env)" "ce_alloc big_env (length ?vs * 4 * 3072 * 8)"
    by (simp_all add: sample_cfgs big_env_def sample_env_def)
  note pipe = nest_pipeline [where rest = "[]" and message = "\<lambda>_. []" and request_id = 9 and r = r and scalar = 5,
    OF refl e refl sample_dec_native k prem(1,1) sample_fin_done p prem(2) n v prem(3-5) adding_hpu_ok prem(6-10)]
  have three: "length ?vs = 3" "map (\<lambda>v. v + 5) ?vs = [0x16, 0x0C, 0x2F]" "[sample_input] @ [sample_fin] = [sample_input, sample_fin]" by simp_all
  show "\<exists>mid s r' s' out. lwe_encrypt (replicate 1024 0) (replicate 1024 0) sample_enc_ctx [sample_input, sample_fin] = Inr (mid @ [sample_fin], [])
     \<and> compute_u8 big_env 9 3 5 (native_md 3) (stream_words mid) (Some r) s = (Success, Some r', s')
     \<and> lwe_decrypt sample_dec_ctx (pack_words (rr_words r') @ [sample_fin]) = Inr (out @ [sample_fin], []) \<and> stream_bytes out = [0x16, 0x0C, 0x2F]"
  proof (rule exE [OF pipe [unfolded three]], elim conjE)
    fix mid
    assume m: "lwe_encrypt (replicate 1024 0) (replicate 1024 0) sample_enc_ctx [sample_input, sample_fin] = Inr (mid @ [sample_fin], [])"
      and run: "\<forall>s res conn. ready big_env s \<longrightarrow> patient (kernel s)
          \<longrightarrow> handle_connection ?h 10000000 (replicate 12 1) (\<lambda>_. [])
                \<lparr>c_in = request_bytes 9 3 5 (native_md 3) (stream_words mid), c_out = [], c_room = None\<rparr> = (res, conn)
          \<longrightarrow> incoming s = c_out conn
          \<longrightarrow> (\<exists>r' s' out. compute_u8 big_env 9 3 5 (native_md 3) (stream_words mid) (Some r) s = (Success, Some r', s')
               \<and> lwe_decrypt sample_dec_ctx (pack_words (rr_words r') @ [sample_fin]) = Inr (out @ [sample_fin], [])
               \<and> stream_bytes out = [0x16, 0x0C, 0x2F])"
    define H where "H = handle_connection ?h 10000000 (replicate 12 1) (\<lambda>_. [])
       \<lparr>c_in = request_bytes 9 3 5 (native_md 3) (stream_words mid), c_out = [], c_room = None\<rparr>"
    have h: "H = (fst H, snd H)" by simp
    have "incoming (sample_net (c_out (snd H))) = c_out (snd H)" by (simp add: sample_net_def)
    note run [rule_format, OF big_env_ready sample_ready(2) h [unfolded H_def] this [unfolded H_def]]
    with m show ?thesis by blast
  qed
qed

end
