(* ===== verification/Host_Prps.thy ===== *)
theory Host_Prps
  imports Nest_Prelude
begin

unbundle bit_operations_syntax

text \<open>
  The page lists of the host driver (\<^verbatim>\<open>host/drivers/nvmq/qdma.c\<close>): \<^verbatim>\<open>nvme_qdma_setup_prps\<close> turns the scatter
  list of a request into the two page pointers of an NVMe command and, for more than two pages, a list of
  pointers, each tagged with the function, queue and command it belongs to.

  A scatter list is the list of its mapped entries.  The C \<^verbatim>\<open>int\<close> lengths are \<open>int\<close>: they start below \<open>2 ^ 31\<close>
  and only decrease, by at most a page past zero.  Addresses are 64-bit words.
\<close>

section \<open>Tags of addresses\<close>

definition nvme_qdma_req_get_addr_prefix :: "u8 \<Rightarrow> u16 \<Rightarrow> u16 \<Rightarrow> u64" where
  "nvme_qdma_req_get_addr_prefix func_id qid cid =
     push_bit 63 1 OR push_bit 61 (ucast func_id) OR push_bit 58 (ucast qid) OR push_bit 48 (ucast cid)"

lemma prefix_low: "n < 48 \<Longrightarrow> \<not> bit (nvme_qdma_req_get_addr_prefix f q c) n"
  unfolding nvme_qdma_req_get_addr_prefix_def bit_or_iff bit_push_bit_iff by linarith

section \<open>Page pointers\<close>

type_synonym sg_entry = "u64 \<times> int"

datatype blk_status = BLK_STS_OK | BLK_STS_RESOURCE | BLK_STS_IOERR

record prp_cmd =
  prp1 :: u64
  prp2 :: u64
  lba1 :: u64
  lba2 :: u64

text \<open>The loop over the pages after the first.  It returns whether the list is complete; \<^verbatim>\<open>false\<close> is the jump to
  \<^verbatim>\<open>bad_sgl\<close>.  The index only grows by one from zero, so that the test for equality with the capacity is
  the test for not being below it.\<close>

function prp_loop ::
    "nat \<Rightarrow> int \<Rightarrow> u64 \<Rightarrow> nat \<Rightarrow> int \<Rightarrow> u64 \<Rightarrow> int \<Rightarrow> sg_entry list \<Rightarrow> u64 list \<Rightarrow> (bool \<times> u64 list) res" where
  "prp_loop capacity page_size addr_prefix i dma_len dma_addr len sgs prp_list =
     (if \<not> i < capacity then Inl AssertFail
      else rbind (arr_set prp_list i (dma_addr OR addr_prefix)) (\<lambda>prp_list1.
        let dma_len1 = dma_len - page_size; dma_addr1 = dma_addr + of_int page_size; len1 = len - page_size in
        if len1 \<le> 0 then Inr (True, prp_list1)
        else if dma_len1 > 0 then prp_loop capacity page_size addr_prefix (Suc i) dma_len1 dma_addr1 len1 sgs prp_list1
        else if dma_len1 < 0 then Inr (False, prp_list1)
        else case sgs of [] \<Rightarrow> Inl NullDeref
          | (a, l) # sgs1 \<Rightarrow> prp_loop capacity page_size addr_prefix (Suc i) l a len1 sgs1 prp_list1))"
  by pat_completeness auto
termination
  by (relation "measure (\<lambda>(capacity, _, _, i, _). capacity - i)") auto

declare prp_loop.simps [simp del]

text \<open>The label \<^verbatim>\<open>done\<close>.\<close>

definition set_pointers :: "bool \<Rightarrow> u64 \<Rightarrow> u64 \<Rightarrow> u64 \<Rightarrow> prp_cmd \<Rightarrow> prp_cmd" where
  "set_pointers fill_lba addr_prefix first first_dma cmd =
     (if fill_lba then cmd\<lparr>lba1 := first OR addr_prefix, lba2 := first_dma OR addr_prefix\<rparr>
      else cmd\<lparr>prp1 := first OR addr_prefix, prp2 := first_dma OR addr_prefix\<rparr>)"

text \<open>\<open>prp_dma\<close> is the bus address of the list buffer \<open>sgl_buf\<close>, which may be missing.  The result is the status, the
  command, the buffer and the page count of the entry (\<open>-1\<close> when there is no buffer).\<close>

definition nvme_qdma_setup_prps ::
    "int \<Rightarrow> u64 \<Rightarrow> u64 \<Rightarrow> u64 list option \<Rightarrow> bool \<Rightarrow> sg_entry list \<Rightarrow> int \<Rightarrow> int \<Rightarrow> prp_cmd
      \<Rightarrow> (blk_status \<times> prp_cmd \<times> u64 list option \<times> int) res" where
  "nvme_qdma_setup_prps page_size addr_prefix prp_dma sgl_buf fill_lba sgs npages len cmd =
     (case sgs of [] \<Rightarrow> Inl NullDeref
      | (first, first_len) # sgs1 \<Rightarrow>
        let offset = uint (first AND (of_int page_size - 1));
            len1 = len - (page_size - offset)
        in if len1 \<le> 0 then Inr (BLK_STS_OK, set_pointers fill_lba addr_prefix first 0 cmd, sgl_buf, npages)
           else let dma_len = first_len - (page_size - offset) in
             rbind (if dma_len \<noteq> 0 then Inr (first + of_int (page_size - offset), dma_len, sgs1)
                    else case sgs1 of [] \<Rightarrow> Inl NullDeref | (a, l) # sgs2 \<Rightarrow> Inr (a, l, sgs2)) (\<lambda>(dma_addr, dma_len1, sgs2).
             if len1 \<le> page_size then Inr (BLK_STS_OK, set_pointers fill_lba addr_prefix first dma_addr cmd, sgl_buf, npages)
             else case sgl_buf of
               None \<Rightarrow> Inr (BLK_STS_RESOURCE, cmd, None, - 1)
             | Some prp_list \<Rightarrow>
                 rbind (prp_loop (nat (page_size div 8)) page_size addr_prefix 0 dma_len1 dma_addr len1 sgs2 prp_list) (\<lambda>(ok, prp_list1).
                 if ok then Inr (BLK_STS_OK, set_pointers fill_lba addr_prefix first prp_dma cmd, Some prp_list1, npages)
                 else Inr (BLK_STS_IOERR, cmd, Some prp_list1, npages))))"

section \<open>What the pointers describe\<close>

text \<open>The address of byte \<open>k\<close> of a transfer, by its scatter list and by page pointers as a device reads them: the first
  pointer up to the end of its page, then the second, or the entries of the list it points to.  A device
  uses the low 48 bits of a pointer.\<close>

fun sg_byte :: "sg_entry list \<Rightarrow> int \<Rightarrow> u64" where
  "sg_byte [] k = 0"
| "sg_byte ((a, l) # sgs) k = (if k < l then a + of_int k else sg_byte sgs (k - l))"

definition addr_of :: "u64 \<Rightarrow> u64" where
  "addr_of p = take_bit 48 p"

definition prp_byte :: "int \<Rightarrow> u64 \<Rightarrow> u64 \<Rightarrow> u64 list \<Rightarrow> int \<Rightarrow> int \<Rightarrow> u64" where
  "prp_byte page_size p1 p2 entries len k =
     (let head = page_size - uint (addr_of p1) mod page_size in
      if k < head then addr_of p1 + of_int k
      else if len \<le> head + page_size then addr_of p2 + of_int (k - head)
      else addr_of (entries ! nat ((k - head) div page_size)) + of_int ((k - head) mod page_size))"

text \<open>A scatter list without gaps: every entry but the last ends at the end of a page, every entry but the first
  starts at the start of one, and no address needs more than 48 bits.\<close>

fun pages_ok :: "int \<Rightarrow> sg_entry list \<Rightarrow> bool" where
  "pages_ok page_size [] \<longleftrightarrow> True"
| "pages_ok page_size ((a, l) # sgs) \<longleftrightarrow>
     0 < l \<and> uint a + l \<le> 2 ^ 48
     \<and> (case sgs of [] \<Rightarrow> True | (b, _) # _ \<Rightarrow> (uint a + l) mod page_size = 0 \<and> uint b mod page_size = 0)
     \<and> pages_ok page_size sgs"

fun sg_total :: "sg_entry list \<Rightarrow> int" where
  "sg_total [] = 0"
| "sg_total ((a, l) # sgs) = l + sg_total sgs"

lemma addr_of_small: "uint a < 2 ^ 48 \<Longrightarrow> addr_of a = a"
  unfolding addr_of_def by (simp add: word_uint_eq_iff unsigned_take_bit_eq take_bit_int_eq_self)

lemma addr_of_prefix: "addr_of (a OR nvme_qdma_req_get_addr_prefix f q c) = addr_of a"
proof -
  have "take_bit 48 (nvme_qdma_req_get_addr_prefix f q c) = 0"
    by (rule bit_eqI) (auto simp: bit_take_bit_iff prefix_low)
  then show ?thesis by (simp add: addr_of_def take_bit_or)
qed

lemma uint_add_small: "0 \<le> k \<Longrightarrow> uint (a :: u64) + k < 2 ^ 48 \<Longrightarrow> uint (a + of_int k) = uint a + k"
proof -
  assume k: "0 \<le> k" "uint a + k < 2 ^ 48"
  have "k < 2 ^ 48" using k(2) uint_ge_0 [of a] by linarith
  then have "k < 2 ^ 64" by simp
  then have "uint (of_int k :: u64) = k" using k by (simp add: uint_word_of_int)
  with k show ?thesis by (simp add: uint_plus_if')
qed

lemma sg_byte_in_page:
  assumes "pages_ok ps R" "0 < ps" "0 \<le> k" "k < sg_total R" "R \<noteq> []" "uint (fst (hd R)) mod ps = 0"
  shows "sg_byte R k = sg_byte R (k - k mod ps) + of_int (k mod ps)"
  using assms
proof (induction R k rule: sg_byte.induct)
  case (2 a l sgs k)
  show ?case
  proof (cases "k < l")
    case True
    moreover have "k - k mod ps < l" using True "2.prems" pos_mod_sign [of ps k] by linarith
    ultimately show ?thesis by simp
  next
    case False
    then obtain b m sgs' where s: "sgs = (b, m) # sgs'" using "2.prems" by (cases sgs) auto
    have l: "l mod ps = 0" using "2.prems" s by (simp add: mod_eq_0_iff_dvd dvd_add_right_iff)
    have km: "(k - l) mod ps = k mod ps" using l by (metis diff_zero mod_diff_right_eq)
    have "l \<le> k - k mod ps"
    proof -
      have "l div ps \<le> k div ps" using False "2.prems" by (simp add: zdiv_mono1)
      then have "ps * (l div ps) \<le> ps * (k div ps)" using "2.prems" by simp
      then show ?thesis using l by (metis add.right_neutral minus_mod_eq_mult_div mult_div_mod_eq)
    qed
    then show ?thesis using "2.IH" [OF False] "2.prems" False s km by (simp add: algebra_simps)
  qed
qed simp

lemma sg_byte_small:
  "pages_ok ps R \<Longrightarrow> 0 \<le> k \<Longrightarrow> k < sg_total R \<Longrightarrow> uint (sg_byte R k) < 2 ^ 48"
  by (induction R k rule: sg_byte.induct) (auto simp: uint_add_small)

section \<open>The list is complete\<close>

text \<open>What the loop leaves behind when it starts at index \<open>i\<close> on the rest \<open>R\<close> of the scatter list: the entries before
  \<open>i\<close> are untouched and entry \<open>i + j\<close> is the tagged address of page \<open>j\<close>.\<close>

definition pages_listed :: "int \<Rightarrow> u64 \<Rightarrow> nat \<Rightarrow> sg_entry list \<Rightarrow> int \<Rightarrow> u64 list \<Rightarrow> u64 list \<Rightarrow> bool" where
  "pages_listed ps pfx i R len lst pl \<longleftrightarrow> length pl = length lst \<and> (\<forall>j<i. pl ! j = lst ! j)
     \<and> (\<forall>j. int j * ps < len \<longrightarrow> pl ! (i + j) = sg_byte R (int j * ps) OR pfx)"

lemma pages_listed_last:
  assumes "0 < ps" "len \<le> ps" "i < length lst" "sg_byte R 0 = a"
  shows "pages_listed ps pfx i R len lst (lst[i := a OR pfx])"
proof -
  have z: "j = 0" if "int j * ps < len" for j
  proof (rule ccontr)
    assume "j \<noteq> 0"
    then have "1 * ps \<le> int j * ps" using assms(1) by (intro mult_right_mono) auto
    then show False using that assms(2) by simp
  qed
  have "lst[i := a OR pfx] ! (i + j) = sg_byte R (int j * ps) OR pfx" if "int j * ps < len" for j
    using z [OF that] assms(3,4) by simp
  then show ?thesis by (simp add: pages_listed_def)
qed

lemma pages_listed_step:
  assumes "0 < ps" "pages_listed ps pfx (Suc i) R' (len - ps) (lst[i := a OR pfx]) pl" "i < length lst"
    "sg_byte R 0 = a" "\<And>k. 0 \<le> k \<Longrightarrow> sg_byte R (k + ps) = sg_byte R' k"
  shows "pages_listed ps pfx i R len lst pl"
proof -
  have "pl ! (i + j) = sg_byte R (int j * ps) OR pfx" if j: "int j * ps < len" for j
  proof (cases j)
    case 0
    have "pl ! i = lst[i := a OR pfx] ! i" using assms(2) unfolding pages_listed_def by blast
    with 0 assms(3,4) show ?thesis by simp
  next
    case (Suc m)
    have "int m * ps < len - ps" using j Suc by (simp add: algebra_simps)
    then have "pl ! (Suc i + m) = sg_byte R' (int m * ps) OR pfx" using assms(2) by (simp add: pages_listed_def)
    moreover have "sg_byte R (int j * ps) = sg_byte R' (int m * ps)"
      using assms(5) [of "int m * ps"] assms(1) Suc by (simp add: algebra_simps)
    ultimately show ?thesis using Suc by simp
  qed
  then show ?thesis using assms(2) by (simp add: pages_listed_def)
qed

lemma prp_loop_complete:
  assumes "0 < ps" "pages_ok ps ((a, l) # sgs)" "uint a mod ps = 0" "0 < len" "len \<le> sg_total ((a, l) # sgs)"
    "len \<le> ps * int (capacity - i)" "capacity \<le> length prp_list"
  shows "\<exists>pl. prp_loop capacity ps pfx i l a len sgs prp_list = Inr (True, pl)
     \<and> pages_listed ps pfx i ((a, l) # sgs) len prp_list pl"
  using assms
proof (induction capacity ps pfx i l a len sgs prp_list rule: prp_loop.induct)
  case (1 capacity ps pfx i l a len sgs prp_list)
  let ?pl = "prp_list[i := a OR pfx]"
  have i: "i < capacity" "i < length prp_list" using "1.prems" by (cases "i < capacity"; auto)+
  have set: "arr_set prp_list i (a OR pfx) = Inr ?pl" using i by simp
  have cap: "len - ps \<le> ps * int (capacity - Suc i)" "capacity \<le> length ?pl"
    using "1.prems" i by (simp_all add: of_nat_diff algebra_simps)
  have zero: "sg_byte ((a, l) # sgs) 0 = a" using "1.prems"(2) by simp
  note loop = prp_loop.simps [of capacity ps pfx i l a len sgs prp_list]
  note listed = pages_listed_step [where R = "(a, l) # sgs" and i = i and lst = prp_list and pfx = pfx, OF "1.prems"(1) _ i(2) zero]
  show ?case
  proof (cases "len \<le> ps")
    case True
    then show ?thesis
      using loop set i pages_listed_last [OF "1.prems"(1) True i(2) zero] by (auto simp: Let_def)
  next
    case more: False
    have ne: "l mod ps = 0" if "sgs \<noteq> []"
      using that "1.prems"(2,3) by (cases sgs) (auto simp: mod_eq_0_iff_dvd dvd_add_right_iff)
    have lps: "ps \<le> l"
    proof (cases "sgs = []")
      case True then show ?thesis using more "1.prems"(5) by simp
    next
      case False
      then show ?thesis using ne "1.prems"(1,2) by (auto intro: zdvd_imp_le simp: mod_eq_0_iff_dvd)
    qed
    show ?thesis
    proof (cases "l = ps")
      case True
      then obtain b m sgs' where s: "sgs = (b, m) # sgs'" using more "1.prems"(5) by (cases sgs) auto
      have "\<exists>pl. prp_loop capacity ps pfx (Suc i) m b (len - ps) sgs' ?pl = Inr (True, pl)
          \<and> pages_listed ps pfx (Suc i) sgs (len - ps) ?pl pl"
        using "1.IH"(2) [OF _ set refl refl refl _ _ _ s refl] i more True s "1.prems" cap by auto
      then obtain pl where r: "prp_loop capacity ps pfx (Suc i) m b (len - ps) sgs' ?pl = Inr (True, pl)"
        and pl: "pages_listed ps pfx (Suc i) sgs (len - ps) ?pl pl" by blast
      have "pages_listed ps pfx i ((a, l) # sgs) len prp_list pl" by (rule listed [OF pl]) (use True in simp)
      then show ?thesis using loop set i more True s r by (simp add: Let_def)
    next
      case False
      then have gt: "ps < l" using lps by simp
      have ua: "uint (a + of_int ps) = uint a + ps" using gt "1.prems"(1,2) by (intro uint_add_small) auto
      let ?R = "(a + of_int ps, l - ps) # sgs"
      have ok: "pages_ok ps ?R" "uint (a + of_int ps) mod ps = 0" 
        using "1.prems"(2,3) gt ua by (auto split: list.splits)
      have "\<exists>pl. prp_loop capacity ps pfx (Suc i) (l - ps) (a + of_int ps) (len - ps) sgs ?pl = Inr (True, pl)
          \<and> pages_listed ps pfx (Suc i) ?R (len - ps) ?pl pl"
        using "1.IH"(1) [OF _ set refl refl refl] i more gt "1.prems" cap ok by auto
      then obtain pl where r: "prp_loop capacity ps pfx (Suc i) (l - ps) (a + of_int ps) (len - ps) sgs ?pl = Inr (True, pl)"
        and pl: "pages_listed ps pfx (Suc i) ?R (len - ps) ?pl pl" by blast
      have "pages_listed ps pfx i ((a, l) # sgs) len prp_list pl" 
        by (rule listed [OF pl]) (use gt in \<open>auto simp: diff_diff_eq2\<close>)
      then show ?thesis using loop set i more gt r by (simp add: Let_def)
    qed
  qed
qed

text \<open>Past the first page the driver goes on with the rest of the first entry, or with the second one.\<close>

lemma head_bytes:
  assumes "ps = 2 ^ n" "n < 31"
  shows "uint ((a :: u64) AND (of_int ps - 1)) = uint a mod ps"
proof -
  have "(of_int ps :: u64) - 1 = mask n" using assms by (simp add: mask_eq_exp_minus_1)
  then show ?thesis using assms 
    by (simp only: take_bit_eq_mask [symmetric] unsigned_take_bit_eq) (simp add: take_bit_eq_mod)
qed

lemma head_within:
  assumes "0 < ps" "pages_ok ps ((first, fl) # sgs1)" "head = ps - uint first mod ps" "sgs1 \<noteq> []"
  shows "head \<le> fl"
proof (rule ccontr)
  assume n: "\<not> head \<le> fl"
  have "ps dvd uint first + head" unfolding assms(3) by (simp add: mod_eq_0_iff_dvd [symmetric] mod_simps algebra_simps)
  moreover have "ps dvd uint first + fl" using assms(2,4) by (cases sgs1) (auto simp: mod_eq_0_iff_dvd)
  ultimately have "ps dvd (uint first + head) - (uint first + fl)" by (rule dvd_diff)
  then have "ps \<le> head - fl" using n by (intro zdvd_imp_le) auto
  moreover have "head \<le> ps" "0 < fl" using assms(1-3) by (auto simp: pos_mod_sign)
  ultimately show False by simp
qed

lemma rest_after_head:
  assumes ps: "0 < ps" and ok: "pages_ok ps ((first, fl) # sgs1)" and head: "head = ps - uint first mod ps"
    and len: "head < len" "len \<le> sg_total ((first, fl) # sgs1)"
  shows "\<exists>a l sgs2. (if fl - head \<noteq> 0 then Inr (first + of_int head, fl - head, sgs1)
        else case sgs1 of [] \<Rightarrow> Inl NullDeref | (a, l) # sgs2 \<Rightarrow> Inr (a, l, sgs2)) = (Inr (a, l, sgs2) :: (u64 \<times> int \<times> sg_entry list) res)
     \<and> pages_ok ps ((a, l) # sgs2) \<and> uint a mod ps = 0 \<and> sg_total ((a, l) # sgs2) = sg_total ((first, fl) # sgs1) - head
     \<and> (\<forall>k. 0 \<le> k \<longrightarrow> sg_byte ((first, fl) # sgs1) (k + head) = sg_byte ((a, l) # sgs2) k)"
proof -
  have h: "0 < head" using ps head pos_mod_bound [of ps "uint first"] by auto
  have al: "(uint first + head) mod ps = 0" unfolding head by (simp add: mod_simps algebra_simps)
  have le: "head \<le> fl" using head_within [OF ps ok head] len by (cases sgs1) auto
  show ?thesis
  proof (cases "fl = head")
    case True
    then obtain b m xs where s: "sgs1 = (b, m) # xs" using len by (cases sgs1) auto
    then show ?thesis using True ok by auto
  next
    case False
    then have lt: "head < fl" using le by simp
    have u: "uint (first + of_int head) = uint first + head" using lt h ok by (intro uint_add_small) auto
    have "pages_ok ps ((first + of_int head, fl - head) # sgs1)" using ok lt u by (auto split: list.splits)
    then show ?thesis using False lt u al by (auto simp: diff_diff_eq2)
  qed
qed

text \<open>The pointers \<open>p1\<close> and \<open>p2\<close> of a command, tagged for a request, with the list \<open>b\<close> describe the first \<open>len\<close> bytes of a
  scatter list.\<close>

definition describes :: "int \<Rightarrow> u64 \<Rightarrow> sg_entry list \<Rightarrow> int \<Rightarrow> u64 \<Rightarrow> u64 \<Rightarrow> u64 list \<Rightarrow> bool" where
  "describes ps t sgs len p1 p2 b \<longleftrightarrow>
     (\<forall>k. 0 \<le> k \<and> k < len \<longrightarrow> prp_byte ps (p1 OR t) (p2 OR t) b len k = sg_byte sgs k)"

lemma describesI:
  assumes "t = nvme_qdma_req_get_addr_prefix f q c" "pages_ok ps ((a, fl) # sgs1)" "0 < ps"
    "len \<le> sg_total ((a, fl) # sgs1)" "h = ps - uint a mod ps"
    "\<And>k. h \<le> k \<Longrightarrow> k < len \<Longrightarrow> sg_byte ((a, fl) # sgs1) k =
       (if len \<le> h + ps then addr_of p2 + of_int (k - h)
        else addr_of (b ! nat ((k - h) div ps)) + of_int ((k - h) mod ps))"
  shows "describes ps t ((a, fl) # sgs1) len a p2 b"
proof -
  have a: "addr_of a = a" using assms(2) by (intro addr_of_small) auto
  have "sg_byte ((a, fl) # sgs1) k = a + of_int k" if "0 \<le> k" "k < len" "k < h" for k
    using head_within [OF assms(3,2,5)] that assms(4) by (cases sgs1) auto
  then have "prp_byte ps (a OR t) (p2 OR t) b len k = sg_byte ((a, fl) # sgs1) k" if "0 \<le> k" "k < len" for k
    using that assms(6) [of k] unfolding prp_byte_def assms(1) addr_of_prefix a Let_def assms(5) by (cases "k < h") (simp_all add: assms(5))
  then show ?thesis by (simp add: describes_def)
qed

text \<open>Two pages, or more, once the rest of the scatter list starts at the second page.\<close>

lemma rest_bytes:
  assumes R: "pages_ok ps ((b, l) # sgs2)" "uint b mod ps = 0" "sg_total ((b, l) # sgs2) = sg_total sgs - h"
    and later: "\<forall>k. 0 \<le> k \<longrightarrow> sg_byte sgs (k + h) = sg_byte ((b, l) # sgs2) k"
    and k: "h \<le> k" "k < sg_total sgs" and ps: "0 < ps"
  shows "sg_byte sgs k = sg_byte ((b, l) # sgs2) ((k - h) div ps * ps) + of_int ((k - h) mod ps)"
  using sg_byte_in_page [OF R(1) ps, of "k - h"] later [rule_format, of "k - h"] k R(2,3)
  by (simp add: minus_mod_eq_div_mult)

lemma page_start:
  assumes "pages_ok ps R" "0 < ps" "0 \<le> m" "m < sg_total R"
  shows "addr_of (sg_byte R (m div ps * ps)) = sg_byte R (m div ps * ps)"
proof (rule addr_of_small)
  have "m div ps * ps \<le> m" using assms(2) pos_mod_sign [of ps m] minus_mod_eq_div_mult [of m ps] by linarith
  then show "uint (sg_byte R (m div ps * ps)) < 2 ^ 48"
    using assms by (intro sg_byte_small) (auto simp: pos_imp_zdiv_nonneg_iff)
qed

lemma listed_bytes:
  assumes "pages_listed ps t 0 R len lst pl" "t = nvme_qdma_req_get_addr_prefix f q c" "pages_ok ps R" "0 < ps"
    "0 \<le> m" "m < len" "len \<le> sg_total R"
  shows "addr_of (pl ! nat (m div ps)) = sg_byte R (m div ps * ps)"
proof -
  have d: "0 \<le> m div ps" using assms(4,5) by (simp add: pos_imp_zdiv_nonneg_iff)
  have "m div ps * ps \<le> m" using assms(4) pos_mod_sign [of ps m] minus_mod_eq_div_mult [of m ps] by linarith
  then have "pl ! nat (m div ps) = sg_byte R (m div ps * ps) OR t"
    using assms(1,6) d unfolding pages_listed_def by (metis add_0 int_nat_eq order_le_less_trans)
  then show ?thesis using page_start [OF assms(3-5)] assms by (simp add: addr_of_prefix)
qed

text \<open>The pointers and the list of a command, entry by entry: the first pointer is the start of the transfer, the second
  is not used for one page, points to the second page for two and to the list for more; entry \<open>j\<close> of the list is
  the address of the byte that starts page \<open>j + 1\<close> of the transfer.  Every one of them carries the tag, and the
  list is written only when it is used.\<close>

definition second_pointer :: "int \<Rightarrow> u64 \<Rightarrow> sg_entry list \<Rightarrow> int \<Rightarrow> u64" where
  "second_pointer ps prp_dma sgs len =
     (let head = ps - uint (fst (hd sgs)) mod ps in
      if len \<le> head then 0 else if len \<le> head + ps then sg_byte sgs head else prp_dma)"

definition list_entries :: "int \<Rightarrow> u64 \<Rightarrow> sg_entry list \<Rightarrow> int \<Rightarrow> u64 list \<Rightarrow> u64 list \<Rightarrow> bool" where
  "list_entries ps t sgs len buf buf' \<longleftrightarrow>
     (let head = ps - uint (fst (hd sgs)) mod ps in
      if len \<le> head + ps then buf' = buf
      else length buf' = length buf \<and> (\<forall>j. int j * ps < len - head \<longrightarrow> buf' ! j = sg_byte sgs (head + int j * ps) OR t))"

lemma list_entriesI:
  assumes "pages_listed ps t 0 R (len - h) buf pl" "\<forall>k. 0 \<le> k \<longrightarrow> sg_byte sgs (k + h) = sg_byte R k" "0 < ps"
    "h = ps - uint (fst (hd sgs)) mod ps" "\<not> len \<le> h + ps"
  shows "list_entries ps t sgs len buf pl"
proof -
  have "sg_byte sgs (h + int j * ps) = sg_byte R (int j * ps)" for j
    using assms(2) [rule_format, of "int j * ps"] assms(3) by (simp add: add.commute)
  then show ?thesis using assms(1,5) unfolding list_entries_def pages_listed_def Let_def assms(4) [symmetric] by simp
qed

text \<open>C4. The page pointers describe the transfer.  For a scatter list without gaps, a page size that is a power of two and
  a transfer that the scatter list and one list page cover, \<^verbatim>\<open>nvme_qdma_setup_prps\<close> succeeds, and byte by byte the
  address that the two pointers (or the list) give to a device is the address in the scatter list.  The first pointer
  is the first address of the scatter list; the second is the address of the second page, or of the list when there
  are more than two pages, and entry \<open>j\<close> of that list is then exactly the address of the byte at which page \<open>j + 1\<close> of
  the transfer starts.  Every pointer written, those of the list included, carries the tag of the request, and
  the list is left as it was when there are at most two pages.\<close>

theorem nvme_qdma_setup_prps_correct:
  assumes "ps = 2 ^ n" "n < 31" "pages_ok ps sgs" "0 < len" "len \<le> sg_total sgs" "len \<le> ps * (ps div 8)"
    "nat (ps div 8) \<le> length buf" "t = nvme_qdma_req_get_addr_prefix f q c"
  shows "\<exists>buf'. nvme_qdma_setup_prps ps t prp_dma (Some buf) False sgs np len cmd
       = Inr (BLK_STS_OK, cmd\<lparr>prp1 := fst (hd sgs) OR t, prp2 := second_pointer ps prp_dma sgs len OR t\<rparr>, Some buf', np)
     \<and> describes ps t sgs len (fst (hd sgs)) (second_pointer ps prp_dma sgs len) buf'
     \<and> list_entries ps t sgs len buf buf'"
proof -
  obtain a fl sgs1 where s: "sgs = (a, fl) # sgs1" using assms(4,5) by (cases sgs) auto
  define h where "h = ps - uint a mod ps"
  have ps: "0 < ps" using assms(1) by simp
  have h: "0 < h" unfolding h_def using ps by simp
  have off: "ps - uint (a AND (of_int ps - 1)) = h" using head_bytes [OF assms(1,2)] h_def by simp
  have hd: "fst (hd sgs) = a" using s by simp
  note setup_unfold = nvme_qdma_setup_prps_def [of ps t prp_dma "Some buf" False sgs np len cmd, unfolded s list.case prod.case Let_def off]
  note desc = describesI [OF assms(8) assms(3) [unfolded s] ps assms(5) [unfolded s] h_def, folded s]
  note second = second_pointer_def [of ps prp_dma sgs len, unfolded hd Let_def, folded h_def]
  note kept = list_entries_def [of ps t sgs len buf, unfolded hd Let_def, folded h_def]
  show ?thesis
  proof (cases "len \<le> h")
    case True
    then show ?thesis using desc [of 0 buf] ps unfolding hd second kept unfolding s setup_unfold
      by (intro exI [of _ buf]) (simp add: set_pointers_def)
  next
    case False
    then obtain b l sgs2 where r: "(if fl - h \<noteq> 0 then Inr (a + of_int h, fl - h, sgs1)
        else case sgs1 of [] \<Rightarrow> Inl NullDeref | (a, l) # sgs2 \<Rightarrow> Inr (a, l, sgs2)) = (Inr (b, l, sgs2) :: (u64 \<times> int \<times> sg_entry list) res)"
      and R: "pages_ok ps ((b, l) # sgs2)" "uint b mod ps = 0" "sg_total ((b, l) # sgs2) = sg_total sgs - h"
      and later: "\<forall>k. 0 \<le> k \<longrightarrow> sg_byte sgs (k + h) = sg_byte ((b, l) # sgs2) k"
      using rest_after_head [OF ps assms(3) [unfolded s] h_def, of len] assms(5) s by auto
    note rest = rest_bytes [OF R later _ _ ps]
    show ?thesis
    proof (cases "len \<le> h + ps")
      case two: True
      have "addr_of b = b" using R(1) by (intro addr_of_small) auto
      moreover have "0 < l" using R(1) by simp
      ultimately have "describes ps t sgs len a b buf"
        using rest two assms(5) by (intro desc) (simp add: div_pos_pos_trivial)
      moreover have "sg_byte sgs h = b" using later [rule_format, of 0] R(1) by simp
      ultimately show ?thesis using False two r unfolding hd second kept unfolding s setup_unfold
        by (intro exI [of _ buf]) (simp add: set_pointers_def)
    next
      case many: False
      obtain pl where lp: "prp_loop (nat (ps div 8)) ps t 0 l b (len - h) sgs2 buf = Inr (True, pl)"
        and pl: "pages_listed ps t 0 ((b, l) # sgs2) (len - h) buf pl"
        using prp_loop_complete [OF ps R(1,2), of "len - h" "nat (ps div 8)" 0 buf t] False assms(5-7) R(3) h ps
        by (auto simp: pos_imp_zdiv_nonneg_iff)
      have "describes ps t sgs len a prp_dma pl"
        using rest listed_bytes [OF pl assms(8) R(1) ps] many assms(5) R(3) by (intro desc) simp
      moreover have "list_entries ps t sgs len buf pl"
        by (rule list_entriesI [OF pl later ps]) (use hd h_def many in simp_all)
      ultimately show ?thesis using False many lp r unfolding hd second unfolding s setup_unfold
        by (intro exI [of _ pl]) (simp add: set_pointers_def)
    qed
  qed
qed

theorem nvme_qdma_setup_prps_correct_witness:
  "\<exists>buf'. nvme_qdma_setup_prps 4096 (nvme_qdma_req_get_addr_prefix 1 2 3) 0x70000 (Some (replicate 512 0)) False
        [(0x1100, 0xF00), (0x5000, 0x1000), (0x9000, 0x800)] 0 0x2700 \<lparr>prp1 = 0, prp2 = 0, lba1 = 0, lba2 = 0\<rparr>
      = Inr (BLK_STS_OK, \<lparr>prp1 = 0x1100 OR nvme_qdma_req_get_addr_prefix 1 2 3,
             prp2 = 0x70000 OR nvme_qdma_req_get_addr_prefix 1 2 3, lba1 = 0, lba2 = 0\<rparr>, Some buf', 0)
     \<and> describes 4096 (nvme_qdma_req_get_addr_prefix 1 2 3) [(0x1100, 0xF00), (0x5000, 0x1000), (0x9000, 0x800)] 0x2700
         0x1100 0x70000 buf'
     \<and> length buf' = 512 \<and> buf' ! 0 = 0x5000 OR nvme_qdma_req_get_addr_prefix 1 2 3
     \<and> buf' ! 1 = 0x9000 OR nvme_qdma_req_get_addr_prefix 1 2 3"
proof -
  let ?t = "nvme_qdma_req_get_addr_prefix 1 2 3"
  let ?sgs = "[(0x1100, 0xF00), (0x5000, 0x1000), (0x9000, 0x800)] :: sg_entry list"
  let ?cmd = "\<lparr>prp1 = 0, prp2 = 0, lba1 = 0, lba2 = 0\<rparr>"
  have p2: "second_pointer 4096 0x70000 ?sgs 0x2700 = 0x70000" by (simp add: second_pointer_def)
  obtain buf' where r: "nvme_qdma_setup_prps 4096 ?t 0x70000 (Some (replicate 512 0)) False ?sgs 0 0x2700 ?cmd
        = Inr (BLK_STS_OK, ?cmd\<lparr>prp1 := 0x1100 OR ?t, prp2 := 0x70000 OR ?t\<rparr>, Some buf', 0)"
      "describes 4096 ?t ?sgs 0x2700 0x1100 0x70000 buf'"
    and b: "list_entries 4096 ?t ?sgs 0x2700 (replicate 512 0) buf'"
    using nvme_qdma_setup_prps_correct [where ps = 4096 and n = 12 and sgs = ?sgs and len = "0x2700"
        and buf = "replicate 512 0" and t = ?t and f = 1 and q = 2 and c = 3 and prp_dma = "0x70000" and np = 0 and cmd = ?cmd]
    unfolding p2 by auto
  have "int 0 * 4096 < 0x2700 - 0xF00" "int 1 * 4096 < 0x2700 - 0xF00" by simp_all
  with b have "length buf' = 512 \<and> buf' ! 0 = 0x5000 OR ?t \<and> buf' ! 1 = 0x9000 OR ?t"
    unfolding list_entries_def Let_def by (auto dest: spec [of _ 0] spec [of _ 1])
  with r show ?thesis by auto
qed

lemma bit_below:
  fixes x :: "'a :: len word"
  assumes "x < 2 ^ k" "k < LENGTH('a)" "bit x n"
  shows "n < k"
proof -
  have "x AND mask k = x" using assms(1,2) by (simp add: mask_eq_iff_w2p word_size)
  then have "bit (x AND mask k) n" using assms(3) by simp
  then show ?thesis by (simp add: bit_and_iff bit_mask_iff)
qed

lemma prefix_bit:
  "bit (nvme_qdma_req_get_addr_prefix f q c) n \<longleftrightarrow> n < 64 \<and> (n = 63 \<or> 61 \<le> n \<and> bit f (n - 61) \<or> 58 \<le> n \<and> bit q (n - 58)
     \<or> 48 \<le> n \<and> bit c (n - 48))"
  unfolding nvme_qdma_req_get_addr_prefix_def bit_or_iff bit_push_bit_iff
  by (auto simp: bit_ucast_iff bit_1_iff dest: bit_imp_le_length)

lemma prefix_fields:
  assumes "f < 4" "q < 8" "c < 1024"
  shows "bit c n \<longleftrightarrow> n < 10 \<and> bit (nvme_qdma_req_get_addr_prefix f q c) (48 + n)"
    "bit q n \<longleftrightarrow> n < 3 \<and> bit (nvme_qdma_req_get_addr_prefix f q c) (58 + n)"
    "bit f n \<longleftrightarrow> n < 2 \<and> bit (nvme_qdma_req_get_addr_prefix f q c) (61 + n)"
  using bit_below [of f 2] bit_below [of q 3] bit_below [of c 10] assms unfolding prefix_bit by fastforce+

text \<open>The tag of an address identifies the request: for functions below 4, queues below 8 and commands below 1024
  (the widths of the layout in the source) two requests with the same tag are the same request; but no field is
  masked, so that queue 8 of function 0 has the tag of queue 0 of function 1, and command 1024 of a queue that of
  command 0 of the next one.\<close>

theorem nvme_qdma_req_get_addr_prefix_identifies:
  assumes "f < 4" "q < 8" "c < 1024" "f' < 4" "q' < 8" "c' < 1024"
  shows "(nvme_qdma_req_get_addr_prefix f q c = nvme_qdma_req_get_addr_prefix f' q' c' \<longleftrightarrow> f = f' \<and> q = q' \<and> c = c')
     \<and> nvme_qdma_req_get_addr_prefix 0 8 c = nvme_qdma_req_get_addr_prefix 1 0 c
     \<and> nvme_qdma_req_get_addr_prefix f 0 1024 = nvme_qdma_req_get_addr_prefix f 1 0"
proof -
  have "f = f' \<and> q = q' \<and> c = c'" if "nvme_qdma_req_get_addr_prefix f q c = nvme_qdma_req_get_addr_prefix f' q' c'"
    using that prefix_fields [OF assms(1-3)] prefix_fields [OF assms(4-6)] by (intro conjI bit_word_eqI) simp_all
  then show ?thesis by (auto simp: nvme_qdma_req_get_addr_prefix_def)
qed

theorem nvme_qdma_req_get_addr_prefix_identifies_witness:
  "nvme_qdma_req_get_addr_prefix 1 7 1023 \<noteq> nvme_qdma_req_get_addr_prefix 2 7 1023
     \<and> nvme_qdma_req_get_addr_prefix 0 8 1023 = nvme_qdma_req_get_addr_prefix 1 0 1023"
  using nvme_qdma_req_get_addr_prefix_identifies [where f = 1 and q = 7 and c = 1023 and f' = 2 and q' = 7 and c' = 1023]
  by simp

end
