(* ===== verification/Host_Queues.thy ===== *)
theory Host_Queues
  imports Nest_Prelude
begin

unbundle bit_operations_syntax

text \<open>
  Queues of the host driver (\<^verbatim>\<open>host/drivers/nvmq/qdma.c\<close>) and their names on the two sides of the bus: how many I/O
  queues of each kind a controller gets (the first half of \<^verbatim>\<open>nvme_qdma_alloc_io_queues\<close>), which processors use
  which of them (\<^verbatim>\<open>nvme_qdma_map_queues\<close>), and the QDMA queue of an NVMe queue as the host computes it and as the device
  does (\<^verbatim>\<open>lib/nvmf/mcdma.c\<close>).

  Queue numbers of the partition are \<open>nat\<close>: they are sums of at most two nines and a number of processors.  What the
  kernel does is a parameter: the answer to the queue count request, the processors of an interrupt, and the
  default mapping of queues to processors.
\<close>

section \<open>Names of queues\<close>

definition NVME_QDMA_MAX_IO_QUEUES :: nat where
  "NVME_QDMA_MAX_IO_QUEUES = 8"

definition QDMA_PRP_FETCH_QID :: u32 where
  "QDMA_PRP_FETCH_QID = 17"

definition nvme_qid_to_qdma_qid :: "u32 \<Rightarrow> bool \<Rightarrow> u8 \<Rightarrow> u32 res" where
  "nvme_qid_to_qdma_qid qid is_data func_id =
     (if is_data then
        if qid = 0 then Inl AssertFail else Inr (qid + 32 * ucast func_id + 8)
      else if qid = 0 then Inr (32 * ucast func_id) else Inr (qid + 32 * ucast func_id))"

record qpair_name =
  qp_num :: u32
  ctrlr_num :: u16

definition nvmf_qid_to_qdma_qid :: "qpair_name \<Rightarrow> bool \<Rightarrow> u8" where
  "nvmf_qid_to_qdma_qid rqpair is_data =
     (if is_data then ucast (qp_num rqpair + ucast (ctrlr_num rqpair) * 32 + 8)
      else ucast (qp_num rqpair + ucast (ctrlr_num rqpair) * 32))"

text \<open>The queue number is the result, the controller number is stored in the pair.\<close>

definition qdma_qid_to_nvme_qid :: "u32 \<Rightarrow> qpair_name \<Rightarrow> u8 \<times> qpair_name" where
  "qdma_qid_to_nvme_qid qid rqpair = (ucast (qid mod 32), rqpair\<lparr>ctrlr_num := ucast (qid div 32)\<rparr>)"

text \<open>The order of the tree of queue pairs.\<close>

definition nvmf_mcdma_qpair_compare :: "qpair_name \<Rightarrow> qpair_name \<Rightarrow> int" where
  "nvmf_mcdma_qpair_compare rqpair1 rqpair2 =
     (if ctrlr_num rqpair1 < ctrlr_num rqpair2 then - 1
      else if ctrlr_num rqpair1 > ctrlr_num rqpair2 then 1
      else if qp_num rqpair1 < qp_num rqpair2 then - 1 else if qp_num rqpair1 > qp_num rqpair2 then 1 else 0)"

text \<open>The prefetch tags of a device, one byte per I/O queue, which the hardware reads as two 32-bit registers.  The registers
  of a controller are 64 KiB apart; their base addresses are not part of the sources.  The result is the table, and
  the address and value that are written.\<close>

definition le_word :: "u8 list \<Rightarrow> u32" where
  "le_word bs = foldr (\<lambda>b w. ucast b OR push_bit 8 w) bs 0"

definition nvmf_mcdma_write_pfch_tag ::
    "u64 \<Rightarrow> u64 \<Rightarrow> qpair_name \<Rightarrow> u8 \<Rightarrow> u8 list \<Rightarrow> (u8 list \<times> u64 \<times> u32) res" where
  "nvmf_mcdma_write_pfch_tag PFCH_TAG_LSB_ADDR PFCH_TAG_MSB_ADDR rqpair tag pfch_tag =
     (let qid = unat (qp_num rqpair - 1) in
      rbind (arr_set pfch_tag qid tag) (\<lambda>bytes.
      Inr (bytes, if qid > 4 then (PFCH_TAG_MSB_ADDR + ucast (ctrlr_num rqpair) * 0x10000, le_word (drop 4 bytes))
                  else (PFCH_TAG_LSB_ADDR + ucast (ctrlr_num rqpair) * 0x10000, le_word (take 4 bytes)))))"

section \<open>The partition of the I/O queues\<close>

record fabric_opts =
  opt_nr_io_queues :: nat
  opt_nr_write_queues :: nat
  opt_nr_poll_queues :: nat

record io_queues =
  q_default :: nat
  q_read :: nat
  q_poll :: nat

text \<open>The assignment of the granted queues to their kinds.\<close>

definition assign_io_queues :: "fabric_opts \<Rightarrow> nat \<Rightarrow> nat \<Rightarrow> nat \<Rightarrow> nat \<Rightarrow> io_queues \<Rightarrow> io_queues" where
  "assign_io_queues opts nr_read_queues nr_default_queues nr_poll_queues nr_io_queues io =
     (let (nr_io_queues1, io1) =
        (if opt_nr_write_queues opts \<noteq> 0 \<and> nr_read_queues < nr_io_queues then
           let left = nr_io_queues - nr_read_queues; d = min nr_default_queues left in
           (left - d, io\<lparr>q_read := nr_read_queues, q_default := d\<rparr>)
         else let d = min nr_read_queues nr_io_queues in (nr_io_queues - d, io\<lparr>q_default := d\<rparr>))
      in if opt_nr_poll_queues opts \<noteq> 0 \<and> nr_io_queues1 \<noteq> 0 then io1\<lparr>q_poll := min nr_poll_queues nr_io_queues1\<rparr> else io1)"

text \<open>\<open>set_queue_count\<close> is the kernel's answer to the request: an error code and the number of queues granted.  The result
  has the new queue count, if it is set.\<close>

definition nvme_qdma_count_io_queues ::
    "fabric_opts \<Rightarrow> nat \<Rightarrow> (nat \<Rightarrow> int \<times> nat) \<Rightarrow> io_queues \<Rightarrow> int \<times> nat option \<times> io_queues" where
  "nvme_qdma_count_io_queues opts num_online_cpus set_queue_count io =
     (let nr_read_queues = min (NVME_QDMA_MAX_IO_QUEUES + 1) (min (opt_nr_io_queues opts) num_online_cpus);
          nr_default_queues = min (NVME_QDMA_MAX_IO_QUEUES + 1) (min (opt_nr_write_queues opts) num_online_cpus);
          nr_poll_queues = min (opt_nr_poll_queues opts) num_online_cpus;
          (ret, nr_io_queues) = set_queue_count (nr_read_queues + nr_default_queues + nr_poll_queues)
      in if ret \<noteq> 0 then (ret, None, io)
         else if nr_io_queues = 0 then (- ENOMEM, None, io)
         else (0, Some (nr_io_queues + 1), assign_io_queues opts nr_read_queues nr_default_queues nr_poll_queues nr_io_queues io))"

definition nvme_qdma_poll_queue :: "io_queues \<Rightarrow> nat \<Rightarrow> bool" where
  "nvme_qdma_poll_queue io qid \<longleftrightarrow> qid > q_default io + q_read io"

section \<open>Processors\<close>

record queue_map =
  nr_queues :: nat
  queue_offset :: nat
  mq_map :: "nat \<Rightarrow> nat"

record tag_set =
  map_default :: queue_map
  map_read :: queue_map
  map_poll :: queue_map

text \<open>The loop over the queues of a map: \<open>False\<close> is the jump to \<^verbatim>\<open>fallback\<close>.  \<open>nqueues\<close> is the size of the array
  \<^verbatim>\<open>ctrl->queues\<close>, whose elements give the interrupt; \<open>affinity\<close> gives its processors, if it has any.\<close>

fun map_queues_loop :: "(nat \<Rightarrow> nat list option) \<Rightarrow> nat \<Rightarrow> nat \<Rightarrow> nat \<Rightarrow> queue_map \<Rightarrow> (bool \<times> queue_map) res" where
  "map_queues_loop affinity nqueues queue 0 qmap = Inr (True, qmap)"
| "map_queues_loop affinity nqueues queue (Suc n) qmap =
     (let qid = queue + queue_offset qmap + 1 in
      if \<not> qid < nqueues then Inl OutOfBounds
      else case affinity qid of None \<Rightarrow> Inr (False, qmap)
        | Some cpus \<Rightarrow> map_queues_loop affinity nqueues (Suc queue) n
            (qmap\<lparr>mq_map := fold (\<lambda>cpu m. m(cpu := queue_offset qmap + queue)) cpus (mq_map qmap)\<rparr>))"

definition blk_mq_qdma_map_queues ::
    "(nat \<Rightarrow> nat list option) \<Rightarrow> (queue_map \<Rightarrow> queue_map) \<Rightarrow> nat \<Rightarrow> queue_map \<Rightarrow> queue_map res" where
  "blk_mq_qdma_map_queues affinity blk_mq_map_queues nqueues qmap =
     rbind (map_queues_loop affinity nqueues 0 (nr_queues qmap) qmap) (\<lambda>(ok, qmap1).
     Inr (if ok then qmap1 else blk_mq_map_queues qmap1))"

definition nvme_qdma_map_queues ::
    "(nat \<Rightarrow> nat list option) \<Rightarrow> (queue_map \<Rightarrow> queue_map) \<Rightarrow> nat \<Rightarrow> fabric_opts \<Rightarrow> io_queues \<Rightarrow> tag_set \<Rightarrow> tag_set res" where
  "nvme_qdma_map_queues affinity blk_mq_map_queues nqueues opts io tset =
     (let d = (map_default tset)\<lparr>nr_queues := q_default io, queue_offset := 0\<rparr>;
          r = (if opt_nr_write_queues opts \<noteq> 0 \<and> q_read io \<noteq> 0
               then (map_read tset)\<lparr>nr_queues := q_read io, queue_offset := q_default io\<rparr>
               else (map_read tset)\<lparr>nr_queues := q_default io, queue_offset := 0\<rparr>)
      in rbind (blk_mq_qdma_map_queues affinity blk_mq_map_queues nqueues d) (\<lambda>d1.
         rbind (blk_mq_qdma_map_queues affinity blk_mq_map_queues nqueues r) (\<lambda>r1.
         Inr (tset\<lparr>map_default := d1, map_read := r1,
                  map_poll := (if opt_nr_poll_queues opts \<noteq> 0 \<and> q_poll io \<noteq> 0
                    then blk_mq_map_queues ((map_poll tset)\<lparr>nr_queues := q_poll io, queue_offset := q_default io + q_read io\<rparr>)
                    else map_poll tset)\<rparr>))))"

section \<open>Laws\<close>

lemma assign_fields:
  fixes opts r d n
  defines "separate \<equiv> opt_nr_write_queues opts \<noteq> 0 \<and> r < n"
  defines "left \<equiv> if separate then n - r - min d (n - r) else n - min r n"
  assumes "io = assign_io_queues opts r d p n \<lparr>q_default = 0, q_read = 0, q_poll = 0\<rparr>"
  shows "q_default io = (if separate then min d (n - r) else min r n)" "q_read io = (if separate then r else 0)"
    "q_poll io = (if opt_nr_poll_queues opts \<noteq> 0 then min p left else 0)"
  unfolding assms assign_io_queues_def Let_def by (simp_all add: prod.case_distrib)

lemma assign_sum:
  assumes "n \<le> r + d + p" "opt_nr_write_queues opts = 0 \<Longrightarrow> d = 0" "opt_nr_poll_queues opts = 0 \<Longrightarrow> p = 0"
    "io = assign_io_queues opts r d p n \<lparr>q_default = 0, q_read = 0, q_poll = 0\<rparr>"
  shows "q_default io + q_read io + q_poll io = n" "q_poll io \<noteq> 0 \<Longrightarrow> opt_nr_poll_queues opts \<noteq> 0"
    "q_read io \<noteq> 0 \<Longrightarrow> opt_nr_write_queues opts \<noteq> 0"
proof -
  note f = assign_fields [OF assms(4)]
  show "q_default io + q_read io + q_poll io = n"
  proof (cases "opt_nr_write_queues opts \<noteq> 0 \<and> r < n")
    case True
    define m where "m = n - r"
    have n: "n = r + m" "m \<le> d + p" using True assms(1) m_def by simp_all
    show ?thesis unfolding f using True n assms(3)
      by (cases "opt_nr_poll_queues opts = 0"; cases "d \<le> m"; simp)
  next
    case False
    then have "n \<le> r + p" using assms(1,2) by (cases "opt_nr_write_queues opts = 0") auto
    then show ?thesis unfolding f if_not_P [OF False] using assms(3)
      by (cases "opt_nr_poll_queues opts = 0"; cases "r \<le> n"; simp)
  qed
  show "q_poll io \<noteq> 0 \<Longrightarrow> opt_nr_poll_queues opts \<noteq> 0" unfolding f by (simp split: if_splits)
  show "q_read io \<noteq> 0 \<Longrightarrow> opt_nr_write_queues opts \<noteq> 0" unfolding f by (simp split: if_splits)
qed

text \<open>The maps of a set of queues once the loop has run: only the processor table has changed, and every processor in the
  mask of a queue is sent to a queue whose mask has it.\<close>

lemma fold_upd: "fold (\<lambda>cpu m. m(cpu := v)) cpus m c = (if c \<in> set cpus then v else m c)"
  by (induction cpus arbitrary: m) auto

lemma map_queues_loop_ok:
  assumes "queue + n + queue_offset qmap < nqueues"
  shows "\<exists>ok qmap1. map_queues_loop affinity nqueues queue n qmap = Inr (ok, qmap1) \<and> nr_queues qmap1 = nr_queues qmap
     \<and> queue_offset qmap1 = queue_offset qmap"
  using assms
proof (induction n arbitrary: queue qmap)
  case (Suc n)
  show ?case
  proof (cases "affinity (Suc (queue + queue_offset qmap))")
    case (Some cpus)
    then show ?thesis
      using Suc.prems Suc.IH [of "Suc queue" "qmap\<lparr>mq_map := fold (\<lambda>cpu m. m(cpu := queue_offset qmap + queue)) cpus (mq_map qmap)\<rparr>"]
      by (simp add: Let_def)
  qed (use Suc.prems in \<open>auto simp: Let_def\<close>)
qed auto

lemma map_queues_loop_true:
  assumes "queue + n + queue_offset qmap < nqueues" "\<And>i. i < n \<Longrightarrow> affinity (queue + i + queue_offset qmap + 1) \<noteq> None"
  shows "\<exists>qmap1. map_queues_loop affinity nqueues queue n qmap = Inr (True, qmap1)"
  using assms
proof (induction n arbitrary: queue qmap)
  case (Suc n)
  obtain cpus where "affinity (Suc (queue + queue_offset qmap)) = Some cpus" using Suc.prems(2) [of 0] by auto
  then show ?case
    using Suc.prems(1) Suc.prems(2) [of "Suc i" for i]
      Suc.IH [of "Suc queue" "qmap\<lparr>mq_map := fold (\<lambda>cpu m. m(cpu := queue_offset qmap + queue)) cpus (mq_map qmap)\<rparr>"]
    by (simp add: Let_def)
qed simp

lemma map_queues_loop_cpus:
  assumes "map_queues_loop affinity nqueues queue n qmap = Inr (True, qmap1)"
  shows "(\<exists>i<n. \<exists>cpus. affinity (queue + i + queue_offset qmap + 1) = Some cpus \<and> c \<in> set cpus
        \<and> mq_map qmap1 c = queue_offset qmap + queue + i)
     \<or> (\<forall>i<n. \<forall>cpus. affinity (queue + i + queue_offset qmap + 1) = Some cpus \<longrightarrow> c \<notin> set cpus) \<and> mq_map qmap1 c = mq_map qmap c"
  using assms
proof (induction n arbitrary: queue qmap)
  case (Suc n)
  obtain cpus where a: "affinity (queue + queue_offset qmap + 1) = Some cpus"
    using Suc.prems by (auto simp: Let_def split: if_splits option.splits)
  let ?m = "qmap\<lparr>mq_map := fold (\<lambda>cpu m. m(cpu := queue_offset qmap + queue)) cpus (mq_map qmap)\<rparr>"
  have r: "map_queues_loop affinity nqueues (Suc queue) n ?m = Inr (True, qmap1)"
    using Suc.prems a by (auto simp: Let_def split: if_splits)
  from Suc.IH [OF r] show ?case
  proof (elim disjE)
    assume "\<exists>i<n. \<exists>cpus. affinity (Suc queue + i + queue_offset ?m + 1) = Some cpus \<and> c \<in> set cpus
        \<and> mq_map qmap1 c = queue_offset ?m + Suc queue + i"
    then obtain i cpus' where "i < n" "affinity (queue + Suc i + queue_offset qmap + 1) = Some cpus'" "c \<in> set cpus'"
      "mq_map qmap1 c = queue_offset qmap + queue + Suc i" by auto
    then show ?case by (intro disjI1 exI [of _ "Suc i"]) auto
  next
    assume l: "(\<forall>i<n. \<forall>cpus. affinity (Suc queue + i + queue_offset ?m + 1) = Some cpus \<longrightarrow> c \<notin> set cpus)
        \<and> mq_map qmap1 c = mq_map ?m c"
    show ?case
    proof (cases "c \<in> set cpus")
      case True
      then show ?thesis using l a by (intro disjI1 exI [of _ 0]) (auto simp: fold_upd)
    next
      case False
      have "c \<notin> set cpus'" if "i < Suc n" "affinity (queue + i + queue_offset qmap + 1) = Some cpus'" for i cpus'
        using that l a False by (cases i) auto
      then show ?thesis using l False by (auto simp: fold_upd)
    qed
  qed
qed simp

text \<open>The kernel's mapping fills the processor table only.\<close>

definition keeps_range :: "(queue_map \<Rightarrow> queue_map) \<Rightarrow> bool" where
  "keeps_range blk_mq_map_queues \<longleftrightarrow>
     (\<forall>m. nr_queues (blk_mq_map_queues m) = nr_queues m \<and> queue_offset (blk_mq_map_queues m) = queue_offset m)"

lemma blk_mq_qdma_map_queues_ok:
  assumes "queue_offset qmap + nr_queues qmap < nqueues" "keeps_range fb"
  shows "\<exists>m. blk_mq_qdma_map_queues affinity fb nqueues qmap = Inr m \<and> nr_queues m = nr_queues qmap
     \<and> queue_offset m = queue_offset qmap"
proof -
  obtain ok m where "map_queues_loop affinity nqueues 0 (nr_queues qmap) qmap = Inr (ok, m)" "nr_queues m = nr_queues qmap"
      "queue_offset m = queue_offset qmap"
    using map_queues_loop_ok [of 0 "nr_queues qmap" qmap nqueues affinity] assms(1) by (auto simp: add.commute)
  then show ?thesis using assms(2) by (cases ok) (simp_all add: blk_mq_qdma_map_queues_def keeps_range_def)
qed

lemma count_io_queues_sum:
  assumes "nvme_qdma_count_io_queues opts ncpus sqc \<lparr>q_default = 0, q_read = 0, q_poll = 0\<rparr> = (0, Some qc, io)"
    "\<And>n. snd (sqc n) \<le> n"
  shows "q_default io + q_read io + q_poll io + 1 = qc"
    "qc \<le> opt_nr_io_queues opts + opt_nr_write_queues opts + opt_nr_poll_queues opts + 1"
    "q_poll io \<noteq> 0 \<Longrightarrow> opt_nr_poll_queues opts \<noteq> 0" "q_read io \<noteq> 0 \<Longrightarrow> opt_nr_write_queues opts \<noteq> 0"
proof -
  define r d p where "r = min (NVME_QDMA_MAX_IO_QUEUES + 1) (min (opt_nr_io_queues opts) ncpus)"
    and "d = min (NVME_QDMA_MAX_IO_QUEUES + 1) (min (opt_nr_write_queues opts) ncpus)" and "p = min (opt_nr_poll_queues opts) ncpus"
  obtain ret n where q: "sqc (r + d + p) = (ret, n)" by fastforce
  have "n \<le> r + d + p" using assms(2) [of "r + d + p"] q by simp
  moreover have s: "qc = n + 1" "io = assign_io_queues opts r d p n \<lparr>q_default = 0, q_read = 0, q_poll = 0\<rparr>"
    using assms(1) q by (auto simp: nvme_qdma_count_io_queues_def Let_def r_def d_def p_def ENOMEM_def split: if_splits)
  moreover have le: "r \<le> opt_nr_io_queues opts" "d \<le> opt_nr_write_queues opts" "p \<le> opt_nr_poll_queues opts"
    unfolding r_def d_def p_def by (rule min.coboundedI2, rule min.cobounded1)+ (rule min.cobounded1)
  ultimately show "q_default io + q_read io + q_poll io + 1 = qc" "q_poll io \<noteq> 0 \<Longrightarrow> opt_nr_poll_queues opts \<noteq> 0"
      "q_read io \<noteq> 0 \<Longrightarrow> opt_nr_write_queues opts \<noteq> 0"
    using assign_sum [of n r d p opts io] by simp_all
  show "qc \<le> opt_nr_io_queues opts + opt_nr_write_queues opts + opt_nr_poll_queues opts + 1"
    using \<open>n \<le> r + d + p\<close> s le by linarith
qed

definition queues_of :: "queue_map \<Rightarrow> nat set" where
  "queues_of m = {queue_offset m ..< queue_offset m + nr_queues m}"

lemma map_queues_ranges:
  assumes "q_default io + q_read io + q_poll io < nqueues" "keeps_range fb"
    "q_poll io \<noteq> 0 \<Longrightarrow> opt_nr_poll_queues opts \<noteq> 0" "q_read io \<noteq> 0 \<Longrightarrow> opt_nr_write_queues opts \<noteq> 0"
  shows "\<exists>ts. nvme_qdma_map_queues affinity fb nqueues opts io tset = Inr ts \<and> queues_of (map_default ts) = {0 ..< q_default io}
     \<and> queues_of (map_read ts) = (if q_read io = 0 then {0 ..< q_default io} else {q_default io ..< q_default io + q_read io})
     \<and> (q_poll io \<noteq> 0 \<longrightarrow> queues_of (map_poll ts) = {q_default io + q_read io ..< q_default io + q_read io + q_poll io})"
proof -
  let ?d = "(map_default tset)\<lparr>nr_queues := q_default io, queue_offset := 0\<rparr>"
  let ?r = "if q_read io \<noteq> 0 then (map_read tset)\<lparr>nr_queues := q_read io, queue_offset := q_default io\<rparr>
     else (map_read tset)\<lparr>nr_queues := q_default io, queue_offset := 0\<rparr>"
  obtain d where d: "blk_mq_qdma_map_queues affinity fb nqueues ?d = Inr d" "nr_queues d = q_default io" "queue_offset d = 0"
    using blk_mq_qdma_map_queues_ok [of ?d nqueues fb affinity] assms(1,2) by auto
  have "queue_offset ?r + nr_queues ?r < nqueues" using assms(1) by simp
  then obtain r where r: "blk_mq_qdma_map_queues affinity fb nqueues ?r = Inr r" "nr_queues r = nr_queues ?r" "queue_offset r = queue_offset ?r"
    using blk_mq_qdma_map_queues_ok [of ?r nqueues fb affinity] assms(2) by blast
  have sep: "(opt_nr_write_queues opts \<noteq> 0 \<and> q_read io \<noteq> 0) = (q_read io \<noteq> 0)"
    "(opt_nr_poll_queues opts \<noteq> 0 \<and> q_poll io \<noteq> 0) = (q_poll io \<noteq> 0)" using assms(3,4) by auto
  define pl where "pl = (if q_poll io \<noteq> 0
    then fb ((map_poll tset)\<lparr>nr_queues := q_poll io, queue_offset := q_default io + q_read io\<rparr>) else map_poll tset)"
  have p: "q_poll io \<noteq> 0 \<longrightarrow> nr_queues pl = q_poll io \<and> queue_offset pl = q_default io + q_read io"
    using assms(2) unfolding keeps_range_def pl_def by simp
  have "nvme_qdma_map_queues affinity fb nqueues opts io tset = Inr (tset\<lparr>map_default := d, map_read := r, map_poll := pl\<rparr>)"
    unfolding nvme_qdma_map_queues_def sep Let_def d(1) r(1) rbind_simps pl_def ..
  moreover have "queues_of r = (if q_read io = 0 then {0 ..< q_default io} else {q_default io ..< q_default io + q_read io})"
    using r(2,3) by (simp add: queues_of_def)
  ultimately show ?thesis using d(2,3) p by (intro exI conjI) (assumption, simp_all add: queues_of_def)
qed

text \<open>The queues that the polling map is given; the map is left as it was when there are none.\<close>

definition polled_queues :: "io_queues \<Rightarrow> tag_set \<Rightarrow> nat set" where
  "polled_queues io ts = (if q_poll io = 0 then {} else queues_of (map_poll ts))"

text \<open>C15. The I/O queues of a new controller.  If the kernel grants no more queues than requested, the queues of the three
  kinds together are exactly the granted ones and the array of queues holds them; the mapping runs without leaving that
  array.  The queues for writes and for reads are disjoint or shared, the polled queues are disjoint from
  both, the three cover the granted queues, and a queue connects as a polling queue exactly when it is one of the
  polling map, and so exactly when it is in neither of the others.\<close>

theorem nvme_qdma_io_queues_partition:
  assumes "nvme_qdma_count_io_queues opts ncpus sqc \<lparr>q_default = 0, q_read = 0, q_poll = 0\<rparr> = (0, Some qc, io)"
    "\<And>n. snd (sqc n) \<le> n" "keeps_range fb"
    "nqueues = opt_nr_io_queues opts + opt_nr_write_queues opts + opt_nr_poll_queues opts + 1"
  shows "\<exists>ts. nvme_qdma_map_queues affinity fb nqueues opts io tset = Inr ts \<and> qc \<le> nqueues
     \<and> queues_of (map_default ts) \<union> queues_of (map_read ts) \<union> polled_queues io ts = {0 ..< qc - 1}
     \<and> (queues_of (map_default ts) \<inter> queues_of (map_read ts) = {} \<or> queues_of (map_default ts) = queues_of (map_read ts))
     \<and> polled_queues io ts \<inter> (queues_of (map_default ts) \<union> queues_of (map_read ts)) = {}
     \<and> (\<forall>qid. 0 < qid \<and> qid < qc \<longrightarrow>
          (nvme_qdma_poll_queue io qid \<longleftrightarrow> qid - 1 \<in> polled_queues io ts)
          \<and> (nvme_qdma_poll_queue io qid \<longleftrightarrow> qid - 1 \<notin> queues_of (map_default ts) \<union> queues_of (map_read ts)))"
proof -
  note sum = count_io_queues_sum [OF assms(1,2)]
  obtain ts where ts: "nvme_qdma_map_queues affinity fb nqueues opts io tset = Inr ts"
    "queues_of (map_default ts) = {0 ..< q_default io}"
    "queues_of (map_read ts) = (if q_read io = 0 then {0 ..< q_default io} else {q_default io ..< q_default io + q_read io})"
    "q_poll io \<noteq> 0 \<Longrightarrow> queues_of (map_poll ts) = {q_default io + q_read io ..< q_default io + q_read io + q_poll io}"
    using map_queues_ranges [of io nqueues fb opts affinity tset] sum assms(3,4) by auto
  have polled: "polled_queues io ts = {q_default io + q_read io ..< q_default io + q_read io + q_poll io}"
    using ts(4) by (simp add: polled_queues_def)
  have union: "queues_of (map_default ts) \<union> queues_of (map_read ts) \<union> polled_queues io ts = {0 ..< qc - 1}"
    unfolding polled ts(2,3) using sum(1) by auto
  have disj: "polled_queues io ts \<inter> (queues_of (map_default ts) \<union> queues_of (map_read ts)) = {}"
    unfolding polled ts(2,3) by auto
  have notin: "nvme_qdma_poll_queue io qid \<longleftrightarrow> qid - 1 \<notin> queues_of (map_default ts) \<union> queues_of (map_read ts)" if "0 < qid" for qid
    using that ts(2,3) by (auto simp: nvme_qdma_poll_queue_def split: if_splits)
  have "nvme_qdma_poll_queue io qid \<longleftrightarrow> qid - 1 \<in> polled_queues io ts" if "0 < qid" "qid < qc" for qid
  proof -
    have "qid - 1 \<in> {0 ..< qc - 1}" using that by auto
    with union disj show ?thesis using notin [OF that(1)] by blast
  qed
  with notin union disj show ?thesis using ts(1-3) sum(2) assms(4) by (intro exI [of _ ts]) auto
qed

theorem nvme_qdma_io_queues_partition_witness:
  "\<exists>ts. nvme_qdma_map_queues (\<lambda>q. Some [q]) (\<lambda>m. m) 9 \<lparr>opt_nr_io_queues = 4, opt_nr_write_queues = 2, opt_nr_poll_queues = 2\<rparr>
        \<lparr>q_default = 2, q_read = 4, q_poll = 1\<rparr>
        \<lparr>map_default = \<lparr>nr_queues = 0, queue_offset = 0, mq_map = \<lambda>_. 0\<rparr>, map_read = \<lparr>nr_queues = 0, queue_offset = 0, mq_map = \<lambda>_. 0\<rparr>,
         map_poll = \<lparr>nr_queues = 0, queue_offset = 0, mq_map = \<lambda>_. 0\<rparr>\<rparr> = Inr ts
     \<and> queues_of (map_default ts) \<union> queues_of (map_read ts) \<union> queues_of (map_poll ts) = {0 ..< 7}
     \<and> queues_of (map_poll ts) \<inter> (queues_of (map_default ts) \<union> queues_of (map_read ts)) = {}"
  using nvme_qdma_io_queues_partition [where opts = "\<lparr>opt_nr_io_queues = 4, opt_nr_write_queues = 2, opt_nr_poll_queues = 2\<rparr>"
      and ncpus = 16 and sqc = "\<lambda>n. (0, min n 7)" and qc = 8 and io = "\<lparr>q_default = 2, q_read = 4, q_poll = 1\<rparr>" and nqueues = 9
      and fb = "\<lambda>m. m" and affinity = "\<lambda>q. Some [q]"
      and tset = "\<lparr>map_default = \<lparr>nr_queues = 0, queue_offset = 0, mq_map = \<lambda>_. 0\<rparr>, map_read = \<lparr>nr_queues = 0, queue_offset = 0, mq_map = \<lambda>_. 0\<rparr>,
         map_poll = \<lparr>nr_queues = 0, queue_offset = 0, mq_map = \<lambda>_. 0\<rparr>\<rparr>"]
  by (fastforce simp: nvme_qdma_count_io_queues_def assign_io_queues_def NVME_QDMA_MAX_IO_QUEUES_def keeps_range_def polled_queues_def)

text \<open>The maps of a controller that connects again.  The counts of the three kinds are only written when they are
  positive.  A controller that first gets all the queues it asks for and, after a reset, only as many as it has
  for reads, keeps the counts of the first connection: its reads are mapped to queues behind the ones that exist.\<close>

theorem nvme_qdma_io_queues_stale:
  assumes "0 < n" "n \<le> 9" "n \<le> ncpus" "opts = \<lparr>opt_nr_io_queues = n, opt_nr_write_queues = n, opt_nr_poll_queues = n\<rparr>"
    "keeps_range fb"
  shows "\<exists>io ts. nvme_qdma_count_io_queues opts ncpus (\<lambda>m. (0, m)) \<lparr>q_default = 0, q_read = 0, q_poll = 0\<rparr> = (0, Some (3 * n + 1), io)
     \<and> nvme_qdma_count_io_queues opts ncpus (\<lambda>m. (0, min m n)) io = (0, Some (n + 1), io)
     \<and> nvme_qdma_map_queues affinity fb (3 * n + 1) opts io tset = Inr ts
     \<and> queues_of (map_read ts) = {n ..< 2 * n} \<and> queues_of (map_poll ts) = {2 * n ..< 3 * n}"
proof -
  let ?io = "\<lparr>q_default = n, q_read = n, q_poll = n\<rparr>"
  have m: "min n ncpus = n" "min (NVME_QDMA_MAX_IO_QUEUES + 1) n = n"
    using assms(2,3) by (simp_all add: NVME_QDMA_MAX_IO_QUEUES_def)
  have first: "nvme_qdma_count_io_queues opts ncpus (\<lambda>m. (0, m)) \<lparr>q_default = 0, q_read = 0, q_poll = 0\<rparr> = (0, Some (3 * n + 1), ?io)"
    unfolding nvme_qdma_count_io_queues_def assms(4) fabric_opts.select_convs Let_def m
    using assms(1) by (simp add: assign_io_queues_def Let_def)
  have second: "nvme_qdma_count_io_queues opts ncpus (\<lambda>m. (0, min m n)) ?io = (0, Some (n + 1), ?io)"
    unfolding nvme_qdma_count_io_queues_def assms(4) fabric_opts.select_convs Let_def m
    using assms(1) by (simp add: assign_io_queues_def Let_def)
  obtain ts where "nvme_qdma_map_queues affinity fb (3 * n + 1) opts ?io tset = Inr ts"
    "queues_of (map_read ts) = {n ..< n + n}" "queues_of (map_poll ts) = {n + n ..< n + n + n}"
    using map_queues_ranges [of ?io "3 * n + 1" fb opts affinity tset] assms(1,4,5) by auto
  moreover have "n + n = 2 * n" "n + n + n = 3 * n" by simp_all
  ultimately show ?thesis using first second by metis
qed

theorem nvme_qdma_io_queues_stale_witness:
  "\<forall>tset. \<exists>io ts. nvme_qdma_count_io_queues \<lparr>opt_nr_io_queues = 4, opt_nr_write_queues = 4, opt_nr_poll_queues = 4\<rparr> 8
       (\<lambda>m. (0, min m 4)) io = (0, Some 5, io)
     \<and> nvme_qdma_map_queues (\<lambda>q. Some [q]) (\<lambda>m. m) 13 \<lparr>opt_nr_io_queues = 4, opt_nr_write_queues = 4, opt_nr_poll_queues = 4\<rparr> io tset = Inr ts
     \<and> queues_of (map_read ts) = {4 ..< 8}"
  using nvme_qdma_io_queues_stale [where n = 4 and ncpus = 8
      and opts = "\<lparr>opt_nr_io_queues = 4, opt_nr_write_queues = 4, opt_nr_poll_queues = 4\<rparr>" and fb = "\<lambda>m. m" and affinity = "\<lambda>q. Some [q]"]
  by (fastforce simp: keeps_range_def)

text \<open>The processors of a map.  If every queue of a map has an interrupt mask, the mapping stays within the array of queues,
  a processor in one of the masks is sent to a queue of the map whose mask has it, and every other processor
  keeps its queue.\<close>

theorem blk_mq_qdma_map_queues_cpus:
  assumes "queue_offset qmap + nr_queues qmap < nqueues"
    "\<And>i. i < nr_queues qmap \<Longrightarrow> affinity (i + queue_offset qmap + 1) \<noteq> None"
  shows "\<exists>m. blk_mq_qdma_map_queues affinity fb nqueues qmap = Inr m
     \<and> (\<forall>c. (\<exists>i<nr_queues qmap. c \<in> set (the (affinity (i + queue_offset qmap + 1))) \<and> mq_map m c = queue_offset qmap + i)
          \<or> (\<forall>i<nr_queues qmap. c \<notin> set (the (affinity (i + queue_offset qmap + 1)))) \<and> mq_map m c = mq_map qmap c)"
proof -
  obtain m where m: "map_queues_loop affinity nqueues 0 (nr_queues qmap) qmap = Inr (True, m)"
    using map_queues_loop_true [of 0 "nr_queues qmap" qmap nqueues affinity] assms by (auto simp: add.commute)
  have "(\<exists>i<nr_queues qmap. c \<in> set (the (affinity (i + queue_offset qmap + 1))) \<and> mq_map m c = queue_offset qmap + i)
          \<or> (\<forall>i<nr_queues qmap. c \<notin> set (the (affinity (i + queue_offset qmap + 1)))) \<and> mq_map m c = mq_map qmap c" for c
    using map_queues_loop_cpus [OF m, of c] assms(2) by fastforce
  then show ?thesis using m by (simp add: blk_mq_qdma_map_queues_def)
qed

theorem blk_mq_qdma_map_queues_cpus_witness:
  "\<exists>m. blk_mq_qdma_map_queues (\<lambda>q. Some [q]) (\<lambda>m. m) 5 \<lparr>nr_queues = 2, queue_offset = 2, mq_map = \<lambda>_. 0\<rparr> = Inr m \<and> mq_map m 4 = 3"
proof -
  let ?q = "\<lparr>nr_queues = 2, queue_offset = 2, mq_map = \<lambda>_. 0\<rparr>"
  obtain m where m: "blk_mq_qdma_map_queues (\<lambda>q. Some [q]) (\<lambda>m. m) 5 ?q = Inr m"
    and "\<forall>c. (\<exists>i<2. c = i + 2 + 1 \<and> mq_map m c = 2 + i) \<or> (\<forall>i<2. c \<noteq> i + 2 + 1) \<and> mq_map m c = 0"
    using blk_mq_qdma_map_queues_cpus [where qmap = ?q and nqueues = 5 and affinity = "\<lambda>q. Some [q]" and fb = "\<lambda>m. m"]
    by (simp del: One_nat_def) blast
  then have "(\<exists>i<2. 4 = i + 2 + 1 \<and> mq_map m 4 = 2 + i) \<or> (\<forall>i<2. 4 \<noteq> i + 2 + (1 :: nat)) \<and> mq_map m 4 = 0" by blast
  moreover have "\<not> (\<forall>i<2. 4 \<noteq> i + 2 + (1 :: nat))" by (rule notI, drule spec [of _ 1]) simp
  ultimately have "\<exists>i<2. 4 = i + 2 + (1 :: nat) \<and> mq_map m 4 = 2 + i" by blast
  then have "mq_map m 4 = 3" by (elim exE conjE) simp
  then show ?thesis using m by blast
qed

section \<open>Both sides of the bus\<close>

text \<open>Names as numbers: for queues below 24 and functions below 8 nothing wraps.\<close>

lemma device_name:
  assumes "qp_num r < 24" "ctrlr_num r < 8"
  shows "unat (nvmf_qid_to_qdma_qid r is_data) = unat (qp_num r) + 32 * unat (ctrlr_num r) + (if is_data then 8 else 0)"
proof -
  have "unat (qp_num r) < 24" "unat (ctrlr_num r) < 8" using assms by (simp_all add: word_less_nat_alt)
  then show ?thesis by (simp add: nvmf_qid_to_qdma_qid_def unsigned_ucast_eq take_bit_eq_mod unat_word_ariths)
qed

lemma host_name:
  assumes "qid < 24" "func < 8" "is_data \<Longrightarrow> qid \<noteq> 0"
  shows "\<exists>w. nvme_qid_to_qdma_qid qid is_data func = Inr w \<and> unat w = unat qid + 32 * unat func + (if is_data then 8 else 0)"
proof -
  have "unat qid < 24" "unat func < 8" using assms by (simp_all add: word_less_nat_alt)
  then show ?thesis using assms(3)
    by (auto simp: nvme_qid_to_qdma_qid_def unsigned_ucast_eq take_bit_eq_mod unat_word_ariths)
qed

text \<open>C16. The two sides of the bus agree on the names of queues.  For the eight I/O queues and the admin queue of a function
  below 8, the QDMA queue the host sets up is the one the device addresses, the device finds the NVMe queue and the
  function back from the name of a command queue, and no two queues share a name.\<close>

theorem queue_names_agree:
  assumes "qid \<le> 8" "func < 8" "is_data \<Longrightarrow> qid \<noteq> 0"
  shows "\<exists>w. nvme_qid_to_qdma_qid qid is_data func = Inr w
     \<and> nvmf_qid_to_qdma_qid \<lparr>qp_num = qid, ctrlr_num = ucast func\<rparr> is_data = ucast w
     \<and> (is_data \<or> qdma_qid_to_nvme_qid w r = (ucast qid, r\<lparr>ctrlr_num := ucast func\<rparr>))
     \<and> (\<forall>qid' func' is_data'. qid' \<le> 8 \<and> func' < 8 \<and> nvme_qid_to_qdma_qid qid' is_data' func' = Inr w
          \<longrightarrow> qid' = qid \<and> func' = func \<and> is_data' = is_data)"
proof -
  have b: "unat qid \<le> 8" "unat func < 8" using assms by (simp_all add: word_less_nat_alt word_le_nat_alt)
  have q: "qid < 24" using b by (simp add: word_less_nat_alt)
  obtain w where w: "nvme_qid_to_qdma_qid qid is_data func = Inr w"
    and uw: "unat w = unat qid + 32 * unat func + (if is_data then 8 else 0)"
    using host_name [OF q assms(2,3)] by blast
  have "ucast func < (8 :: u16)" using b by (simp add: word_less_nat_alt unsigned_ucast_eq take_bit_eq_mod)
  then have "nvmf_qid_to_qdma_qid \<lparr>qp_num = qid, ctrlr_num = ucast func\<rparr> is_data = ucast w"
    using device_name [of "\<lparr>qp_num = qid, ctrlr_num = ucast func\<rparr>" is_data] q b uw
    by (simp add: word_unat_eq_iff unsigned_ucast_eq take_bit_eq_mod)
  moreover have "qdma_qid_to_nvme_qid w r = (ucast qid, r\<lparr>ctrlr_num := ucast func\<rparr>)" if "\<not> is_data"
  proof -
    have "unat (w mod 32) = unat qid" "unat (w div 32) = unat func"
      using uw b that by (simp_all add: unat_mod unat_div)
    then have "ucast (w mod 32) = (ucast qid :: u8)" "ucast (w div 32) = (ucast func :: u16)"
      by (simp_all add: word_unat_eq_iff unsigned_ucast_eq)
    then show ?thesis by (simp add: qdma_qid_to_nvme_qid_def)
  qed
  moreover have "qid' = qid \<and> func' = func \<and> is_data' = is_data"
    if h: "qid' \<le> 8" "func' < 8" "nvme_qid_to_qdma_qid qid' is_data' func' = Inr w" for qid' func' is_data'
  proof -
    have b': "unat qid' \<le> 8" "unat func' < 8" using h by (simp_all add: word_less_nat_alt word_le_nat_alt)
    have nz: "is_data' \<Longrightarrow> qid' \<noteq> 0" using h(3) by (auto simp: nvme_qid_to_qdma_qid_def)
    have "qid' < 24" using b' by (simp add: word_less_nat_alt)
    then have u: "unat w = unat qid' + 32 * unat func' + (if is_data' then 8 else 0)"
      using host_name [OF _ h(2) nz] h(3) by fastforce
    have p: "is_data \<Longrightarrow> 0 < unat qid" "is_data' \<Longrightarrow> 0 < unat qid'" using assms(3) nz by (simp_all add: unat_gt_0)
    have "unat func' = unat func" using u uw b b' by (auto split: if_splits)
    moreover have "is_data' = is_data" "unat qid' = unat qid" using u uw b b' p calculation by (auto split: if_splits)
    ultimately show ?thesis by (simp add: word_unat_eq_iff)
  qed
  ultimately show ?thesis using w by blast
qed

theorem queue_names_agree_witness:
  "\<forall>r. \<exists>w. nvme_qid_to_qdma_qid 8 False 2 = Inr w \<and> nvmf_qid_to_qdma_qid \<lparr>qp_num = 8, ctrlr_num = 2\<rparr> False = ucast w
     \<and> qdma_qid_to_nvme_qid w r = (8, r\<lparr>ctrlr_num := 2\<rparr>)"
proof
  fix r
  show "\<exists>w. nvme_qid_to_qdma_qid 8 False 2 = Inr w \<and> nvmf_qid_to_qdma_qid \<lparr>qp_num = 8, ctrlr_num = 2\<rparr> False = ucast w
     \<and> qdma_qid_to_nvme_qid w r = (8, r\<lparr>ctrlr_num := 2\<rparr>)"
    using queue_names_agree [where qid = 8 and func = 2 and is_data = False and r = r] by auto
qed

text \<open>The queue for page lists is not reserved.  With nine queues requested and granted and as many processors, a controller
  gets nine I/O queues, while host-to-card data queues are set up for eight; the name of the data queue of the
  ninth is that of the queue for fetching page lists, for every function.\<close>

theorem ninth_queue_is_prp_fetch_queue:
  assumes "9 \<le> ncpus"
  shows "nvme_qdma_count_io_queues \<lparr>opt_nr_io_queues = 9, opt_nr_write_queues = 0, opt_nr_poll_queues = 0\<rparr> ncpus (\<lambda>n. (0, n))
        \<lparr>q_default = 0, q_read = 0, q_poll = 0\<rparr> = (0, Some 10, \<lparr>q_default = 9, q_read = 0, q_poll = 0\<rparr>)
     \<and> nvme_qid_to_qdma_qid 9 True func = nvme_qid_to_qdma_qid (QDMA_PRP_FETCH_QID - 8) True func"
  using assms by (simp add: nvme_qdma_count_io_queues_def assign_io_queues_def NVME_QDMA_MAX_IO_QUEUES_def QDMA_PRP_FETCH_QID_def)

theorem ninth_queue_is_prp_fetch_queue_witness:
  "nvme_qid_to_qdma_qid 9 True 0 = nvme_qid_to_qdma_qid (QDMA_PRP_FETCH_QID - 8) True 0"
  using ninth_queue_is_prp_fetch_queue [where ncpus = 16 and func = 0] by simp

text \<open>The prefetch tag of a queue.  For the I/O queues 1 to 8 the table gets the tag and one register is written: the one
  that holds the byte of the queue, except for queue 5, whose byte is the first of the high register while the low
  register is written with its old content.  The admin queue and queues above 8 leave the table.\<close>

theorem nvmf_mcdma_write_pfch_tag_registers:
  assumes "length pfch = 8" "q = unat (qp_num rq)" "a = ucast (ctrlr_num rq) * 0x10000"
  shows "nvmf_mcdma_write_pfch_tag lsb msb rq tag pfch =
     (if q = 0 \<or> 8 < q then Inl OutOfBounds
      else if q = 5 then Inr (pfch[4 := tag], lsb + a, le_word (take 4 pfch))
      else if q < 5 then Inr (pfch[q - 1 := tag], lsb + a, le_word ((take 4 pfch)[q - 1 := tag]))
      else Inr (pfch[q - 1 := tag], msb + a, le_word ((drop 4 pfch)[q - 5 := tag])))"
proof -
  have z: "q = 0 \<longleftrightarrow> qp_num rq = 0" using assms(2) by (simp add: unat_eq_0)
  have p: "unat (qp_num rq - 1) = q - 1" if "q \<noteq> 0"
    using that assms(2) z by (simp add: unat_minus_one)
  have zero: "unat (qp_num rq - 1) = 2 ^ 32 - 1" if "q = 0"
    using that z by (simp add: unsigned_minus_1_eq_mask mask_eq_exp_minus_1)
  consider "q = 0" | "8 < q" | "q = 5" | "0 < q" "q < 5" | "5 < q" "q \<le> 8" by linarith
  then show ?thesis
  proof cases
    case 1 then show ?thesis using zero assms(1) by (simp add: nvmf_mcdma_write_pfch_tag_def arr_set_def)
  next
    case 2
    then have "\<not> q - 1 < 8" by linarith
    then show ?thesis using 2 p assms(1) by (simp add: nvmf_mcdma_write_pfch_tag_def arr_set_def Let_def)
  next
    case 3 then show ?thesis using p assms(1,3) by (simp add: nvmf_mcdma_write_pfch_tag_def arr_set_def)
  next
    case 4
    then have "q - 1 < 8" "\<not> 4 < q - 1" by linarith+
    then show ?thesis using 4 p assms(1,3)
      by (simp add: nvmf_mcdma_write_pfch_tag_def arr_set_def take_update_swap Let_def)
  next
    case 5
    then have "q - 1 < 8" "4 < q - 1" "q - 1 - 4 = q - 5" by linarith+
    then show ?thesis using 5 p assms(1,3)
      by (simp add: nvmf_mcdma_write_pfch_tag_def arr_set_def drop_update_swap Let_def)
  qed
qed

theorem nvmf_mcdma_write_pfch_tag_registers_witness:
  "nvmf_mcdma_write_pfch_tag 0xA0000000 0xA0000004 \<lparr>qp_num = 5, ctrlr_num = 1\<rparr> 0x7F [1, 2, 3, 4, 5, 6, 7, 8]
     = Inr ([1, 2, 3, 4, 0x7F, 6, 7, 8], 0xA0010000, le_word [1, 2, 3, 4])"
proof -
  let ?t = "[1, 2, 3, 4, 5, 6, 7, 8] :: u8 list"
  have l: "?t[4 := 0x7F] = [1, 2, 3, 4, 0x7F, 6, 7, 8]" "take 4 ?t = [1, 2, 3, 4]" by (simp_all add: eval_nat_numeral)
  have u: "5 = unat (5 :: u32)" "(0x10000 :: u64) = ucast (1 :: u16) * 0x10000" "(0xA0000000 :: u64) + 0x10000 = 0xA0010000" by simp_all
  have n: "\<not> ((5 :: nat) = 0 \<or> 8 < (5 :: nat))" "(5 :: nat) = 5" by simp_all
  show ?thesis
    using nvmf_mcdma_write_pfch_tag_registers [where pfch = ?t and q = 5 and rq = "\<lparr>qp_num = 5, ctrlr_num = 1\<rparr>" and a = "0x10000"
        and tag = "0x7F" and lsb = "0xA0000000" and msb = "0xA0000004"]
    unfolding qpair_name.select_convs u(1,2) [symmetric] l u(3) if_not_P [OF n(1)] if_P [OF n(2)] by simp
qed

text \<open>The order of the tree of queue pairs is a linear order on their names, so that a lookup by name finds the pair with
  that name.\<close>

lemma nvmf_mcdma_qpair_compare_linear:
  "nvmf_mcdma_qpair_compare x y = 0 \<longleftrightarrow> x = y"
  "nvmf_mcdma_qpair_compare y x = - nvmf_mcdma_qpair_compare x y"
  "nvmf_mcdma_qpair_compare x y < 0 \<Longrightarrow> nvmf_mcdma_qpair_compare y z < 0 \<Longrightarrow> nvmf_mcdma_qpair_compare x z < 0"
  by (auto simp: nvmf_mcdma_qpair_compare_def intro: qpair_name.equality split: if_splits)

end
