(* ===== verification/Host_Lifecycle.thy ===== *)
theory Host_Lifecycle
  imports Host_Queues
begin

text \<open>
  The life of the queues of the host driver (\<^verbatim>\<open>host/drivers/nvmq/qdma.c\<close>): creating the hardware queues, the response
  ring and the prefetch tag of an NVMe queue, connecting and stopping it, and taking everything back; and the loops
  over all I/O queues of a controller with their error paths.

  The QDMA library, the allocator and the target are an environment that answers every call, by the call and the number
  of calls made before it: zero is success; a read of the tag register is answered by the selector that was written.  What the library does with its queues is a set: a successful
  \<^verbatim>\<open>qdma_queue_add\<close> puts the queue in, a successful \<^verbatim>\<open>qdma_queue_remove\<close> takes it out.  A handle is the queue it
  was given for.  The state keeps the number of references of the device, whether it has been freed, the mutex of the
  prefetch registers, the number of live allocations of response rings, and of the controller the array of queues,
  their count, their size and their kinds.  The settings of a
  hardware queue and the table of handles for the interrupt code (\<^verbatim>\<open>qdata\<close>) are left out.
\<close>

section \<open>State and environment\<close>

datatype qdir = H2C | C2H

type_synonym qhndl = "qdir \<times> u32"

datatype lib_call =
    QueueAdd qhndl | QueueStart "qhndl option" | QueueStop "qhndl option" | QueueRemove "qhndl option"
  | WriteBypQid u32 | Kzalloc | ConnectIo nat u8 bool | ConnectAdmin

record host_env =
  answer :: "lib_call \<Rightarrow> nat \<Rightarrow> int"
  byp_tag_reg :: "u32 \<Rightarrow> nat \<Rightarrow> int \<times> u32 \<times> u8"

record host_queue =
  q_allocated :: bool
  q_live :: bool
  q_tr_ready :: bool
  hq_qid :: u16
  queue_size :: nat
  rsp_ring :: bool
  qe_h2c :: "qhndl option"
  qe_c2h :: "qhndl option"
  data_c2h :: "qhndl option"
  data_c2h_pfch_tag :: u8

record host_state =
  clock :: nat
  present :: "qhndl set"
  dev_refs :: nat
  dev_gone :: bool
  pfch_reg_mutex :: bool
  ring_mem :: int
  hqueues :: "host_queue list"
  queue_count :: nat
  sqsize :: nat
  io_parts :: io_queues

type_synonym 'a hm = "host_state \<Rightarrow> ('a \<times> host_state) res"

definition hret :: "'a \<Rightarrow> 'a hm" where
  "hret x = (\<lambda>s. Inr (x, s))"

definition hbind :: "'a hm \<Rightarrow> ('a \<Rightarrow> 'b hm) \<Rightarrow> 'b hm" where
  "hbind m f = (\<lambda>s. rbind (m s) (\<lambda>(x, s1). f x s1))"

definition hthen :: "unit hm \<Rightarrow> 'b hm \<Rightarrow> 'b hm" where
  "hthen m k = hbind m (\<lambda>_. k)"

definition lift_res :: "'a res \<Rightarrow> 'a hm" where
  "lift_res r = (\<lambda>s. rbind r (\<lambda>x. Inr (x, s)))"

definition modify :: "(host_state \<Rightarrow> host_state) \<Rightarrow> unit hm" where
  "modify f = (\<lambda>s. Inr ((), f s))"

text \<open>An error code ends the function with it; zero goes on.\<close>

definition on_ok :: "int hm \<Rightarrow> int hm \<Rightarrow> int hm" where
  "on_ok m k = hbind m (\<lambda>ret. if ret \<noteq> 0 then hret ret else k)"

definition lib :: "host_env \<Rightarrow> lib_call \<Rightarrow> int hm" where
  "lib env c = (\<lambda>s. Inr (answer env c (clock s), s\<lparr>clock := Suc (clock s)\<rparr>))"

definition get_queue :: "nat \<Rightarrow> host_queue hm" where
  "get_queue idx = (\<lambda>s. rbind (arr_get (hqueues s) idx) (\<lambda>q. Inr (q, s)))"

definition upd_queue :: "nat \<Rightarrow> (host_queue \<Rightarrow> host_queue) \<Rightarrow> unit hm" where
  "upd_queue idx f = (\<lambda>s. rbind (arr_get (hqueues s) idx) (\<lambda>q. Inr ((), s\<lparr>hqueues := (hqueues s)[idx := f q]\<rparr>)))"

text \<open>Every use of \<^verbatim>\<open>queue->device\<close> reads the device.\<close>

definition use_dev :: "unit hm" where
  "use_dev = (\<lambda>s. if dev_gone s then Inl UseAfterFree else Inr ((), s))"

section \<open>Hardware queues\<close>

definition qdma_queue_add :: "host_env \<Rightarrow> qhndl \<Rightarrow> int hm" where
  "qdma_queue_add env h = hbind (lib env (QueueAdd h)) (\<lambda>ret.
     hthen (modify (\<lambda>s. if ret = 0 then s\<lparr>present := insert h (present s)\<rparr> else s)) (hret ret))"

definition qdma_queue_remove :: "host_env \<Rightarrow> qhndl option \<Rightarrow> int hm" where
  "qdma_queue_remove env h = hbind (lib env (QueueRemove h)) (\<lambda>ret.
     hthen (modify (\<lambda>s. if ret = 0 then s\<lparr>present := present s - set_option h\<rparr> else s)) (hret ret))"

definition qdma_destroy_qp :: "host_env \<Rightarrow> qhndl option \<Rightarrow> int hm" where
  "qdma_destroy_qp env h = on_ok (lib env (QueueStop h)) (on_ok (qdma_queue_remove env h) (hret 0))"

text \<open>The register of the prefetch tags is read until it names the queue: one unit of fuel per read.\<close>

fun read_tag_loop :: "host_env \<Rightarrow> nat \<Rightarrow> u32 \<Rightarrow> (int \<times> u8) hm" where
  "read_tag_loop env 0 qid s = Inl Hang"
| "read_tag_loop env (Suc fuel) qid s =
     (let (ret, byp_qid, byp_tag) = byp_tag_reg env qid (clock s); s1 = s\<lparr>clock := Suc (clock s)\<rparr> in
      if ret \<noteq> 0 then Inr ((ret, 0), s1)
      else if byp_qid \<noteq> qid then read_tag_loop env fuel qid s1
      else Inr ((ret, byp_tag), s1))"

definition nvme_qdma_get_c2h_pfch_tag :: "host_env \<Rightarrow> nat \<Rightarrow> u8 \<Rightarrow> nat \<Rightarrow> int hm" where
  "nvme_qdma_get_c2h_pfch_tag env fuel func idx =
     hthen use_dev (hbind (lift_res (nvme_qid_to_qdma_qid (of_nat idx) True func)) (\<lambda>qid.
     hthen (\<lambda>s. if pfch_reg_mutex s then Inl Hang else Inr ((), s\<lparr>pfch_reg_mutex := True\<rparr>))
     (on_ok (lib env (WriteBypQid qid))
     (hbind (read_tag_loop env fuel qid) (\<lambda>(ret, byp_tag).
      if ret \<noteq> 0 then hret ret
      else hthen (modify (\<lambda>s. s\<lparr>pfch_reg_mutex := False\<rparr>))
          (hthen (upd_queue idx (\<lambda>q. q\<lparr>data_c2h_pfch_tag := byp_tag\<rparr>)) (hret ret)))))))"

definition nvme_qdma_create_h2c_data_qp :: "host_env \<Rightarrow> u8 \<Rightarrow> nat \<Rightarrow> int hm" where
  "nvme_qdma_create_h2c_data_qp env func qid =
     hthen use_dev (hbind (lift_res (nvme_qid_to_qdma_qid (of_nat qid) True func)) (\<lambda>qidx.
     on_ok (qdma_queue_add env (H2C, qidx)) (lib env (QueueStart (Some (H2C, qidx))))))"

text \<open>One hardware queue: it is added, its handle is stored, and it is started.\<close>

definition add_and_start :: "host_env \<Rightarrow> nat \<Rightarrow> (qhndl \<Rightarrow> host_queue \<Rightarrow> host_queue) \<Rightarrow> qhndl \<Rightarrow> int hm" where
  "add_and_start env idx store h =
     on_ok (qdma_queue_add env h) (hthen (upd_queue idx (store h)) (lib env (QueueStart (Some h))))"

definition nvme_qdma_create_qp :: "host_env \<Rightarrow> nat \<Rightarrow> u8 \<Rightarrow> nat \<Rightarrow> int hm" where
  "nvme_qdma_create_qp env fuel func idx =
     hthen use_dev (hbind (lift_res (nvme_qid_to_qdma_qid (of_nat idx) False func)) (\<lambda>qidx.
     on_ok (add_and_start env idx (\<lambda>h q. q\<lparr>qe_h2c := Some h\<rparr>) (H2C, qidx))
     (on_ok (add_and_start env idx (\<lambda>h q. q\<lparr>qe_c2h := Some h\<rparr>) (C2H, qidx))
     (if idx = 0 then hret 0
      else hbind (lift_res (nvme_qid_to_qdma_qid (of_nat idx) True func)) (\<lambda>qidx2.
        on_ok (add_and_start env idx (\<lambda>h q. q\<lparr>data_c2h := Some h\<rparr>) (C2H, qidx2))
        (nvme_qdma_get_c2h_pfch_tag env fuel func idx))))))"

section \<open>Response rings\<close>

definition kzalloc :: "host_env \<Rightarrow> bool hm" where
  "kzalloc env = hbind (lib env Kzalloc) (\<lambda>ret.
     hthen (modify (\<lambda>s. if ret = 0 then s\<lparr>ring_mem := ring_mem s + 1\<rparr> else s)) (hret (ret = 0)))"

definition nvme_qdma_alloc_cqe :: "host_env \<Rightarrow> int hm" where
  "nvme_qdma_alloc_cqe env = hbind (kzalloc env) (\<lambda>ok. if \<not> ok then hret (- ENOMEM)
     else hbind (kzalloc env) (\<lambda>ok. if \<not> ok then hret (- ENOMEM) else hret 0))"

definition nvme_qdma_alloc_rsp :: "host_env \<Rightarrow> u16 \<Rightarrow> int hm" where
  "nvme_qdma_alloc_rsp env qid =
     (if qid = 0 then hbind (kzalloc env) (\<lambda>ok. if \<not> ok then hret (- ENOMEM) else nvme_qdma_alloc_cqe env)
      else nvme_qdma_alloc_cqe env)"

text \<open>\<open>linked\<close> tells whether the entries already point to their queue, whose number is read.  Freeing an entry frees its
  two or three buffers.\<close>

definition nvme_qdma_free_rsp :: "bool \<Rightarrow> u16 \<Rightarrow> unit hm" where
  "nvme_qdma_free_rsp linked qid = (\<lambda>s. if \<not> linked then Inl NullDeref
     else Inr ((), s\<lparr>ring_mem := ring_mem s - (if qid = 0 then 3 else 2)\<rparr>))"

fun free_rsps :: "bool \<Rightarrow> u16 \<Rightarrow> nat \<Rightarrow> unit hm" where
  "free_rsps linked qid 0 s = Inr ((), s)"
| "free_rsps linked qid (Suc n) s = hthen (nvme_qdma_free_rsp linked qid) (free_rsps linked qid n) s"

definition nvme_qdma_free_ring :: "bool \<Rightarrow> u16 \<Rightarrow> nat \<Rightarrow> unit hm" where
  "nvme_qdma_free_ring linked qid n =
     hthen (free_rsps linked qid n) (modify (\<lambda>s. s\<lparr>ring_mem := ring_mem s - 1\<rparr>))"

text \<open>The loop over the entries: \<open>None\<close> when all are allocated, otherwise the index of the one that failed.\<close>

fun alloc_rsps :: "host_env \<Rightarrow> u16 \<Rightarrow> nat \<Rightarrow> nat \<Rightarrow> nat option hm" where
  "alloc_rsps env qid i 0 s = Inr (None, s)"
| "alloc_rsps env qid i (Suc n) s =
     hbind (nvme_qdma_alloc_rsp env qid) (\<lambda>ret. if ret \<noteq> 0 then hret (Some i) else alloc_rsps env qid (Suc i) n) s"

definition nvme_qdma_alloc_ring :: "host_env \<Rightarrow> u16 \<Rightarrow> nat \<Rightarrow> bool hm" where
  "nvme_qdma_alloc_ring env qid n = hbind (kzalloc env) (\<lambda>ok. if \<not> ok then hret False
     else hbind (alloc_rsps env qid 0 n) (\<lambda>r. case r of None \<Rightarrow> hret True
       | Some i \<Rightarrow> hthen (nvme_qdma_free_ring False qid i) (hret False)))"

section \<open>One queue\<close>

text \<open>The reference that a queue drops may be the last one: the device is taken off the list and freed.\<close>

definition nvme_qdma_dev_put :: "unit hm" where
  "nvme_qdma_dev_put = hthen use_dev (modify (\<lambda>s. s\<lparr>dev_refs := dev_refs s - 1, dev_gone := dev_refs s \<le> 1\<rparr>))"

definition nvme_qdma_destroy_queue_ib :: "host_env \<Rightarrow> nat \<Rightarrow> unit hm" where
  "nvme_qdma_destroy_queue_ib env idx = hbind (get_queue idx) (\<lambda>q.
     if \<not> q_tr_ready q then hret ()
     else hthen (upd_queue idx (\<lambda>q. q\<lparr>q_tr_ready := False\<rparr>))
         (hthen use_dev
         (hbind (qdma_destroy_qp env (qe_h2c q)) (\<lambda>_.
          hbind (qdma_destroy_qp env (qe_c2h q)) (\<lambda>_.
          hthen (nvme_qdma_free_ring True (hq_qid q) (queue_size q)) nvme_qdma_dev_put)))))"

text \<open>On success the entries of the ring are linked to the queue.\<close>

definition nvme_qdma_create_queue_ib :: "host_env \<Rightarrow> nat \<Rightarrow> u8 \<Rightarrow> nat \<Rightarrow> int hm" where
  "nvme_qdma_create_queue_ib env fuel func idx =
     hthen use_dev (hbind (nvme_qdma_create_qp env fuel func idx) (\<lambda>ret.
     if ret \<noteq> 0 then hthen nvme_qdma_dev_put (hret ret)
     else hbind (get_queue idx) (\<lambda>q.
       hbind (nvme_qdma_alloc_ring env (hq_qid q) (queue_size q)) (\<lambda>ok.
       hthen (upd_queue idx (\<lambda>q. q\<lparr>rsp_ring := ok\<rparr>))
       (if \<not> ok then
          hbind (qdma_destroy_qp env (qe_h2c q)) (\<lambda>_. hbind (qdma_destroy_qp env (qe_c2h q)) (\<lambda>_.
          hthen nvme_qdma_dev_put (hret (- ENOMEM))))
        else hthen (upd_queue idx (\<lambda>q. q\<lparr>q_tr_ready := True\<rparr>)) (hret 0))))))"

definition nvme_qdma_alloc_queue :: "host_env \<Rightarrow> nat \<Rightarrow> u8 \<Rightarrow> nat \<Rightarrow> nat \<Rightarrow> int hm" where
  "nvme_qdma_alloc_queue env fuel func idx depth =
     hthen (upd_queue idx (\<lambda>q. q\<lparr>hq_qid := of_nat idx, queue_size := depth\<rparr>))
     (on_ok (nvme_qdma_create_queue_ib env fuel func idx)
     (hthen (upd_queue idx (\<lambda>q. q\<lparr>q_allocated := True\<rparr>)) (hret 0)))"

definition stop_hw_queue :: "host_env \<Rightarrow> nat \<Rightarrow> unit hm" where
  "stop_hw_queue env idx = hthen use_dev (hbind (get_queue idx) (\<lambda>q.
     hbind (lib env (QueueStop (qe_h2c q))) (\<lambda>_. hbind (lib env (QueueStop (qe_c2h q))) (\<lambda>_. hret ()))))"

definition nvme_qdma_stop_queue :: "host_env \<Rightarrow> nat \<Rightarrow> unit hm" where
  "nvme_qdma_stop_queue env idx = hbind (get_queue idx) (\<lambda>q.
     if \<not> q_live q then hret ()
     else hthen (upd_queue idx (\<lambda>q. q\<lparr>q_live := False\<rparr>)) (stop_hw_queue env idx))"

definition nvme_qdma_free_queue :: "host_env \<Rightarrow> nat \<Rightarrow> unit hm" where
  "nvme_qdma_free_queue env idx = hbind (get_queue idx) (\<lambda>q.
     if \<not> q_allocated q then hret ()
     else hthen (upd_queue idx (\<lambda>q. q\<lparr>q_allocated := False\<rparr>)) (nvme_qdma_destroy_queue_ib env idx))"

definition nvme_qdma_start_queue :: "host_env \<Rightarrow> nat \<Rightarrow> int hm" where
  "nvme_qdma_start_queue env idx = hbind (get_queue idx) (\<lambda>q s.
     hbind (lib env (if idx \<noteq> 0 then ConnectIo idx (data_c2h_pfch_tag q) (nvme_qdma_poll_queue (io_parts s) idx) else ConnectAdmin))
     (\<lambda>ret. if ret = 0 then hthen (upd_queue idx (\<lambda>q. q\<lparr>q_live := True\<rparr>)) (hret ret)
       else hthen (if q_allocated q then stop_hw_queue env idx else hret ()) (hret ret)) s)"

section \<open>All I/O queues\<close>

text \<open>The loops \<^verbatim>\<open>for (i = 1; i < queue_count; i++)\<close> and their unwinding \<^verbatim>\<open>for (i--; i >= 1; i--)\<close>, with the number of
  rounds left.\<close>

fun each_up :: "(nat \<Rightarrow> unit hm) \<Rightarrow> nat \<Rightarrow> nat \<Rightarrow> unit hm" where
  "each_up f i 0 s = Inr ((), s)"
| "each_up f i (Suc n) s = hthen (f i) (each_up f (Suc i) n) s"

fun each_down :: "(nat \<Rightarrow> unit hm) \<Rightarrow> nat \<Rightarrow> unit hm" where
  "each_down f 0 s = Inr ((), s)"
| "each_down f (Suc i) s = hthen (f (Suc i)) (each_down f i) s"

text \<open>A loop that stops at the first error, with the code and the index it stopped at.\<close>

fun until_error :: "(nat \<Rightarrow> int hm) \<Rightarrow> nat \<Rightarrow> nat \<Rightarrow> (int \<times> nat) hm" where
  "until_error f i 0 s = Inr ((0, i), s)"
| "until_error f i (Suc n) s = hbind (f i) (\<lambda>ret. if ret \<noteq> 0 then hret (ret, i) else until_error f (Suc i) n) s"

definition nvme_qdma_free_io_queues :: "host_env \<Rightarrow> unit hm" where
  "nvme_qdma_free_io_queues env = (\<lambda>s. each_up (nvme_qdma_free_queue env) 1 (queue_count s - 1) s)"

definition nvme_qdma_stop_io_queues :: "host_env \<Rightarrow> unit hm" where
  "nvme_qdma_stop_io_queues env = (\<lambda>s. each_up (nvme_qdma_stop_queue env) 1 (queue_count s - 1) s)"

definition nvme_qdma_start_io_queues :: "host_env \<Rightarrow> int hm" where
  "nvme_qdma_start_io_queues env = (\<lambda>s.
     hbind (until_error (nvme_qdma_start_queue env) 1 (queue_count s - 1)) (\<lambda>(ret, i).
       if ret \<noteq> 0 then hthen (each_down (nvme_qdma_stop_queue env) (i - 1)) (hret ret) else hret 0) s)"

definition nvme_qdma_alloc_io_queues ::
    "host_env \<Rightarrow> nat \<Rightarrow> u8 \<Rightarrow> fabric_opts \<Rightarrow> nat \<Rightarrow> (nat \<Rightarrow> int \<times> nat) \<Rightarrow> int hm" where
  "nvme_qdma_alloc_io_queues env fuel func opts num_online_cpus set_queue_count = (\<lambda>s.
     let (ret, qc, io) = nvme_qdma_count_io_queues opts num_online_cpus set_queue_count (io_parts s);
         unwind = (\<lambda>ret i. hthen (each_down (nvme_qdma_free_queue env) (i - 1)) (hret ret))
     in case qc of None \<Rightarrow> Inr (ret, s)
        | Some n \<Rightarrow>
            hbind (until_error (\<lambda>i. nvme_qdma_alloc_queue env fuel func i (sqsize s + 1)) 1 (n - 1)) (\<lambda>(ret, i).
            if ret \<noteq> 0 then unwind ret i
            else hbind (until_error (nvme_qdma_create_h2c_data_qp env func) 1 NVME_QDMA_MAX_IO_QUEUES) (\<lambda>(ret, i).
            if ret \<noteq> 0 then unwind ret i
            else hbind (nvme_qdma_create_h2c_data_qp env func (unat (QDMA_PRP_FETCH_QID - 8))) (\<lambda>ret.
            if ret \<noteq> 0 then unwind ret i else hret 0)))
            (s\<lparr>queue_count := n, io_parts := io\<rparr>))"

end
