(* ===== verification/Host_Lifecycle_Laws.thy ===== *)
theory Host_Lifecycle_Laws
  imports Host_Lifecycle
begin

text \<open>
  Properties of the life of the host driver's queues (theory \<^verbatim>\<open>Host_Lifecycle\<close>).
\<close>

named_theorems hm_simps \<open>unfolding of the host driver's steps\<close>

lemmas [hm_simps] = hret_def hbind_def hthen_def lift_res_def modify_def on_ok_def lib_def get_queue_def upd_queue_def use_dev_def
  prod.case rbind_simps

section \<open>Starting and stopping\<close>

text \<open>Starting and stopping queues changes the number of calls and the flag for a live queue only.\<close>

definition lives :: "host_state \<Rightarrow> nat set" where
  "lives s = {i. i < length (hqueues s) \<and> q_live (hqueues s ! i)}"

definition only_live :: "host_state \<Rightarrow> host_state \<Rightarrow> bool" where
  "only_live s s' \<longleftrightarrow> (\<exists>c qs. s' = s\<lparr>clock := c, hqueues := qs\<rparr>
     \<and> map (\<lambda>q. q\<lparr>q_live := False\<rparr>) qs = map (\<lambda>q. q\<lparr>q_live := False\<rparr>) (hqueues s))"

lemma only_live_refl [simp]: "only_live s s"
  unfolding only_live_def by (intro exI [of _ "clock s"] exI [of _ "hqueues s"]) simp

lemma only_live_trans: "only_live s s' \<Longrightarrow> only_live s' s'' \<Longrightarrow> only_live s s''"
  unfolding only_live_def by fastforce

lemma only_liveD:
  assumes "only_live s s'"
  shows "length (hqueues s') = length (hqueues s)" "dev_gone s' = dev_gone s" "queue_count s' = queue_count s"
proof -
  obtain c qs where s: "s' = s\<lparr>clock := c, hqueues := qs\<rparr>"
    and m: "map (\<lambda>q. q\<lparr>q_live := False\<rparr>) qs = map (\<lambda>q. q\<lparr>q_live := False\<rparr>) (hqueues s)"
    using assms unfolding only_live_def by blast
  show "length (hqueues s') = length (hqueues s)" using map_eq_imp_length_eq [OF m] s by simp
qed (use assms in \<open>auto simp: only_live_def\<close>)

lemma only_live_tag:
  assumes "only_live s s'" "j < length (hqueues s)"
  shows "data_c2h_pfch_tag (hqueues s' ! j) = data_c2h_pfch_tag (hqueues s ! j)"
proof -
  have m: "map (\<lambda>q. q\<lparr>q_live := False\<rparr>) (hqueues s') = map (\<lambda>q. q\<lparr>q_live := False\<rparr>) (hqueues s)"
    using assms(1) by (auto simp: only_live_def)
  then have "j < length (hqueues s')" using assms(2) by (metis length_map)
  with m have "(hqueues s' ! j)\<lparr>q_live := False\<rparr> = (hqueues s ! j)\<lparr>q_live := False\<rparr>" using assms(2) by (metis nth_map)
  from arg_cong [OF this, of data_c2h_pfch_tag] show ?thesis by simp
qed

lemma only_live_set:
  assumes "idx < length (hqueues s)"
  shows "only_live s (s\<lparr>clock := c, hqueues := (hqueues s)[idx := (hqueues s ! idx)\<lparr>q_live := b\<rparr>]\<rparr>)"
proof -
  have "map (\<lambda>q. q\<lparr>q_live := False\<rparr>) ((hqueues s)[idx := (hqueues s ! idx)\<lparr>q_live := b\<rparr>])
      = map (\<lambda>q. q\<lparr>q_live := False\<rparr>) (hqueues s)"
    using assms by (simp add: list_eq_iff_nth_eq nth_list_update)
  then show ?thesis unfolding only_live_def by blast
qed

lemma lives_set:
  assumes "idx < length (hqueues s)"
  shows "lives (s\<lparr>clock := c, hqueues := (hqueues s)[idx := (hqueues s ! idx)\<lparr>q_live := b\<rparr>]\<rparr>)
     = (if b then insert idx (lives s) else lives s - {idx})"
  using assms by (auto simp: lives_def nth_list_update split: if_splits)

lemma only_live_clock: "only_live s (s\<lparr>clock := c\<rparr>)"
  unfolding only_live_def by (intro exI [of _ c] exI [of _ "hqueues s"]) simp

lemma stop_hw_queue_ok:
  assumes "idx < length (hqueues s)" "\<not> dev_gone s"
  shows "stop_hw_queue env idx s = Inr ((), s\<lparr>clock := Suc (Suc (clock s))\<rparr>)"
  using assms by (simp add: stop_hw_queue_def hm_simps)

text \<open>What the target answers to the connection of queue \<open>j\<close> when it is call number \<open>n\<close> of the loop: the command names the
  queue, the prefetch tag it was given and whether it is polled.\<close>

definition connect_answer :: "host_env \<Rightarrow> host_state \<Rightarrow> nat \<Rightarrow> nat \<Rightarrow> int" where
  "connect_answer env s n j =
     answer env (ConnectIo j (data_c2h_pfch_tag (hqueues s ! j)) (nvme_qdma_poll_queue (io_parts s) j)) (clock s + n)"

lemma connect_answer_later:
  assumes "only_live s s'" "clock s' = Suc (clock s)" "j < length (hqueues s)"
  shows "connect_answer env s' n j = connect_answer env s (Suc n) j"
proof -
  have "io_parts s' = io_parts s" using assms(1) by (auto simp: only_live_def)
  then show ?thesis using assms(2) only_live_tag [OF assms(1,3)] by (simp add: connect_answer_def)
qed

lemma start_queue_live:
  assumes "idx < length (hqueues s)" "\<not> dev_gone s" "0 < idx"
  shows "\<exists>ret s'. nvme_qdma_start_queue env idx s = Inr (ret, s') \<and> only_live s s'
     \<and> lives s' = (if ret = 0 then insert idx (lives s) else lives s)
     \<and> ret = connect_answer env s 0 idx \<and> (ret = 0 \<longrightarrow> clock s' = Suc (clock s))"
proof -
  define q where "q = hqueues s ! idx"
  define ret where "ret = connect_answer env s 0 idx"
  define s1 where "s1 = s\<lparr>clock := Suc (clock s)\<rparr>"
  have s1: "idx < length (hqueues s1)" "\<not> dev_gone s1" "hqueues s1 = hqueues s" using assms by (simp_all add: s1_def)
  have r: "nvme_qdma_start_queue env idx s =
     (if ret = 0 then hthen (upd_queue idx (\<lambda>q. q\<lparr>q_live := True\<rparr>)) (hret ret)
       else hthen (if q_allocated q then stop_hw_queue env idx else hret ()) (hret ret)) s1"
    using assms by (simp add: nvme_qdma_start_queue_def hbind_def get_queue_def lib_def q_def ret_def s1_def connect_answer_def)
  show ?thesis unfolding ret_def [symmetric]
  proof (cases "ret = 0")
    case True
    then have "nvme_qdma_start_queue env idx s
        = Inr (0, s\<lparr>clock := Suc (clock s), hqueues := (hqueues s)[idx := (hqueues s ! idx)\<lparr>q_live := True\<rparr>]\<rparr>)"
      using r assms by (simp add: hm_simps s1_def)
    then show "\<exists>r s'. nvme_qdma_start_queue env idx s = Inr (r, s') \<and> only_live s s'
        \<and> lives s' = (if r = 0 then insert idx (lives s) else lives s) \<and> r = ret \<and> (r = 0 \<longrightarrow> clock s' = Suc (clock s))"
      using True only_live_set [OF assms(1)] lives_set [OF assms(1), where b = True] by (intro exI conjI) (assumption, simp_all)
  next
    case False
    then have "\<exists>c. nvme_qdma_start_queue env idx s = Inr (ret, s\<lparr>clock := c\<rparr>)"
      using r stop_hw_queue_ok [OF s1(1,2)] by (cases "q_allocated q") (auto simp: hm_simps s1_def)
    then show "\<exists>r s'. nvme_qdma_start_queue env idx s = Inr (r, s') \<and> only_live s s'
        \<and> lives s' = (if r = 0 then insert idx (lives s) else lives s) \<and> r = ret \<and> (r = 0 \<longrightarrow> clock s' = Suc (clock s))"
      using False by (auto simp: only_live_clock lives_def)
  qed
qed

lemma stop_queue_live:
  assumes "idx < length (hqueues s)" "\<not> dev_gone s"
  shows "\<exists>s'. nvme_qdma_stop_queue env idx s = Inr ((), s') \<and> only_live s s' \<and> lives s' = lives s - {idx}"
proof (cases "q_live (hqueues s ! idx)")
  case True
  define s1 where "s1 = s\<lparr>hqueues := (hqueues s)[idx := (hqueues s ! idx)\<lparr>q_live := False\<rparr>]\<rparr>"
  have "nvme_qdma_stop_queue env idx s = stop_hw_queue env idx s1"
    using True assms by (simp add: nvme_qdma_stop_queue_def hm_simps s1_def)
  also have "\<dots> = Inr ((), s\<lparr>clock := Suc (Suc (clock s)), hqueues := (hqueues s)[idx := (hqueues s ! idx)\<lparr>q_live := False\<rparr>]\<rparr>)"
    using assms by (subst stop_hw_queue_ok) (simp_all add: s1_def)
  finally show ?thesis using only_live_set [OF assms(1)] lives_set [OF assms(1), where b = False] by (intro exI conjI) (assumption, simp_all)
next
  case False
  then have "nvme_qdma_stop_queue env idx s = Inr ((), s)" using assms by (simp add: nvme_qdma_stop_queue_def hm_simps)
  then show ?thesis using False by (auto simp: lives_def)
qed

lemma start_loop_live:
  assumes "i + n \<le> length (hqueues s)" "\<not> dev_gone s" "0 < i"
  shows "\<exists>ret j s'. until_error (nvme_qdma_start_queue env) i n s = Inr ((ret, j), s') \<and> only_live s s'
     \<and> i \<le> j \<and> j \<le> i + n \<and> lives s' = lives s \<union> {i ..< j} \<and> (\<forall>m. i \<le> m \<and> m < j \<longrightarrow> connect_answer env s (m - i) m = 0)
     \<and> (if ret = 0 then j = i + n else j < i + n \<and> ret = connect_answer env s (j - i) j)"
  using assms
proof (induction n arbitrary: i s)
  case (Suc n)
  have i: "i < length (hqueues s)" using Suc.prems(1) by simp
  then obtain ret s1 where r: "nvme_qdma_start_queue env i s = Inr (ret, s1)" "only_live s s1"
    "lives s1 = (if ret = 0 then insert i (lives s) else lives s)" "ret = connect_answer env s 0 i" "ret = 0 \<longrightarrow> clock s1 = Suc (clock s)"
    using start_queue_live [of i s env] Suc.prems(2,3) by blast
  show ?case
  proof (cases "ret = 0")
    case True
    have "Suc i + n \<le> length (hqueues s1)" "\<not> dev_gone s1" using Suc.prems only_liveD [OF r(2)] by simp_all
    then obtain ret' j s' where h: "until_error (nvme_qdma_start_queue env) (Suc i) n s1 = Inr ((ret', j), s')" "only_live s1 s'"
      "Suc i \<le> j" "j \<le> Suc i + n" "lives s' = lives s1 \<union> {Suc i ..< j}"
      "\<forall>m. Suc i \<le> m \<and> m < j \<longrightarrow> connect_answer env s1 (m - Suc i) m = 0"
      "if ret' = 0 then j = Suc i + n else j < Suc i + n \<and> ret' = connect_answer env s1 (j - Suc i) j"
      using Suc.IH [of "Suc i" s1] by blast
    have a: "connect_answer env s1 (m - Suc i) m = connect_answer env s (m - i) m" if "i < m" "m < i + Suc n" for m
      using connect_answer_later [OF r(2), of m env "m - Suc i"] r(5) True that Suc.prems(1) by (simp add: Suc_diff_Suc)
    have zero: "connect_answer env s (m - i) m = 0" if m: "i \<le> m" "m < j" for m
    proof (cases "m = i")
      case True
      then show ?thesis using r(4) \<open>ret = 0\<close> by simp
    next
      case False
      then show ?thesis using h(4,6) m a [of m] by simp
    qed
    have "until_error (nvme_qdma_start_queue env) i (Suc n) s = Inr ((ret', j), s')" using r(1) True h(1) by (simp add: hbind_def)
    moreover have "{i ..< j} = insert i {Suc i ..< j}" using h(3) by auto
    then have "lives s' = lives s \<union> {i ..< j}" using h(5) r(3) True by simp
    moreover have "i \<le> j" "j \<le> i + Suc n" using h(3,4) by simp_all
    moreover have "if ret' = 0 then j = i + Suc n else j < i + Suc n \<and> ret' = connect_answer env s (j - i) j"
      using h(3,7) a [of j] by (simp split: if_splits)
    ultimately show ?thesis using only_live_trans [OF r(2) h(2)] zero by blast
  next
    case False
    then have "until_error (nvme_qdma_start_queue env) i (Suc n) s = Inr ((ret, i), s1)" using r(1) by (simp add: hbind_def hret_def)
    then show ?thesis using r(2-4) False by (intro exI conjI) (assumption | simp)+
  qed
next
  case 0
  have "until_error (nvme_qdma_start_queue env) i 0 s = Inr ((0, i), s)" by simp
  then show ?case using only_live_refl [of s] by (intro exI conjI) (assumption | simp)+
qed

lemma stop_loop_live:
  assumes "k < length (hqueues s)" "\<not> dev_gone s"
  shows "\<exists>s'. each_down (nvme_qdma_stop_queue env) k s = Inr ((), s') \<and> only_live s s' \<and> lives s' = lives s - {1 .. k}"
  using assms
proof (induction k arbitrary: s)
  case (Suc k)
  obtain s1 where r: "nvme_qdma_stop_queue env (Suc k) s = Inr ((), s1)" "only_live s s1" "lives s1 = lives s - {Suc k}"
    using stop_queue_live [of "Suc k" s env] Suc.prems by auto
  have "k < length (hqueues s1)" "\<not> dev_gone s1" using Suc.prems only_liveD [OF r(2)] by simp_all
  then obtain s' where h: "each_down (nvme_qdma_stop_queue env) k s1 = Inr ((), s')" "only_live s1 s'" "lives s' = lives s1 - {1 .. k}"
    using Suc.IH [of s1] by blast
  have "each_down (nvme_qdma_stop_queue env) (Suc k) s = Inr ((), s')" using r(1) h(1) by (simp add: hthen_def hbind_def)
  moreover have "lives s' = lives s - {1 .. Suc k}" unfolding h(3) r(3) by (auto simp: le_Suc_eq)
  ultimately show ?case using only_live_trans [OF r(2) h(2)] by blast
qed simp

text \<open>C13. Connecting the I/O queues is all or nothing.  The target is asked once for each queue in turn, with the queue's number,
  prefetch tag and whether it is polled.  If it answers zero to all of them, the loop returns zero and every I/O queue
  is live.  Otherwise the loop returns the error of the first queue that did not connect, all queues before it
  having connected, and then no I/O queue is live.  Nothing else of the state changes but the number of calls.\<close>

theorem nvme_qdma_start_io_queues_all_or_none:
  assumes "\<not> dev_gone s" "0 < queue_count s" "queue_count s \<le> length (hqueues s)" "lives s \<inter> {1 ..< queue_count s} = {}"
  shows "\<exists>ret s'. nvme_qdma_start_io_queues env s = Inr (ret, s') \<and> only_live s s'
     \<and> (if \<forall>j. 1 \<le> j \<and> j < queue_count s \<longrightarrow> connect_answer env s (j - 1) j = 0
        then ret = 0 \<and> lives s' = lives s \<union> {1 ..< queue_count s}
        else lives s' = lives s \<and> ret \<noteq> 0
          \<and> (\<exists>j. 1 \<le> j \<and> j < queue_count s \<and> ret = connect_answer env s (j - 1) j
               \<and> (\<forall>i. 1 \<le> i \<and> i < j \<longrightarrow> connect_answer env s (i - 1) i = 0)))"
proof -
  obtain ret j s1 where r: "until_error (nvme_qdma_start_queue env) 1 (queue_count s - 1) s = Inr ((ret, j), s1)" "only_live s s1"
    "1 \<le> j" "j \<le> queue_count s" "lives s1 = lives s \<union> {1 ..< j}" "\<forall>m. 1 \<le> m \<and> m < j \<longrightarrow> connect_answer env s (m - 1) m = 0"
    "if ret = 0 then j = queue_count s else j < queue_count s \<and> ret = connect_answer env s (j - 1) j"
  proof -
    have qc: "1 + (queue_count s - 1) = queue_count s" using assms(2) by simp
    show ?thesis using start_loop_live [of 1 "queue_count s - 1" s env, unfolded qc] assms that by auto
  qed
  show ?thesis
  proof (cases "ret = 0")
    case True
    then show ?thesis using r by (intro exI [of _ 0] exI [of _ s1]) (simp add: nvme_qdma_start_io_queues_def hbind_def hret_def)
  next
    case False
    have "j - 1 < length (hqueues s1)" "\<not> dev_gone s1" using r(3,4) assms(1-3) only_liveD [OF r(2)] by linarith+
    then obtain s' where s': "each_down (nvme_qdma_stop_queue env) (j - 1) s1 = Inr ((), s')" "only_live s1 s'"
        "lives s' = lives s1 - {1 .. j - 1}"
      using stop_loop_live by blast
    have "{1 .. j - 1} = {1 ..< j}" using r(3) by auto
    then have "lives s' = lives s" using s'(3) r(4,5) assms(4) by fastforce
    moreover have "nvme_qdma_start_io_queues env s = Inr (ret, s')"
      using False r(1) s'(1) by (simp add: nvme_qdma_start_io_queues_def hbind_def hthen_def hret_def)
    moreover have "j < queue_count s" "ret = connect_answer env s (j - 1) j" using r(7) False by simp_all
    moreover from this have "\<not> (\<forall>j. 1 \<le> j \<and> j < queue_count s \<longrightarrow> connect_answer env s (j - 1) j = 0)" using r(3) False by blast
    ultimately show ?thesis using False r(3,6) only_live_trans [OF r(2) s'(2)] by (simp only: if_False) blast
  qed
qed

text \<open>A controller whose queues have been allocated.\<close>

definition sample_queue :: host_queue where
  "sample_queue = \<lparr>q_allocated = True, q_live = False, q_tr_ready = True, hq_qid = 1, queue_size = 2, rsp_ring = True,
     qe_h2c = Some (H2C, 1), qe_c2h = Some (C2H, 1), data_c2h = Some (C2H, 9), data_c2h_pfch_tag = 7\<rparr>"

definition sample_state :: host_state where
  "sample_state = \<lparr>clock = 0, present = {}, dev_refs = 1, dev_gone = False, pfch_reg_mutex = False, ring_mem = 10,
     hqueues = [sample_queue, sample_queue, sample_queue], queue_count = 3, sqsize = 1, io_parts = \<lparr>q_default = 2, q_read = 0, q_poll = 0\<rparr>\<rparr>"

text \<open>A target that accepts every queue, and one that refuses the second with error 5.\<close>

definition accepting_env :: host_env where
  "accepting_env = \<lparr>answer = (\<lambda>_ _. 0), byp_tag_reg = (\<lambda>_ _. (0, 0, 0))\<rparr>"

definition refusing_env :: host_env where
  "refusing_env = \<lparr>answer = (\<lambda>c _. case c of ConnectIo j _ _ \<Rightarrow> if j = 2 then 5 else 0 | _ \<Rightarrow> 0), byp_tag_reg = (\<lambda>_ _. (0, 0, 0))\<rparr>"

theorem nvme_qdma_start_io_queues_all_or_none_witness:
  "(\<exists>s'. nvme_qdma_start_io_queues accepting_env sample_state = Inr (0, s') \<and> lives s' = {1, 2})
     \<and> (\<exists>s'. nvme_qdma_start_io_queues refusing_env sample_state = Inr (5, s') \<and> lives s' = {})"
proof -
  have l: "lives sample_state = {}" 
    by (simp add: lives_def sample_state_def sample_queue_def nth_Cons' set_eq_iff)
  have n: "{1 ..< 3 :: nat} = {1, 2}" by auto
  have s: "\<not> dev_gone sample_state" "queue_count sample_state = 3" "length (hqueues sample_state) = 3" by (simp_all add: sample_state_def)
  have a: "connect_answer accepting_env sample_state m j = 0" "connect_answer refusing_env sample_state m j = (if j = 2 then 5 else 0)" for m j
    by (simp_all add: connect_answer_def accepting_env_def refusing_env_def)
  have two: "\<not> (\<forall>j :: nat. 1 \<le> j \<and> j < 3 \<longrightarrow> (if j = 2 then 5 else 0 :: int) = 0)" by (auto intro!: exI [of _ "2 :: nat"])
  note start = nvme_qdma_start_io_queues_all_or_none [where s = sample_state, unfolded s(2,3) l]
  from start [of accepting_env] s n have "\<exists>s'. nvme_qdma_start_io_queues accepting_env sample_state = Inr (0, s') \<and> lives s' = {1, 2}"
    by (simp add: a) blast
  moreover from start [of refusing_env, unfolded a] two s
  have "\<exists>s'. nvme_qdma_start_io_queues refusing_env sample_state = Inr (5, s') \<and> lives s' = {}"
    by (simp only: if_False) (auto split: if_splits)
  ultimately show ?thesis by blast
qed

section \<open>References of the device\<close>

text \<open>Freeing an allocated queue, whatever the library answers.\<close>

lemma destroy_qp_ok: "\<exists>ret c P. qdma_destroy_qp env h s = Inr (ret, s\<lparr>clock := c, present := P\<rparr>)"
  unfolding qdma_destroy_qp_def qdma_queue_remove_def hm_simps by (cases s) auto

lemma free_rsps_linked: "free_rsps True qid n s = Inr ((), s\<lparr>ring_mem := ring_mem s - int n * (if qid = 0 then 3 else 2)\<rparr>)"
  by (induction n arbitrary: s) (simp_all add: hthen_def hbind_def nvme_qdma_free_rsp_def algebra_simps)

lemma free_ring_linked:
  "nvme_qdma_free_ring True qid n s = Inr ((), s\<lparr>ring_mem := ring_mem s - int n * (if qid = 0 then 3 else 2) - 1\<rparr>)"
  by (simp add: nvme_qdma_free_ring_def hthen_def hbind_def free_rsps_linked modify_def)

lemma free_queue_put:
  assumes "idx < length (hqueues s)" "q_allocated (hqueues s ! idx)" "q_tr_ready (hqueues s ! idx)" "\<not> dev_gone s"
  shows "\<exists>c P m. nvme_qdma_free_queue env idx s = Inr ((), s\<lparr>clock := c, present := P, ring_mem := m,
     hqueues := (hqueues s)[idx := (hqueues s ! idx)\<lparr>q_allocated := False, q_tr_ready := False\<rparr>],
     dev_refs := dev_refs s - 1, dev_gone := dev_refs s \<le> 1\<rparr>)"
proof -
  define q where "q = (hqueues s ! idx)\<lparr>q_allocated := False\<rparr>"
  define s1 where "s1 = s\<lparr>hqueues := (hqueues s)[idx := q\<lparr>q_tr_ready := False\<rparr>]\<rparr>"
  obtain r1 c1 P1 where h: "qdma_destroy_qp env (qe_h2c q) s1 = Inr (r1, s1\<lparr>clock := c1, present := P1\<rparr>)"
    using destroy_qp_ok by blast
  obtain r2 c2 P2 where c: "qdma_destroy_qp env (qe_c2h q) (s1\<lparr>clock := c1, present := P1\<rparr>) = Inr (r2, s1\<lparr>clock := c2, present := P2\<rparr>)"
    using destroy_qp_ok [of env "qe_c2h q" "s1\<lparr>clock := c1, present := P1\<rparr>"] by auto
  have "nvme_qdma_free_queue env idx s = nvme_qdma_destroy_queue_ib env idx (s\<lparr>hqueues := (hqueues s)[idx := q]\<rparr>)"
    using assms by (simp add: nvme_qdma_free_queue_def hm_simps q_def)
  also have "\<dots> = hbind (qdma_destroy_qp env (qe_h2c q)) (\<lambda>_. hbind (qdma_destroy_qp env (qe_c2h q)) (\<lambda>_.
        hthen (nvme_qdma_free_ring True (hq_qid q) (queue_size q)) nvme_qdma_dev_put)) s1"
    using assms by (simp add: nvme_qdma_destroy_queue_ib_def hm_simps s1_def q_def)
  also have "\<dots> = nvme_qdma_dev_put (s1\<lparr>clock := c2, present := P2,
        ring_mem := ring_mem s1 - int (queue_size q) * (if hq_qid q = 0 then 3 else 2) - 1\<rparr>)"
    by (simp add: hbind_def h c hthen_def free_ring_linked)
  finally show ?thesis using assms(4)
    by (intro exI [of _ c2] exI [of _ P2] exI [of _ "ring_mem s1 - int (queue_size q) * (if hq_qid q = 0 then 3 else 2) - 1"])
      (cases s, simp add: nvme_qdma_dev_put_def hm_simps s1_def q_def)
qed

lemma free_queue_gone:
  assumes "idx < length (hqueues s)" "q_allocated (hqueues s ! idx)" "q_tr_ready (hqueues s ! idx)" "dev_gone s"
  shows "nvme_qdma_free_queue env idx s = Inl UseAfterFree"
  using assms by (simp add: nvme_qdma_free_queue_def nvme_qdma_destroy_queue_ib_def hm_simps)

definition ready :: "host_state \<Rightarrow> nat \<Rightarrow> bool" where
  "ready s i \<longleftrightarrow> i < length (hqueues s) \<and> q_allocated (hqueues s ! i) \<and> q_tr_ready (hqueues s ! i)"

lemma free_loop_refs:
  assumes "\<And>j. i \<le> j \<Longrightarrow> j < i + n \<Longrightarrow> ready s j" "\<not> dev_gone s" "0 < dev_refs s"
  shows "if n \<le> dev_refs s
     then \<exists>s'. each_up (nvme_qdma_free_queue env) i n s = Inr ((), s') \<and> dev_refs s' = dev_refs s - n \<and> dev_gone s' = (n = dev_refs s)
     else each_up (nvme_qdma_free_queue env) i n s = Inl UseAfterFree"
  using assms
proof (induction n arbitrary: i s)
  case (Suc n)
  have rd: "ready s i" using Suc.prems(1) by simp
  obtain c P m where f: "nvme_qdma_free_queue env i s = Inr ((), s\<lparr>clock := c, present := P, ring_mem := m,
     hqueues := (hqueues s)[i := (hqueues s ! i)\<lparr>q_allocated := False, q_tr_ready := False\<rparr>],
     dev_refs := dev_refs s - 1, dev_gone := dev_refs s \<le> 1\<rparr>)" (is "_ = Inr ((), ?s)")
    using free_queue_put [of i s env] rd Suc.prems(2) unfolding ready_def by blast
  have e: "each_up (nvme_qdma_free_queue env) i (Suc n) s = each_up (nvme_qdma_free_queue env) (Suc i) n ?s"
    using f by (simp add: hthen_def hbind_def)
  have rd': "ready ?s j" if "Suc i \<le> j" "j < Suc i + n" for j
    using Suc.prems(1) [of j] that by (simp add: ready_def)
  show ?case
  proof (cases "dev_refs s = 1")
    case True
    show ?thesis
    proof (cases n)
      case 0
      then show ?thesis unfolding e using True by simp
    next
      case n: (Suc k)
      have "ready ?s (Suc i)" using rd' n by simp
      then have "nvme_qdma_free_queue env (Suc i) ?s = Inl UseAfterFree"
        using True by (intro free_queue_gone) (simp_all add: ready_def)
      then show ?thesis unfolding e using True n by (simp add: hthen_def hbind_def)
    qed
  next
    case False
    then show ?thesis unfolding e using Suc.IH [of "Suc i" ?s] rd' Suc.prems(3)
      by (cases "n \<le> dev_refs s - 1") auto
  qed
qed simp

text \<open>C37. Freeing the I/O queues drops one reference of the device per queue, although no queue took one.  With at least as many
  references as queues the loop returns, and the device is freed exactly when they are as many; with fewer, as after
  the one reference of a new device, a later queue uses the device after it was freed.\<close>

theorem nvme_qdma_free_io_queues_refs:
  assumes "\<And>j. 1 \<le> j \<Longrightarrow> j < queue_count s \<Longrightarrow> ready s j" "\<not> dev_gone s" "0 < dev_refs s"
  shows "if queue_count s - 1 \<le> dev_refs s
     then \<exists>s'. nvme_qdma_free_io_queues env s = Inr ((), s') \<and> dev_refs s' = dev_refs s - (queue_count s - 1)
       \<and> dev_gone s' = (queue_count s - 1 = dev_refs s)
     else nvme_qdma_free_io_queues env s = Inl UseAfterFree"
  unfolding nvme_qdma_free_io_queues_def by (rule free_loop_refs) (use assms in auto)

theorem nvme_qdma_free_io_queues_refs_witness:
  "\<forall>env. nvme_qdma_free_io_queues env sample_state = Inl UseAfterFree"
proof
  fix env
  have "ready sample_state j" if "j < 3" for j
    using that by (simp add: ready_def sample_state_def sample_queue_def nth_Cons')
  then show "nvme_qdma_free_io_queues env sample_state = Inl UseAfterFree"
    using nvme_qdma_free_io_queues_refs [where s = sample_state and env = env] by (simp add: sample_state_def)
qed

section \<open>Allocation\<close>

text \<open>An environment in which every call succeeds but, perhaps, adding one host-to-card queue.\<close>

definition works_but :: "u32 \<Rightarrow> host_env \<Rightarrow> bool" where
  "works_but w env \<longleftrightarrow> (\<forall>c k. c \<noteq> QueueAdd (H2C, w) \<longrightarrow> answer env c k = 0) \<and> (\<forall>qid k. \<exists>tag. byp_tag_reg env qid k = (0, qid, tag))"

lemma lib_ok: "works_but w env \<Longrightarrow> c \<noteq> QueueAdd (H2C, w) \<Longrightarrow> lib env c s = Inr (0, s\<lparr>clock := Suc (clock s)\<rparr>)"
  by (simp add: lib_def works_but_def)

lemma kzalloc_ok: "works_but w env \<Longrightarrow> kzalloc env s = Inr (True, s\<lparr>clock := Suc (clock s), ring_mem := ring_mem s + 1\<rparr>)"
  by (simp add: kzalloc_def hbind_def hthen_def modify_def hret_def lib_ok)

lemma alloc_rsps_ok:
  assumes "works_but w env" "qid \<noteq> 0"
  shows "\<exists>c. alloc_rsps env qid i n s = Inr (None, s\<lparr>clock := c, ring_mem := ring_mem s + 2 * int n\<rparr>)"
proof (induction n arbitrary: i s)
  case (Suc n)
  have "nvme_qdma_alloc_rsp env qid s = Inr (0, s\<lparr>clock := Suc (Suc (clock s)), ring_mem := ring_mem s + 2\<rparr>)"
    using assms by (simp add: nvme_qdma_alloc_rsp_def nvme_qdma_alloc_cqe_def hbind_def hret_def kzalloc_ok [OF assms(1)])
  then show ?case using Suc.IH [of "Suc i" "s\<lparr>clock := Suc (Suc (clock s)), ring_mem := ring_mem s + 2\<rparr>"]
    by (simp add: hbind_def algebra_simps)
next
  case 0
  show ?case by (rule exI [of _ "clock s"]) simp
qed

lemma alloc_ring_ok:
  assumes "works_but w env" "qid \<noteq> 0"
  shows "\<exists>c. nvme_qdma_alloc_ring env qid n s = Inr (True, s\<lparr>clock := c, ring_mem := ring_mem s + 1 + 2 * int n\<rparr>)"
  using alloc_rsps_ok [OF assms, of 0 n "s\<lparr>clock := Suc (clock s), ring_mem := ring_mem s + 1\<rparr>"]
  by (auto simp: nvme_qdma_alloc_ring_def hbind_def hret_def kzalloc_ok [OF assms(1)])

lemma add_and_start_ok:
  assumes "works_but w env" "h \<noteq> (H2C, w)" "idx < length (hqueues s)"
  shows "add_and_start env idx store h s = Inr (0, s\<lparr>clock := Suc (Suc (clock s)), present := insert h (present s),
     hqueues := (hqueues s)[idx := store h (hqueues s ! idx)]\<rparr>)"
  using assms by (simp add: add_and_start_def qdma_queue_add_def hm_simps works_but_def)

lemma get_tag_ok:
  assumes "works_but w env" "0 < fuel" "idx < length (hqueues s)" "\<not> dev_gone s" "\<not> pfch_reg_mutex s"
    "nvme_qid_to_qdma_qid (of_nat idx) True func = Inr v"
  shows "\<exists>c tag. nvme_qdma_get_c2h_pfch_tag env fuel func idx s
     = Inr (0, s\<lparr>clock := c, hqueues := (hqueues s)[idx := (hqueues s ! idx)\<lparr>data_c2h_pfch_tag := tag\<rparr>]\<rparr>)"
proof -
  obtain f where f: "fuel = Suc f" using assms(2) by (cases fuel) auto
  obtain tag where tag: "byp_tag_reg env v (Suc (clock s)) = (0, v, tag)" using assms(1) unfolding works_but_def by blast
  have "nvme_qdma_get_c2h_pfch_tag env fuel func idx s
     = Inr (0, s\<lparr>clock := Suc (Suc (clock s)), pfch_reg_mutex := False, hqueues := (hqueues s)[idx := (hqueues s ! idx)\<lparr>data_c2h_pfch_tag := tag\<rparr>]\<rparr>)"
    using assms tag f by (simp add: nvme_qdma_get_c2h_pfch_tag_def hm_simps works_but_def)
  then show ?thesis using assms(5)
    by (intro exI [of _ "Suc (Suc (clock s))"] exI [of _ tag]) (cases s, simp)
qed

text \<open>An I/O queue once allocated, with the names of its command and data queues.\<close>

definition allocated_as :: "nat \<Rightarrow> nat \<Rightarrow> u32 \<Rightarrow> u32 \<Rightarrow> u8 \<Rightarrow> host_queue \<Rightarrow> host_queue" where
  "allocated_as idx depth w1 w2 tag q = q\<lparr>hq_qid := of_nat idx, queue_size := depth, qe_h2c := Some (H2C, w1), qe_c2h := Some (C2H, w1),
     data_c2h := Some (C2H, w2), data_c2h_pfch_tag := tag, rsp_ring := True, q_tr_ready := True, q_allocated := True\<rparr>"

lemma create_qp_ok:
  assumes env: "works_but w env" "0 < fuel" and s: "idx < length (hqueues s)" "\<not> dev_gone s" "\<not> pfch_reg_mutex s" and idx: "idx \<noteq> 0"
    and names: "nvme_qid_to_qdma_qid (of_nat idx) False func = Inr w1" "nvme_qid_to_qdma_qid (of_nat idx) True func = Inr w2" "w1 \<noteq> w"
  shows "\<exists>c tag. nvme_qdma_create_qp env fuel func idx s = Inr (0, s\<lparr>clock := c, present := present s \<union> {(H2C, w1), (C2H, w1), (C2H, w2)},
     hqueues := (hqueues s)[idx := (hqueues s ! idx)\<lparr>qe_h2c := Some (H2C, w1), qe_c2h := Some (C2H, w1),
       data_c2h := Some (C2H, w2), data_c2h_pfch_tag := tag\<rparr>]\<rparr>)"
proof -
  define q where "q = (hqueues s ! idx)\<lparr>qe_h2c := Some (H2C, w1), qe_c2h := Some (C2H, w1), data_c2h := Some (C2H, w2)\<rparr>"
  define s1 where "s1 = s\<lparr>clock := Suc (Suc (Suc (Suc (Suc (Suc (clock s)))))), present := present s \<union> {(H2C, w1), (C2H, w1), (C2H, w2)}, hqueues := (hqueues s)[idx := q]\<rparr>"
  have r: "nvme_qdma_create_qp env fuel func idx s = nvme_qdma_get_c2h_pfch_tag env fuel func idx s1"
    unfolding nvme_qdma_create_qp_def hthen_def on_ok_def hbind_def use_dev_def lift_res_def names
    using s idx names(3) by (simp add: add_and_start_ok [OF env(1)] s1_def q_def insert_commute)
  obtain c tag where "nvme_qdma_get_c2h_pfch_tag env fuel func idx s1
      = Inr (0, s1\<lparr>clock := c, hqueues := (hqueues s1)[idx := (hqueues s1 ! idx)\<lparr>data_c2h_pfch_tag := tag\<rparr>]\<rparr>)"
    using get_tag_ok [OF env, of idx s1 func w2] s names(2) by (auto simp: s1_def)
  then show ?thesis using r s(1) by (intro exI [of _ c] exI [of _ tag]) (simp add: s1_def q_def)
qed

lemma alloc_queue_ok:
  assumes env: "works_but w env" "0 < fuel" and s: "idx < length (hqueues s)" "\<not> dev_gone s" "\<not> pfch_reg_mutex s"
    and idx: "idx \<noteq> 0" "idx < 65536"
    and names: "nvme_qid_to_qdma_qid (of_nat idx) False func = Inr w1" "nvme_qid_to_qdma_qid (of_nat idx) True func = Inr w2" "w1 \<noteq> w"
  shows "\<exists>c tag. nvme_qdma_alloc_queue env fuel func idx depth s = Inr (0, s\<lparr>clock := c,
     present := present s \<union> {(H2C, w1), (C2H, w1), (C2H, w2)}, ring_mem := ring_mem s + 1 + 2 * int depth,
     hqueues := (hqueues s)[idx := allocated_as idx depth w1 w2 tag (hqueues s ! idx)]\<rparr>)"
proof -
  define q where "q = (hqueues s ! idx)\<lparr>hq_qid := of_nat idx, queue_size := depth\<rparr>"
  define s1 where "s1 = s\<lparr>hqueues := (hqueues s)[idx := q]\<rparr>"
  have s1: "idx < length (hqueues s1)" "\<not> dev_gone s1" "\<not> pfch_reg_mutex s1" using s by (simp_all add: s1_def)
  obtain c tag where cq: "nvme_qdma_create_qp env fuel func idx s1 = Inr (0, s1\<lparr>clock := c, present := present s1 \<union> {(H2C, w1), (C2H, w1), (C2H, w2)},
     hqueues := (hqueues s1)[idx := (hqueues s1 ! idx)\<lparr>qe_h2c := Some (H2C, w1), qe_c2h := Some (C2H, w1),
       data_c2h := Some (C2H, w2), data_c2h_pfch_tag := tag\<rparr>]\<rparr>)" (is "_ = Inr (0, ?s2)")
    using create_qp_ok [OF env s1 idx(1) names] by blast
  have "of_nat idx \<noteq> (0 :: u16)" using idx by (simp add: word_of_nat_eq_0_iff dvd_imp_le nat_dvd_not_less)
  then obtain c' where ar: "nvme_qdma_alloc_ring env (of_nat idx) depth ?s2 = Inr (True, ?s2\<lparr>clock := c', ring_mem := ring_mem ?s2 + 1 + 2 * int depth\<rparr>)"
    using alloc_ring_ok [OF env(1)] by blast
  have "nvme_qdma_alloc_queue env fuel func idx depth s
      = on_ok (nvme_qdma_create_queue_ib env fuel func idx) (hthen (upd_queue idx (\<lambda>q. q\<lparr>q_allocated := True\<rparr>)) (hret 0)) s1"
    using s by (simp add: nvme_qdma_alloc_queue_def hthen_def hbind_def upd_queue_def s1_def q_def)
  also have "\<dots> = Inr (0, s\<lparr>clock := c', present := present s \<union> {(H2C, w1), (C2H, w1), (C2H, w2)}, ring_mem := ring_mem s + 1 + 2 * int depth,
     hqueues := (hqueues s)[idx := allocated_as idx depth w1 w2 tag (hqueues s ! idx)]\<rparr>)"
    using s cq ar unfolding s1_def q_def
    by (simp add: nvme_qdma_create_queue_ib_def on_ok_def hthen_def hbind_def use_dev_def get_queue_def upd_queue_def hret_def allocated_as_def)
  finally show ?thesis by blast
qed

text \<open>The names of the queues of a function.\<close>

definition qe_name :: "u8 \<Rightarrow> nat \<Rightarrow> u32" where
  "qe_name func i = of_nat i + 32 * ucast func"

definition data_name :: "u8 \<Rightarrow> nat \<Rightarrow> u32" where
  "data_name func i = of_nat i + 32 * ucast func + 8"

lemma names_are:
  assumes "0 < i" "i < 65536"
  shows "nvme_qid_to_qdma_qid (of_nat i) False func = Inr (qe_name func i)"
    "nvme_qid_to_qdma_qid (of_nat i) True func = Inr (data_name func i)"
proof -
  have "of_nat i \<noteq> (0 :: u32)" using assms by (simp add: word_of_nat_eq_0_iff dvd_imp_le nat_dvd_not_less)
  then show "nvme_qid_to_qdma_qid (of_nat i) False func = Inr (qe_name func i)"
    "nvme_qid_to_qdma_qid (of_nat i) True func = Inr (data_name func i)"
    by (simp_all add: nvme_qid_to_qdma_qid_def qe_name_def data_name_def)
qed

lemma of_nat_small_eq: "i < 65536 \<Longrightarrow> j < 65536 \<Longrightarrow> (of_nat i :: u32) = of_nat j \<longleftrightarrow> i = j"
  by (simp add: word_of_nat_eq_iff take_bit_nat_eq_self)

lemma data_name_shift: "data_name func i = qe_name func (i + 8)"
  by (simp add: data_name_def qe_name_def)

lemma qe_name_eq: "i < 65536 \<Longrightarrow> j < 65536 \<Longrightarrow> qe_name func i = qe_name func j \<longleftrightarrow> i = j"
  by (simp add: qe_name_def of_nat_small_eq)

text \<open>The state after queues were allocated: \<open>H\<close> are the new hardware queues and \<open>I\<close> the new NVMe queues.\<close>

definition grown :: "host_state \<Rightarrow> qhndl set \<Rightarrow> nat set \<Rightarrow> u8 \<Rightarrow> nat \<Rightarrow> int \<Rightarrow> host_state \<Rightarrow> bool" where
  "grown s H I func depth m s' \<longleftrightarrow> present s' = present s \<union> H \<and> ring_mem s' = ring_mem s + m \<and> dev_refs s' = dev_refs s
     \<and> dev_gone s' = dev_gone s \<and> pfch_reg_mutex s' = pfch_reg_mutex s \<and> queue_count s' = queue_count s \<and> io_parts s' = io_parts s
     \<and> length (hqueues s') = length (hqueues s)
     \<and> (\<forall>j. if j \<in> I then ready s' j \<and> qe_h2c (hqueues s' ! j) = Some (H2C, qe_name func j) \<and> qe_c2h (hqueues s' ! j) = Some (C2H, qe_name func j)
          \<and> hq_qid (hqueues s' ! j) = of_nat j \<and> queue_size (hqueues s' ! j) = depth
          else hqueues s' ! j = hqueues s ! j)"

definition hw_names :: "u8 \<Rightarrow> nat \<Rightarrow> qhndl set" where
  "hw_names func j = {(H2C, qe_name func j), (C2H, qe_name func j), (C2H, data_name func j)}"

lemma grown_trans:
  assumes "grown s H I func depth m s1" "grown s1 H' I' func depth m' s2"
  shows "grown s (H \<union> H') (I \<union> I') func depth (m + m') s2"
proof -
  have "if j \<in> I \<union> I' then ready s2 j \<and> qe_h2c (hqueues s2 ! j) = Some (H2C, qe_name func j) \<and> qe_c2h (hqueues s2 ! j) = Some (C2H, qe_name func j)
          \<and> hq_qid (hqueues s2 ! j) = of_nat j \<and> queue_size (hqueues s2 ! j) = depth
      else hqueues s2 ! j = hqueues s ! j" for j
  proof (cases "j \<in> I'")
    case True
    then show ?thesis using assms(2) unfolding grown_def by simp
  next
    case False
    then have "hqueues s2 ! j = hqueues s1 ! j" "length (hqueues s2) = length (hqueues s1)" using assms(2) unfolding grown_def by simp_all
    moreover have "if j \<in> I then ready s1 j \<and> qe_h2c (hqueues s1 ! j) = Some (H2C, qe_name func j) \<and> qe_c2h (hqueues s1 ! j) = Some (C2H, qe_name func j)
          \<and> hq_qid (hqueues s1 ! j) = of_nat j \<and> queue_size (hqueues s1 ! j) = depth
        else hqueues s1 ! j = hqueues s ! j" using assms(1) unfolding grown_def by blast
    ultimately show ?thesis using False by (cases "j \<in> I") (simp_all add: ready_def)
  qed
  then show ?thesis using assms unfolding grown_def by (simp add: Un_assoc)
qed

lemma grown_queue:
  assumes "i < length (hqueues s)"
  shows "grown s (hw_names func i) {i} func depth (1 + 2 * int depth) (s\<lparr>clock := c,
     present := present s \<union> hw_names func i, ring_mem := ring_mem s + 1 + 2 * int depth,
     hqueues := (hqueues s)[i := allocated_as i depth (qe_name func i) w2 tag (hqueues s ! i)]\<rparr>)"
  using assms by (simp add: grown_def ready_def allocated_as_def)

lemma alloc_loop_ok:
  assumes "works_but w env" "0 < fuel" "0 < i" "i + n \<le> length (hqueues s)" "i + n < 65536" "\<not> dev_gone s" "\<not> pfch_reg_mutex s"
    "\<And>j. i \<le> j \<Longrightarrow> j < i + n \<Longrightarrow> qe_name func j \<noteq> w"
  shows "\<exists>s'. until_error (\<lambda>i. nvme_qdma_alloc_queue env fuel func i depth) i n s = Inr ((0, i + n), s')
     \<and> grown s (\<Union>j\<in>{i ..< i + n}. hw_names func j) {i ..< i + n} func depth (int n * (1 + 2 * int depth)) s'"
  using assms(3-8)
proof (induction n arbitrary: i s)
  case 0
  show ?case by (intro exI [of _ s]) (simp add: grown_def)
next
  case (Suc n)
  have i: "i < length (hqueues s)" "i \<noteq> 0" "0 < i" "i < 65536" "qe_name func i \<noteq> w" using Suc.prems(1-3) Suc.prems(6) [of i] by simp_all
  obtain c tag where a: "nvme_qdma_alloc_queue env fuel func i depth s = Inr (0, s\<lparr>clock := c,
     present := present s \<union> hw_names func i, ring_mem := ring_mem s + 1 + 2 * int depth,
     hqueues := (hqueues s)[i := allocated_as i depth (qe_name func i) (data_name func i) tag (hqueues s ! i)]\<rparr>)"
    using alloc_queue_ok [OF assms(1,2) i(1) Suc.prems(4,5) i(2,4) names_are [OF i(3,4)] i(5)] unfolding hw_names_def by blast
  define s1 where "s1 = s\<lparr>clock := c, present := present s \<union> hw_names func i, ring_mem := ring_mem s + 1 + 2 * int depth,
     hqueues := (hqueues s)[i := allocated_as i depth (qe_name func i) (data_name func i) tag (hqueues s ! i)]\<rparr>"
  have s1: "Suc i + n \<le> length (hqueues s1)" "Suc i + n < 65536" "\<not> dev_gone s1" "\<not> pfch_reg_mutex s1" "0 < Suc i"
    using Suc.prems(2-5) by (simp_all add: s1_def)
  obtain s' where s': "until_error (\<lambda>i. nvme_qdma_alloc_queue env fuel func i depth) (Suc i) n s1 = Inr ((0, Suc i + n), s')"
    "grown s1 (\<Union>j\<in>{Suc i ..< Suc i + n}. hw_names func j) {Suc i ..< Suc i + n} func depth (int n * (1 + 2 * int depth)) s'"
    using Suc.IH [OF s1(5,1-4)] Suc.prems(6) by force
  have "until_error (\<lambda>i. nvme_qdma_alloc_queue env fuel func i depth) i (Suc n) s = Inr ((0, i + Suc n), s')"
    using a s'(1) by (simp add: hbind_def s1_def)
  moreover have r: "{i ..< i + Suc n} = {i} \<union> {Suc i ..< Suc i + n}" by auto
  have "grown s (hw_names func i \<union> (\<Union>j\<in>{Suc i ..< Suc i + n}. hw_names func j)) ({i} \<union> {Suc i ..< Suc i + n}) func depth
      ((1 + 2 * int depth) + int n * (1 + 2 * int depth)) s'"
    using grown_trans [OF grown_queue [OF i(1)] s'(2) [unfolded s1_def]] .
  then have "grown s (\<Union>j\<in>{i ..< i + Suc n}. hw_names func j) {i ..< i + Suc n} func depth (int (Suc n) * (1 + 2 * int depth)) s'"
    unfolding r by (simp add: algebra_simps)
  ultimately show ?case by blast
qed

lemma data_loop_ok:
  assumes "works_but w env" "0 < i" "i + n < 65000" "\<not> dev_gone s" "\<And>j. i \<le> j \<Longrightarrow> j < i + n \<Longrightarrow> data_name func j \<noteq> w"
  shows "\<exists>s'. until_error (nvme_qdma_create_h2c_data_qp env func) i n s = Inr ((0, i + n), s')
     \<and> grown s ((\<lambda>j. (H2C, data_name func j)) ` {i ..< i + n}) {} func depth 0 s'"
  using assms(2-5)
proof (induction n arbitrary: i s)
  case 0
  show ?case by (intro exI [of _ s]) (simp add: grown_def)
next
  case (Suc n)
  have i: "0 < i" "i < 65536" "data_name func i \<noteq> w" using Suc.prems(1,2) Suc.prems(4) [of i] by simp_all
  define s1 where "s1 = s\<lparr>clock := Suc (Suc (clock s)), present := present s \<union> {(H2C, data_name func i)}\<rparr>"
  have a: "nvme_qdma_create_h2c_data_qp env func i s = Inr (0, s1)"
    using assms(1) i(3) Suc.prems(3) unfolding nvme_qdma_create_h2c_data_qp_def names_are(2) [OF i(1,2)]
    by (simp add: qdma_queue_add_def hm_simps works_but_def s1_def)
  have "\<not> dev_gone s1" using Suc.prems(3) by (simp add: s1_def)
  then obtain s' where s': "until_error (nvme_qdma_create_h2c_data_qp env func) (Suc i) n s1 = Inr ((0, Suc i + n), s')"
    "grown s1 ((\<lambda>j. (H2C, data_name func j)) ` {Suc i ..< Suc i + n}) {} func depth 0 s'"
    using Suc.IH [of "Suc i" s1] Suc.prems(2,4) by force
  have "until_error (nvme_qdma_create_h2c_data_qp env func) i (Suc n) s = Inr ((0, i + Suc n), s')"
    using a s'(1) by (simp add: hbind_def)
  moreover have r: "{i ..< i + Suc n} = {i} \<union> {Suc i ..< Suc i + n}" by auto
  have "grown s {(H2C, data_name func i)} {} func depth 0 s1" by (simp add: grown_def s1_def)
  from grown_trans [OF this s'(2)] have "grown s ((\<lambda>j. (H2C, data_name func j)) ` {i ..< i + Suc n}) {} func depth 0 s'"
    unfolding r by simp
  ultimately show ?case by blast
qed

text \<open>The unwinding indexes the array of queues with the number of data queues.\<close>

lemma free_down_out_of_bounds:
  assumes "length (hqueues s) \<le> k" "0 < k"
  shows "each_down (nvme_qdma_free_queue env) k s = Inl OutOfBounds"
  using assms by (cases k) (simp_all add: hthen_def hbind_def nvme_qdma_free_queue_def get_queue_def arr_get_def)

lemma alloc_io_loops:
  assumes env: "works_but (data_name func 9) env" "0 < fuel" and s: "\<not> dev_gone s" "\<not> pfch_reg_mutex s" "n \<le> 8" "n < length (hqueues s)"
  shows "\<exists>s1 s2. until_error (\<lambda>i. nvme_qdma_alloc_queue env fuel func i depth) 1 n s = Inr ((0, 1 + n), s1)
     \<and> until_error (nvme_qdma_create_h2c_data_qp env func) 1 NVME_QDMA_MAX_IO_QUEUES s1 = Inr ((0, 9), s2)
     \<and> grown s ((\<Union>j\<in>{1 .. n}. hw_names func j) \<union> (\<lambda>j. (H2C, data_name func j)) ` {1 .. 8}) {1 .. n} func depth (int n * (1 + 2 * int depth)) s2"
proof -
  have "qe_name func j \<noteq> data_name func 9" if "j < 1 + n" for j
    using that s(3) by (simp add: data_name_shift qe_name_eq)
  then obtain s1 where s1: "until_error (\<lambda>i. nvme_qdma_alloc_queue env fuel func i depth) 1 n s = Inr ((0, 1 + n), s1)"
    "grown s (\<Union>j\<in>{1 ..< 1 + n}. hw_names func j) {1 ..< 1 + n} func depth (int n * (1 + 2 * int depth)) s1"
    using alloc_loop_ok [OF env, of 1 n s func depth] s by auto
  have "data_name func j \<noteq> data_name func 9" if "j < 1 + 8" for j
    using that by (simp add: data_name_shift qe_name_eq)
  moreover have "\<not> dev_gone s1" using s1(2) s(1) by (simp add: grown_def)
  ultimately obtain s2 where s2: "until_error (nvme_qdma_create_h2c_data_qp env func) 1 8 s1 = Inr ((0, 1 + 8), s2)"
    "grown s1 ((\<lambda>j. (H2C, data_name func j)) ` {1 ..< 1 + 8}) {} func depth 0 s2"
    using data_loop_ok [OF env(1), of 1 8 s1 func] by auto
  have r: "{1 ..< 1 + n} = {1 .. n}" "{1 ..< 1 + 8} = {1 .. 8 :: nat}" by auto
  show ?thesis using s1(1) s2(1) grown_trans [OF s1(2) s2(2)] unfolding r NVME_QDMA_MAX_IO_QUEUES_def by auto
qed

end
