(* ===== verification/Host_Cycle.thy ===== *)
theory Host_Cycle
  imports Host_Lifecycle_Laws
begin

text \<open>
  What allocating and freeing the I/O queues of a controller leaves behind: the hardware queues and the memory of a full
  cycle, and the error paths of the allocation, of the prefetch tag and of the response ring.
\<close>

section \<open>A cycle of allocation and release\<close>

lemma unat_prp_fetch: "unat (QDMA_PRP_FETCH_QID - 8) = 9"
  by (simp add: QDMA_PRP_FETCH_QID_def)

lemma alloc_io_queues_grows:
  assumes env: "\<And>c k. answer env c k = 0" "\<And>qid k. \<exists>tag. byp_tag_reg env qid k = (0, qid, tag)" "0 < fuel"
    and s: "\<not> dev_gone s" "\<not> pfch_reg_mutex s" "n \<le> 8" "n < length (hqueues s)"
    and c: "nvme_qdma_count_io_queues opts ncpus sqc (io_parts s) = (0, Some (n + 1), io)"
  shows "\<exists>s'. nvme_qdma_alloc_io_queues env fuel func opts ncpus sqc s = Inr (0, s')
     \<and> grown (s\<lparr>queue_count := n + 1, io_parts := io\<rparr>) ((\<Union>j\<in>{1 .. n}. hw_names func j) \<union> (\<lambda>j. (H2C, data_name func j)) ` {1 .. 9})
         {1 .. n} func (sqsize s + 1) (int n * (1 + 2 * int (sqsize s + 1))) s'"
proof -
  let ?s = "s\<lparr>queue_count := n + 1, io_parts := io\<rparr>"
  have w: "works_but v env" for v using env(1,2) by (simp add: works_but_def)
  have ps: "\<not> dev_gone ?s" "\<not> pfch_reg_mutex ?s" "n \<le> 8" "n < length (hqueues ?s)" using s by simp_all
  obtain s1 s2 where l: "until_error (\<lambda>i. nvme_qdma_alloc_queue env fuel func i (sqsize s + 1)) 1 n ?s = Inr ((0, 1 + n), s1)"
    "until_error (nvme_qdma_create_h2c_data_qp env func) 1 NVME_QDMA_MAX_IO_QUEUES s1 = Inr ((0, 9), s2)"
    and g: "grown ?s ((\<Union>j\<in>{1 .. n}. hw_names func j) \<union> (\<lambda>j. (H2C, data_name func j)) ` {1 .. 8}) {1 .. n} func (sqsize s + 1)
       (int n * (1 + 2 * int (sqsize s + 1))) s2"
    using alloc_io_loops [OF w env(3) ps, of func "sqsize s + 1"] by blast
  have "\<not> dev_gone s2" using g s(1) by (simp add: grown_def)
  then obtain s' where p: "until_error (nvme_qdma_create_h2c_data_qp env func) 9 1 s2 = Inr ((0, 9 + 1), s')"
    "grown s2 ((\<lambda>j. (H2C, data_name func j)) ` {9 ..< 9 + 1}) {} func (sqsize s + 1) 0 s'"
    using data_loop_ok [OF w [of "qe_name func 100"], of 9 1 s2 func "sqsize s + 1"] by (auto simp: data_name_shift qe_name_eq)
  have p1: "nvme_qdma_create_h2c_data_qp env func 9 s2 = Inr (0, s')"
    using p(1) by (auto simp: hbind_def hret_def rbind_def split: sum.splits if_splits)
  have r: "{1 .. 9 :: nat} = {1 .. 8} \<union> {9 ..< 9 + 1}" by auto
  have "nvme_qdma_alloc_io_queues env fuel func opts ncpus sqc s = Inr (0, s')"
    using l p1 unfolding nvme_qdma_alloc_io_queues_def c Let_def prod.case option.case unat_prp_fetch
    by (simp add: hbind_def hret_def)
  then show ?thesis using grown_trans [OF g p(2)] unfolding r by (auto simp: image_Un Un_assoc)
qed

text \<open>Freeing when every call succeeds.\<close>

lemma destroy_qp_exact:
  "(\<And>c k. answer env c k = 0) \<Longrightarrow> qdma_destroy_qp env h s = Inr (0, s\<lparr>clock := Suc (Suc (clock s)), present := present s - set_option h\<rparr>)"
  by (simp add: qdma_destroy_qp_def qdma_queue_remove_def hm_simps)

lemma free_queue_exact:
  assumes "\<And>c k. answer env c k = 0" "ready s idx" "\<not> dev_gone s" "hq_qid (hqueues s ! idx) \<noteq> 0"
  shows "\<exists>c. nvme_qdma_free_queue env idx s = Inr ((), s\<lparr>clock := c,
     present := present s - set_option (qe_h2c (hqueues s ! idx)) - set_option (qe_c2h (hqueues s ! idx)),
     ring_mem := ring_mem s - (1 + 2 * int (queue_size (hqueues s ! idx))),
     hqueues := (hqueues s)[idx := (hqueues s ! idx)\<lparr>q_allocated := False, q_tr_ready := False\<rparr>],
     dev_refs := dev_refs s - 1, dev_gone := dev_refs s \<le> 1\<rparr>)"
  using assms unfolding nvme_qdma_free_queue_def nvme_qdma_destroy_queue_ib_def ready_def hm_simps destroy_qp_exact [OF assms(1)]
    nvme_qdma_dev_put_def
  by (cases s) (auto simp: destroy_qp_exact [OF assms(1)] free_ring_linked algebra_simps)

text \<open>The loop takes the command queues of every I/O queue away and returns their memory.\<close>

lemma free_loop_exact:
  assumes env: "\<And>c k. answer env c k = 0"
    and q: "\<And>j. i \<le> j \<Longrightarrow> j < i + n \<Longrightarrow> ready s j \<and> qe_h2c (hqueues s ! j) = Some (H2C, qe_name func j)
        \<and> qe_c2h (hqueues s ! j) = Some (C2H, qe_name func j) \<and> hq_qid (hqueues s ! j) \<noteq> 0 \<and> queue_size (hqueues s ! j) = depth"
    and s: "\<not> dev_gone s" "n \<le> dev_refs s"
  shows "\<exists>s'. each_up (nvme_qdma_free_queue env) i n s = Inr ((), s')
     \<and> present s' = present s - (\<Union>j\<in>{i ..< i + n}. {(H2C, qe_name func j), (C2H, qe_name func j)})
     \<and> ring_mem s' = ring_mem s - int n * (1 + 2 * int depth) \<and> dev_refs s' = dev_refs s - n"
  using q s
proof (induction n arbitrary: i s)
  case 0
  show ?case by (intro exI [of _ s]) simp
next
  case (Suc n)
  note qi = Suc.prems(1) [of i, simplified]
  obtain c where f: "nvme_qdma_free_queue env i s = Inr ((), s\<lparr>clock := c,
     present := present s - {(H2C, qe_name func i)} - {(C2H, qe_name func i)}, ring_mem := ring_mem s - (1 + 2 * int depth),
     hqueues := (hqueues s)[i := (hqueues s ! i)\<lparr>q_allocated := False, q_tr_ready := False\<rparr>],
     dev_refs := dev_refs s - 1, dev_gone := dev_refs s \<le> 1\<rparr>)"
    using free_queue_exact [OF env, of s i] qi Suc.prems(2) by auto
  define s1 where "s1 = s\<lparr>clock := c,
     present := present s - {(H2C, qe_name func i)} - {(C2H, qe_name func i)}, ring_mem := ring_mem s - (1 + 2 * int depth),
     hqueues := (hqueues s)[i := (hqueues s ! i)\<lparr>q_allocated := False, q_tr_ready := False\<rparr>],
     dev_refs := dev_refs s - 1, dev_gone := dev_refs s \<le> 1\<rparr>"
  have e: "each_up (nvme_qdma_free_queue env) i (Suc n) s = each_up (nvme_qdma_free_queue env) (Suc i) n s1"
    using f by (simp add: hthen_def hbind_def s1_def)
  have q1: "ready s1 j \<and> qe_h2c (hqueues s1 ! j) = Some (H2C, qe_name func j)
        \<and> qe_c2h (hqueues s1 ! j) = Some (C2H, qe_name func j) \<and> hq_qid (hqueues s1 ! j) \<noteq> 0 \<and> queue_size (hqueues s1 ! j) = depth"
    if "Suc i \<le> j" "j < Suc i + n" for j
    using Suc.prems(1) [of j] that by (simp add: s1_def ready_def)
  show ?case
  proof (cases n)
    case 0
    then show ?thesis unfolding e by (auto simp: s1_def)
  next
    case (Suc k)
    have "\<not> dev_gone s1" "n \<le> dev_refs s1" using Suc.prems(3) Suc by (simp_all add: s1_def)
    then obtain s' where s': "each_up (nvme_qdma_free_queue env) (Suc i) n s1 = Inr ((), s')"
      "present s' = present s1 - (\<Union>j\<in>{Suc i ..< Suc i + n}. {(H2C, qe_name func j), (C2H, qe_name func j)})"
      "ring_mem s' = ring_mem s1 - int n * (1 + 2 * int depth)" "dev_refs s' = dev_refs s1 - n"
      using Suc.IH [OF q1] by blast
    have r: "{i ..< i + Suc n} = insert i {Suc i ..< Suc i + n}" by auto
    have "present s' = present s - (\<Union>j\<in>{i ..< i + Suc n}. {(H2C, qe_name func j), (C2H, qe_name func j)})"
      unfolding s'(2) r by (auto simp: s1_def)
    then show ?thesis unfolding e using s' by (intro exI [of _ s']) (simp add: s1_def algebra_simps)
  qed
qed

text \<open>C14. A cycle of the I/O queues.  If every call succeeds, up to eight I/O queues are allocated, and with as many references
  of the device as queues they can be freed again.  The memory of the response rings is returned and the command
  queues are removed from the hardware; the data queues, of the I/O queues and for the page lists, stay, and the
  device has lost a reference per queue.\<close>

theorem nvme_qdma_io_queues_cycle:
  assumes env: "\<And>c k. answer env c k = 0" "\<And>qid k. \<exists>tag. byp_tag_reg env qid k = (0, qid, tag)" "0 < fuel"
    and s: "\<not> dev_gone s" "\<not> pfch_reg_mutex s" "n \<le> 8" "n < length (hqueues s)" "n \<le> dev_refs s"
    and c: "nvme_qdma_count_io_queues opts ncpus sqc (io_parts s) = (0, Some (n + 1), io)"
    and new: "\<And>d j. 1 \<le> j \<Longrightarrow> j \<le> n \<Longrightarrow> (d, qe_name func j) \<notin> present s"
  shows "\<exists>s1 s2. nvme_qdma_alloc_io_queues env fuel func opts ncpus sqc s = Inr (0, s1) \<and> nvme_qdma_free_io_queues env s1 = Inr ((), s2)
     \<and> ring_mem s2 = ring_mem s \<and> dev_refs s2 = dev_refs s - n
     \<and> present s2 = present s \<union> (\<lambda>j. (C2H, data_name func j)) ` {1 .. n} \<union> (\<lambda>j. (H2C, data_name func j)) ` {1 .. 9}"
proof -
  obtain s1 where a: "nvme_qdma_alloc_io_queues env fuel func opts ncpus sqc s = Inr (0, s1)"
    and g: "grown (s\<lparr>queue_count := n + 1, io_parts := io\<rparr>) ((\<Union>j\<in>{1 .. n}. hw_names func j) \<union> (\<lambda>j. (H2C, data_name func j)) ` {1 .. 9})
         {1 .. n} func (sqsize s + 1) (int n * (1 + 2 * int (sqsize s + 1))) s1"
    using alloc_io_queues_grows [OF env s(1-4) c] by blast
  have nz: "of_nat j \<noteq> (0 :: u16)" if "1 \<le> j" "j < 1 + n" for j
    using that s(3) by (simp add: word_of_nat_eq_0_iff dvd_imp_le nat_dvd_not_less)
  have q: "ready s1 j \<and> qe_h2c (hqueues s1 ! j) = Some (H2C, qe_name func j) \<and> qe_c2h (hqueues s1 ! j) = Some (C2H, qe_name func j)
      \<and> hq_qid (hqueues s1 ! j) \<noteq> 0 \<and> queue_size (hqueues s1 ! j) = sqsize s + 1" if "1 \<le> j" "j < 1 + n" for j
  proof -
    have "j \<in> {1 .. n}" using that by simp
    then show ?thesis using g nz [OF that] unfolding grown_def by metis
  qed
  have f: "queue_count s1 - 1 = n" "\<not> dev_gone s1" "n \<le> dev_refs s1" "dev_refs s1 = dev_refs s"
    "ring_mem s1 = ring_mem s + int n * (1 + 2 * int (sqsize s + 1))"
    "present s1 = present s \<union> ((\<Union>j\<in>{1 .. n}. hw_names func j) \<union> (\<lambda>j. (H2C, data_name func j)) ` {1 .. 9})"
    using g s(1,5) by (simp_all add: grown_def)
  obtain s2 where s2: "each_up (nvme_qdma_free_queue env) 1 n s1 = Inr ((), s2)"
    "present s2 = present s1 - (\<Union>j\<in>{1 ..< 1 + n}. {(H2C, qe_name func j), (C2H, qe_name func j)})"
    "ring_mem s2 = ring_mem s1 - int n * (1 + 2 * int (sqsize s + 1))" "dev_refs s2 = dev_refs s1 - n"
    using free_loop_exact [OF env(1) q f(2,3)] by blast
  have ne: "data_name func j \<noteq> qe_name func k" if "1 \<le> j" "j \<le> 9" "k \<le> n" for j k
    using that s(3) by (simp add: data_name_shift qe_name_eq)
  define A where "A = (\<Union>j\<in>{1 .. n}. {(H2C, qe_name func j), (C2H, qe_name func j)})"
  define D where "D = (\<lambda>j. (C2H, data_name func j)) ` {1 .. n}"
  define E where "E = (\<lambda>j. (H2C, data_name func j)) ` {1 .. 9 :: nat}"
  have "{1 ..< 1 + n} = {1 .. n}" by auto
  then have "present s2 = present s1 - A" using s2(2) by (simp add: A_def)
  moreover have "(\<Union>j\<in>{1 .. n}. hw_names func j) = A \<union> D" unfolding hw_names_def A_def D_def by auto
  then have "present s1 = present s \<union> (A \<union> D \<union> E)" using f(6) by (simp add: E_def)
  moreover have "A \<inter> present s = {}" using new by (auto simp: A_def)
  moreover have "A \<inter> D = {}" "A \<inter> E = {}" using ne s(3) by (auto simp: A_def D_def E_def)
  ultimately have "present s2 = present s \<union> D \<union> E" by blast
  moreover have "nvme_qdma_free_io_queues env s1 = Inr ((), s2)" using s2(1) f(1) by (simp add: nvme_qdma_free_io_queues_def)
  moreover have "ring_mem s2 = ring_mem s" "dev_refs s2 = dev_refs s - n" using s2(3,4) f(4,5) by simp_all
  ultimately show ?thesis using a unfolding D_def E_def by blast
qed

text \<open>An environment and a controller for two I/O queues.\<close>

definition sample_env :: host_env where
  "sample_env = \<lparr>answer = \<lambda>c k. 0, byp_tag_reg = \<lambda>qid k. (0, qid, 5)\<rparr>"

definition sample_opts :: fabric_opts where
  "sample_opts = \<lparr>opt_nr_io_queues = 2, opt_nr_write_queues = 0, opt_nr_poll_queues = 0\<rparr>"

lemma sample_count: "nvme_qdma_count_io_queues sample_opts 4 (\<lambda>n. (0, n)) (io_parts sample_state)
    = (0, Some (2 + 1), \<lparr>q_default = 2, q_read = 0, q_poll = 0\<rparr>)"
  by (simp add: nvme_qdma_count_io_queues_def assign_io_queues_def NVME_QDMA_MAX_IO_QUEUES_def sample_opts_def sample_state_def)

theorem nvme_qdma_io_queues_cycle_witness:
  "\<exists>s1 s2. nvme_qdma_alloc_io_queues sample_env 1 0 sample_opts 4 (\<lambda>n. (0, n)) (sample_state\<lparr>dev_refs := 2\<rparr>) = Inr (0, s1)
     \<and> nvme_qdma_free_io_queues sample_env s1 = Inr ((), s2) \<and> ring_mem s2 = 10 \<and> dev_refs s2 = 0
     \<and> present s2 = (\<lambda>j. (C2H, data_name 0 j)) ` {1 .. 2} \<union> (\<lambda>j. (H2C, data_name 0 j)) ` {1 .. 9}"
  using nvme_qdma_io_queues_cycle [where env = sample_env and fuel = 1 and s = "sample_state\<lparr>dev_refs := 2\<rparr>" and n = 2 and opts = sample_opts
      and ncpus = 4 and sqc = "\<lambda>n. (0, n)" and io = "\<lparr>q_default = 2, q_read = 0, q_poll = 0\<rparr>" and func = 0] sample_count
  by (simp add: sample_env_def sample_state_def)

section \<open>Error paths\<close>

text \<open>C38. The unwinding of the allocation.  The index of the loop over the queues is used again for the eight data queues; when
  the queue for page lists cannot be added after all of them, the unwinding starts at the eighth I/O queue, and with
  fewer than eight I/O queues it leaves the array of queues.\<close>

theorem nvme_qdma_alloc_io_queues_unwinds_wrong:
  assumes env: "works_but (data_name func 9) env" "\<And>k. answer env (QueueAdd (H2C, data_name func 9)) k \<noteq> 0" "0 < fuel"
    and s: "\<not> dev_gone s" "\<not> pfch_reg_mutex s" "n < 8" "length (hqueues s) = n + 1"
    and c: "nvme_qdma_count_io_queues opts ncpus sqc (io_parts s) = (0, Some (n + 1), io)"
  shows "nvme_qdma_alloc_io_queues env fuel func opts ncpus sqc s = Inl OutOfBounds"
proof -
  let ?s = "s\<lparr>queue_count := n + 1, io_parts := io\<rparr>"
  have ps: "\<not> dev_gone ?s" "\<not> pfch_reg_mutex ?s" "n \<le> 8" "n < length (hqueues ?s)" using s by simp_all
  obtain s1 s2 where l: "until_error (\<lambda>i. nvme_qdma_alloc_queue env fuel func i (sqsize s + 1)) 1 n ?s = Inr ((0, 1 + n), s1)"
    "until_error (nvme_qdma_create_h2c_data_qp env func) 1 NVME_QDMA_MAX_IO_QUEUES s1 = Inr ((0, 9), s2)"
    and g: "grown ?s ((\<Union>j\<in>{1 .. n}. hw_names func j) \<union> (\<lambda>j. (H2C, data_name func j)) ` {1 .. 8}) {1 .. n} func (sqsize s + 1)
       (int n * (1 + 2 * int (sqsize s + 1))) s2"
    using alloc_io_loops [OF env(1,3) ps, of "sqsize s + 1"] by blast
  have g2: "\<not> dev_gone s2" "length (hqueues s2) = n + 1" using g s by (simp_all add: grown_def)
  have nm: "nvme_qid_to_qdma_qid (of_nat 9) True func = Inr (data_name func 9)" by (rule names_are) simp_all
  let ?e = "answer env (QueueAdd (H2C, data_name func 9)) (clock s2)"
  have p: "nvme_qdma_create_h2c_data_qp env func 9 s2 = Inr (?e, s2\<lparr>clock := Suc (clock s2)\<rparr>)"
    using env(2) g2 unfolding nvme_qdma_create_h2c_data_qp_def nm by (simp add: qdma_queue_add_def hm_simps)
  have "each_down (nvme_qdma_free_queue env) 8 (s2\<lparr>clock := Suc (clock s2)\<rparr>) = Inl OutOfBounds"
    using s(3) g2 by (intro free_down_out_of_bounds) simp_all
  then show ?thesis
    using l p env(2) unfolding nvme_qdma_alloc_io_queues_def c Let_def prod.case option.case unat_prp_fetch
    by (simp add: hbind_def hthen_def hret_def)
qed

theorem nvme_qdma_alloc_io_queues_unwinds_wrong_witness:
  "nvme_qdma_alloc_io_queues (sample_env\<lparr>answer := \<lambda>c k. if c = QueueAdd (H2C, data_name 0 9) then - 1 else 0\<rparr>) 1 0 sample_opts 4
     (\<lambda>n. (0, n)) sample_state = Inl OutOfBounds"
  using nvme_qdma_alloc_io_queues_unwinds_wrong [where env = "sample_env\<lparr>answer := \<lambda>c k. if c = QueueAdd (H2C, data_name 0 9) then - 1 else 0\<rparr>"
      and fuel = 1 and func = 0 and s = sample_state and n = 2 and opts = sample_opts and ncpus = 4 and sqc = "\<lambda>n. (0, n)"
      and io = "\<lparr>q_default = 2, q_read = 0, q_poll = 0\<rparr>"] sample_count
  by (simp add: works_but_def sample_env_def sample_state_def)

text \<open>C39. The prefetch tag of a queue.  The register is read under a mutex; when selecting the queue fails, the function returns
  with the mutex held, and every later request for a tag, by whatever queue, waits for ever.\<close>

theorem nvme_qdma_get_c2h_pfch_tag_keeps_mutex:
  assumes "\<not> dev_gone s" "\<not> pfch_reg_mutex s" "0 < idx" "idx < 65536"
    "answer env (WriteBypQid (data_name func idx)) (clock s) \<noteq> 0"
  shows "\<exists>s'. nvme_qdma_get_c2h_pfch_tag env fuel func idx s = Inr (answer env (WriteBypQid (data_name func idx)) (clock s), s')
     \<and> pfch_reg_mutex s'
     \<and> (\<forall>env' fuel' func' idx'. 0 < idx' \<and> idx' < 65536 \<longrightarrow> nvme_qdma_get_c2h_pfch_tag env' fuel' func' idx' s' = Inl Hang)"
proof -
  let ?s = "s\<lparr>pfch_reg_mutex := True, clock := Suc (clock s)\<rparr>"
  have "nvme_qdma_get_c2h_pfch_tag env fuel func idx s = Inr (answer env (WriteBypQid (data_name func idx)) (clock s), ?s)"
    unfolding nvme_qdma_get_c2h_pfch_tag_def names_are(2) [OF assms(3,4)] using assms(1,2,5) by (simp add: hm_simps)
  moreover have "nvme_qdma_get_c2h_pfch_tag env' fuel' func' idx' ?s = Inl Hang" if "0 < idx'" "idx' < 65536" for env' fuel' func' idx'
    unfolding nvme_qdma_get_c2h_pfch_tag_def names_are(2) [OF that] using assms(1) by (simp add: hm_simps)
  ultimately show ?thesis by (intro exI [of _ ?s]) simp
qed

theorem nvme_qdma_get_c2h_pfch_tag_keeps_mutex_witness:
  "\<exists>s'. nvme_qdma_get_c2h_pfch_tag (sample_env\<lparr>answer := \<lambda>c k. - 5\<rparr>) 1 0 1 sample_state = Inr (- 5, s')
     \<and> nvme_qdma_get_c2h_pfch_tag sample_env 1 0 2 s' = Inl Hang"
  using nvme_qdma_get_c2h_pfch_tag_keeps_mutex [where env = "sample_env\<lparr>answer := \<lambda>c k. - 5\<rparr>" and s = sample_state and idx = 1
      and func = 0 and fuel = 1]
  by (fastforce simp: sample_state_def)

text \<open>Allocating a ring, by the answers of the allocator: \<open>granted env s k\<close> says that the \<open>k\<close>-th
  allocation from \<open>s\<close> on succeeds, \<open>taken c m s\<close> is the state after \<open>c\<close> allocations of which \<open>m\<close> are held.\<close>

definition granted :: "host_env \<Rightarrow> host_state \<Rightarrow> nat \<Rightarrow> bool" where
  "granted env s k \<longleftrightarrow> answer env Kzalloc (clock s + k) = 0"

definition taken :: "nat \<Rightarrow> nat \<Rightarrow> host_state \<Rightarrow> host_state" where
  "taken c m s = s\<lparr>clock := clock s + c, ring_mem := ring_mem s + int m\<rparr>"

definition per_entry :: "u16 \<Rightarrow> nat" where
  "per_entry qid = (if qid = 0 then 3 else 2)"

lemma granted_taken [simp]: "granted env (taken c m s) k \<longleftrightarrow> granted env s (c + k)"
  by (simp add: granted_def taken_def add.assoc)

lemma taken_taken [simp]: "taken c m (taken c' m' s) = taken (c' + c) (m' + m) s"
  by (simp add: taken_def ac_simps)

lemma kzalloc_step: "kzalloc env s = Inr (granted env s 0, taken 1 (if granted env s 0 then 1 else 0) s)"
  by (simp add: kzalloc_def hm_simps granted_def taken_def)

lemma alloc_rsp_granted:
  assumes "\<forall>k < per_entry qid. granted env s k"
  shows "nvme_qdma_alloc_rsp env qid s = Inr (0, taken (per_entry qid) (per_entry qid) s)"
  using assms
  by (auto simp: nvme_qdma_alloc_rsp_def nvme_qdma_alloc_cqe_def hbind_def hret_def kzalloc_step per_entry_def numeral_3_eq_3
      numeral_2_eq_2 All_less_Suc)

lemma alloc_rsp_refused:
  assumes "j < per_entry qid" "\<forall>k < j. granted env s k" "\<not> granted env s j"
  shows "nvme_qdma_alloc_rsp env qid s = Inr (- ENOMEM, taken (Suc j) j s)"
  using assms
  by (cases "qid = 0"; cases j; cases "j - 1")
    (auto simp: nvme_qdma_alloc_rsp_def nvme_qdma_alloc_cqe_def hbind_def hret_def kzalloc_step per_entry_def All_less_Suc)

lemma alloc_rsps_granted:
  assumes "\<forall>k < n * per_entry qid. granted env s k"
  shows "alloc_rsps env qid i n s = Inr (None, taken (n * per_entry qid) (n * per_entry qid) s)"
  using assms
proof (induction n arbitrary: i s)
  case 0
  then show ?case by (simp add: taken_def)
next
  case (Suc n)
  then show ?case by (simp add: hbind_def alloc_rsp_granted)
qed

lemma alloc_rsps_refused:
  assumes "e < n" "j < per_entry qid" "\<forall>k < e * per_entry qid + j. granted env s k" "\<not> granted env s (e * per_entry qid + j)"
  shows "alloc_rsps env qid i n s = Inr (Some (i + e), taken (Suc (e * per_entry qid + j)) (e * per_entry qid + j) s)"
  using assms
proof (induction n arbitrary: i s e)
  case (Suc n)
  show ?case
  proof (cases e)
    case 0
    then show ?thesis using Suc.prems by (simp add: hbind_def hret_def alloc_rsp_refused ENOMEM_def)
  next
    case (Suc d)
    then show ?thesis using Suc.prems Suc.IH [of d "taken (per_entry qid) (per_entry qid) s" "Suc i"]
      by (simp add: hbind_def alloc_rsp_granted add.assoc)
  qed
qed simp

lemma free_ring_unlinked:
  "hthen (nvme_qdma_free_ring False qid i) (hret False) (taken c (Suc m) s)
     = (if i = 0 then Inr (False, taken c m s) else Inl NullDeref)"
  by (cases i) (simp_all add: nvme_qdma_free_ring_def nvme_qdma_free_rsp_def hthen_def hbind_def modify_def hret_def taken_def)

text \<open>C40. The response ring, by the answers of the allocator.  If the ring itself is refused, nothing is held.  If every
  allocation is granted, the ring holds one buffer for itself and two per entry (three for the admin queue), and freeing it
  returns them all.  If the first allocation to be refused is the \<open>j\<close>-th of entry \<open>i\<close>, there are two cases: for the first
  entry the ring is given back and the function fails, but the \<open>j\<close> buffers the entry already had stay allocated with
  nothing that names them; for a later one the entries before it are freed although they are not linked to their queue yet,
  and a null pointer is read.\<close>

theorem nvme_qdma_alloc_ring_outcomes:
  fixes env qid n s
  defines "p \<equiv> per_entry qid"
  shows "(\<not> granted env s 0 \<longrightarrow> nvme_qdma_alloc_ring env qid n s = Inr (False, taken 1 0 s))
     \<and> ((\<forall>k < 1 + n * p. granted env s k) \<longrightarrow>
          nvme_qdma_alloc_ring env qid n s = Inr (True, taken (1 + n * p) (1 + n * p) s)
        \<and> nvme_qdma_free_ring True qid n (taken (1 + n * p) (1 + n * p) s) = Inr ((), taken (1 + n * p) 0 s))
     \<and> (\<forall>i j. i < n \<and> j < p \<and> (\<forall>k < 1 + i * p + j. granted env s k) \<and> \<not> granted env s (1 + i * p + j) \<longrightarrow>
          nvme_qdma_alloc_ring env qid n s = (if i = 0 then Inr (False, taken (2 + j) j s) else Inl NullDeref))"
proof (intro conjI allI impI)
  have a: "nvme_qdma_alloc_ring env qid n s = (if \<not> granted env s 0 then Inr (False, taken 1 0 s)
       else rbind (alloc_rsps env qid 0 n (taken 1 1 s)) (\<lambda>(r, s1). case r of None \<Rightarrow> Inr (True, s1)
         | Some i \<Rightarrow> hthen (nvme_qdma_free_ring False qid i) (hret False) s1))"
    by (auto simp: nvme_qdma_alloc_ring_def hbind_def hret_def kzalloc_step split: option.split
        intro!: arg_cong [where f = "rbind _"])
  show "nvme_qdma_alloc_ring env qid n s = Inr (False, taken 1 0 s)" if "\<not> granted env s 0" using that by (simp add: a)
  show "nvme_qdma_free_ring True qid n (taken (1 + n * p) (1 + n * p) s) = Inr ((), taken (1 + n * p) 0 s)"
    by (simp add: p_def free_ring_linked taken_def per_entry_def)
  show "nvme_qdma_alloc_ring env qid n s = Inr (True, taken (1 + n * p) (1 + n * p) s)"
    if "\<forall>k < 1 + n * p. granted env s k"
    using that alloc_rsps_granted [of n qid env "taken 1 1 s" 0] by (simp add: a p_def)
  show "nvme_qdma_alloc_ring env qid n s = (if i = 0 then Inr (False, taken (2 + j) j s) else Inl NullDeref)"
    if "i < n \<and> j < p \<and> (\<forall>k < 1 + i * p + j. granted env s k) \<and> \<not> granted env s (1 + i * p + j)" for i j
    using that alloc_rsps_refused [of i n j qid env "taken 1 1 s" 0] by (simp add: a p_def free_ring_unlinked)
qed

text \<open>An allocator that grants a given number of allocations.\<close>

definition granting :: "nat \<Rightarrow> host_env" where
  "granting m = sample_env\<lparr>answer := \<lambda>c k. if k < m then 0 else - 1\<rparr>"

lemma granted_granting: "granted (granting m) sample_state k \<longleftrightarrow> k < m"
  by (simp add: granted_def granting_def sample_state_def)

theorem nvme_qdma_alloc_ring_outcomes_witness:
  "nvme_qdma_alloc_ring (granting 0) 1 2 sample_state = Inr (False, taken 1 0 sample_state)
   \<and> nvme_qdma_alloc_ring (granting 5) 1 2 sample_state = Inr (True, taken 5 5 sample_state)
   \<and> nvme_qdma_alloc_ring (granting 2) 1 2 sample_state = Inr (False, taken 3 1 sample_state)
   \<and> nvme_qdma_alloc_ring (granting 3) 1 2 sample_state = Inl NullDeref"
  using nvme_qdma_alloc_ring_outcomes [of "granting 0" sample_state 1 2]
    nvme_qdma_alloc_ring_outcomes [of "granting 5" sample_state 1 2]
    nvme_qdma_alloc_ring_outcomes [of "granting 2" sample_state 1 2, THEN conjunct2, THEN conjunct2, rule_format, of 0 1]
    nvme_qdma_alloc_ring_outcomes [of "granting 3" sample_state 1 2, THEN conjunct2, THEN conjunct2, rule_format, of 1 0]
  by (simp add: granted_granting per_entry_def)

end
