(* ===== verification/Spec2Isabelle.thy ===== *)
theory Spec2Isabelle
  imports Simple_Pool Axi_Dma_Laws Acc_Cmd_Laws Acc_Device_Laws Acc_Sched_Laws Nest_System Nest_Pipeline Host_Prps Host_Cycle
begin

text \<open>
  A verification library for NEST, a near-storage platform for encrypted computation.  A host driver
  (\<^verbatim>\<open>overlays/suda/host/drivers/nvmq\<close>) talks NVMe over a QDMA engine to a storage device; on the device an
  NVMe target and an accelerator runtime (\<^verbatim>\<open>overlays/suda/device/platform/software_stack/nf_spdk\<close>, below \<^verbatim>\<open>nf_spdk\<close>) move
  data through multi-channel DMA engines into operators in the FPGA
  (\<^verbatim>\<open>overlays/suda/device/operators/hls\<close>); the operators encrypt and decrypt bytes under LWE; the host sends
  ciphertexts over a socket to a server that computes on them with an HPU (\<^verbatim>\<open>overlays/tfhe-rs\<close>).

  \<^bold>\<open>How the code is modelled.\<close>  Machine integers are words of their width (bit-fields and the arbitrary-precision
  integers of the operators included), structures are records, enumerations and tagged unions are datatypes, and the
  shared heap is explicit: io objects, channel objects and requests are found by their number in a store, so that aliasing
  is visible.  \<open>Nest_Prelude\<close> has the result type: \<open>Inl\<close> is an execution that leaves the defined behaviour of the source,
  with the kind of fault; error codes that the source returns are values in \<open>Inr\<close>.  Loops are
  structural or have a measure.  What is not in the repository is an argument of the definitions that use it: the
  allocator, address translation and the clock; the engine and the controller behind their registers; the socket calls
  of the kernel; the HPU and the tfhe-rs library; the QDMA library, the block layer and the interrupt
  affinities of the host.

  \<^bold>\<open>The device, from the bottom up.\<close>

  \<^item> \<open>Simple_Pool\<close>: \<^verbatim>\<open>nf_spdk/include/spdk/env.h\<close>, the object pool with its 16-bit ring indices.  The locale \<open>fifo_pool\<close>
    states what users of a pool rely on; it is interpreted on the pool's own operations, and conservation of
    objects over any sequence of operations is proved from it.
  \<^item> \<open>Axi_Ring\<close>: \<^verbatim>\<open>nf_spdk/dpdk/drivers/bus/axi_dma/rte_axi_dma.c\<close>, the descriptor ring of a DMA channel, segmented
    sending, completion polling, stopping and enabling.  \<open>Axi_Ring_Laws\<close> has the ring invariant and each operation
    on every branch, \<open>Axi_Ring_Runs\<close> whole runs: submissions, completions and polls in any order keep requests in
    order.  The polling loop has one unit of fuel per descriptor, which is enough for every ring that
    satisfies the invariant (\<open>poll_complete_total\<close>).
  \<^item> \<open>Axi_Dma\<close>, \<open>Axi_Dma_Laws\<close>: \<^verbatim>\<open>nf_spdk/lib/axi_dma/axi_dma.c\<close>, channel objects and pollers over the driver.  The locale
    \<open>dma_env\<close> is what this layer needs of a driver (a submission that succeeds queues its object behind the others, one that
    fails, a full ring included, or one of an empty list queues nothing); it is interpreted on the receive and on the transmit
    functions of \<open>Axi_Ring\<close>, and where each io object is after a submission or a poll follows.
  \<^item> \<open>Acc_Cmd\<close>, \<open>Acc_Cmd_Laws\<close>: the submission and completion rings of \<^verbatim>\<open>nf_spdk/lib/hlsacccompute/hlsacccompute.c\<close> and the
    relocation of a program to the operators chosen for it, which is compared with a translation of endpoints on plain numbers
    (\<open>phys_op\<close>, \<open>phys_end\<close>).
  \<^item> \<open>Acc_Device\<close>, \<open>Acc_Device_Laws\<close>: bringing the accelerator up, operator types, programs, requests, channel pools, device
    memory.  The memory pools of SPDK hold lists, whose order nothing is assumed of: where an object is put back is an argument
    (\<open>mempool_places\<close>), and the theorems speak of the pools' multisets.
  \<^item> \<open>Acc_Sched\<close>, \<open>Acc_Sched_Laws\<close>: choice and preemption of operators, submission, pausing, release and
    rescheduling of requests; what the creation of a request takes, its release returns.  \<open>Acc_Inv\<close> has the type invariant of the runtime and its preservation by every operation; the
    operations of channels are function pointers, whose laws are the locale \<open>acc_runtime\<close>.
  \<^item> \<open>Mcdma_Channel\<close>, \<open>Mcdma_Laws\<close>: the channel functions that \<^verbatim>\<open>nf_spdk/lib/nvmf/mcdma.c\<close> installs, and their poller: which
    bytes a channel hands to the DMA layer, and what becomes of every completion the poller takes.
  \<^item> \<open>Nest_System\<close> ties the knot: a finished transfer ends a request, whose callback schedules the next, which uses the
    channels again.  The table \<open>nest_ops n\<close> allows \<open>n\<close> nested callbacks; it interprets \<open>acc_runtime\<close> for every
    \<open>n\<close>, and every state that requests, polls and pauses can reach satisfies the invariant.

  \<^bold>\<open>The data path.\<close>

  \<^item> \<open>Lwe_Encrypt\<close> and \<open>Lwe_Decrypt\<close>: the operators \<^verbatim>\<open>lwe_encrypt.cpp\<close> and \<^verbatim>\<open>lwe_decrypt.cpp\<close> with their generators, layouts,
    packing and configuration checks.  \<open>Lwe_Laws\<close> and \<open>Lwe_Ciphertext\<close> describe a ciphertext, \<open>Lwe_Roundtrip\<close>
    proves that decryption inverts encryption on whole streams, \<open>Lwe_Limits\<close> bounds the noise, classifies streams by
    length and shows when two ciphertexts share their mask.
  \<^item> \<open>Remote_Client\<close>: \<^verbatim>\<open>lwe_remote_protocol.cpp\<close>; \<open>Remote_Server\<close>: \<^verbatim>\<open>lwe_remote/protocol.rs\<close>, \<^verbatim>\<open>bridge.rs\<close> and the handling of
    a connection.  \<open>Remote_Laws\<close> has the byte formats and transfers that the kernel cuts anywhere, \<open>Remote_Call\<close> a whole
    call, \<open>Remote_Limits\<close> what holds for any network and server, \<open>Remote_Native\<close> the native words on both sides.
  \<^item> \<open>Nest_Pipeline\<close>: decryption of any native ciphertext, against a layout written down apart from the operator
    (\<open>Remote_Native\<close>: \<open>hpu_cut\<close>, \<open>hpu_offset\<close>), and the whole path: encryption on the device, the call to the
    server, decryption on the device give the bytes plus the scalar, for an HPU that adds.

  \<^bold>\<open>The host driver\<close>, \<^verbatim>\<open>qdma.c\<close>.

  \<^item> \<open>Host_Prps\<close>: the page pointers of a command, equal byte by byte to the scatter list, and the tags of addresses.
  \<^item> \<open>Host_Queues\<close>: how many queues of each kind there are, which processors use them, and their names, which
    agree with those of \<^verbatim>\<open>mcdma.c\<close>.
  \<^item> \<open>Host_Lifecycle\<close>: creating, connecting and releasing queues, with all error paths, over an environment that answers
    every call.  \<open>Host_Lifecycle_Laws\<close> and \<open>Host_Cycle\<close> show what a connection, a release and a whole cycle leave. The
    loop that reads the prefetch tag has fuel: one unit is enough for a register that shows the queue at once, and
    a register that never does is the fault \<open>Hang\<close>.

  \<^bold>\<open>Defects.\<close>  Where the code does something other than it means to, a theorem states what it does, under the
  circumstances in which it happens: among them the overrun of a descriptor ring by a submission of several buffers, the
  loss of an io object by a failed transmission, by an empty reception and by a completion of no bytes, operators that stay locked when no channel is free, the shared
  randomness of ciphertexts with related nonces, the unbounded allocation of a client for a response, and in the
  host driver the use of a freed device, data queues that are never removed, and three error paths.

  \<^bold>\<open>Not modelled.\<close>  The rest of \<^verbatim>\<open>mcdma.c\<close> (creation of queue pairs, request states, transfers with the host, poll
  groups) drives SPDK's NVMe-oF core, and the rest of \<^verbatim>\<open>qdma.c\<close> (submission, completion, mapping of user memory, resets) the
  block layer, the NVMe core and the work queues of Linux; neither is in the repository, and their
  structures carry most of the state.  Loading of software programs from files, the device discovery in
  sysfs, and the start-up of the server are library calls.  The host applications parse arguments, read files and measure
  times around the calls modelled here.  Verilog and Tcl are generated from the operators or describe the
  board; test benches, benchmarks, scripts and documents are not part of the program.  Concurrency is modelled where the
  source has it: the pollers and requests of one reactor interleave as steps; mutexes are flags, and taking one that is
  held is the fault \<open>Hang\<close>.
\<close>

end
